(* ===== verification/Prelude.thy ===== *)
theory Prelude
  imports Main "HOL-Library.List_Lexorder" "HOL-Library.Char_ord"
begin

text \<open>
  Shared vocabulary of the development.  A Go \<^verbatim>\<open>string\<close> is a sequence of bytes, here a
  \<^typ>\<open>string\<close> (a list of characters, each of which is one byte); the functions below are the ones of
  Go's \<^verbatim>\<open>strings\<close> and \<^verbatim>\<open>sort\<close> packages that the modelled code calls.  The order
  on strings is Go's: bytewise lexicographic, from \<^verbatim>\<open>List_Lexorder\<close> over \<^verbatim>\<open>Char_ord\<close>.
  Fallible code returns a sum: \<open>Inl\<close> carries the error, \<open>Inr\<close> the result.
\<close>

named_theorems go_string \<open>facts about the modelled functions of the Go strings package\<close>

type_synonym ('e, 'a) result = "'e + 'a"

text \<open>Instants and durations are integers in nanoseconds, the unit of \<^verbatim>\<open>time.Duration\<close>.\<close>

abbreviation second :: int where "second \<equiv> 1000000000"

section \<open>The strings package\<close>

definition HasPrefix :: "string \<Rightarrow> string \<Rightarrow> bool" where
  "HasPrefix s p = (take (length p) s = p)"

definition HasSuffix :: "string \<Rightarrow> string \<Rightarrow> bool" where
  "HasSuffix s p = (length p \<le> length s \<and> drop (length s - length p) s = p)"

definition TrimPrefix :: "string \<Rightarrow> string \<Rightarrow> string" where
  "TrimPrefix s p = (if HasPrefix s p then drop (length p) s else s)"

definition TrimSuffix :: "string \<Rightarrow> string \<Rightarrow> string" where
  "TrimSuffix s p = (if HasSuffix s p then take (length s - length p) s else s)"

text \<open>\<^verbatim>\<open>strings.Cut\<close> with a one-byte separator: the text before and after its first
  occurrence, \<^const>\<open>None\<close> when it does not occur.\<close>

fun Cut :: "string \<Rightarrow> char \<Rightarrow> (string \<times> string) option" where
  "Cut [] c = None"
| "Cut (x # xs) c =
     (if x = c then Some ([], xs)
      else case Cut xs c of None \<Rightarrow> None | Some (a, b) \<Rightarrow> Some (x # a, b))"

text \<open>\<^verbatim>\<open>strings.Split\<close> with a one-byte separator: never empty.\<close>

fun Split :: "string \<Rightarrow> char \<Rightarrow> string list" where
  "Split [] c = [[]]"
| "Split (x # xs) c =
     (if x = c then [] # Split xs c
      else case Split xs c of [] \<Rightarrow> [[x]] | w # ws \<Rightarrow> (x # w) # ws)"

fun Join :: "string list \<Rightarrow> string \<Rightarrow> string" where
  "Join [] sep = []"
| "Join [w] sep = w"
| "Join (w # ws) sep = w @ sep @ Join ws sep"

text \<open>\<^verbatim>\<open>strings.Contains\<close>: some suffix starts with the needle.\<close>

fun ContainsStr :: "string \<Rightarrow> string \<Rightarrow> bool" where
  "ContainsStr [] sub = (sub = [])"
| "ContainsStr (x # xs) sub = (HasPrefix (x # xs) sub \<or> ContainsStr xs sub)"

definition ContainsAny :: "string \<Rightarrow> string \<Rightarrow> bool" where
  "ContainsAny s chars = list_ex (\<lambda>c. c \<in> set chars) s"

text \<open>Case mapping and white space on ASCII bytes; bytes above 127 are left alone.\<close>

definition up_char :: "char \<Rightarrow> char" where
  "up_char c = (let n = of_char c :: nat in if 97 \<le> n \<and> n \<le> 122 then char_of (n - 32) else c)"

definition low_char :: "char \<Rightarrow> char" where
  "low_char c = (let n = of_char c :: nat in if 65 \<le> n \<and> n \<le> 90 then char_of (n + 32) else c)"

definition ToUpper :: "string \<Rightarrow> string" where
  "ToUpper s = map up_char s"

definition ToLower :: "string \<Rightarrow> string" where
  "ToLower s = map low_char s"

definition is_space :: "char \<Rightarrow> bool" where
  "is_space c = (let n = of_char c :: nat in n = 32 \<or> (9 \<le> n \<and> n \<le> 13))"

definition TrimSpace :: "string \<Rightarrow> string" where
  "TrimSpace s = rev (dropWhile is_space (rev (dropWhile is_space s)))"

text \<open>Character classes of the regular expressions the code compiles.\<close>

definition is_upper :: "char \<Rightarrow> bool" where
  "is_upper c = (let n = of_char c :: nat in 65 \<le> n \<and> n \<le> 90)"

definition is_lower :: "char \<Rightarrow> bool" where
  "is_lower c = (let n = of_char c :: nat in 97 \<le> n \<and> n \<le> 122)"

definition is_digit :: "char \<Rightarrow> bool" where
  "is_digit c = (let n = of_char c :: nat in 48 \<le> n \<and> n \<le> 57)"

abbreviation is_alpha :: "char \<Rightarrow> bool" where "is_alpha c \<equiv> is_upper c \<or> is_lower c"
abbreviation is_alnum :: "char \<Rightarrow> bool" where "is_alnum c \<equiv> is_alpha c \<or> is_digit c"

text \<open>\<^verbatim>\<open>strings.Index\<close>: the text before the first occurrence of a needle, and from it on.\<close>

fun IndexStr :: "string \<Rightarrow> string \<Rightarrow> nat option" where
  "IndexStr [] sub = (if sub = [] then Some 0 else None)"
| "IndexStr (x # xs) sub =
     (if HasPrefix (x # xs) sub then Some 0 else map_option Suc (IndexStr xs sub))"

text \<open>\<^verbatim>\<open>strings.LastIndex\<close> with a one-byte needle: the text before and after its last occurrence.\<close>

definition CutLast :: "string \<Rightarrow> char \<Rightarrow> (string \<times> string) option" where
  "CutLast s c = map_option (\<lambda>(a, b). (rev b, rev a)) (Cut (rev s) c)"

text \<open>\<^verbatim>\<open>%d\<close> of a non-negative number.\<close>

fun show_nat :: "nat \<Rightarrow> string" where
  "show_nat n = (if n < 10 then [char_of (n + 48)] else show_nat (n div 10) @ [char_of (n mod 10 + 48)])"

declare show_nat.simps [simp del]

text \<open>Decimal numbers: the value of a run of digits, and \<^verbatim>\<open>strconv.Atoi\<close> on 64 bits.\<close>

definition digits_value :: "string \<Rightarrow> int" where
  "digits_value ds = foldl (\<lambda>n c. 10 * n + (of_char c - 48)) 0 ds"

definition Atoi :: "string \<Rightarrow> int option" where
  "Atoi s =
     (let (neg, ds) = (case s of c # cs \<Rightarrow> if c = CHR ''-'' then (True, cs) else if c = CHR ''+'' then (False, cs) else (False, s)
                       | [] \<Rightarrow> (False, []));
          n = (if neg then - digits_value ds else digits_value ds)
      in if ds = [] \<or> \<not> list_all is_digit ds \<or> n < - (2 ^ 63) \<or> n \<ge> 2 ^ 63 then None else Some n)"

text \<open>The \<^verbatim>\<open>path\<close> package: \<^verbatim>\<open>Clean\<close>, on the segments between slashes.\<close>

fun clean_segs :: "bool \<Rightarrow> string list \<Rightarrow> string list \<Rightarrow> string list" where
  "clean_segs rooted acc [] = rev acc"
| "clean_segs rooted acc (s # ss) =
     (if s = [] \<or> s = ''.'' then clean_segs rooted acc ss
      else if s = ''..''
      then (case acc of
              [] \<Rightarrow> clean_segs rooted (if rooted then [] else [''..'']) ss
            | a # as \<Rightarrow> clean_segs rooted (if a = ''..'' then ''..'' # acc else as) ss)
      else clean_segs rooted (s # acc) ss)"

definition PathClean :: "string \<Rightarrow> string" where
  "PathClean p =
     (let rooted = HasPrefix p ''/'';
          cleaned = (if rooted then ''/'' else []) @ Join (clean_segs rooted [] (Split p CHR ''/'')) ''/''
      in if cleaned = [] then ''.'' else cleaned)"

subsection \<open>Facts\<close>

lemma HasPrefix_append [simp, go_string]: "HasPrefix (p @ s) p"
  by (simp add: HasPrefix_def)

lemma HasPrefix_iff [go_string]: "HasPrefix s p \<longleftrightarrow> (\<exists>t. s = p @ t)"
  by (metis HasPrefix_append HasPrefix_def append_take_drop_id)

lemma HasSuffix_iff [go_string]: "HasSuffix s p \<longleftrightarrow> (\<exists>t. s = t @ p)"
proof
  assume "HasSuffix s p"
  then show "\<exists>t. s = t @ p"
    unfolding HasSuffix_def by (metis append_take_drop_id)
qed (auto simp: HasSuffix_def)

lemma Cut_eq_None [simp, go_string]: "Cut s c = None \<longleftrightarrow> c \<notin> set s"
  by (induction s) (auto split: option.splits)

lemma Cut_none [go_string]: "c \<notin> set s \<Longrightarrow> Cut s c = None"
  by simp

lemma Cut_append [simp, go_string]: "c \<notin> set a \<Longrightarrow> Cut (a @ c # b) c = Some (a, b)"
  by (induction a) auto

lemma Cut_SomeD [go_string]: "Cut s c = Some (a, b) \<Longrightarrow> s = a @ c # b \<and> c \<notin> set a"
proof (induction s arbitrary: a)
  case (Cons x xs)
  show ?case
  proof (cases "x = c")
    case True
    with Cons.prems show ?thesis by simp
  next
    case False
    with Cons.prems obtain a' where "Cut xs c = Some (a', b)" "a = x # a'"
      by (auto split: option.splits)
    with Cons.IH [of a'] False show ?thesis by simp
  qed
qed simp

lemma Cut_eq_Some [go_string]: "Cut s c = Some (a, b) \<longleftrightarrow> s = a @ c # b \<and> c \<notin> set a"
  using Cut_SomeD [of s c a b] Cut_append [of c a b] by blast

lemma Split_not_Nil [simp, go_string]: "Split s c \<noteq> []"
  by (induction s) (auto split: list.splits)

lemma Split_no_sep [go_string]: "w \<in> set (Split s c) \<Longrightarrow> c \<notin> set w"
  by (induction s arbitrary: w) (auto split: list.splits if_splits)

lemma Split_chars [go_string]: "w \<in> set (Split s c) \<Longrightarrow> set w \<subseteq> set s"
proof (induction s arbitrary: w)
  case (Cons x xs)
  obtain v vs where vs: "Split xs c = v # vs"
    using Split_not_Nil [of xs c] by (cases "Split xs c") auto
  have IH: "set u \<subseteq> set xs" if "u = v \<or> u \<in> set vs" for u
    using that Cons.IH [of u] vs by auto
  from Cons.prems vs consider "w = []" | u where "u = v \<or> u \<in> set vs" "w = u \<or> w = x # u"
    by (auto split: if_splits)
  then show ?case
    by cases (use IH in fastforce)+
qed simp

lemma Join_Split [simp, go_string]: "Join (Split s c) [c] = s"
proof (induction s)
  case (Cons x xs)
  obtain v vs where vs: "Split xs c = v # vs"
    using Split_not_Nil [of xs c] by (cases "Split xs c") auto
  show ?case using Cons.IH vs by (cases vs) auto
qed simp

lemma Split_sep [simp, go_string]: "c \<notin> set a \<Longrightarrow> Split (a @ c # b) c = a # Split b c"
  by (induction a) auto

lemma Split_none [simp, go_string]: "c \<notin> set a \<Longrightarrow> Split a c = [a]"
  by (induction a) auto

lemma Split_Join [simp, go_string]:
  "ws \<noteq> [] \<Longrightarrow> \<forall>w \<in> set ws. c \<notin> set w \<Longrightarrow> Split (Join ws [c]) c = ws"
  by (induction ws "[c]" rule: Join.induct) simp_all

lemma Join_Cons: "ws \<noteq> [] \<Longrightarrow> Join (w # ws) sep = w @ sep @ Join ws sep"
  by (cases ws) simp_all

lemma Join_empty_iff: "\<forall>w \<in> set ws. w \<noteq> [] \<Longrightarrow> Join ws sep = [] \<longleftrightarrow> ws = []"
  by (induction ws sep rule: Join.induct) simp_all

lemma hd_Join: "ws \<noteq> [] \<Longrightarrow> hd ws \<noteq> [] \<Longrightarrow> hd (Join ws sep) = hd (hd ws) \<and> Join ws sep \<noteq> []"
  by (induction ws sep rule: Join.induct) simp_all

lemma Join_append: "us \<noteq> [] \<Longrightarrow> ws \<noteq> [] \<Longrightarrow> Join (us @ ws) sep = Join us sep @ sep @ Join ws sep"
  by (induction us sep rule: Join.induct) (simp_all add: Join_Cons)

lemma dropWhile_none: "(\<And>d. d \<in> set m \<Longrightarrow> \<not> P d) \<Longrightarrow> dropWhile P m = m"
  by (cases m) auto

lemma TrimSpace_id [go_string]: "(\<And>c. c \<in> set s \<Longrightarrow> \<not> is_space c) \<Longrightarrow> TrimSpace s = s"
  using dropWhile_none [of s is_space] dropWhile_none [of "rev s" is_space] by (simp add: TrimSpace_def)

text \<open>Decimal numbers are read back.\<close>

lemma show_nat_digits [go_string]: "c \<in> set (show_nat n) \<Longrightarrow> is_digit c"
proof (induction n rule: show_nat.induct)
  case (1 n)
  then show ?case
    by (subst (asm) (2) show_nat.simps) (auto simp: is_digit_def Let_def split: if_splits)
qed

lemma show_nat_nonempty [simp, go_string]: "show_nat n \<noteq> []"
  by (subst show_nat.simps) simp

lemma digit_of_char: "k < 10 \<Longrightarrow> (of_char (char_of (k + 48) :: char) :: int) = int k + 48" for k :: nat
  by (subst of_nat_of_char [symmetric]) simp

lemma digits_value_show [simp, go_string]: "digits_value (show_nat n) = int n"
proof (induction n rule: show_nat.induct)
  case (1 n)
  then show ?case
    by (subst show_nat.simps) (simp add: digits_value_def digit_of_char zdiv_int zmod_int)
qed

lemma digit_chars [go_string]:
  "is_digit c \<Longrightarrow> \<not> is_space c" "is_digit c \<Longrightarrow> c \<noteq> CHR ''-''" "is_digit c \<Longrightarrow> c \<noteq> CHR ''+''"
  "is_digit c \<Longrightarrow> c \<noteq> CHR ''/''" "is_digit c \<Longrightarrow> c \<noteq> CHR '',''" "is_digit c \<Longrightarrow> c \<noteq> CHR ''*''"
  by (auto simp: is_digit_def is_space_def Let_def)

lemma Atoi_show [simp, go_string]: "int n < 2 ^ 63 \<Longrightarrow> Atoi (show_nat n) = Some (int n)"
proof -
  assume n: "int n < 2 ^ 63"
  obtain c cs where s: "show_nat n = c # cs" by (cases "show_nat n") auto
  have "list_all is_digit (show_nat n)" by (auto simp: list_all_iff intro: show_nat_digits)
  moreover have "is_digit c" using show_nat_digits [of c n] by (simp add: s)
  ultimately show ?thesis
    using n digit_chars(2,3) [of c] digits_value_show [of n] by (auto simp: Atoi_def s)
qed

text \<open>Searches in lists of rows.\<close>

lemma find_append: "find P (xs @ ys) = (case find P xs of None \<Rightarrow> find P ys | Some x \<Rightarrow> Some x)"
  by (induction xs) auto

lemma find_map: "find P (map f xs) = map_option f (find (P \<circ> f) xs)"
  by (induction xs) auto

lemma CutLast_SomeD [go_string]: "CutLast s c = Some (a, b) \<Longrightarrow> s = a @ c # b \<and> c \<notin> set b"
  by (auto simp: CutLast_def dest!: Cut_SomeD) (metis append.assoc append_Cons append_Nil rev_append rev_rev_ident rev_singleton_conv rev.simps)

lemma IndexStr_SomeD [go_string]: "IndexStr s sub = Some i \<Longrightarrow> \<exists>t. s = take i s @ sub @ t"
proof (induction s arbitrary: i)
  case (Cons x xs)
  show ?case
  proof (cases "HasPrefix (x # xs) sub")
    case True
    with Cons.prems show ?thesis by (auto simp: HasPrefix_iff)
  next
    case False
    with Cons.prems obtain j where "IndexStr xs sub = Some j" "i = Suc j" by auto
    with Cons.IH [of j] show ?thesis by auto
  qed
qed (auto split: if_splits)

section \<open>Sorting and duplicates\<close>

text \<open>The idiom \<^verbatim>\<open>set := map[string]bool\<close>, collect the keys, \<^verbatim>\<open>sort.Strings\<close>: the result
  depends on the set of keys only.\<close>

definition sorted_keys :: "string list \<Rightarrow> string list" where
  "sorted_keys xs = sort (remdups xs)"

lemma set_sorted_keys [simp]: "set (sorted_keys xs) = set xs"
  by (simp add: sorted_keys_def)

lemma sorted_sorted_keys [simp]: "sorted (sorted_keys xs)"
  by (simp add: sorted_keys_def)

lemma distinct_sorted_keys [simp]: "distinct (sorted_keys xs)"
  by (simp add: sorted_keys_def)

lemma sorted_keys_cong: "set xs = set ys \<Longrightarrow> sorted_keys xs = sorted_keys ys"
  by (rule sorted_distinct_set_unique) simp_all

lemma sorted_keys_unique: "sorted ys \<Longrightarrow> distinct ys \<Longrightarrow> set ys = set xs \<Longrightarrow> sorted_keys xs = ys"
  by (rule sorted_distinct_set_unique) simp_all

end
