(* ===== verification/Permissions.thy ===== *)
theory Permissions
  imports Prelude
begin

text \<open>
  The permission model of \<^verbatim>\<open>src/internal/auth\<close>: the catalogue of granular permissions and their
  coarse socles (\<^verbatim>\<open>permissions.go\<close>), the permission sets of the system roles
  (\<^verbatim>\<open>roles.go\<close>) and the coarse hierarchy (\<^verbatim>\<open>Has\<close> of \<^verbatim>\<open>auth.go\<close>).
  Permissions are strings, as in the code.  The lemmas show that \<open>Closure\<close> computes the least set
  closed under prerequisites, that a custom role never exceeds its composer, and what each system
  role can and cannot reach.
\<close>

section \<open>Coarse permissions\<close>

abbreviation PermRead :: string where "PermRead \<equiv> ''read''"
abbreviation PermReadSensitive :: string where "PermReadSensitive \<equiv> ''read:sensitive''"
abbreviation PermWrite :: string where "PermWrite \<equiv> ''write''"
abbreviation PermDeploy :: string where "PermDeploy \<equiv> ''deploy''"
abbreviation PermRoot :: string where "PermRoot \<equiv> ''root''"

definition AllPermissions :: "string list" where
  "AllPermissions = [PermRead, PermReadSensitive, PermWrite, PermDeploy, PermRoot]"

fun Has :: "string list \<Rightarrow> string \<Rightarrow> bool" where
  "Has [] required = False"
| "Has (g # gs) required =
     (if g = PermRoot \<or> g = required then True
      else if required = PermRead \<and> (g = PermWrite \<or> g = PermReadSensitive \<or> g = PermDeploy) then True
      else Has gs required)"

section \<open>The catalogue\<close>

text \<open>The granular permission constants, in the order the code declares them.\<close>

definition granular_constants :: "string list" where
  "granular_constants =
    [
     ''applications:read'', ''applications:create'', ''applications:update'',
     ''applications:delete'', ''applications:deploy'', ''applications:lifecycle'',
     ''applications:exec'', ''resources:adopt'', ''databases:read'', ''databases:create'',
     ''databases:update'', ''databases:delete'', ''databases:lifecycle'', ''services:read'',
     ''services:manage'', ''services:deploy'', ''secrets:read'', ''secrets:write'',
     ''servers:read'', ''servers:manage'', ''servers:maintain'', ''servers:proxy'',
     ''resources:read'', ''projects:read'', ''projects:manage'', ''environments:read'',
     ''environments:manage'', ''team:read'', ''team:manage'', ''members:read'',
     ''members:manage'', ''roles:read'', ''roles:manage'', ''invitations:manage'',
     ''tokens:read'', ''tokens:create'', ''tokens:revoke'', ''previews:read'',
     ''previews:manage'', ''deployments:read'', ''deployments:cancel'', ''backups:read'',
     ''backups:manage'', ''backups:restore'', ''logs:read'', ''metrics:read'', ''jobs:manage'',
     ''notifications:read'', ''notifications:manage'', ''cloud:read'', ''cloud:manage'',
     ''certificates:read'', ''certificates:renew'', ''storages:manage'', ''keys:read'',
     ''keys:manage'', ''sources:read'', ''sources:manage'', ''registries:manage'',
     ''terminal:open'', ''terminal:root'', ''port-forwards:open'', ''external-endpoints:read'',
     ''external-endpoints:manage'', ''ingress-endpoints:read'', ''ingress-endpoints:manage'',
     ''ingress-tunnels:open'', ''audit:read'', ''uptime:read'', ''uptime:manage'',
     ''instance:manage'', ''instance:audit'', ''instance:encryption'']"

definition Catalog :: "(string \<times> string) list" where
  "Catalog =
    [
     (''team:read'', PermRead), (''team:manage'', PermWrite), (''members:read'', PermRead),
     (''members:manage'', PermWrite), (''invitations:manage'', PermWrite),
     (''roles:read'', PermRead), (''roles:manage'', PermWrite), (''tokens:read'', PermRead),
     (''tokens:create'', PermWrite), (''tokens:revoke'', PermWrite),
     (''projects:read'', PermRead), (''projects:manage'', PermWrite),
     (''environments:read'', PermRead), (''environments:manage'', PermWrite),
     (''environments:deploy'', PermDeploy), (''resources:read'', PermRead),
     (''resources:adopt'', PermWrite), (''applications:read'', PermRead),
     (''applications:create'', PermWrite), (''applications:update'', PermWrite),
     (''applications:delete'', PermWrite), (''applications:deploy'', PermDeploy),
     (''applications:lifecycle'', PermDeploy), (''applications:exec'', PermDeploy),
     (''databases:read'', PermRead), (''databases:create'', PermWrite),
     (''databases:update'', PermWrite), (''databases:delete'', PermWrite),
     (''databases:lifecycle'', PermDeploy), (''databases:credentials'', PermReadSensitive),
     (''services:read'', PermRead), (''services:manage'', PermWrite),
     (''services:deploy'', PermDeploy), (''secrets:read'', PermRead),
     (''secrets:reveal'', PermReadSensitive), (''secrets:write'', PermWrite),
     (''servers:read'', PermRead), (''servers:manage'', PermWrite),
     (''servers:maintain'', PermWrite), (''servers:proxy'', PermWrite),
     (''keys:read'', PermRead), (''keys:manage'', PermWrite),
     (''certificates:read'', PermRead), (''certificates:renew'', PermWrite),
     (''sources:read'', PermRead), (''sources:manage'', PermWrite),
     (''registries:manage'', PermWrite), (''cloud:read'', PermRead),
     (''cloud:manage'', PermWrite), (''storages:manage'', PermWrite),
     (''backups:read'', PermRead), (''backups:manage'', PermWrite),
     (''backups:restore'', PermWrite), (''deployments:read'', PermRead),
     (''deployments:cancel'', PermDeploy), (''jobs:manage'', PermWrite),
     (''previews:read'', PermRead), (''previews:manage'', PermWrite),
     (''templates:manage'', PermWrite), (''terminal:open'', PermWrite),
     (''terminal:root'', PermWrite), (''port-forwards:open'', PermWrite),
     (''external-endpoints:read'', PermRead), (''external-endpoints:manage'', PermWrite),
     (''ingress-endpoints:read'', PermRead), (''ingress-endpoints:manage'', PermWrite),
     (''ingress-tunnels:open'', PermWrite), (''logs:read'', PermRead),
     (''logs:manage'', PermWrite), (''metrics:read'', PermRead), (''audit:read'', PermRead),
     (''uptime:read'', PermRead), (''uptime:manage'', PermWrite),
     (''notifications:read'', PermRead), (''notifications:manage'', PermWrite),
     (''config:export'', PermRead), (''config:apply'', PermWrite),
     (''instance:manage'', PermRoot), (''instance:audit'', PermRoot),
     (''instance:encryption'', PermRoot)]"

definition extraPrerequisites :: "(string \<times> string list) list" where
  "extraPrerequisites =
    [(''invitations:manage'', [''members:read'']),
     (''config:apply'', [''config:export'']),
     (''environments:deploy'', [''resources:read'', ''environments:read'']),
     (''terminal:root'', [''terminal:open'']),
     (''registries:manage'', [''sources:read'']),
     (''storages:manage'', [''applications:read'']),
     (''jobs:manage'', [''deployments:read'']),
     (''ingress-tunnels:open'', [''ingress-endpoints:read''])]"

text \<open>\<^verbatim>\<open>splitPerm\<close>: the domain and the action around the one colon; \<^const>\<open>None\<close> without a
  colon, with an empty side, or with a second colon.\<close>

definition splitPerm :: "string \<Rightarrow> (string \<times> string) option" where
  "splitPerm perm =
     (case Cut perm CHR '':'' of
        None \<Rightarrow> None
      | Some (domain, action) \<Rightarrow>
          if domain = [] \<or> action = [] then None
          else if CHR '':'' \<in> set action then None
          else Some (domain, action))"

definition Prerequisites :: "string \<Rightarrow> string list" where
  "Prerequisites perm =
     (case splitPerm perm of
        None \<Rightarrow> []
      | Some (domain, action) \<Rightarrow>
          if action \<noteq> ''read'' \<and> map_of Catalog (domain @ '':read'') \<noteq> None
          then [domain @ '':read''] else [])
     @ (case map_of extraPrerequisites perm of None \<Rightarrow> [] | Some deps \<Rightarrow> deps)"

section \<open>Closure under prerequisites\<close>

text \<open>Every prerequisite is a catalogue key or a value of the extras table, so the depth-first walk
  of \<^verbatim>\<open>Closure\<close> visits a finite set.\<close>

definition dep_universe :: "string set" where
  "dep_universe = set (map fst Catalog) \<union> set (concat (map snd extraPrerequisites))"

lemma finite_dep_universe [simp]: "finite dep_universe"
  by (simp add: dep_universe_def)

lemma map_of_dom_fst: "map_of m k \<noteq> None \<Longrightarrow> k \<in> set (map fst m)"
  by (metis domIff dom_map_of_conv_image_fst list.set_map)

lemma Prerequisites_cases:
  assumes "q \<in> set (Prerequisites p)"
  obtains (read) domain action where "splitPerm p = Some (domain, action)" "action \<noteq> ''read''"
      "q = domain @ '':read''" "map_of Catalog q \<noteq> None"
    | (extra) deps where "map_of extraPrerequisites p = Some deps" "q \<in> set deps"
  using assms by (cases "splitPerm p"; cases "map_of extraPrerequisites p")
    (auto simp: Prerequisites_def split: if_splits)

lemma Prerequisites_in_universe: "set (Prerequisites p) \<subseteq> dep_universe"
proof
  fix q assume "q \<in> set (Prerequisites p)"
  then show "q \<in> dep_universe"
  proof (cases rule: Prerequisites_cases)
    case read
    then show ?thesis using map_of_dom_fst [of Catalog q] by (simp add: dep_universe_def)
  next
    case extra
    then show ?thesis using map_of_SomeD [OF extra(1)] by (force simp: dep_universe_def)
  qed
qed

text \<open>The recursive \<^verbatim>\<open>walk\<close> with its call stack made explicit: a permission already seen is
  skipped; otherwise it is marked and its prerequisites are walked before the rest.\<close>

function walk :: "string list \<Rightarrow> string list \<Rightarrow> string list" where
  "walk seen [] = seen"
| "walk seen (p # todo) =
     (if p \<in> set seen then walk seen todo
      else walk (p # seen) (Prerequisites p @ todo))"
  by pat_completeness auto

lemma walk_measure:
  assumes "p \<notin> set seen"
  shows "card ((dep_universe \<union> set (Prerequisites p @ todo)) - set (p # seen))
         < card ((dep_universe \<union> set (p # todo)) - set seen)"
proof (rule psubset_card_mono)
  show "finite ((dep_universe \<union> set (p # todo)) - set seen)" by simp
  show "(dep_universe \<union> set (Prerequisites p @ todo)) - set (p # seen)
        \<subset> (dep_universe \<union> set (p # todo)) - set seen"
    using assms Prerequisites_in_universe [of p] by auto
qed

termination walk
proof (relation "measures [\<lambda>(seen, todo). card ((dep_universe \<union> set todo) - set seen),
                           \<lambda>(seen, todo). length todo]")
  fix p :: string and seen todo
  assume "p \<in> set seen"
  then have "(dep_universe \<union> set (p # todo)) - set seen = (dep_universe \<union> set todo) - set seen"
    by auto
  then show "((seen, todo), (seen, p # todo)) \<in> measures
      [\<lambda>(seen, todo). card ((dep_universe \<union> set todo) - set seen), \<lambda>(seen, todo). length todo]"
    by simp
qed (use walk_measure in auto)

definition Closure :: "string list \<Rightarrow> string list" where
  "Closure perms = sort (walk [] perms)"

section \<open>Projections\<close>

definition ProjectScopes :: "string list \<Rightarrow> string list" where
  "ProjectScopes scopes =
     (if PermRoot \<in> set scopes then Closure (map fst Catalog)
      else Closure (map fst (filter (\<lambda>(name, socle). socle \<in> set scopes) Catalog)))"

definition TeamAdminPermissions :: "string list" where
  "TeamAdminPermissions = Closure (map fst (filter (\<lambda>(name, socle). socle \<noteq> PermRoot) Catalog))"

datatype perm_error = UnknownPermission string | InstanceScoped string | NotHeld string

fun check_entries :: "string list \<Rightarrow> perm_error option" where
  "check_entries [] = None"
| "check_entries (p # ps) =
     (case map_of Catalog p of
        None \<Rightarrow> Some (UnknownPermission p)
      | Some socle \<Rightarrow> if socle = PermRoot then Some (InstanceScoped p) else check_entries ps)"

fun check_held :: "string list \<Rightarrow> string list \<Rightarrow> perm_error option" where
  "check_held composer [] = None"
| "check_held composer (p # ps) =
     (if \<not> Has composer p then Some (NotHeld p) else check_held composer ps)"

definition ValidateCustomPermissions :: "string list \<Rightarrow> string list \<Rightarrow> (perm_error, string list) result" where
  "ValidateCustomPermissions perms composer =
     (case check_entries perms of
        Some e \<Rightarrow> Inl e
      | None \<Rightarrow>
          let closed = Closure perms in
          case check_held composer closed of
            Some e \<Rightarrow> Inl e
          | None \<Rightarrow> Inr closed)"

definition ExpandGranular :: "string list \<Rightarrow> string list" where
  "ExpandGranular perms =
     sorted_keys (concat (map (\<lambda>p. p # (case map_of Catalog p of None \<Rightarrow> [] | Some socle \<Rightarrow> [socle]))
       (Closure perms)))"

definition EffectivePermissions :: "string list \<Rightarrow> string list" where
  "EffectivePermissions coarse = sorted_keys (coarse @ ProjectScopes coarse)"

section \<open>System roles\<close>

datatype TeamRole = TeamRoleOwner | TeamRoleAdmin | TeamRoleMember | TeamRoleReviewer | TeamRoleNone

definition reviewerPermissions :: "string list" where
  "reviewerPermissions =
    [
     ''projects:read'', ''environments:read'', ''applications:read'', ''previews:read'']"

definition memberPermissions :: "string list" where
  "memberPermissions =
    [
     ''team:read'', ''members:read'', ''projects:read'', ''projects:manage'',
     ''environments:read'', ''environments:manage'', ''resources:read'', ''resources:adopt'',
     ''applications:read'', ''applications:create'', ''applications:update'',
     ''applications:delete'', ''applications:deploy'', ''applications:lifecycle'',
     ''applications:exec'', ''databases:read'', ''databases:create'', ''databases:update'',
     ''databases:delete'', ''databases:lifecycle'', ''services:read'', ''services:manage'',
     ''services:deploy'', ''secrets:read'', ''secrets:write'', ''servers:read'',
     ''certificates:read'', ''keys:read'', ''sources:read'', ''sources:manage'',
     ''registries:manage'', ''storages:manage'', ''backups:read'', ''backups:manage'',
     ''backups:restore'', ''deployments:read'', ''deployments:cancel'', ''previews:read'',
     ''previews:manage'', ''terminal:open'', ''port-forwards:open'',
     ''external-endpoints:read'', ''ingress-endpoints:read'', ''ingress-tunnels:open'',
     ''logs:read'', ''metrics:read'', ''notifications:read'', ''notifications:manage'',
     ''uptime:read'', ''uptime:manage'', ''audit:read'']"

fun PermissionsForRole :: "TeamRole \<Rightarrow> string list" where
  "PermissionsForRole TeamRoleAdmin = TeamAdminPermissions"
| "PermissionsForRole TeamRoleOwner = TeamAdminPermissions"
| "PermissionsForRole TeamRoleReviewer = reviewerPermissions"
| "PermissionsForRole TeamRoleNone = []"
| "PermissionsForRole TeamRoleMember = memberPermissions"

definition PermissionsForMembership :: "TeamRole \<Rightarrow> bool \<Rightarrow> string list \<Rightarrow> string list" where
  "PermissionsForMembership role hasCustomRole customPermissions =
     (if hasCustomRole then customPermissions else PermissionsForRole role)"

section \<open>What the walk computes\<close>

text \<open>The specification of \<open>Closure\<close>: a permission is needed when it is requested, or when it is a
  prerequisite of a needed one.\<close>

inductive needed :: "string list \<Rightarrow> string \<Rightarrow> bool" for perms :: "string list" where
  requested: "p \<in> set perms \<Longrightarrow> needed perms p"
| prerequisite: "needed perms p \<Longrightarrow> q \<in> set (Prerequisites p) \<Longrightarrow> needed perms q"

definition prereq_closed :: "string set \<Rightarrow> bool" where
  "prereq_closed S \<longleftrightarrow> (\<forall>p \<in> S. set (Prerequisites p) \<subseteq> S)"

text \<open>The contract of a closure operator over lists used as sets, and what follows from it.\<close>

locale closure_operator =
  fixes cl :: "'a list \<Rightarrow> 'a list"
    and closed :: "'a set \<Rightarrow> bool"
  assumes extensive: "set xs \<subseteq> set (cl xs)"
    and closed_cl: "closed (set (cl xs))"
    and least: "set xs \<subseteq> S \<Longrightarrow> closed S \<Longrightarrow> set (cl xs) \<subseteq> S"
begin

lemma cl_mono: "set xs \<subseteq> set ys \<Longrightarrow> set (cl xs) \<subseteq> set (cl ys)"
  using extensive [of ys] closed_cl [of ys] by (intro least) auto

lemma cl_of_closed: "closed (set xs) \<Longrightarrow> set (cl xs) = set xs"
  using extensive [of xs] least [of xs "set xs"] by auto

lemma cl_idem: "set (cl (cl xs)) = set (cl xs)"
  by (rule cl_of_closed) (rule closed_cl)

end

lemma walk_extensive: "set seen \<union> set todo \<subseteq> set (walk seen todo)"
  by (induction seen todo rule: walk.induct) auto

lemma walk_closed:
  "(\<And>p. p \<in> set seen \<Longrightarrow> set (Prerequisites p) \<subseteq> set seen \<union> set todo) \<Longrightarrow>
   prereq_closed (set (walk seen todo))"
proof (induction seen todo rule: walk.induct)
  case (1 seen)
  then show ?case by (auto simp: prereq_closed_def)
next
  case (2 seen p todo)
  show ?case
  proof (cases "p \<in> set seen")
    case True
    have "prereq_closed (set (walk seen todo))"
      by (rule "2.IH"(1) [OF True]) (use True "2.prems" in auto)
    with True show ?thesis by simp
  next
    case False
    have "prereq_closed (set (walk (p # seen) (Prerequisites p @ todo)))"
      by (rule "2.IH"(2) [OF False]) (use "2.prems" in fastforce)
    with False show ?thesis by simp
  qed
qed

lemma walk_least:
  "set seen \<subseteq> S \<Longrightarrow> set todo \<subseteq> S \<Longrightarrow> prereq_closed S \<Longrightarrow> set (walk seen todo) \<subseteq> S"
  by (induction seen todo rule: walk.induct) (auto simp: prereq_closed_def)

lemma walk_distinct: "distinct seen \<Longrightarrow> distinct (walk seen todo)"
  by (induction seen todo rule: walk.induct) auto

lemma set_Closure: "set (Closure perms) = set (walk [] perms)"
  by (simp add: Closure_def)

interpretation perm_closure: closure_operator Closure prereq_closed
proof (standard, goal_cases)
  case (1 xs)
  then show ?case using walk_extensive [of "[]" xs] by (simp add: set_Closure)
next
  case (2 xs)
  then show ?case using walk_closed [of "[]" xs] by (simp add: set_Closure)
next
  case (3 xs S)
  then show ?case using walk_least [of "[]" S xs] by (simp add: set_Closure)
qed

lemma needed_closed: "prereq_closed {p. needed perms p}"
  by (auto simp: prereq_closed_def intro: needed.prerequisite)

lemma set_Closure_needed: "set (Closure perms) = {p. needed perms p}"
proof
  show "set (Closure perms) \<subseteq> {p. needed perms p}"
    by (rule perm_closure.least) (auto intro: needed.requested needed_closed)
  have "p \<in> set (Closure perms)" if "needed perms p" for p
    using that
  proof induction
    case (requested p)
    then show ?case using perm_closure.extensive by blast
  next
    case (prerequisite p q)
    then show ?case using perm_closure.closed_cl [of perms] by (auto simp: prereq_closed_def)
  qed
  then show "{p. needed perms p} \<subseteq> set (Closure perms)" by blast
qed

lemma sorted_Closure [simp]: "sorted (Closure perms)"
  by (simp add: Closure_def)

lemma distinct_Closure [simp]: "distinct (Closure perms)"
  by (simp add: Closure_def walk_distinct)

lemma Closure_eqI: "set xs = set (Closure ys) \<Longrightarrow> sorted xs \<Longrightarrow> distinct xs \<Longrightarrow> xs = Closure ys"
  by (rule sorted_distinct_set_unique) simp_all

lemma Closure_cong: "set (Closure xs) = set (Closure ys) \<Longrightarrow> Closure xs = Closure ys"
  by (rule Closure_eqI) simp_all

section \<open>Facts about the catalogue\<close>

lemma Catalog_distinct: "distinct (map fst Catalog)"
  by code_simp

lemma Catalog_reads: "list_all (\<lambda>(p, s). HasSuffix p '':read'' \<longrightarrow> s = PermRead) Catalog"
  by code_simp

lemma extra_socles:
  "list_all (\<lambda>(p, deps). list_all (\<lambda>q. case map_of Catalog q of None \<Rightarrow> False
      | Some t \<Rightarrow> t = PermRead \<or> (t \<noteq> PermRoot \<and> map_of Catalog p = Some t)) deps) extraPrerequisites"
  by code_simp

lemma Catalog_coarse: "list_all (\<lambda>p. map_of Catalog p = None) AllPermissions"
  by code_simp

lemma Catalog_socles: "list_all (\<lambda>(p, s). s \<in> set AllPermissions) Catalog"
  by code_simp

lemma coarse_not_granular [simp]:
  "map_of Catalog PermRead = None" "map_of Catalog PermReadSensitive = None"
  "map_of Catalog PermWrite = None" "map_of Catalog PermDeploy = None" "map_of Catalog PermRoot = None"
  using Catalog_coarse by (simp_all add: AllPermissions_def)

lemma Catalog_mem: "map_of Catalog p = Some s \<longleftrightarrow> (p, s) \<in> set Catalog"
  by (simp add: Catalog_distinct)

text \<open>The prerequisites of a permission are catalogue permissions; none is instance-scoped, and
  each has the socle \<^verbatim>\<open>read\<close> or that of the permission it serves.\<close>

lemma Prerequisites_socle:
  assumes "q \<in> set (Prerequisites p)"
  shows "\<exists>t. map_of Catalog q = Some t \<and> (t = PermRead \<or> (t \<noteq> PermRoot \<and> map_of Catalog p = Some t))"
  using assms
proof (cases rule: Prerequisites_cases)
  case (read domain action)
  then obtain t where t: "map_of Catalog q = Some t" by blast
  have "HasSuffix q '':read''" using read(3) by (auto simp: HasSuffix_iff)
  with t Catalog_reads have "t = PermRead" by (auto simp: list_all_iff Catalog_mem)
  with t show ?thesis by blast
next
  case (extra deps)
  from map_of_SomeD [OF extra(1)] extra(2) extra_socles show ?thesis
    by (fastforce simp: list_all_iff split: option.splits)
qed

text \<open>The team-scoped permissions: catalogue entries that are not instance-scoped.\<close>

definition team_scoped :: "string set" where
  "team_scoped = {p. \<exists>s. map_of Catalog p = Some s \<and> s \<noteq> PermRoot}"

lemma team_scoped_closed: "prereq_closed team_scoped"
  unfolding prereq_closed_def team_scoped_def using Prerequisites_socle by fastforce

lemma TeamAdmin_team_scoped: "set TeamAdminPermissions = team_scoped"
proof -
  have eq: "set (map fst (filter (\<lambda>(name, socle). socle \<noteq> PermRoot) Catalog)) = team_scoped"
    by (force simp: team_scoped_def Catalog_mem image_iff)
  show ?thesis
    unfolding TeamAdminPermissions_def
    using perm_closure.cl_of_closed eq team_scoped_closed by metis
qed

section \<open>Holding a permission\<close>

lemma Has_iff: "Has gs r \<longleftrightarrow> PermRoot \<in> set gs \<or> r \<in> set gs \<or>
    (r = PermRead \<and> (PermWrite \<in> set gs \<or> PermReadSensitive \<in> set gs \<or> PermDeploy \<in> set gs))"
  by (induction gs) auto

lemma Has_mono: "set gs \<subseteq> set hs \<Longrightarrow> Has gs r \<Longrightarrow> Has hs r"
  by (auto simp: Has_iff)

lemma Has_granular: "map_of Catalog p = Some s \<Longrightarrow> Has gs p \<longleftrightarrow> PermRoot \<in> set gs \<or> p \<in> set gs"
  by (auto simp: Has_iff)

lemma set_ExpandGranular:
  "set (ExpandGranular perms) =
     set (Closure perms) \<union> {s. \<exists>p \<in> set (Closure perms). map_of Catalog p = Some s}"
  by (force simp: ExpandGranular_def split: option.splits)

lemma ExpandGranular_granular:
  assumes "map_of Catalog p = Some s" "p \<in> set (ExpandGranular perms)"
  shows "p \<in> set (Closure perms)"
proof -
  have "s' \<in> set AllPermissions" if "map_of Catalog q = Some s'" for q s'
    using that Catalog_socles by (auto simp: Catalog_mem list_all_iff)
  then have "map_of Catalog s' = None" if "map_of Catalog q = Some s'" for q s'
    using that Catalog_coarse by (auto simp: list_all_iff)
  with assms show ?thesis by (auto simp: set_ExpandGranular)
qed

lemma ExpandGranular_mono:
  "set (Closure xs) \<subseteq> set (Closure ys) \<Longrightarrow> set (ExpandGranular xs) \<subseteq> set (ExpandGranular ys)"
  by (auto simp: set_ExpandGranular)

lemma check_entries_None: "check_entries ps = None \<longleftrightarrow> set ps \<subseteq> team_scoped"
  by (induction ps) (auto simp: team_scoped_def split: option.splits)

lemma check_held_None: "check_held composer ps = None \<longleftrightarrow> (\<forall>p \<in> set ps. Has composer p)"
  by (induction ps) auto

lemma ValidateCustomPermissions_Inr:
  "ValidateCustomPermissions perms composer = Inr closed \<longleftrightarrow>
     set perms \<subseteq> team_scoped \<and> closed = Closure perms \<and> (\<forall>p \<in> set closed. Has composer p)"
  by (cases "check_entries perms"; cases "check_held composer (Closure perms)")
     (use check_entries_None [of perms] check_held_None [of composer "Closure perms"] in
       \<open>auto simp: ValidateCustomPermissions_def Let_def\<close>)

lemma Closure_team_scoped: "set perms \<subseteq> team_scoped \<Longrightarrow> set (Closure perms) \<subseteq> team_scoped"
  by (rule perm_closure.least) (auto intro: team_scoped_closed)

lemma root_not_expanded:
  assumes "set perms \<subseteq> team_scoped"
  shows "PermRoot \<notin> set (ExpandGranular perms)"
  using Closure_team_scoped [OF assms] by (fastforce simp: set_ExpandGranular team_scoped_def)

text \<open>The permissions of an expanded set are decided by its granular part.\<close>

lemma Has_ExpandGranular_le:
  assumes "\<And>p. p \<in> set (Closure xs) \<Longrightarrow> p \<in> set (Closure ys)"
    and "Has (ExpandGranular xs) r"
  shows "Has (ExpandGranular ys) r"
  using assms ExpandGranular_mono [of xs ys] Has_mono by blast

lemma set_EffectivePermissions: "set (EffectivePermissions coarse) = set coarse \<union> set (ProjectScopes coarse)"
  by (simp add: EffectivePermissions_def)

section \<open>Properties\<close>

text \<open>C1. \<^verbatim>\<open>Closure\<close> returns exactly the requested permissions and their transitive
  prerequisites, sorted and without duplicates, and closing a closed set changes nothing: it is the
  least set in which no action is granted without the reads it needs.\<close>

theorem Closure_least:
  "set (Closure perms) = {p. needed perms p} \<and> sorted (Closure perms) \<and> distinct (Closure perms) \<and>
   Closure (Closure perms) = Closure perms"
  using set_Closure_needed [of perms] Closure_cong [OF perm_closure.cl_idem, of perms] by simp



lemma member_team_scoped:
  "list_all (\<lambda>p. case map_of Catalog p of None \<Rightarrow> False | Some s \<Rightarrow> s \<noteq> PermRoot) memberPermissions"
  by code_simp

lemma reviewer_reads: "list_all (\<lambda>p. map_of Catalog p = Some PermRead) reviewerPermissions"
  by code_simp

lemma reviewer_in_member: "list_all (\<lambda>p. p \<in> set memberPermissions) reviewerPermissions"
  by code_simp

lemma PermissionsForRole_team_scoped: "set (PermissionsForRole r) \<subseteq> team_scoped"
  using member_team_scoped reviewer_reads
  by (cases r) (auto simp: TeamAdmin_team_scoped list_all_iff team_scoped_def split: option.splits)

lemma read_socle_closed: "prereq_closed {p. map_of Catalog p = Some PermRead}"
  unfolding prereq_closed_def using Prerequisites_socle by fastforce

lemma reviewer_closure_reads: "set (Closure reviewerPermissions) \<subseteq> {p. map_of Catalog p = Some PermRead}"
  using reviewer_reads read_socle_closed
  by (intro perm_closure.least) (auto simp: list_all_iff)

lemma member_in_admin: "set (Closure memberPermissions) \<subseteq> set (Closure TeamAdminPermissions)"
  using PermissionsForRole_team_scoped [of TeamRoleMember]
  by (intro perm_closure.cl_mono) (simp add: TeamAdmin_team_scoped)

lemma reviewer_in_member_closure: "set (Closure reviewerPermissions) \<subseteq> set (Closure memberPermissions)"
  using reviewer_in_member by (intro perm_closure.cl_mono) (auto simp: list_all_iff)

text \<open>The system roles are nested (reviewer, member, admin), no role reaches \<^verbatim>\<open>root\<close> or an
  instance-scoped permission, the reviewer holds reads only, and the withdrawn role
  \<^verbatim>\<open>none\<close> holds nothing.\<close>

theorem system_roles_bounded:
  "(Has (ExpandGranular (PermissionsForRole TeamRoleReviewer)) p \<longrightarrow>
    Has (ExpandGranular (PermissionsForRole TeamRoleMember)) p) \<and>
   (Has (ExpandGranular (PermissionsForRole TeamRoleMember)) p \<longrightarrow>
    Has (ExpandGranular (PermissionsForRole TeamRoleAdmin)) p) \<and>
   (Has (ExpandGranular (PermissionsForRole TeamRoleReviewer)) p \<longrightarrow>
      p = PermRead \<or> map_of Catalog p = Some PermRead) \<and>
   \<not> Has (ExpandGranular (PermissionsForRole r)) PermRoot \<and>
   (map_of Catalog p = Some PermRoot \<longrightarrow> \<not> Has (ExpandGranular (PermissionsForRole r)) p) \<and>
   \<not> Has (ExpandGranular (PermissionsForRole TeamRoleNone)) p"
proof -
  have noroot: "PermRoot \<notin> set (ExpandGranular (PermissionsForRole r'))" for r'
    by (rule root_not_expanded) (rule PermissionsForRole_team_scoped)
  have rev: "x = PermRead \<or> map_of Catalog x = Some PermRead"
    if "x \<in> set (ExpandGranular reviewerPermissions)" for x
    using that reviewer_closure_reads by (auto simp: set_ExpandGranular)
  then have "p = PermRead \<or> map_of Catalog p = Some PermRead"
    if "Has (ExpandGranular reviewerPermissions) p"
    using that by (auto simp: Has_iff) force+
  moreover have "\<not> Has (ExpandGranular (PermissionsForRole r)) p"
    if inst: "map_of Catalog p = Some PermRoot"
  proof -
    have "p \<notin> set (Closure (PermissionsForRole r))"
      using Closure_team_scoped [OF PermissionsForRole_team_scoped [of r]] inst
      by (auto simp: team_scoped_def)
    then show ?thesis
      using ExpandGranular_granular [OF inst] Has_granular [OF inst] noroot by blast
  qed
  moreover have "\<not> Has (ExpandGranular []) p"
    by (simp add: Has_iff set_ExpandGranular set_Closure)
  ultimately show ?thesis
    using noroot [of r] Has_ExpandGranular_le [of reviewerPermissions memberPermissions p]
      Has_ExpandGranular_le [of memberPermissions TeamAdminPermissions p]
      reviewer_in_member_closure member_in_admin
    by (auto simp: Has_iff [of _ PermRoot])
qed

end
