(* ===== verification/Netip.thy ===== *)
theory Netip
  imports Prelude "HOL-Library.Word"
begin

text \<open>
  The parts of Go's \<^verbatim>\<open>net\<close> and \<^verbatim>\<open>net/netip\<close> packages the modelled code relies on:
  addresses, prefixes, and the textual forms \<^verbatim>\<open>netip.ParseAddr\<close> and \<^verbatim>\<open>net.SplitHostPort\<close> accept.  An IPv4 address is a 32-bit word, an IPv6 address a
  128-bit word with its zone.
\<close>

unbundle bit_operations_syntax

datatype addr = Addr4 "32 word" | Addr6 "128 word" string

definition Unmap :: "addr \<Rightarrow> addr" where
  "Unmap a = (case a of
       Addr4 w \<Rightarrow> Addr4 w
     | Addr6 w z \<Rightarrow> if drop_bit 32 w = 0xFFFF then Addr4 (ucast w) else Addr6 w z)"

text \<open>A prefix is an address and a number of bits.  An address is in it when both are of the same
  family, carry no zone, and agree on the leading bits.\<close>

type_synonym netprefix = "addr \<times> nat"

definition same_bits4 :: "32 word \<Rightarrow> nat \<Rightarrow> 32 word \<Rightarrow> bool" where
  "same_bits4 p bits a = (drop_bit (32 - bits) (a XOR p) = 0)"

definition same_bits6 :: "128 word \<Rightarrow> nat \<Rightarrow> 128 word \<Rightarrow> bool" where
  "same_bits6 p bits a = (drop_bit (128 - bits) (a XOR p) = 0)"

fun PrefixContains :: "netprefix \<Rightarrow> addr \<Rightarrow> bool" where
  "PrefixContains (Addr4 p, bits) (Addr4 a) = same_bits4 p bits a"
| "PrefixContains (Addr6 p _, bits) (Addr6 a z) = (z = [] \<and> same_bits6 p bits a)"
| "PrefixContains _ _ = False"

lemma xor_eq_0: "(x XOR y :: 'a::len word) = 0 \<longleftrightarrow> x = y"
  by (auto simp: bit_eq_iff bit_xor_iff)

lemma drop_bit_xor_0: "drop_bit n (a XOR p :: 'a::len word) = 0 \<longleftrightarrow> drop_bit n a = drop_bit n p"
  by (simp only: drop_bit_xor xor_eq_0)

lemma drop_bit_eq_unat:
  "drop_bit n (a :: 'a::len word) = drop_bit n p \<longleftrightarrow> unat a div 2 ^ n = unat p div 2 ^ n"
  by (simp only: word_unat_eq_iff unat_drop_bit_eq) (simp only: drop_bit_eq_div)

lemma same_bits4_iff: "same_bits4 p bits a \<longleftrightarrow> unat a div 2 ^ (32 - bits) = unat p div 2 ^ (32 - bits)"
  by (simp only: same_bits4_def drop_bit_xor_0 drop_bit_eq_unat)

lemma same_bits6_iff: "same_bits6 p bits a \<longleftrightarrow> unat a div 2 ^ (128 - bits) = unat p div 2 ^ (128 - bits)"
  by (simp only: same_bits6_def drop_bit_xor_0 drop_bit_eq_unat)

section \<open>Parsing addresses\<close>

definition digit_val :: "char \<Rightarrow> nat option" where
  "digit_val c = (let n = of_char c :: nat in if 48 \<le> n \<and> n \<le> 57 then Some (n - 48) else None)"

definition hex_val :: "char \<Rightarrow> nat option" where
  "hex_val c = (let n = of_char c :: nat in
     if 48 \<le> n \<and> n \<le> 57 then Some (n - 48)
     else if 97 \<le> n \<and> n \<le> 102 then Some (n - 87)
     else if 65 \<le> n \<and> n \<le> 70 then Some (n - 55) else None)"

text \<open>The four decimal fields: no empty field, no leading zero, no value above 255.\<close>

fun ipv4_fields :: "string \<Rightarrow> nat \<Rightarrow> nat \<Rightarrow> nat list \<Rightarrow> nat list option" where
  "ipv4_fields [] val digLen acc =
     (if digLen = 0 \<or> length acc \<noteq> 3 then None else Some (acc @ [val]))"
| "ipv4_fields (c # cs) val digLen acc =
     (case digit_val c of
        Some d \<Rightarrow>
          if digLen = 1 \<and> val = 0 then None
          else if val * 10 + d > 255 then None
          else ipv4_fields cs (val * 10 + d) (digLen + 1) acc
      | None \<Rightarrow>
          if c \<noteq> CHR ''.'' then None
          else if digLen = 0 \<or> length acc = 3 then None
          else ipv4_fields cs 0 0 (acc @ [val]))"

definition hex_number :: "string \<Rightarrow> nat" where
  "hex_number s = foldl (\<lambda>n c. n * 16 + (case hex_val c of Some d \<Rightarrow> d | None \<Rightarrow> 0)) 0 s"

definition ipv6_finish :: "string \<Rightarrow> nat list \<Rightarrow> nat option \<Rightarrow> nat list option" where
  "ipv6_finish rest groups ellipsis =
     (if rest \<noteq> [] then None
      else if length groups < 8 then
        (case ellipsis of
           None \<Rightarrow> None
         | Some e \<Rightarrow> Some (take e groups @ replicate (8 - length groups) 0 @ drop e groups))
      else if ellipsis \<noteq> None then None else Some groups)"

function ipv6_groups :: "string \<Rightarrow> nat list \<Rightarrow> nat option \<Rightarrow> nat list option" where
  "ipv6_groups s groups ellipsis =
     (if length groups \<ge> 8 then ipv6_finish s groups ellipsis
      else
        let hex = takeWhile (\<lambda>c. hex_val c \<noteq> None) s; rest = drop (length hex) s in
        if hex = [] \<or> length hex > 4 then None
        else if rest \<noteq> [] \<and> hd rest = CHR ''.'' then
          (if (ellipsis = None \<and> length groups \<noteq> 6) \<or> length groups > 6 then None
           else case ipv4_fields s 0 0 [] of
              Some [a, b, c, d] \<Rightarrow> ipv6_finish [] (groups @ [a * 256 + b, c * 256 + d]) ellipsis
            | _ \<Rightarrow> None)
        else
          let groups' = groups @ [hex_number hex] in
          if rest = [] then ipv6_finish [] groups' ellipsis
          else if hd rest \<noteq> CHR '':'' \<or> length rest = 1 then None
          else
            let s' = tl rest in
            if hd s' = CHR '':'' then
              (if ellipsis \<noteq> None then None
               else if tl s' = [] then ipv6_finish [] groups' (Some (length groups'))
               else ipv6_groups (tl s') groups' (Some (length groups')))
            else ipv6_groups s' groups' ellipsis)"
  by pat_completeness auto
termination
  by (relation "measure (\<lambda>(s, groups, ellipsis). length s)")
     (auto simp: Let_def neq_Nil_conv dest: arg_cong [where f = length])

declare ipv6_groups.simps [simp del]

definition word_of_groups :: "nat list \<Rightarrow> 128 word" where
  "word_of_groups gs = foldl (\<lambda>w g. w * 65536 + of_nat g) 0 gs"

definition parseIPv6 :: "string \<Rightarrow> addr option" where
  "parseIPv6 s =
     (let body = (case Cut s CHR ''%'' of None \<Rightarrow> s | Some (b, _) \<Rightarrow> b);
          zone = (case Cut s CHR ''%'' of None \<Rightarrow> [] | Some (_, z) \<Rightarrow> z) in
      if (CHR ''%'' \<in> set s \<and> zone = []) then None
      else if HasPrefix body ''::'' then
        (if length body = 2 then Some (Addr6 0 zone)
         else map_option (\<lambda>gs. Addr6 (word_of_groups gs) zone) (ipv6_groups (drop 2 body) [] (Some 0)))
      else map_option (\<lambda>gs. Addr6 (word_of_groups gs) zone) (ipv6_groups body [] None))"

definition parseIPv4 :: "string \<Rightarrow> addr option" where
  "parseIPv4 s = map_option (\<lambda>fs. Addr4 (foldl (\<lambda>w f. w * 256 + of_nat f) 0 fs)) (ipv4_fields s 0 0 [])"

definition ParseAddr :: "string \<Rightarrow> addr option" where
  "ParseAddr s =
     (case find (\<lambda>c. c = CHR ''.'' \<or> c = CHR '':'' \<or> c = CHR ''%'') s of
        None \<Rightarrow> None
      | Some c \<Rightarrow>
          if c = CHR ''.'' then parseIPv4 s
          else if c = CHR '':'' then parseIPv6 s
          else None)"

section \<open>Host and port\<close>

text \<open>\<^verbatim>\<open>net.SplitHostPort\<close>, of which the code uses the host only; \<^const>\<open>None\<close> is its error.\<close>

definition SplitHostPort :: "string \<Rightarrow> string option" where
  "SplitHostPort hp =
     (case Cut (rev hp) CHR '':'' of
        None \<Rightarrow> None
      | Some (_, rhost) \<Rightarrow>
          (let host = rev rhost in
           if HasPrefix hp ''['' then
             (case Cut (tl hp) CHR '']'' of
                None \<Rightarrow> None
              | Some (inner, after) \<Rightarrow>
                  if host \<noteq> CHR ''['' # inner @ '']'' then None
                  else if CHR ''['' \<in> set (tl hp) \<or> CHR '']'' \<in> set after then None
                  else Some inner)
           else if CHR '':'' \<in> set host then None
           else if CHR ''['' \<in> set hp \<or> CHR '']'' \<in> set hp then None
           else Some host))"

end
