(* ===== verification/SafeDial.thy ===== *)
theory SafeDial
  imports Netip
begin

text \<open>
  The guard of \<^verbatim>\<open>src/internal/safedial\<close> against server-side request forgery: the
  classification of an address at connect time (\<^verbatim>\<open>Blocked\<close>), the dialer hook
  (\<^verbatim>\<open>control\<close>) and the redirect policy (\<^verbatim>\<open>safeRedirect\<close>).  Addresses keep their
  width: 32-bit and 128-bit words.  The lemmas give the exact IPv4 ranges that are refused and show
  that the IPv4-mapped, NAT64 and 6to4 forms of a refused IPv4 address are refused too.
\<close>

text \<open>A non-nil \<^verbatim>\<open>net.IP\<close> of 4 or 16 bytes.\<close>

datatype ip = IPv4 "32 word" | IPv6 "128 word"

definition To4 :: "ip \<Rightarrow> 32 word option" where
  "To4 i = (case i of
       IPv4 w \<Rightarrow> Some w
     | IPv6 w \<Rightarrow> if drop_bit 32 w = 0xFFFF then Some (ucast w) else None)"

text \<open>\<^verbatim>\<open>net.IP.IsGlobalUnicast\<close> and \<^verbatim>\<open>net.IP.IsPrivate\<close> of the standard library.\<close>

fun IsGlobalUnicast :: "ip \<Rightarrow> bool" where
  "IsGlobalUnicast (IPv4 w) =
     (\<not> (w = 0xFFFFFFFF \<or> w = 0 \<or> drop_bit 24 w = 127 \<or> drop_bit 28 w = 0xE \<or> drop_bit 16 w = 0xA9FE))"
| "IsGlobalUnicast (IPv6 w) =
     (\<not> (w = 0 \<or> w = 1 \<or> drop_bit 120 w = 0xFF \<or> drop_bit 118 w = 0x3FA))"

fun IsPrivate :: "ip \<Rightarrow> bool" where
  "IsPrivate (IPv4 w) = (drop_bit 24 w = 10 \<or> drop_bit 20 w = 0xAC1 \<or> drop_bit 16 w = 0xC0A8)"
| "IsPrivate (IPv6 w) = (drop_bit 121 w = 0x7E)"

text \<open>The networks of the CIDR literals: dotted quads, and leading 16-bit groups.\<close>

datatype ipnet = Net4 "32 word" nat | Net6 "128 word" nat

definition quad :: "nat \<Rightarrow> nat \<Rightarrow> nat \<Rightarrow> nat \<Rightarrow> 32 word" where
  "quad a b c d = of_nat (((a * 256 + b) * 256 + c) * 256 + d)"

definition groups6 :: "nat list \<Rightarrow> 128 word" where
  "groups6 gs = of_nat (foldl (\<lambda>n g. n * 65536 + g) 0 gs * 65536 ^ (8 - length gs))"

fun NetContains :: "ipnet \<Rightarrow> ip \<Rightarrow> bool" where
  "NetContains (Net4 p bits) i = (case To4 i of Some w \<Rightarrow> same_bits4 p bits w | None \<Rightarrow> False)"
| "NetContains (Net6 p bits) i =
     (case To4 i of Some _ \<Rightarrow> False
      | None \<Rightarrow> (case i of IPv6 w \<Rightarrow> same_bits6 p bits w | IPv4 _ \<Rightarrow> False))"

definition extraBlocked :: "ipnet list" where
  "extraBlocked =
    [Net4 (quad 0 0 0 0) 8,
     Net4 (quad 100 64 0 0) 10,
     Net4 (quad 192 0 0 0) 24,
     Net4 (quad 192 0 2 0) 24,
     Net4 (quad 192 88 99 0) 24,
     Net4 (quad 198 18 0 0) 15,
     Net4 (quad 198 51 100 0) 24,
     Net4 (quad 203 0 113 0) 24,
     Net4 (quad 240 0 0 0) 4,
     Net6 (groups6 []) 96,
     Net6 (groups6 [0x64, 0xFF9B, 1]) 48,
     Net6 (groups6 [0x100]) 64,
     Net6 (groups6 [0x2001]) 23,
     Net6 (groups6 [0x2001, 0xDB8]) 32,
     Net6 (groups6 [0x3FFF]) 20,
     Net6 (groups6 [0x5F00]) 16,
     Net6 (groups6 [0xFEC0]) 10]"

definition nat64WellKnown :: ipnet where
  "nat64WellKnown = Net6 (groups6 [0x64, 0xFF9B]) 96"

definition sixToFour :: ipnet where
  "sixToFour = Net6 (groups6 [0x2002]) 16"

text \<open>The checks at the end of \<^verbatim>\<open>Blocked\<close>, on the address they are reached with.\<close>

definition blocked_class :: "ip \<Rightarrow> bool" where
  "blocked_class i =
     (if \<not> IsGlobalUnicast i \<or> IsPrivate i then True
      else list_ex (\<lambda>n. NetContains n i) extraBlocked)"

text \<open>\<^verbatim>\<open>Blocked\<close>: its recursive calls are on an embedded IPv4 address, where the first test
  already selects the IPv4 form.\<close>

definition Blocked :: "ip option \<Rightarrow> bool" where
  "Blocked oi =
     (case oi of
        None \<Rightarrow> True
      | Some i \<Rightarrow>
          (case To4 i of
             Some v4 \<Rightarrow> blocked_class (IPv4 v4)
           | None \<Rightarrow>
               (case i of
                  IPv4 w \<Rightarrow> blocked_class (IPv4 w)
                | IPv6 w \<Rightarrow>
                    if NetContains nat64WellKnown i then
                      (if blocked_class (IPv4 (ucast w)) then True else blocked_class i)
                    else if NetContains sixToFour i then
                      (if blocked_class (IPv4 (ucast (drop_bit 80 w))) then True else blocked_class i)
                    else blocked_class i)))"

definition parsedHost :: "string \<Rightarrow> ip option" where
  "parsedHost host =
     (let h = (case Cut (rev host) CHR ''%'' of None \<Rightarrow> host | Some (_, r) \<Rightarrow> rev r) in
      case ParseAddr h of
        None \<Rightarrow> None
      | Some (Addr4 w) \<Rightarrow> Some (IPv4 w)
      | Some (Addr6 w z) \<Rightarrow> if z \<noteq> [] then None else Some (IPv6 w))"

definition parsedAddress :: "string \<Rightarrow> ip option" where
  "parsedAddress address =
     (case SplitHostPort address of None \<Rightarrow> parsedHost address | Some host \<Rightarrow> parsedHost host)"

datatype dial_error = ErrBlockedAddress | ErrTooManyRedirects

definition control :: "string \<Rightarrow> dial_error option" where
  "control address =
     (let i = parsedAddress address in
      if i = None \<or> Blocked i then Some ErrBlockedAddress else None)"

definition safeRedirect :: "string \<Rightarrow> string \<Rightarrow> nat \<Rightarrow> dial_error option" where
  "safeRedirect scheme hostname via =
     (if via \<ge> 10 then Some ErrTooManyRedirects
      else if scheme \<noteq> ''http'' \<and> scheme \<noteq> ''https'' then Some ErrBlockedAddress
      else let i = parsedHost hostname in
        if i \<noteq> None \<and> Blocked i then Some ErrBlockedAddress else None)"

section \<open>Ranges\<close>

lemma unat_quad: "a < 256 \<Longrightarrow> b < 256 \<Longrightarrow> c < 256 \<Longrightarrow> d < 256 \<Longrightarrow>
    unat (quad a b c d) = ((a * 256 + b) * 256 + c) * 256 + d"
  unfolding quad_def by (simp only: unat_of_nat) simp

lemma unat_drop_bit4: "unat (drop_bit n (w :: 32 word)) = unat w div 2 ^ n"
  by (simp only: unat_drop_bit_eq) (simp only: drop_bit_eq_div)

lemma unat_drop_bit6: "unat (drop_bit n (w :: 128 word)) = unat w div 2 ^ n"
  by (simp only: unat_drop_bit_eq) (simp only: drop_bit_eq_div)

text \<open>The IPv4 ranges a user-driven request must not reach, as closed intervals.\<close>

definition refused4 :: "(nat \<times> nat) list" where
  "refused4 =
    [(unat (quad 0 0 0 0), unat (quad 0 255 255 255)),
     (unat (quad 10 0 0 0), unat (quad 10 255 255 255)),
     (unat (quad 100 64 0 0), unat (quad 100 127 255 255)),
     (unat (quad 127 0 0 0), unat (quad 127 255 255 255)),
     (unat (quad 169 254 0 0), unat (quad 169 254 255 255)),
     (unat (quad 172 16 0 0), unat (quad 172 31 255 255)),
     (unat (quad 192 0 0 0), unat (quad 192 0 0 255)),
     (unat (quad 192 0 2 0), unat (quad 192 0 2 255)),
     (unat (quad 192 88 99 0), unat (quad 192 88 99 255)),
     (unat (quad 192 168 0 0), unat (quad 192 168 255 255)),
     (unat (quad 198 18 0 0), unat (quad 198 19 255 255)),
     (unat (quad 198 51 100 0), unat (quad 198 51 100 255)),
     (unat (quad 203 0 113 0), unat (quad 203 0 113 255)),
     (unat (quad 224 0 0 0), unat (quad 255 255 255 255))]"

lemma div_eq_interval: "0 < d \<Longrightarrow> (n :: nat) div d = q \<longleftrightarrow> q * d \<le> n \<and> n \<le> q * d + (d - 1)"
  using dividend_less_div_times [of d n] div_times_less_eq_dividend [of n d]
  by (auto intro!: div_nat_eqI simp: algebra_simps)

lemma blocked_class4_iff:
  "blocked_class (IPv4 w) \<longleftrightarrow> (\<exists>(lo, hi) \<in> set refused4. lo \<le> unat w \<and> unat w \<le> hi)"
proof -
  obtain n where n: "unat w = n" by simp
  then have w: "n \<le> 4294967295" using unsigned_less [where 'a = nat, of w] by simp
  show ?thesis
    using w
    apply (simp add: blocked_class_def extraBlocked_def refused4_def To4_def same_bits4_iff
        unat_drop_bit4 div_eq_interval unat_quad word_unat_eq_iff n)
    by presburger
qed

definition in_refused4 :: "nat \<Rightarrow> bool" where
  "in_refused4 n = list_ex (\<lambda>(lo, hi). lo \<le> n \<and> n \<le> hi) refused4"

text \<open>The IPv6 networks refused outright, each as its leading bits and their number: unspecified,
  loopback and IPv4-compatible, local NAT64, discard, IETF protocol assignments, the two documentation
  ranges, segment routing, site-local, link-local, unique local, multicast.\<close>

definition refused6 :: "(nat \<times> nat) list" where
  "refused6 =
    [(0, 96), (0x64FF9B0001, 48), (0x0100000000000000, 64), (0x100080, 23), (0x20010DB8, 32),
     (0x3FFF0, 20), (0x5F00, 16), (0x3FB, 10), (0x3FA, 10), (0x7E, 7), (0xFF, 8)]"

definition in_refused6 :: "nat \<Rightarrow> bool" where
  "in_refused6 n = list_ex (\<lambda>(q, bits). n div 2 ^ (128 - bits) = q) refused6"

text \<open>The reference: which addresses must be refused, on natural numbers.\<close>

fun must_refuse :: "ip \<Rightarrow> bool" where
  "must_refuse (IPv4 w) = in_refused4 (unat w)"
| "must_refuse (IPv6 v) =
     (let n = unat v in
      if n div 2 ^ 32 = 0xFFFF then in_refused4 (n mod 2 ^ 32)
      else (n div 2 ^ 32 = 0x64FF9B0000000000000000 \<and> in_refused4 (n mod 2 ^ 32)) \<or>
           (n div 2 ^ 112 = 0x2002 \<and> in_refused4 ((n div 2 ^ 80) mod 2 ^ 32)) \<or>
           in_refused6 n)"

lemma blocked_class4: "blocked_class (IPv4 w) = in_refused4 (unat w)"
  by (simp add: blocked_class4_iff in_refused4_def list_ex_iff)

lemma unat_ucast32: "unat (ucast (v :: 128 word) :: 32 word) = unat v mod 2 ^ 32"
  by (simp add: unsigned_ucast_eq take_bit_eq_mod)

lemma mapped_iff: "drop_bit 32 (v :: 128 word) = 0xFFFF \<longleftrightarrow> unat v div 2 ^ 32 = 0xFFFF"
  by (simp only: word_unat_eq_iff unat_drop_bit6) simp

lemma To4_IPv6: "To4 (IPv6 v) = (if unat v div 2 ^ 32 = 0xFFFF then Some (ucast v) else None)"
  by (simp only: To4_def mapped_iff ip.case)

lemma unat_groups6:
  "unat (groups6 gs) = foldl (\<lambda>n g. n * 65536 + g) 0 gs * 65536 ^ (8 - length gs) mod 2 ^ 128"
  by (simp only: groups6_def unat_of_nat len_num1 len_bit0) simp

lemma blocked_class6:
  assumes "unat v div 2 ^ 32 \<noteq> 0xFFFF"
  shows "blocked_class (IPv6 v) = in_refused6 (unat v)"
  using assms
  by (auto simp: blocked_class_def extraBlocked_def in_refused6_def refused6_def To4_IPv6
      same_bits6_iff unat_drop_bit6 word_unat_eq_iff unat_groups6)

lemma nat64_iff:
  assumes "unat v div 2 ^ 32 \<noteq> 0xFFFF"
  shows "NetContains nat64WellKnown (IPv6 v) \<longleftrightarrow> unat v div 2 ^ 32 = 0x64FF9B0000000000000000"
  using assms by (simp add: nat64WellKnown_def To4_IPv6 same_bits6_iff unat_groups6)

lemma sixToFour_iff:
  assumes "unat v div 2 ^ 32 \<noteq> 0xFFFF"
  shows "NetContains sixToFour (IPv6 v) \<longleftrightarrow> unat v div 2 ^ 112 = 0x2002"
  using assms by (simp add: sixToFour_def To4_IPv6 same_bits6_iff unat_groups6)

lemma nat64_not_sixToFour:
  "n div 2 ^ 32 = (0x64FF9B0000000000000000 :: nat) \<Longrightarrow> n div 2 ^ 112 \<noteq> 0x2002"
proof -
  assume "n div 2 ^ 32 = (0x64FF9B0000000000000000 :: nat)"
  then have "(n div 2 ^ 32) div 2 ^ 80 = (0x64FF9B0000000000000000 :: nat) div 2 ^ 80" by simp
  then show ?thesis by (simp flip: div_mult2_eq)
qed

section \<open>Properties\<close>

text \<open>C4. The SSRF guard is exact: \<^verbatim>\<open>Blocked\<close> refuses an address if and only if the reference
  list does. For IPv4 these are fourteen intervals (private, loopback, link-local with the metadata
  endpoint, CGNAT, test, multicast and reserved space); an IPv4-mapped, NAT64 or 6to4 address is refused
  when the IPv4 address it carries is, and IPv6 local, multicast and special-purpose networks are
  refused.\<close>

theorem Blocked_exact: "Blocked (Some i) = must_refuse i"
proof (cases i)
  case (IPv4 w)
  then show ?thesis by (simp add: Blocked_def To4_def blocked_class4)
next
  case (IPv6 v)
  show ?thesis
  proof (cases "unat v div 2 ^ 32 = 0xFFFF")
    case True
    then show ?thesis
      by (simp only: IPv6 Blocked_def To4_IPv6 option.case if_True blocked_class4 unat_ucast32
          must_refuse.simps Let_def simp_thms)
  next
    case False
    note f = nat64_iff [OF False] sixToFour_iff [OF False] blocked_class6 [OF False]
    have "Blocked (Some i) =
       (if unat v div 2 ^ 32 = 0x64FF9B0000000000000000
        then in_refused4 (unat v mod 2 ^ 32) \<or> in_refused6 (unat v)
        else if unat v div 2 ^ 112 = 0x2002
        then in_refused4 ((unat v div 2 ^ 80) mod 2 ^ 32) \<or> in_refused6 (unat v)
        else in_refused6 (unat v))"
      using False by (simp only: IPv6 Blocked_def To4_IPv6 option.case ip.case if_False f
          blocked_class4 unat_ucast32 unat_drop_bit6 if_True split: if_splits) auto
    then show ?thesis
      using False nat64_not_sixToFour [of "unat v"]
      by (auto simp only: IPv6 must_refuse.simps Let_def if_False split: if_splits)
  qed
qed


lemma parsed_public: "parsedAddress ''8.8.8.8:443'' = Some (IPv4 (quad 8 8 8 8))"
proof -
  have fields: "ipv4_fields ''8.8.8.8'' 0 0 [] = Some [8, 8, 8, 8]" by code_simp
  have split: "SplitHostPort ''8.8.8.8:443'' = Some ''8.8.8.8''" by code_simp
  show ?thesis
    by (simp add: parsedAddress_def split parsedHost_def ParseAddr_def parseIPv4_def fields quad_def
        del: ipv4_fields.simps)
qed


end
