(* ===== verification/TokenAuth.thy ===== *)
theory TokenAuth
  imports Permissions Netip
begin

text \<open>
  Authentication of API requests (\<^verbatim>\<open>src/internal/auth/auth.go\<close>,
  \<^verbatim>\<open>src/internal/auth/middleware.go\<close>, with the two queries of
  \<^verbatim>\<open>src/internal/store\<close> it calls).  The middleware is a function of the stores it is given,
  as the Go code is of the interfaces \<^verbatim>\<open>TokenStore\<close>, \<^verbatim>\<open>SettingsSource\<close> and
  \<^verbatim>\<open>SessionAuthenticator\<close>; times are integers and the token hash is a parameter.  The lemmas
  show that a token never grants more than its creator holds at the time of the request, that a revoked
  token authenticates nobody, and when a request is served at all.
\<close>

section \<open>Data\<close>

record Identity =
  TokenID :: int
  TokenUUID :: string
  TeamID :: int
  TeamUUID :: string
  Perms :: "string list"
  Session :: bool
  InstanceRoot :: bool
  Display :: string
  MFAPending :: bool
  UserID :: "int option"
  ViewAs :: string

definition IsRoot :: "Identity \<Rightarrow> bool" where
  "IsRoot ident = Has (Perms ident) PermRoot"

definition CanAccessTeam :: "Identity \<Rightarrow> int \<Rightarrow> bool" where
  "CanAccessTeam ident teamID = (IsRoot ident \<or> TeamID ident = teamID)"

text \<open>A row of \<^verbatim>\<open>GetActiveApiTokensByPrefix\<close>: the columns the middleware reads.\<close>

record token_row =
  tr_id :: int
  tr_uuid :: string
  tr_team_id :: int
  tr_team_uuid :: string
  tr_created_by :: "int option"
  tr_name :: string
  tr_prefix :: string
  tr_hash :: string
  tr_permissions :: "string list"
  tr_ip_allowlist :: "netprefix list"
  tr_expires_at :: "int option"
  tr_last_used_at :: "int option"
  tr_revoked_at :: "int option"

record creator_authority =
  ca_role :: TeamRole
  ca_user_id :: int
  ca_custom_role_id :: "int option"
  ca_custom_permissions :: "string list"

type_synonym 'a fetched = "(unit, 'a) result"
type_synonym get_tokens = "string \<Rightarrow> token_row list fetched"
type_synonym get_authority = "int \<Rightarrow> int \<Rightarrow> creator_authority fetched"

section \<open>Bearer tokens\<close>

abbreviation tokenScheme :: string where "tokenScheme \<equiv> ''akd_''"
abbreviation PrefixLen :: nat where "PrefixLen \<equiv> 10"

definition SplitBearer :: "string \<Rightarrow> string" where
  "SplitBearer header =
     (case Cut header CHR '' '' of
        None \<Rightarrow> []
      | Some (scheme, rest) \<Rightarrow>
          if ToLower scheme \<noteq> ''bearer'' then []
          else let token = TrimSpace rest in
            if \<not> HasPrefix token tokenScheme \<or> length token < PrefixLen then [] else token)"

text \<open>\<^verbatim>\<open>Intersect\<close>: how every ceiling of the model is applied.\<close>

definition Intersect :: "string list \<Rightarrow> string list \<Rightarrow> string list" where
  "Intersect a b = filter (\<lambda>p. p \<in> set b) a"

definition ipAllowed :: "string \<Rightarrow> netprefix list \<Rightarrow> bool" where
  "ipAllowed remote allowlist =
     (let host = (case SplitHostPort remote of None \<Rightarrow> remote | Some h \<Rightarrow> h) in
      case ParseAddr host of
        None \<Rightarrow> False
      | Some a \<Rightarrow> list_ex (\<lambda>prefix. PrefixContains prefix (Unmap a)) allowlist)"

definition boundToCreator ::
  "get_authority \<Rightarrow> token_row \<Rightarrow> string list \<Rightarrow> Identity \<Rightarrow> Identity" where
  "boundToCreator getAuth match granted ident =
     (case tr_created_by match of
        None \<Rightarrow> ident
      | Some creator \<Rightarrow>
          (case getAuth creator (tr_team_id match) of
             Inl _ \<Rightarrow> ident\<lparr>Perms := []\<rparr>
           | Inr authority \<Rightarrow>
               let base = PermissionsForMembership (ca_role authority)
                            (ca_custom_role_id authority \<noteq> None) (ca_custom_permissions authority) in
               ident\<lparr>Perms := Intersect granted (ExpandGranular base),
                     UserID := Some (ca_user_id authority)\<rparr>))"

datatype auth_error = ErrInvalidAPIToken | ErrStore

text \<open>Five minutes, in the unit of the clock (\<^verbatim>\<open>lastUsedGranularity\<close>); the clock counts
  nanoseconds, as \<^verbatim>\<open>time.Duration\<close> does.\<close>

definition lastUsedGranularity :: int where
  "lastUsedGranularity = 5 * 60 * 1000000000"

text \<open>The result carries the identity and the token whose \<^verbatim>\<open>last_used_at\<close> is to be touched.\<close>

definition ResolveAPIToken ::
  "(string \<Rightarrow> string) \<Rightarrow> get_tokens \<Rightarrow> get_authority \<Rightarrow> int \<Rightarrow> string \<Rightarrow> string
     \<Rightarrow> (auth_error, Identity \<times> int option) result" where
  "ResolveAPIToken HashToken getTokens getAuth now remote token =
     (if length token < PrefixLen then Inl ErrInvalidAPIToken
      else case getTokens (take PrefixLen token) of
        Inl _ \<Rightarrow> Inl ErrStore
      | Inr candidates \<Rightarrow>
          (case find (\<lambda>c. HashToken token = tr_hash c) candidates of
             None \<Rightarrow> Inl ErrInvalidAPIToken
           | Some match \<Rightarrow>
               if (case tr_expires_at match of None \<Rightarrow> False | Some t \<Rightarrow> now > t)
               then Inl ErrInvalidAPIToken
               else if tr_ip_allowlist match \<noteq> [] \<and> \<not> ipAllowed remote (tr_ip_allowlist match)
               then Inl ErrInvalidAPIToken
               else
                 let touch = (if (case tr_last_used_at match of None \<Rightarrow> True
                                  | Some t \<Rightarrow> now - t > lastUsedGranularity)
                              then Some (tr_id match) else None);
                     granted = EffectivePermissions (tr_permissions match);
                     ident = \<lparr>TokenID = tr_id match, TokenUUID = tr_uuid match,
                              TeamID = tr_team_id match, TeamUUID = tr_team_uuid match,
                              Perms = granted, Session = False, InstanceRoot = False,
                              Display = tr_name match, MFAPending = False, UserID = None,
                              ViewAs = []\<rparr>
                 in Inr (boundToCreator getAuth match granted ident, touch)))"

section \<open>The middleware\<close>

text \<open>What a request brings: its path, the Authorization header, the peer address, the identity of
  its session cookie when the session manager finds one, and whether its CSRF token verifies.\<close>

record request =
  req_path :: string
  req_authorization :: string
  req_remote :: string
  req_session :: "Identity option"
  req_csrf_ok :: bool

datatype outcome = Unauthorized | CsrfFailed | InternalError | ApiDisabled | Serve "Identity option"

definition apiGateExempt :: "Identity \<Rightarrow> string \<Rightarrow> bool" where
  "apiGateExempt ident path = (Session ident \<or> path = ''/api/v1/system/api/enable'')"

definition authenticate ::
  "(string \<Rightarrow> string) \<Rightarrow> get_tokens \<Rightarrow> get_authority \<Rightarrow> int \<Rightarrow> request \<Rightarrow> (outcome, Identity) result" where
  "authenticate HashToken getTokens getAuth now r =
     (let token = SplitBearer (req_authorization r) in
      if token = [] then
        (case req_session r of
           None \<Rightarrow> Inl Unauthorized
         | Some ident \<Rightarrow> if \<not> req_csrf_ok r then Inl CsrfFailed else Inr ident)
      else case ResolveAPIToken HashToken getTokens getAuth now (req_remote r) token of
        Inl ErrInvalidAPIToken \<Rightarrow> Inl Unauthorized
      | Inl ErrStore \<Rightarrow> Inl InternalError
      | Inr (ident, _) \<Rightarrow> Inr ident)"

definition Handler ::
  "(string \<Rightarrow> string) \<Rightarrow> get_tokens \<Rightarrow> get_authority \<Rightarrow> bool fetched \<Rightarrow> int \<Rightarrow> request \<Rightarrow> outcome" where
  "Handler HashToken getTokens getAuth apiEnabled now r =
     (if req_path r = ''/api/v1/health'' then Serve None
      else case authenticate HashToken getTokens getAuth now r of
        Inl rejected \<Rightarrow> rejected
      | Inr ident \<Rightarrow>
          if \<not> apiGateExempt ident (req_path r) then
            (case apiEnabled of
               Inl _ \<Rightarrow> InternalError
             | Inr enabled \<Rightarrow> if \<not> enabled then ApiDisabled else Serve (Some ident))
          else Serve (Some ident))"

section \<open>The queries\<close>

text \<open>The tables the two queries read, with the columns they use.\<close>

record team = tm_id :: int  tm_uuid :: string  tm_deleted_at :: "int option"
record membership = mb_user_id :: int  mb_team_id :: int  mb_role :: TeamRole  mb_custom_role_id :: "int option"
record custom_role = cr_id :: int  cr_permissions :: "string list"
record user = us_id :: int  us_deleted_at :: "int option"

record auth_db =
  db_tokens :: "token_row list"
  db_teams :: "team list"
  db_memberships :: "membership list"
  db_custom_roles :: "custom_role list"
  db_users :: "user list"

definition GetActiveApiTokensByPrefix :: "auth_db \<Rightarrow> get_tokens" where
  "GetActiveApiTokensByPrefix db prefix =
     Inr (concat (map (\<lambda>t. map (\<lambda>tm. t\<lparr>tr_team_uuid := tm_uuid tm\<rparr>)
            (filter (\<lambda>tm. tm_id tm = tr_team_id t \<and> tm_deleted_at tm = None) (db_teams db)))
          (filter (\<lambda>t. tr_prefix t = prefix \<and> tr_revoked_at t = None) (db_tokens db))))"

text \<open>One row or an error: no membership row, or a deleted user, yields no row.\<close>

definition GetTokenCreatorAuthority :: "auth_db \<Rightarrow> get_authority" where
  "GetTokenCreatorAuthority db userID teamID =
     (case filter (\<lambda>m. mb_user_id m = userID \<and> mb_team_id m = teamID \<and>
             list_ex (\<lambda>u. us_id u = mb_user_id m \<and> us_deleted_at u = None) (db_users db))
           (db_memberships db) of
        [] \<Rightarrow> Inl ()
      | m # _ \<Rightarrow>
          Inr \<lparr>ca_role = mb_role m, ca_user_id = mb_user_id m, ca_custom_role_id = mb_custom_role_id m,
               ca_custom_permissions =
                 (case mb_custom_role_id m of
                    None \<Rightarrow> []
                  | Some c \<Rightarrow> (case find (\<lambda>cr. cr_id cr = c) (db_custom_roles db) of
                                None \<Rightarrow> [] | Some cr \<Rightarrow> cr_permissions cr))\<rparr>)"

section \<open>Ceilings\<close>

lemma set_Intersect [simp]: "set (Intersect a b) = set a \<inter> set b"
  by (auto simp: Intersect_def)

lemma Has_Intersect: "Has (Intersect a b) p \<Longrightarrow> Has a p \<and> Has b p"
  using Has_mono [of "Intersect a b" a p] Has_mono [of "Intersect a b" b p] by auto

lemma boundToCreator_simps [simp]:
  "tr_created_by match = None \<Longrightarrow> boundToCreator getAuth match granted ident = ident"
  "tr_created_by match = Some c \<Longrightarrow> getAuth c (tr_team_id match) = Inl e \<Longrightarrow>
     boundToCreator getAuth match granted ident = ident\<lparr>Perms := []\<rparr>"
  by (auto simp: boundToCreator_def)

lemma boundToCreator_frame [simp]:
  "TeamID (boundToCreator getAuth match granted ident) = TeamID ident"
  "TokenID (boundToCreator getAuth match granted ident) = TokenID ident"
  "Session (boundToCreator getAuth match granted ident) = Session ident"
  "InstanceRoot (boundToCreator getAuth match granted ident) = InstanceRoot ident"
  by (auto simp: boundToCreator_def Let_def split: option.splits sum.splits)

text \<open>What a resolved token rests on: a candidate row with the presented hash, neither expired nor
  called from outside its allowlist.\<close>

lemma ResolveAPIToken_InrE:
  assumes "ResolveAPIToken HashToken getTokens getAuth now remote token = Inr (ident, touch)"
  obtains rows match ident0 where
    "getTokens (take PrefixLen token) = Inr rows" "match \<in> set rows" "tr_hash match = HashToken token"
    "\<forall>t. tr_expires_at match = Some t \<longrightarrow> now \<le> t"
    "tr_ip_allowlist match = [] \<or> ipAllowed remote (tr_ip_allowlist match)"
    "Perms ident0 = EffectivePermissions (tr_permissions match)"
    "TeamID ident0 = tr_team_id match" "\<not> Session ident0" "\<not> InstanceRoot ident0"
    "ident = boundToCreator getAuth match (EffectivePermissions (tr_permissions match)) ident0"
proof -
  from assms obtain rows where rows: "getTokens (take PrefixLen token) = Inr rows"
    by (auto simp: ResolveAPIToken_def split: if_splits sum.splits)
  with assms obtain match where match: "find (\<lambda>c. HashToken token = tr_hash c) rows = Some match"
    by (auto simp: ResolveAPIToken_def split: if_splits option.splits)
  then have in_rows: "match \<in> set rows" and hash: "tr_hash match = HashToken token"
    by (auto simp: find_Some_iff)
  from assms rows match have
    exp: "\<forall>t. tr_expires_at match = Some t \<longrightarrow> now \<le> t" and
    ips: "tr_ip_allowlist match = [] \<or> ipAllowed remote (tr_ip_allowlist match)"
    by (auto simp: ResolveAPIToken_def Let_def split: if_splits option.splits)
  from assms rows match show ?thesis
    by (intro that [OF rows in_rows hash exp ips])
      (auto simp: ResolveAPIToken_def Let_def split: if_splits option.splits)
qed

text \<open>The interface \<^verbatim>\<open>TokenStore\<close>: the lookup by prefix returns live tokens only.\<close>

locale token_store =
  fixes getTokens :: get_tokens
    and live :: "token_row \<Rightarrow> bool"
  assumes lookup_live: "getTokens prefix = Inr rows \<Longrightarrow> r \<in> set rows \<Longrightarrow> live r"
    and lookup_prefix: "getTokens prefix = Inr rows \<Longrightarrow> r \<in> set rows \<Longrightarrow> tr_prefix r = prefix"
begin

lemma resolved_live:
  assumes "ResolveAPIToken HashToken getTokens getAuth now remote token = Inr (ident, touch)"
  shows "\<exists>match. live match \<and> tr_hash match = HashToken token \<and> tr_prefix match = take PrefixLen token
           \<and> TeamID ident = tr_team_id match"
  using assms by (elim ResolveAPIToken_InrE) (auto dest: lookup_live lookup_prefix)

lemma served_live:
  assumes "Handler HashToken getTokens getAuth apiEnabled now r = Serve (Some ident)"
    and "req_session r = None"
  shows "\<exists>match. live match \<and> tr_hash match = HashToken (SplitBearer (req_authorization r))
           \<and> TeamID ident = tr_team_id match"
proof -
  from assms obtain touch where
    "ResolveAPIToken HashToken getTokens getAuth now (req_remote r) (SplitBearer (req_authorization r))
       = Inr (ident, touch)"
    by (auto simp: Handler_def authenticate_def Let_def
        split: if_splits sum.splits option.splits auth_error.splits)
  from resolved_live [OF this] show ?thesis by blast
qed

end

definition live_token :: "auth_db \<Rightarrow> token_row \<Rightarrow> bool" where
  "live_token db r \<longleftrightarrow> (\<exists>t \<in> set (db_tokens db). tr_revoked_at t = None \<and>
     (\<exists>tm \<in> set (db_teams db). tm_id tm = tr_team_id t \<and> tm_deleted_at tm = None \<and>
        r = t\<lparr>tr_team_uuid := tm_uuid tm\<rparr>))"

interpretation sql_tokens: token_store "GetActiveApiTokensByPrefix db" "live_token db" for db
proof (standard, goal_cases)
  case (1 prefix rows r)
  then show ?case
    unfolding live_token_def by (fastforce simp: GetActiveApiTokensByPrefix_def)
next
  case (2 prefix rows r)
  then show ?case by (auto simp: GetActiveApiTokensByPrefix_def)
qed

section \<open>Properties\<close>

text \<open>C6. A token never exceeds its creator: whatever an identity resolved from a token with a
  recorded creator may do, the token's own scopes allow it and the creator's current membership of the
  token's team allows it; when the creator has left the team the identity may do nothing.  The
  identity is bound to the token's team and is never an instance root.\<close>

theorem token_bounded_by_creator:
  assumes ok: "ResolveAPIToken HashToken getTokens getAuth now remote token = Inr (ident, touch)"
  shows "\<exists>rows. \<exists>match \<in> set rows.
     getTokens (take PrefixLen token) = Inr rows \<and> tr_hash match = HashToken token \<and>
     TeamID ident = tr_team_id match \<and> \<not> InstanceRoot ident \<and>
     (Has (Perms ident) p \<longrightarrow> Has (EffectivePermissions (tr_permissions match)) p) \<and>
     (\<forall>creator. tr_created_by match = Some creator \<longrightarrow>
        (case getAuth creator (tr_team_id match) of
           Inl _ \<Rightarrow> \<not> Has (Perms ident) p
         | Inr a \<Rightarrow> Has (Perms ident) p \<longrightarrow>
             Has (ExpandGranular (PermissionsForMembership (ca_role a) (ca_custom_role_id a \<noteq> None)
                    (ca_custom_permissions a))) p))"
  using ok
proof (cases rule: ResolveAPIToken_InrE)
  case (1 rows match ident0)
  have "Has (Perms ident) p \<longrightarrow> Has (EffectivePermissions (tr_permissions match)) p"
    using 1 by (auto simp: boundToCreator_def Let_def dest: Has_Intersect split: option.splits sum.splits)
  moreover have "case getAuth creator (tr_team_id match) of
           Inl _ \<Rightarrow> \<not> Has (Perms ident) p
         | Inr a \<Rightarrow> Has (Perms ident) p \<longrightarrow>
             Has (ExpandGranular (PermissionsForMembership (ca_role a) (ca_custom_role_id a \<noteq> None)
                    (ca_custom_permissions a))) p"
    if "tr_created_by match = Some creator" for creator
    using 1 that by (auto simp: boundToCreator_def Let_def dest: Has_Intersect split: sum.splits)
  ultimately show ?thesis using 1 by auto
qed

definition sample_token :: token_row where
  "sample_token = \<lparr>tr_id = 7, tr_uuid = ''u7'', tr_team_id = 3, tr_team_uuid = [], tr_created_by = Some 11,
     tr_name = ''ci'', tr_prefix = ''akd_abcdef'', tr_hash = ''akd_abcdef012345'',
     tr_permissions = [PermRoot], tr_ip_allowlist = [], tr_expires_at = Some 900,
     tr_last_used_at = None, tr_revoked_at = None\<rparr>"

definition sample_db :: auth_db where
  "sample_db = \<lparr>db_tokens = [sample_token], db_teams = [\<lparr>tm_id = 3, tm_uuid = ''t3'', tm_deleted_at = None\<rparr>],
     db_memberships = [\<lparr>mb_user_id = 11, mb_team_id = 3, mb_role = TeamRoleReviewer, mb_custom_role_id = None\<rparr>],
     db_custom_roles = [], db_users = [\<lparr>us_id = 11, us_deleted_at = None\<rparr>]\<rparr>"

lemmas auth_eval = ResolveAPIToken_def GetActiveApiTokensByPrefix_def GetTokenCreatorAuthority_def
  boundToCreator_def sample_db_def sample_token_def Let_def PermissionsForMembership_def

theorem token_bounded_by_creator_witness:
  "\<exists>ident touch.
     ResolveAPIToken id (GetActiveApiTokensByPrefix sample_db) (GetTokenCreatorAuthority sample_db) 500
       ''10.0.0.1:1'' ''akd_abcdef012345'' = Inr (ident, touch) \<and>
     Perms ident = Intersect (EffectivePermissions [PermRoot]) (ExpandGranular reviewerPermissions) \<and>
     \<not> Has (Perms ident) ''instance:manage''"
proof -
  obtain ident touch where ok:
    "ResolveAPIToken id (GetActiveApiTokensByPrefix sample_db) (GetTokenCreatorAuthority sample_db) 500
       ''10.0.0.1:1'' ''akd_abcdef012345'' = Inr (ident, touch)"
    "Perms ident = Intersect (EffectivePermissions [PermRoot]) (ExpandGranular reviewerPermissions)"
    by (simp add: auth_eval)
  have no: "\<not> Has (ExpandGranular reviewerPermissions) ''instance:manage''" by code_simp
  have "\<not> Has (Perms ident) ''instance:manage''"
    using token_bounded_by_creator [OF ok(1), of "''instance:manage''"] no by (auto simp: auth_eval)
  with ok show ?thesis by blast
qed

text \<open>C7. Which requests are served: only the health check is served without an identity; any other
  request is served either through a bearer token that resolves, or, when it carries no bearer token,
  through a session whose CSRF token verifies; and while the API is disabled (or its setting cannot be
  read) a bearer token is served on the re-enable endpoint only.\<close>

theorem served_requests:
  assumes "Handler HashToken getTokens getAuth apiEnabled now r = Serve oi"
  shows "(oi = None \<longleftrightarrow> req_path r = ''/api/v1/health'') \<and>
    (\<forall>ident. oi = Some ident \<longrightarrow>
       (if SplitBearer (req_authorization r) = []
        then req_session r = Some ident \<and> req_csrf_ok r
        else \<exists>touch. ResolveAPIToken HashToken getTokens getAuth now (req_remote r)
               (SplitBearer (req_authorization r)) = Inr (ident, touch)) \<and>
       (apiEnabled \<noteq> Inr True \<longrightarrow> Session ident \<or> req_path r = ''/api/v1/system/api/enable''))"
  using assms
  by (auto simp: Handler_def authenticate_def apiGateExempt_def Let_def
      split: if_splits sum.splits option.splits auth_error.splits)

definition sample_request :: request where
  "sample_request = \<lparr>req_path = ''/api/v1/projects'', req_authorization = ''Bearer akd_abcdef012345'',
     req_remote = ''10.0.0.1:1'', req_session = None, req_csrf_ok = False\<rparr>"

lemma sample_bearer: "SplitBearer ''Bearer akd_abcdef012345'' = ''akd_abcdef012345''"
  by code_simp

lemma sample_served:
  "\<exists>ident. Handler id (GetActiveApiTokensByPrefix sample_db) (GetTokenCreatorAuthority sample_db)
     (Inr True) 500 sample_request = Serve (Some ident)"
  by (simp add: Handler_def authenticate_def sample_request_def sample_bearer auth_eval apiGateExempt_def)

theorem served_requests_witness:
  "\<exists>ident touch.
     Handler id (GetActiveApiTokensByPrefix sample_db) (GetTokenCreatorAuthority sample_db) (Inr True) 500
       sample_request = Serve (Some ident) \<and>
     ResolveAPIToken id (GetActiveApiTokensByPrefix sample_db) (GetTokenCreatorAuthority sample_db) 500
       ''10.0.0.1:1'' ''akd_abcdef012345'' = Inr (ident, touch)"
proof -
  from sample_served obtain ident where
    s: "Handler id (GetActiveApiTokensByPrefix sample_db) (GetTokenCreatorAuthority sample_db)
          (Inr True) 500 sample_request = Serve (Some ident)" by blast
  from served_requests [OF s] have "\<exists>touch. ResolveAPIToken id (GetActiveApiTokensByPrefix sample_db)
      (GetTokenCreatorAuthority sample_db) 500 ''10.0.0.1:1'' ''akd_abcdef012345'' = Inr (ident, touch)"
    by (simp add: sample_request_def sample_bearer)
  with s show ?thesis by blast
qed

text \<open>A revoked token, or a token of a deleted team, authenticates nobody: over the SQL queries, a
  request without a session that is served comes from a token row that is not revoked, whose team is not
  deleted, and whose hash is that of the presented token.\<close>

theorem revoked_token_refused:
  assumes "Handler HashToken (GetActiveApiTokensByPrefix db) getAuth apiEnabled now r = Serve (Some ident)"
    and "req_session r = None"
  shows "\<exists>t \<in> set (db_tokens db). tr_revoked_at t = None \<and>
           tr_hash t = HashToken (SplitBearer (req_authorization r)) \<and> TeamID ident = tr_team_id t \<and>
           (\<exists>tm \<in> set (db_teams db). tm_id tm = tr_team_id t \<and> tm_deleted_at tm = None)"
  using sql_tokens.served_live [OF assms] by (fastforce simp: live_token_def)

end
