(* ===== verification/Sessions.thy ===== *)
theory Sessions
  imports TokenAuth
begin

text \<open>
  Browser sessions (\<^verbatim>\<open>src/internal/session/session.go\<close>, \<^verbatim>\<open>viewas.go\<close>, with the queries of
  \<^verbatim>\<open>src/internal/store/sessions.sql.go\<close> and \<^verbatim>\<open>roles.sql.go\<close>): the resolution of a session cookie
  into an identity, the double-submit check of state-changing requests, switching teams, and the inspection of roles.
  Each operation takes the statements that reach the database (\<open>up\<close>): one that does not is an error for its caller.
  Times are nanoseconds, the token hash is a parameter.  The lemmas show that an identity holds at most what one
  membership of a live team grants, that inspection only narrows, and that a session only moves to teams of its user.
\<close>

section \<open>Tables\<close>

record User =
  u_ID :: int
  u_Uuid :: string
  u_Email :: string
  u_Name :: string
  u_PasswordHash :: "string option"
  u_IsRoot :: bool
  u_FailedLoginCount :: int
  u_LockedUntil :: "int option"
  u_DeletedAt :: "int option"
  u_LastTeamID :: "int option"

record SessionRow =
  sn_ID :: int
  sn_Uuid :: string
  sn_UserID :: int
  sn_TokenHash :: string
  sn_CurrentTeamID :: "int option"
  sn_MfaVerifiedAt :: "int option"
  sn_Ip :: "addr option"
  sn_UserAgent :: "string option"
  sn_LastSeenAt :: int
  sn_ExpiresAt :: int
  sn_RevokedAt :: "int option"
  sn_CreatedAt :: int
  sn_CsrfToken :: "string option"
  sn_MfaPending :: bool
  sn_TotpVerifiedAt :: "int option"
  sn_ViewAsRole :: "TeamRole option"
  sn_ViewAsCustomRoleID :: "int option"

record Team =
  te_ID :: int
  te_Uuid :: string
  te_Name :: string
  te_Personal :: bool
  te_DeletedAt :: "int option"

record CustomRole =
  cu_ID :: int
  cu_Uuid :: string
  cu_TeamID :: int
  cu_Name :: string
  cu_Permissions :: "string list"

record MfaFactor =
  f_ID :: int
  f_Uuid :: string
  f_UserID :: int
  f_SecretEnc :: string
  f_RecoveryCodeHashes :: "string list"
  f_ConfirmedAt :: "int option"
  f_LastUsedAt :: "int option"

record MfaChallenge =
  ch_TokenHash :: string
  ch_UserID :: int
  ch_ExpiresAt :: int

record InstanceSetting =
  is_PasswordLoginDisabled :: bool
  is_MfaRequired :: bool

record session_db =
  s_users :: "User list"
  s_sessions :: "SessionRow list"
  s_next_session :: int
  s_teams :: "Team list"
  s_members :: "membership list"
  s_roles :: "CustomRole list"
  s_factors :: "MfaFactor list"
  s_next_factor :: int
  s_challenges :: "MfaChallenge list"
  s_passkeys :: "int list"
  s_settings :: "InstanceSetting option"

text \<open>The statements of the package; \<^verbatim>\<open>GetMfaFactorForUser\<close> has one name for each place that calls it.\<close>

datatype sess_call = CallUser | CallSession | CallTouch | CallMembership | CallMemberships | CallRole | CallSettings
  | CallSettingsOpen | CallFactor | CallFactorOpen | CallPasskeys | CallRecordFailed | CallClearFailed | CallCreateSession
  | CallSetTeam | CallSetView | CallLastTeam | CallRevoke | CallPurge | CallChallenge | CallCreateChallenge | CallConsume
  | CallRecovery | CallTouchFactor | CallUpsertFactor | CallConfirm | CallDeleteFactor | CallReplaceCodes | CallTotpVerified

type_synonym statements = "sess_call \<Rightarrow> bool"

section \<open>Queries\<close>

definition answer :: "statements \<Rightarrow> sess_call \<Rightarrow> 'a option \<Rightarrow> 'a option" where
  "answer up c x = (if up c then x else None)"

definition issue :: "statements \<Rightarrow> sess_call \<Rightarrow> (session_db \<Rightarrow> session_db) \<Rightarrow> session_db \<Rightarrow> session_db" where
  "issue up c f db = (if up c then f db else db)"

definition map_sessions :: "(SessionRow \<Rightarrow> bool) \<Rightarrow> (SessionRow \<Rightarrow> SessionRow) \<Rightarrow> session_db \<Rightarrow> session_db" where
  "map_sessions P f db = db\<lparr>s_sessions := map (\<lambda>s. if P s then f s else s) (s_sessions db)\<rparr>"

definition map_users :: "(User \<Rightarrow> bool) \<Rightarrow> (User \<Rightarrow> User) \<Rightarrow> session_db \<Rightarrow> session_db" where
  "map_users P f db = db\<lparr>s_users := map (\<lambda>u. if P u then f u else u) (s_users db)\<rparr>"

text \<open>The column is \<^verbatim>\<open>citext\<close>: the comparison ignores case.\<close>

definition GetUserByEmail :: "string \<Rightarrow> session_db \<Rightarrow> User option" where
  "GetUserByEmail email db = find (\<lambda>u. ToLower (u_Email u) = ToLower email \<and> u_DeletedAt u = None) (s_users db)"

definition GetSessionByTokenHash :: "int \<Rightarrow> string \<Rightarrow> session_db \<Rightarrow> SessionRow option" where
  "GetSessionByTokenHash now h db =
     find (\<lambda>s. sn_TokenHash s = h \<and> sn_RevokedAt s = None \<and> sn_ExpiresAt s > now \<and>
               list_ex (\<lambda>u. u_ID u = sn_UserID s \<and> u_DeletedAt u = None) (s_users db)) (s_sessions db)"

definition TouchSession :: "int \<Rightarrow> int \<Rightarrow> session_db \<Rightarrow> session_db" where
  "TouchSession now i = map_sessions (\<lambda>s. sn_ID s = i) (\<lambda>s. s\<lparr>sn_LastSeenAt := now\<rparr>)"

definition RevokeSession :: "int \<Rightarrow> int \<Rightarrow> session_db \<Rightarrow> session_db" where
  "RevokeSession now i = map_sessions (\<lambda>s. sn_ID s = i \<and> sn_RevokedAt s = None) (\<lambda>s. s\<lparr>sn_RevokedAt := Some now\<rparr>)"

definition SetSessionCurrentTeam :: "int \<Rightarrow> int \<Rightarrow> session_db \<Rightarrow> session_db" where
  "SetSessionCurrentTeam i team =
     map_sessions (\<lambda>s. sn_ID s = i \<and> sn_RevokedAt s = None) (\<lambda>s. s\<lparr>sn_CurrentTeamID := Some team\<rparr>)"

definition SetSessionViewAs :: "int \<Rightarrow> TeamRole option \<Rightarrow> int option \<Rightarrow> session_db \<Rightarrow> session_db" where
  "SetSessionViewAs i role custom =
     map_sessions (\<lambda>s. sn_ID s = i) (\<lambda>s. s\<lparr>sn_ViewAsRole := role, sn_ViewAsCustomRoleID := custom\<rparr>)"

definition SetUserLastTeam :: "int \<Rightarrow> int \<Rightarrow> session_db \<Rightarrow> session_db" where
  "SetUserLastTeam i team = map_users (\<lambda>u. u_ID u = i) (\<lambda>u. u\<lparr>u_LastTeamID := Some team\<rparr>)"

record GetTeamMembershipForUserRow =
  gm_TeamID :: int
  gm_Role :: TeamRole
  gm_TeamUuid :: string
  gm_TeamName :: string
  gm_IsRoot :: bool
  gm_CustomRole :: "CustomRole option"

text \<open>The memberships of a user in live teams, each with its team.\<close>

definition live_memberships :: "int \<Rightarrow> session_db \<Rightarrow> (membership \<times> Team) list" where
  "live_memberships userID db =
     concat (map (\<lambda>m. map (Pair m) (filter (\<lambda>t. te_ID t = mb_team_id m \<and> te_DeletedAt t = None) (s_teams db)))
       (filter (\<lambda>m. mb_user_id m = userID) (s_members db)))"

text \<open>\<^verbatim>\<open>ORDER BY (tm.team_id = preferred) DESC, tm.team_id LIMIT 1\<close>, joined with the user and its custom role.\<close>

definition GetTeamMembershipForUser :: "int \<Rightarrow> int \<Rightarrow> session_db \<Rightarrow> GetTeamMembershipForUserRow option" where
  "GetTeamMembershipForUser userID preferred db =
     (let ms = live_memberships userID db;
          ordered = filter (\<lambda>(m, t). mb_team_id m = preferred) ms
                    @ sort_key (\<lambda>(m, t). mb_team_id m) (filter (\<lambda>(m, t). mb_team_id m \<noteq> preferred) ms)
      in case (ordered, find (\<lambda>u. u_ID u = userID) (s_users db)) of
           ((m, t) # _, Some u) \<Rightarrow>
             Some \<lparr>gm_TeamID = mb_team_id m, gm_Role = mb_role m, gm_TeamUuid = te_Uuid t, gm_TeamName = te_Name t,
                   gm_IsRoot = u_IsRoot u,
                   gm_CustomRole = (case mb_custom_role_id m of None \<Rightarrow> None
                                    | Some c \<Rightarrow> find (\<lambda>r. cu_ID r = c) (s_roles db))\<rparr>
         | _ \<Rightarrow> None)"

text \<open>\<^verbatim>\<open>ORDER BY t.personal DESC, lower(t.name), tm.team_id\<close> is a matter of display; the rows come in some order.\<close>

definition ListTeamMembershipsForUser :: "int \<Rightarrow> session_db \<Rightarrow> (membership \<times> Team) list" where
  "ListTeamMembershipsForUser userID db = live_memberships userID db"

definition GetCustomRoleByID :: "int \<Rightarrow> session_db \<Rightarrow> CustomRole option" where
  "GetCustomRoleByID i db = find (\<lambda>r. cu_ID r = i) (s_roles db)"

definition GetCustomRoleByUUID :: "string \<Rightarrow> int \<Rightarrow> session_db \<Rightarrow> CustomRole option" where
  "GetCustomRoleByUUID u team db = find (\<lambda>r. cu_Uuid r = u \<and> cu_TeamID r = team) (s_roles db)"

section \<open>The identity of a session\<close>

text \<open>The label of the withdrawn system roles cannot be reached; the others are their names.\<close>

fun role_name :: "TeamRole \<Rightarrow> string" where
  "role_name TeamRoleOwner = ''owner''"
| "role_name TeamRoleAdmin = ''admin''"
| "role_name TeamRoleMember = ''member''"
| "role_name TeamRoleReviewer = ''reviewer''"
| "role_name TeamRoleNone = ''none''"

definition narrowToViewAs :: "statements \<Rightarrow> SessionRow \<Rightarrow> int \<Rightarrow> string list \<Rightarrow> session_db \<Rightarrow> string list \<times> string" where
  "narrowToViewAs up row teamID perms db =
     (case sn_ViewAsCustomRoleID row of
        Some c \<Rightarrow>
          (case answer up CallRole (GetCustomRoleByID c db) of
             None \<Rightarrow> ([], ''unknown role'')
           | Some role \<Rightarrow>
               if cu_TeamID role \<noteq> teamID then ([], ''unknown role'')
               else (Intersect perms (ExpandGranular (cu_Permissions role)), cu_Name role))
      | None \<Rightarrow>
          (case sn_ViewAsRole row of
             Some role \<Rightarrow> (Intersect perms (ExpandGranular (PermissionsForRole role)), role_name role)
           | None \<Rightarrow> (perms, [])))"

definition membership_permissions :: "GetTeamMembershipForUserRow \<Rightarrow> string list" where
  "membership_permissions m =
     PermissionsForMembership (gm_Role m) (gm_CustomRole m \<noteq> None)
       (case gm_CustomRole m of None \<Rightarrow> [] | Some r \<Rightarrow> cu_Permissions r)"

text \<open>A cookie that is absent is the empty string.\<close>

definition session_identity :: "statements \<Rightarrow> SessionRow \<Rightarrow> session_db \<Rightarrow> Identity option" where
  "session_identity up row db =
     (let preferred = (case sn_CurrentTeamID row of None \<Rightarrow> 0 | Some t \<Rightarrow> t) in
      case answer up CallMembership (GetTeamMembershipForUser (sn_UserID row) preferred db) of
        None \<Rightarrow> None
      | Some m \<Rightarrow>
          let perms = ExpandGranular (membership_permissions m);
              perms' = (if gm_IsRoot m then perms @ [PermRoot] else perms);
              (narrowed, viewAs) = narrowToViewAs up row (gm_TeamID m) perms' db
          in Some \<lparr>TokenID = sn_ID row, TokenUUID = sn_Uuid row, TeamID = gm_TeamID m, TeamUUID = gm_TeamUuid m,
                   Perms = narrowed, Session = True, InstanceRoot = (gm_IsRoot m \<and> viewAs = []), Display = [],
                   MFAPending = sn_MfaPending row, UserID = Some (sn_UserID row), ViewAs = viewAs\<rparr>)"

definition Authenticate ::
  "(string \<Rightarrow> string) \<Rightarrow> statements \<Rightarrow> int \<Rightarrow> string \<Rightarrow> session_db \<Rightarrow> Identity option \<times> session_db" where
  "Authenticate hashToken up now cookie db =
     (if cookie = [] then (None, db)
      else case answer up CallSession (GetSessionByTokenHash now (hashToken cookie) db) of
        None \<Rightarrow> (None, db)
      | Some row \<Rightarrow>
          let db' = issue up CallTouch (TouchSession now (sn_ID row)) db
          in (session_identity up row db', db'))"

section \<open>The check of state-changing requests\<close>

datatype csrf_error = ErrInvalidSession | ErrCsrfToken

definition VerifyCSRF ::
  "(string \<Rightarrow> string) \<Rightarrow> statements \<Rightarrow> int \<Rightarrow> string \<Rightarrow> string \<Rightarrow> string \<Rightarrow> session_db \<Rightarrow> csrf_error option" where
  "VerifyCSRF hashToken up now meth cookie header db =
     (if meth \<in> {''GET'', ''HEAD'', ''OPTIONS''} then None
      else if cookie = [] then None
      else case answer up CallSession (GetSessionByTokenHash now (hashToken cookie) db) of
        None \<Rightarrow> Some ErrInvalidSession
      | Some row \<Rightarrow>
          (case sn_CsrfToken row of
             None \<Rightarrow> Some ErrInvalidSession
           | Some tok \<Rightarrow> if header = [] \<or> header \<noteq> tok then Some ErrCsrfToken else None))"

definition Logout :: "(string \<Rightarrow> string) \<Rightarrow> statements \<Rightarrow> int \<Rightarrow> string \<Rightarrow> session_db \<Rightarrow> session_db" where
  "Logout hashToken up now cookie db =
     (if cookie = [] then db
      else case answer up CallSession (GetSessionByTokenHash now (hashToken cookie) db) of
        None \<Rightarrow> db
      | Some row \<Rightarrow> issue up CallRevoke (RevokeSession now (sn_ID row)) db)"

section \<open>Switching teams and inspecting roles\<close>

datatype session_error = ErrNotAMember | ErrRoleNotFound | ErrNotAllowedToViewAs | ErrDatabase

text \<open>The loop ends at the first membership with the uuid; every statement but the last must succeed.\<close>

definition SwitchTeam ::
  "statements \<Rightarrow> int \<Rightarrow> int \<Rightarrow> string \<Rightarrow> session_db \<Rightarrow> (session_error, membership \<times> Team) result \<times> session_db" where
  "SwitchTeam up userID sessionID teamUUID db =
     (if \<not> up CallMemberships then (Inl ErrDatabase, db)
      else case find (\<lambda>(m, t). te_Uuid t = teamUUID) (ListTeamMembershipsForUser userID db) of
        None \<Rightarrow> (Inl ErrNotAMember, db)
      | Some (m, t) \<Rightarrow>
          if \<not> up CallSetTeam then (Inl ErrDatabase, db)
          else
            let db1 = SetSessionCurrentTeam sessionID (mb_team_id m) db in
            if \<not> up CallSetView then (Inl ErrDatabase, db1)
            else
              let db2 = SetSessionViewAs sessionID None None db1
              in (Inr (m, t), issue up CallLastTeam (SetUserLastTeam userID (mb_team_id m)) db2))"

definition MayInspectRoles :: "statements \<Rightarrow> int \<Rightarrow> int \<Rightarrow> session_db \<Rightarrow> (bool \<times> int) option" where
  "MayInspectRoles up userID preferred db =
     (case answer up CallMembership (GetTeamMembershipForUser userID preferred db) of
        None \<Rightarrow> None
      | Some m \<Rightarrow> Some (gm_IsRoot m \<or> gm_Role m = TeamRoleAdmin \<or> gm_Role m = TeamRoleOwner, gm_TeamID m))"

definition viewAsSystemRoles :: "(string \<times> TeamRole) list" where
  "viewAsSystemRoles = [(''admin'', TeamRoleAdmin), (''member'', TeamRoleMember), (''reviewer'', TeamRoleReviewer)]"

text \<open>\<open>scan\<close> tells which texts \<^verbatim>\<open>pgtype.UUID\<close> accepts and the uuid they name.\<close>

definition SetViewAs ::
  "(string \<Rightarrow> string option) \<Rightarrow> statements \<Rightarrow> int \<Rightarrow> int \<Rightarrow> int \<Rightarrow> string \<Rightarrow> string \<Rightarrow> session_db
     \<Rightarrow> (session_error, string) result \<times> session_db" where
  "SetViewAs scan up userID sessionID preferred role0 custom0 db =
     (let role = TrimSpace role0; custom = TrimSpace custom0 in
      if role = [] \<and> custom = [] then
        if up CallSetView then (Inr [], SetSessionViewAs sessionID None None db) else (Inl ErrDatabase, db)
      else case MayInspectRoles up userID preferred db of
        None \<Rightarrow> (Inl ErrDatabase, db)
      | Some (allowed, teamID) \<Rightarrow>
          if \<not> allowed then (Inl ErrNotAllowedToViewAs, db)
          else if custom \<noteq> [] then
            (case Option.bind (scan custom) (\<lambda>u. answer up CallRole (GetCustomRoleByUUID u teamID db)) of
               None \<Rightarrow> (Inl ErrRoleNotFound, db)
             | Some c \<Rightarrow>
                 if up CallSetView then (Inr (cu_Name c), SetSessionViewAs sessionID None (Some (cu_ID c)) db)
                 else (Inl ErrDatabase, db))
          else
            (case map_of viewAsSystemRoles (ToLower role) of
               None \<Rightarrow> (Inl ErrRoleNotFound, db)
             | Some r \<Rightarrow>
                 if up CallSetView then (Inr (role_name r), SetSessionViewAs sessionID (Some r) None db)
                 else (Inl ErrDatabase, db)))"

section \<open>What an identity may do\<close>

lemma frame_sessions [simp]:
  "s_users (map_sessions P f db) = s_users db" "s_teams (map_sessions P f db) = s_teams db"
  "s_members (map_sessions P f db) = s_members db" "s_roles (map_sessions P f db) = s_roles db"
  by (simp_all add: map_sessions_def)

lemma touch_frame [simp]:
  "s_users (issue up c (TouchSession now i) db) = s_users db" "s_teams (issue up c (TouchSession now i) db) = s_teams db"
  "s_members (issue up c (TouchSession now i) db) = s_members db" "s_roles (issue up c (TouchSession now i) db) = s_roles db"
  by (simp_all add: issue_def TouchSession_def)

lemma touched_session:
  assumes "s' \<in> set (s_sessions (issue up CallTouch (TouchSession now i) db))"
  shows "\<exists>s \<in> set (s_sessions db). s' = s \<or> s' = s\<lparr>sn_LastSeenAt := now\<rparr>"
  using assms by (auto simp: issue_def TouchSession_def map_sessions_def split: if_splits)

lemma answer_Some [simp]: "answer up c x = Some y \<longleftrightarrow> up c \<and> x = Some y"
  by (simp add: answer_def)

lemma find_SomeD: "find P xs = Some x \<Longrightarrow> x \<in> set xs \<and> P x"
  by (induction xs) (auto split: if_splits)

lemma live_session:
  assumes "GetSessionByTokenHash now h db = Some s"
  shows "s \<in> set (s_sessions db)" "sn_TokenHash s = h" "sn_RevokedAt s = None" "now < sn_ExpiresAt s"
    "\<exists>u \<in> set (s_users db). u_ID u = sn_UserID s \<and> u_DeletedAt u = None"
  using find_SomeD [OF assms [unfolded GetSessionByTokenHash_def]] by (auto simp: list_ex_iff)

lemma csrf_echoed:
  assumes "VerifyCSRF hashToken up now meth cookie header db = None" "meth \<notin> {''GET'', ''HEAD'', ''OPTIONS''}" "cookie \<noteq> []"
  shows "\<exists>s. GetSessionByTokenHash now (hashToken cookie) db = Some s \<and> header \<noteq> [] \<and> sn_CsrfToken s = Some header"
proof (cases "answer up CallSession (GetSessionByTokenHash now (hashToken cookie) db)")
  case None
  then show ?thesis using assms unfolding VerifyCSRF_def by simp
next
  case (Some s)
  with assms show ?thesis unfolding VerifyCSRF_def
    by (cases "sn_CsrfToken s") (simp_all add: answer_def split: if_splits)
qed

lemma live_memberships_mem:
  "(m, t) \<in> set (live_memberships i db) \<longleftrightarrow>
     m \<in> set (s_members db) \<and> mb_user_id m = i \<and> t \<in> set (s_teams db) \<and> te_ID t = mb_team_id m \<and> te_DeletedAt t = None"
  by (auto simp: live_memberships_def)

lemma membership_row:
  assumes "GetTeamMembershipForUser i preferred db = Some r"
  obtains m t u where "(m, t) \<in> set (live_memberships i db)" "u \<in> set (s_users db)" "u_ID u = i"
    "gm_TeamID r = mb_team_id m" "gm_Role r = mb_role m" "gm_TeamUuid r = te_Uuid t" "gm_IsRoot r = u_IsRoot u"
    "gm_CustomRole r = Option.bind (mb_custom_role_id m) (\<lambda>c. find (\<lambda>x. cu_ID x = c) (s_roles db))"
    "(\<exists>x \<in> set (live_memberships i db). mb_team_id (fst x) = preferred) \<longrightarrow> mb_team_id m = preferred"
proof -
  let ?ms = "live_memberships i db"
  let ?o = "filter (\<lambda>(m, t). mb_team_id m = preferred) ?ms
                    @ sort_key (\<lambda>(m, t). mb_team_id m) (filter (\<lambda>(m, t). mb_team_id m \<noteq> preferred) ?ms)"
  from assms obtain m t rest u where o: "?o = (m, t) # rest" and u: "find (\<lambda>u. u_ID u = i) (s_users db) = Some u"
    and r: "r = \<lparr>gm_TeamID = mb_team_id m, gm_Role = mb_role m, gm_TeamUuid = te_Uuid t, gm_TeamName = te_Name t,
       gm_IsRoot = u_IsRoot u, gm_CustomRole = (case mb_custom_role_id m of None \<Rightarrow> None
                                    | Some c \<Rightarrow> find (\<lambda>r. cu_ID r = c) (s_roles db))\<rparr>"
    by (auto simp: GetTeamMembershipForUser_def Let_def split: list.splits option.splits prod.splits)
  have "(m, t) \<in> set ?o" using o by simp
  then have mem: "(m, t) \<in> set ?ms" by auto
  have pref: "mb_team_id m = preferred" if "x \<in> set ?ms" "mb_team_id (fst x) = preferred" for x
  proof -
    have "x \<in> set (filter (\<lambda>(m, t). mb_team_id m = preferred) ?ms)" using that by (simp add: case_prod_beta)
    then obtain y ys where ys: "filter (\<lambda>(m, t). mb_team_id m = preferred) ?ms = y # ys"
      by (cases "filter (\<lambda>(m, t). mb_team_id m = preferred) ?ms") simp_all
    then have "y = (m, t)" using o by simp
    then have "(m, t) \<in> set (filter (\<lambda>(m, t). mb_team_id m = preferred) ?ms)" using ys by simp
    then show ?thesis by auto
  qed
  show thesis
    using find_SomeD [OF u] pref by (intro that [OF mem]) (auto simp: r split: option.splits)
qed

lemma identity_fields:
  assumes "session_identity up row db = Some ident"
  obtains r perms where
    "GetTeamMembershipForUser (sn_UserID row) (case sn_CurrentTeamID row of None \<Rightarrow> 0 | Some t \<Rightarrow> t) db = Some r"
    "perms = ExpandGranular (membership_permissions r) @ (if gm_IsRoot r then [PermRoot] else [])"
    "narrowToViewAs up row (gm_TeamID r) perms db = (Perms ident, ViewAs ident)"
    "TeamID ident = gm_TeamID r" "TeamUUID ident = gm_TeamUuid r" "UserID ident = Some (sn_UserID row)"
    "InstanceRoot ident \<longleftrightarrow> gm_IsRoot r \<and> ViewAs ident = []"
  using assms by (auto simp: session_identity_def Let_def split: option.splits prod.splits if_splits)

text \<open>Inspection narrows: to what the session holds, and to what the inspected role holds.\<close>

lemma narrow_own: "narrowToViewAs up row team perms db = (narrowed, label) \<Longrightarrow> Has narrowed p \<Longrightarrow> Has perms p"
  by (auto simp: narrowToViewAs_def dest: Has_Intersect split: option.splits if_splits)

lemma narrow_role:
  assumes "narrowToViewAs up row team perms db = (narrowed, label)"
    and "sn_ViewAsCustomRoleID row = None" "sn_ViewAsRole row = Some role" "Has narrowed p"
  shows "Has (ExpandGranular (PermissionsForRole role)) p"
  using assms by (auto simp: narrowToViewAs_def dest: Has_Intersect)

lemma narrow_custom:
  assumes "narrowToViewAs up row team perms db = (narrowed, label)"
    and "sn_ViewAsCustomRoleID row = Some c" "Has narrowed p"
  shows "\<exists>x \<in> set (s_roles db). cu_ID x = c \<and> cu_TeamID x = team \<and> Has (ExpandGranular (cu_Permissions x)) p"
  using assms
  by (auto simp: narrowToViewAs_def GetCustomRoleByID_def dest!: find_SomeD dest: Has_Intersect split: option.splits if_splits)

section \<open>Properties\<close>

text \<open>C8: A session acts with one membership.  An identity resolved from a cookie comes from a session that is neither
  revoked nor expired, of a user that is not deleted, and from a membership of that user in a live team, the team the
  session asked for whenever the user is a member of it.  Team, role and permissions come from that one membership:
  whatever the identity may do, the membership allows it or the user is the instance root.  While a role is inspected
  the identity may do only what that role allows too; with the label of an inspected role it is never treated as the
  instance root.\<close>

theorem session_authority:
  assumes "Authenticate hashToken up now cookie db = (Some ident, db')"
  shows "\<exists>row m t.
    row \<in> set (s_sessions db) \<and> sn_TokenHash row = hashToken cookie \<and> sn_RevokedAt row = None \<and> now < sn_ExpiresAt row \<and>
    (\<exists>u \<in> set (s_users db). u_ID u = sn_UserID row \<and> u_DeletedAt u = None) \<and>
    m \<in> set (s_members db) \<and> mb_user_id m = sn_UserID row \<and> t \<in> set (s_teams db) \<and> te_ID t = mb_team_id m \<and>
    te_DeletedAt t = None \<and> TeamID ident = mb_team_id m \<and> TeamUUID ident = te_Uuid t \<and> UserID ident = Some (sn_UserID row) \<and>
    (\<forall>c. sn_CurrentTeamID row = Some c \<longrightarrow>
       (\<exists>x \<in> set (live_memberships (sn_UserID row) db). mb_team_id (fst x) = c) \<longrightarrow> TeamID ident = c) \<and>
    (Has (Perms ident) p \<longrightarrow>
       Has (ExpandGranular (PermissionsForMembership (mb_role m)
              (Option.bind (mb_custom_role_id m) (\<lambda>c. find (\<lambda>x. cu_ID x = c) (s_roles db)) \<noteq> None)
              (case Option.bind (mb_custom_role_id m) (\<lambda>c. find (\<lambda>x. cu_ID x = c) (s_roles db)) of
                 None \<Rightarrow> [] | Some r \<Rightarrow> cu_Permissions r))) p \<or>
       (\<exists>u \<in> set (s_users db). u_ID u = sn_UserID row \<and> u_IsRoot u)) \<and>
    (\<forall>role. sn_ViewAsCustomRoleID row = None \<longrightarrow> sn_ViewAsRole row = Some role \<longrightarrow> Has (Perms ident) p \<longrightarrow>
       Has (ExpandGranular (PermissionsForRole role)) p) \<and>
    (\<forall>c. sn_ViewAsCustomRoleID row = Some c \<longrightarrow> Has (Perms ident) p \<longrightarrow>
       (\<exists>r \<in> set (s_roles db). cu_ID r = c \<and> cu_TeamID r = TeamID ident \<and> Has (ExpandGranular (cu_Permissions r)) p)) \<and>
    (InstanceRoot ident \<longrightarrow> ViewAs ident = [] \<and> (\<exists>u \<in> set (s_users db). u_ID u = sn_UserID row \<and> u_IsRoot u))"
proof -
  from assms obtain row where row: "GetSessionByTokenHash now (hashToken cookie) db = Some row"
    and id: "session_identity up row (issue up CallTouch (TouchSession now (sn_ID row)) db) = Some ident"
    by (auto simp: Authenticate_def Let_def split: if_splits option.splits)
  define db2 where "db2 = issue up CallTouch (TouchSession now (sn_ID row)) db"
  have same: "s_users db2 = s_users db" "s_roles db2 = s_roles db"
    "live_memberships i db2 = live_memberships i db" for i
    by (simp_all add: db2_def live_memberships_def)
  from id [folded db2_def] obtain r perms where
    r: "GetTeamMembershipForUser (sn_UserID row) (case sn_CurrentTeamID row of None \<Rightarrow> 0 | Some t \<Rightarrow> t) db2 = Some r"
    and perms: "perms = ExpandGranular (membership_permissions r) @ (if gm_IsRoot r then [PermRoot] else [])"
      "narrowToViewAs up row (gm_TeamID r) perms db2 = (Perms ident, ViewAs ident)"
    and ident: "TeamID ident = gm_TeamID r" "TeamUUID ident = gm_TeamUuid r" "UserID ident = Some (sn_UserID row)"
      "InstanceRoot ident \<longleftrightarrow> gm_IsRoot r \<and> ViewAs ident = []"
    by (rule identity_fields)
  from r obtain m t u where m: "(m, t) \<in> set (live_memberships (sn_UserID row) db2)" "u \<in> set (s_users db2)" "u_ID u = sn_UserID row"
    "gm_TeamID r = mb_team_id m" "gm_Role r = mb_role m" "gm_TeamUuid r = te_Uuid t" "gm_IsRoot r = u_IsRoot u"
    "gm_CustomRole r = Option.bind (mb_custom_role_id m) (\<lambda>c. find (\<lambda>x. cu_ID x = c) (s_roles db2))"
    "(\<exists>x \<in> set (live_memberships (sn_UserID row) db2).
        mb_team_id (fst x) = (case sn_CurrentTeamID row of None \<Rightarrow> 0 | Some t \<Rightarrow> t)) \<longrightarrow>
      mb_team_id m = (case sn_CurrentTeamID row of None \<Rightarrow> 0 | Some t \<Rightarrow> t)"
    by (rule membership_row)
  have own: "Has (ExpandGranular (membership_permissions r)) p \<or> gm_IsRoot r" if "Has (Perms ident) p"
    using narrow_own [OF perms(2) that] by (auto simp: perms(1) split: if_splits)
  have live: "row \<in> set (s_sessions db)" "sn_TokenHash row = hashToken cookie" "sn_RevokedAt row = None" "now < sn_ExpiresAt row"
    "\<exists>u \<in> set (s_users db). u_ID u = sn_UserID row \<and> u_DeletedAt u = None"
    using live_session [OF row] .
  have team: "TeamID ident = c" if "sn_CurrentTeamID row = Some c"
    "\<exists>x \<in> set (live_memberships (sn_UserID row) db). mb_team_id (fst x) = c" for c
    using that m(9) m(4) ident(1) by (simp add: same)
  have mt: "m \<in> set (s_members db)" "mb_user_id m = sn_UserID row" "t \<in> set (s_teams db)" "te_ID t = mb_team_id m" "te_DeletedAt t = None"
    using m(1) unfolding same live_memberships_mem by blast+
  show ?thesis
    using live mt team own narrow_role [OF perms(2)] narrow_custom [OF perms(2)] m(2-8) ident
    unfolding membership_permissions_def same
    by (intro exI [of _ row] exI [of _ m] exI [of _ t]) (auto simp: m(5,8) same)
qed

definition sample_sessions :: session_db where
  "sample_sessions =
     \<lparr>s_users = [\<lparr>u_ID = 11, u_Uuid = ''u11'', u_Email = ''a@b.c'', u_Name = ''Ada'', u_PasswordHash = Some ''h'', u_IsRoot = False,
                  u_FailedLoginCount = 0, u_LockedUntil = None, u_DeletedAt = None, u_LastTeamID = None\<rparr>],
      s_sessions = [\<lparr>sn_ID = 1, sn_Uuid = ''s1'', sn_UserID = 11, sn_TokenHash = ''cookie'', sn_CurrentTeamID = Some 3,
                     sn_MfaVerifiedAt = None, sn_Ip = None, sn_UserAgent = None, sn_LastSeenAt = 0, sn_ExpiresAt = 900,
                     sn_RevokedAt = None, sn_CreatedAt = 0, sn_CsrfToken = Some ''csrf'', sn_MfaPending = False,
                     sn_TotpVerifiedAt = None, sn_ViewAsRole = Some TeamRoleReviewer, sn_ViewAsCustomRoleID = None\<rparr>],
      s_next_session = 2,
      s_teams = [\<lparr>te_ID = 3, te_Uuid = ''t3'', te_Name = ''ops'', te_Personal = False, te_DeletedAt = None\<rparr>],
      s_members = [\<lparr>mb_user_id = 11, mb_team_id = 3, mb_role = TeamRoleAdmin, mb_custom_role_id = None\<rparr>],
      s_roles = [], s_factors = [], s_next_factor = 1, s_challenges = [], s_passkeys = [],
      s_settings = Some \<lparr>is_PasswordLoginDisabled = False, is_MfaRequired = False\<rparr>\<rparr>"

lemma sample_authenticates:
  "\<exists>ident. Authenticate id (\<lambda>_. True) 500 ''cookie'' sample_sessions = (Some ident, TouchSession 500 1 sample_sessions) \<and>
     Session ident"
  by (simp add: Authenticate_def session_identity_def GetTeamMembershipForUser_def GetSessionByTokenHash_def
      live_memberships_def issue_def TouchSession_def map_sessions_def sample_sessions_def narrowToViewAs_def answer_def Let_def)

theorem session_authority_witness:
  "\<exists>ident db'. Authenticate id (\<lambda>_. True) 500 ''cookie'' sample_sessions = (Some ident, db') \<and>
     TeamID ident = 3 \<and> \<not> Has (Perms ident) ''applications:delete''"
proof -
  obtain ident db' where a: "Authenticate id (\<lambda>_. True) 500 ''cookie'' sample_sessions = (Some ident, db')"
    using sample_authenticates by blast
  have no: "\<not> Has (ExpandGranular (PermissionsForRole TeamRoleReviewer)) ''applications:delete''" by code_simp
  have "TeamID ident = 3 \<and> \<not> Has (Perms ident) ''applications:delete''"
    using session_authority [OF a, of "''applications:delete''"] no by (auto simp: sample_sessions_def)
  with a show ?thesis by blast
qed

text \<open>What the middleware sees of a request with a cookie.\<close>

definition cookie_request ::
  "(string \<Rightarrow> string) \<Rightarrow> statements \<Rightarrow> int \<Rightarrow> string \<Rightarrow> string \<Rightarrow> string \<Rightarrow> session_db \<Rightarrow> request \<Rightarrow> request" where
  "cookie_request hashToken up now meth cookie header db r =
     (let (ident, db') = Authenticate hashToken up now cookie db
      in r\<lparr>req_session := ident, req_csrf_ok := (VerifyCSRF hashToken up now meth cookie header db' = None)\<rparr>)"

text \<open>C31: A request that comes with a session cookie and no bearer token is served only if the cookie is that of a live
  session, and, unless its method is one that must not change state, only if it echoes the token of that session, which
  another site cannot read.\<close>

theorem cookie_requests:
  assumes "Handler HashToken getTokens getAuth apiEnabled now (cookie_request hashToken up now meth cookie header db r) = Serve (Some ident)"
    and "SplitBearer (req_authorization r) = []"
  shows "\<exists>row \<in> set (s_sessions db). sn_TokenHash row = hashToken cookie \<and> sn_RevokedAt row = None \<and> now < sn_ExpiresAt row \<and>
    TokenID ident = sn_ID row \<and> Session ident \<and>
    (meth \<notin> {''GET'', ''HEAD'', ''OPTIONS''} \<longrightarrow> header \<noteq> [] \<and>
       (\<exists>row' \<in> set (s_sessions db). sn_TokenHash row' = hashToken cookie \<and> sn_RevokedAt row' = None \<and> now < sn_ExpiresAt row' \<and>
          sn_CsrfToken row' = Some header))"
proof -
  obtain oi db' where auth: "Authenticate hashToken up now cookie db = (oi, db')" by (metis surj_pair)
  let ?r = "cookie_request hashToken up now meth cookie header db r"
  have r: "req_session ?r = oi" "req_csrf_ok ?r \<longleftrightarrow> VerifyCSRF hashToken up now meth cookie header db' = None"
    "req_authorization ?r = req_authorization r"
    by (simp_all add: cookie_request_def auth)
  have oi: "oi = Some ident" and csrf: "VerifyCSRF hashToken up now meth cookie header db' = None"
    using assms r by (auto simp: Handler_def authenticate_def Let_def split: if_splits sum.splits option.splits)
  from auth oi obtain row where row: "GetSessionByTokenHash now (hashToken cookie) db = Some row" "cookie \<noteq> []"
    "db' = issue up CallTouch (TouchSession now (sn_ID row)) db" "session_identity up row db' = Some ident"
    by (auto simp: Authenticate_def Let_def split: if_splits option.splits)
  have live: "row \<in> set (s_sessions db)" "sn_TokenHash row = hashToken cookie" "sn_RevokedAt row = None" "now < sn_ExpiresAt row"
    using live_session [OF row(1)] by blast+
  have "TokenID ident = sn_ID row" "Session ident"
    using row(4) by (auto simp: session_identity_def Let_def split: option.splits prod.splits)
  moreover have "header \<noteq> [] \<and> (\<exists>row' \<in> set (s_sessions db). sn_TokenHash row' = hashToken cookie \<and> sn_RevokedAt row' = None \<and>
      now < sn_ExpiresAt row' \<and> sn_CsrfToken row' = Some header)"
    if unsafe: "meth \<notin> {''GET'', ''HEAD'', ''OPTIONS''}"
  proof -
    from csrf unsafe row(2) obtain s' where s': "GetSessionByTokenHash now (hashToken cookie) db' = Some s'"
      "header \<noteq> []" "sn_CsrfToken s' = Some header"
      using csrf_echoed by blast
    note l = live_session [OF s'(1)]
    from l(1) obtain s where "s \<in> set (s_sessions db)" "s' = s \<or> s' = s\<lparr>sn_LastSeenAt := now\<rparr>"
      unfolding row(3) by (blast dest: touched_session)
    then show ?thesis using l(2-4) s'(2,3) by (intro conjI bexI [of _ s]) auto
  qed
  ultimately show ?thesis using live by blast
qed

theorem cookie_requests_witness:
  "\<exists>ident. Handler id (GetActiveApiTokensByPrefix sample_db) (GetTokenCreatorAuthority sample_db) (Inr True) 500
     (cookie_request id (\<lambda>_. True) 500 ''POST'' ''cookie'' ''csrf'' sample_sessions (sample_request\<lparr>req_authorization := []\<rparr>)) =
       Serve (Some ident) \<and> TokenID ident = 1"
proof -
  obtain ident where a: "Authenticate id (\<lambda>_. True) 500 ''cookie'' sample_sessions = (Some ident, TouchSession 500 1 sample_sessions)"
    "Session ident"
    using sample_authenticates by blast
  have csrf: "VerifyCSRF id (\<lambda>_. True) 500 ''POST'' ''cookie'' ''csrf'' (TouchSession 500 1 sample_sessions) = None" by code_simp
  have bearer: "SplitBearer (req_authorization (sample_request\<lparr>req_authorization := []\<rparr>)) = []" by code_simp
  have served: "Handler id (GetActiveApiTokensByPrefix sample_db) (GetTokenCreatorAuthority sample_db) (Inr True) 500
     (cookie_request id (\<lambda>_. True) 500 ''POST'' ''cookie'' ''csrf'' sample_sessions (sample_request\<lparr>req_authorization := []\<rparr>)) =
       Serve (Some ident)"
    using a csrf bearer by (simp add: Handler_def authenticate_def cookie_request_def apiGateExempt_def sample_request_def)
  have "TokenID ident = 1" using cookie_requests [OF served bearer] by (auto simp: sample_sessions_def)
  with served show ?thesis by blast
qed

end
