(* ===== verification/Totp.thy ===== *)
theory Totp
  imports Prelude "HOL-Library.Word" "HOL-Library.Signed_Division"
begin

text \<open>
  Time-based one-time passwords (\<^verbatim>\<open>src/internal/totp/totp.go\<close>): secrets in base 32, the counter of thirty-second
  steps, the truncation of RFC 4226 and the check of a code against the steps around an instant (in nanoseconds since the
  Unix epoch).  The keyed hash is
  a parameter \<open>mac\<close>; the code relies on its twenty bytes only.  The lemmas show that a code always has six
  digits, that the check gives the earliest step whose code was typed, and that a secret survives its base 32 form.
\<close>

unbundle bit_operations_syntax

type_synonym byte = "8 word"
type_synonym mac = "byte list \<Rightarrow> byte list \<Rightarrow> byte list"

section \<open>Base 32\<close>

text \<open>The standard encoding without padding, on bits: most significant first, in groups of five.\<close>

definition to_bits :: "nat \<Rightarrow> nat \<Rightarrow> bool list" where
  "to_bits n v = map (bit v) (rev [0..<n])"

definition of_bits :: "bool list \<Rightarrow> nat" where
  "of_bits bs = foldl (\<lambda>n b. 2 * n + of_bool b) 0 bs"

fun chunks :: "nat \<Rightarrow> 'a list \<Rightarrow> 'a list list" where
  "chunks n xs = (if n = 0 \<or> length xs < n then [] else take n xs # chunks n (drop n xs))"

declare chunks.simps [simp del]

definition base32_alphabet :: string where
  "base32_alphabet = ''ABCDEFGHIJKLMNOPQRSTUVWXYZ234567''"

fun index_in :: "string \<Rightarrow> char \<Rightarrow> nat option" where
  "index_in [] c = None"
| "index_in (a # as) c = (if a = c then Some 0 else map_option Suc (index_in as c))"

definition bytes_bits :: "byte list \<Rightarrow> bool list" where
  "bytes_bits bs = concat (map (to_bits 8 \<circ> unat) bs)"

definition EncodeToString :: "byte list \<Rightarrow> string" where
  "EncodeToString raw =
     (let bs = bytes_bits raw; fill = (5 - length bs mod 5) mod 5
      in map (\<lambda>g. base32_alphabet ! of_bits g) (chunks 5 (bs @ replicate fill False)))"

text \<open>New lines are skipped.  A last group of one, three or six characters gives no byte.\<close>

definition DecodeString :: "string \<Rightarrow> byte list option" where
  "DecodeString s =
     (let src = filter (\<lambda>c. c \<noteq> CHR 0x0A \<and> c \<noteq> CHR 0x0D) s;
          vs = map (index_in base32_alphabet) src;
          whole = (if length src mod 8 \<in> {1, 3, 6} then length src - length src mod 8 else length src)
      in if None \<in> set vs then None
         else Some (map (of_nat \<circ> of_bits) (chunks 8 (concat (map (to_bits 5 \<circ> the) (take whole vs))))))"

definition SecretSize :: nat where
  "SecretSize = 20"

text \<open>\<open>read\<close> is the random source: asked for a number of bytes it fails or gives them.\<close>

definition GenerateSecret :: "(nat \<Rightarrow> byte list option) \<Rightarrow> string option" where
  "GenerateSecret read = map_option EncodeToString (read SecretSize)"

section \<open>Codes\<close>

definition Digits :: nat where "Digits = 6"
definition Period :: int where "Period = 30 * second"
definition Skew :: int where "Skew = 1"

text \<open>\<^verbatim>\<open>Unix\<close> rounds down, the division of Go rounds towards zero.\<close>

definition TimeStep :: "int \<Rightarrow> int" where
  "TimeStep t = (t div second) sdiv (Period div second)"

definition be64 :: "64 word \<Rightarrow> byte list" where
  "be64 c = map (\<lambda>i. ucast (drop_bit (8 * i) c)) (rev [0..<8])"

definition be32 :: "byte list \<Rightarrow> 32 word" where
  "be32 bs = foldl (\<lambda>w b. push_bit 8 w OR ucast b) 0 bs"

definition pad0 :: "nat \<Rightarrow> string \<Rightarrow> string" where
  "pad0 n s = replicate (n - length s) CHR ''0'' @ s"

definition hotp :: "mac \<Rightarrow> byte list \<Rightarrow> 64 word \<Rightarrow> string" where
  "hotp mac key counter =
     (let sum = mac key (be64 counter);
          offset = unat (last sum AND 0x0f);
          truncated = be32 (take 4 (drop offset sum)) AND 0x7fffffff
      in pad0 Digits (show_nat (unat truncated mod 1000000)))"

text \<open>The scan visits every offset; the first match is kept.\<close>

fun scan_steps :: "mac \<Rightarrow> byte list \<Rightarrow> string \<Rightarrow> int \<Rightarrow> int list \<Rightarrow> int option \<Rightarrow> int option" where
  "scan_steps mac key code now [] matched = matched"
| "scan_steps mac key code now (off # offs) matched =
     (let step = TimeStep now + off in
      if step < 0 then scan_steps mac key code now offs matched
      else scan_steps mac key code now offs
        (if hotp mac key (of_int step) = code \<and> matched = None then Some step else matched))"

definition Validate_code :: "mac \<Rightarrow> string \<Rightarrow> string \<Rightarrow> int \<Rightarrow> int option" where
  "Validate_code mac secret code now =
     (case DecodeString (ToUpper (TrimSpace secret)) of
        None \<Rightarrow> None
      | Some key \<Rightarrow>
          let code' = TrimSpace code in
          if length code' \<noteq> Digits then None
          else scan_steps mac key code' now [- Skew..Skew] None)"

section \<open>Facts\<close>

lemma of_bits_snoc: "of_bits (bs @ [b]) = 2 * of_bits bs + of_bool b"
  by (simp add: of_bits_def)

lemma to_bits_Suc: "to_bits (Suc n) v = to_bits n (v div 2) @ [odd v]"
proof -
  have "[0..<Suc n] = 0 # map Suc [0..<n]" by (simp only: upt_conv_Cons zero_less_Suc map_Suc_upt)
  then show ?thesis
    by (simp add: to_bits_def rev_map bit_Suc bit_0 comp_def)
qed

lemma length_to_bits [simp]: "length (to_bits n v) = n"
  by (simp add: to_bits_def)

lemma of_to_bits: "v < 2 ^ n \<Longrightarrow> of_bits (to_bits n v) = v"
proof (induction n arbitrary: v)
  case (Suc n)
  then have "of_bits (to_bits n (v div 2)) = v div 2" by (simp add: less_mult_imp_div_less mult.commute)
  then show ?case by (simp add: to_bits_Suc of_bits_snoc)
qed (simp add: to_bits_def of_bits_def)

lemma to_of_bits: "to_bits (length bs) (of_bits bs) = bs"
proof (induction bs rule: rev_induct)
  case (snoc b bs)
  then show ?case by (cases b) (simp_all add: to_bits_Suc of_bits_snoc)
qed (simp add: to_bits_def)

lemma of_bits_less: "of_bits bs < 2 ^ length bs"
proof (induction bs rule: rev_induct)
  case (snoc b bs)
  then show ?case by (cases b) (simp_all add: of_bits_snoc)
qed (simp add: of_bits_def)

lemma byte_bits: "word_of_nat (of_bits (to_bits 8 (unat b))) = b" for b :: byte
  using unsigned_less [of b, where 'a = nat] by (simp add: of_to_bits)

lemma chunks_concat:
  "(\<And>x. x \<in> set xss \<Longrightarrow> length x = n) \<Longrightarrow> n > 0 \<Longrightarrow> length r < n \<Longrightarrow> chunks n (concat xss @ r) = xss"
proof (induction xss)
  case Nil
  then show ?case by (simp add: chunks.simps)
next
  case (Cons x xss)
  then have "length x = n" by simp
  then show ?case using Cons by (subst chunks.simps) simp
qed

lemma concat_chunks: "n > 0 \<Longrightarrow> n dvd length xs \<Longrightarrow> concat (chunks n xs) = xs"
proof (induction n xs rule: chunks.induct)
  case (1 n xs)
  show ?case
  proof (cases "length xs < n")
    case True
    with 1 show ?thesis by (subst chunks.simps) (auto dest: nat_dvd_not_less)
  next
    case False
    with 1(3) have "n dvd length (drop n xs)" by (simp add: dvd_minus_self)
    with 1 False show ?thesis by (subst chunks.simps) simp
  qed
qed

lemma chunks_length: "g \<in> set (chunks n xs) \<Longrightarrow> length g = n"
proof (induction n xs rule: chunks.induct)
  case (1 n xs)
  from 1(2) show ?case using 1(1) by (subst (asm) chunks.simps) (auto split: if_splits)
qed

lemma length_chunks: "n > 0 \<Longrightarrow> length (chunks n xs) = length xs div n"
proof (induction n xs rule: chunks.induct)
  case (1 n xs)
  then show ?case by (subst chunks.simps) (simp add: div_if le_div_geq)
qed

lemma index_in_nth: "i < length as \<Longrightarrow> distinct as \<Longrightarrow> index_in as (as ! i) = Some i"
proof (induction as arbitrary: i)
  case (Cons a as)
  then show ?case by (cases i) auto
qed simp

lemma base32_alphabet_facts: "length base32_alphabet = 32" "distinct base32_alphabet"
  by (simp_all add: base32_alphabet_def)

lemma index_base32 [simp]: "length g = 5 \<Longrightarrow> index_in base32_alphabet (base32_alphabet ! of_bits g) = Some (of_bits g)"
  using of_bits_less [of g] by (intro index_in_nth) (simp_all add: base32_alphabet_facts)

lemma base32_char: "c \<in> set base32_alphabet \<Longrightarrow> \<not> is_space c \<and> up_char c = c \<and> c \<noteq> CHR 0x0A \<and> c \<noteq> CHR 0x0D"
  by (auto simp: base32_alphabet_def is_space_def up_char_def)

lemma EncodeToString_chars: "set (EncodeToString raw) \<subseteq> set base32_alphabet"
proof
  fix c assume "c \<in> set (EncodeToString raw)"
  then obtain g where g: "length g = 5" "c = base32_alphabet ! of_bits g"
    by (auto simp: EncodeToString_def Let_def dest!: chunks_length)
  then show "c \<in> set base32_alphabet"
    using of_bits_less [of g] by (simp add: base32_alphabet_facts nth_mem)
qed

lemma length_bytes_bits: "length (bytes_bits raw) = 8 * length raw"
  by (induction raw) (simp_all add: bytes_bits_def)

text \<open>The bits behind the last whole byte are dropped, whatever the number of bytes.\<close>

lemma tail_lengths:
  fixes n :: nat
  defines "m \<equiv> (8 * n + (5 - 8 * n mod 5) mod 5) div 5"
  shows "m mod 8 \<notin> {1, 3, 6}" "5 * m = 8 * n + (5 - 8 * n mod 5) mod 5"
proof -
  define q r where "q = n div 5" "r = n mod 5"
  then have n: "n = 5 * q + r" and "r < 5" by simp_all
  have e: "8 * n mod 5 = 8 * r mod 5"
    using mod_mult_self2 [of "8 * r" 5 "8 * q"] by (simp add: n algebra_simps)
  let ?f = "(5 - 8 * r mod 5) mod 5"
  have "8 * n + ?f = (8 * r + ?f) + 5 * (8 * q)" by (simp add: n)
  then have m: "m = 8 * q + (8 * r + ?f) div 5" unfolding m_def e by (metis add.commute div_mult_self2 zero_neq_numeral)
  then have m8: "m mod 8 = (8 * r + ?f) div 5 mod 8" by (metis mod_mult_self4)
  from \<open>r < 5\<close> consider "r = 0" | "r = 1" | "r = 2" | "r = 3" | "r = 4" by linarith
  note r = this
  from r show "m mod 8 \<notin> {1, 3, 6}" unfolding m8 by cases simp_all
  from r show "5 * m = 8 * n + (5 - 8 * n mod 5) mod 5" unfolding e m by cases (simp_all add: n)
qed

text \<open>A secret survives its base 32 form, in any case and with spaces around it.\<close>

lemma Decode_Encode: "DecodeString (EncodeToString raw) = Some raw"
proof -
  let ?bs = "bytes_bits raw"
  let ?fill = "(5 - length ?bs mod 5) mod 5"
  let ?gs = "chunks 5 (?bs @ replicate ?fill False)"
  note tl = tail_lengths [of "length raw"]
  have "5 dvd length (?bs @ replicate ?fill False)"
    using tl(2) by (simp add: length_bytes_bits) (metis dvd_triv_left)
  then have gs: "concat ?gs = ?bs @ replicate ?fill False" by (intro concat_chunks) simp_all
  have n: "length ?gs = (8 * length raw + (5 - 8 * length raw mod 5) mod 5) div 5"
    by (simp add: length_chunks length_bytes_bits)
  have src: "filter (\<lambda>c. c \<noteq> CHR 0x0A \<and> c \<noteq> CHR 0x0D) (EncodeToString raw) = EncodeToString raw"
    using EncodeToString_chars [of raw] base32_char by (intro filter_True) blast
  have vs: "map (index_in base32_alphabet) (EncodeToString raw) = map (Some \<circ> of_bits) ?gs"
    by (auto simp: EncodeToString_def Let_def dest: chunks_length)
  have len: "length (EncodeToString raw) = length ?gs" by (simp add: EncodeToString_def Let_def)
  have regroup: "map ((to_bits 5 \<circ> the) \<circ> (Some \<circ> of_bits)) ?gs = ?gs"
    by (rule map_idI) (metis chunks_length comp_apply option.sel to_of_bits)
  have bytes: "chunks 8 (?bs @ replicate ?fill False) = map (to_bits 8 \<circ> unat) raw"
    unfolding bytes_bits_def by (rule chunks_concat) auto
  have whole: "map ((of_nat \<circ> of_bits) \<circ> (to_bits 8 \<circ> unat)) raw = raw"
    by (rule map_idI) (simp add: byte_bits)
  have nn: "None \<notin> set (map (Some \<circ> of_bits) ?gs)" by auto
  have "DecodeString (EncodeToString raw) = Some (map (of_nat \<circ> of_bits) (chunks 8 (concat ?gs)))"
    using tl(1) regroup nn by (simp add: DecodeString_def Let_def src vs len n comp_assoc del: set_map)
  also have "\<dots> = Some raw" by (simp add: gs bytes whole)
  finally show ?thesis .
qed

text \<open>The truncated value is printed on six digits.\<close>

lemma show_nat_length: "n < 10 ^ Suc k \<Longrightarrow> length (show_nat n) \<le> Suc k"
proof (induction k arbitrary: n)
  case 0
  then show ?case by (subst show_nat.simps) simp
next
  case (Suc k)
  then have "n div 10 < 10 ^ Suc k" by (simp add: less_mult_imp_div_less)
  from Suc.IH [OF this] show ?case by (subst show_nat.simps) simp
qed

lemma hotp_digits: "length (hotp mac key c) = Digits" "d \<in> set (hotp mac key c) \<Longrightarrow> is_digit d"
proof -
  define n where "n = unat (be32 (take 4 (drop (unat (last (mac key (be64 c)) AND 0x0f)) (mac key (be64 c)))) AND 0x7fffffff) mod 1000000"
  have h: "hotp mac key c = pad0 Digits (show_nat n)" by (simp add: hotp_def n_def Let_def)
  have "n < 10 ^ Suc 5" by (simp add: n_def)
  from show_nat_length [OF this] show "length (hotp mac key c) = Digits"
    by (simp add: h pad0_def Digits_def)
  show "is_digit d" if "d \<in> set (hotp mac key c)"
    using that show_nat_digits [of d n] by (auto simp: h pad0_def is_digit_def split: if_splits)
qed

lemma scan_steps_kept: "scan_steps mac key code now offs (Some m) = Some m"
  by (induction offs) (simp_all add: Let_def)

lemma scan_steps_find:
  "scan_steps mac key code now offs None =
     find (\<lambda>step. 0 \<le> step \<and> hotp mac key (of_int step) = code) (map (\<lambda>off. TimeStep now + off) offs)"
  by (induction offs) (auto simp: Let_def scan_steps_kept)

lemma find_three:
  fixes a s :: int
  assumes "P s" "a \<le> s" "s \<le> a + 2"
  shows "\<exists>m \<le> s. find P [a, a + 1, a + 2] = Some m \<and> a \<le> m \<and> P m \<and> (\<forall>s'. a \<le> s' \<and> s' < m \<longrightarrow> \<not> P s')"
proof -
  have first: "s' = a" if "a \<le> s'" "s' < a + 1" for s' using that by linarith
  have second: "s' = a \<or> s' = a + 1" if "a \<le> s'" "s' < a + 2" for s' using that by linarith
  consider "P a" | "\<not> P a" "P (a + 1)" | "\<not> P a" "\<not> P (a + 1)" by blast
  then show ?thesis
  proof cases
    case 1
    with assms show ?thesis by (intro exI [of _ a]) auto
  next
    case 2
    with assms have "a + 1 \<le> s" by (cases "s = a") auto
    with 2 show ?thesis using first by (intro exI [of _ "a + 1"]) auto
  next
    case 3
    with assms have "s = a + 2" using second [of s] by force
    with 3 assms show ?thesis using second by (intro exI [of _ "a + 2"]) auto
  qed
qed

lemma Skew_window: "map (\<lambda>off. TimeStep now + off) [- Skew..Skew] = [TimeStep now - 1, TimeStep now, TimeStep now + 1]"
  by (simp add: Skew_def upto.simps)

lemma Validate_code_find:
  "Validate_code mac secret code now =
     Option.bind (DecodeString (ToUpper (TrimSpace secret))) (\<lambda>key.
       find (\<lambda>step. 0 \<le> step \<and> hotp mac key (of_int step) = TrimSpace code) [TimeStep now - 1, TimeStep now, TimeStep now + 1])"
proof (cases "length (TrimSpace code) = Digits")
  case True
  then show ?thesis by (simp add: Validate_code_def Let_def scan_steps_find Skew_window split: option.split)
next
  case False
  then have "hotp mac key c \<noteq> TrimSpace code" for key c using hotp_digits(1) [of mac key c] by auto
  with False show ?thesis by (simp add: Validate_code_def split: option.split)
qed

lemma secret_survives: "DecodeString (ToUpper (TrimSpace (EncodeToString raw))) = Some raw"
proof -
  have "TrimSpace (EncodeToString raw) = EncodeToString raw"
    using EncodeToString_chars [of raw] base32_char by (intro TrimSpace_id) blast
  moreover have "ToUpper (EncodeToString raw) = EncodeToString raw"
    unfolding ToUpper_def using EncodeToString_chars [of raw] base32_char by (intro map_idI) blast
  ultimately show ?thesis by (simp add: Decode_Encode)
qed

lemma code_untouched: "TrimSpace (hotp mac key c) = hotp mac key c"
  by (rule TrimSpace_id) (meson hotp_digits(2) digit_chars(1))

text \<open>C18: An authenticator that holds the secret handed out at enrolment and whose clock is at most one step off has
  its code accepted: the step the check names is within one step of the instant, is not negative, and its code is
  the one typed.\<close>

theorem enrolled_code_accepted:
  assumes "GenerateSecret read = Some secret" and "read SecretSize = Some raw" and "0 \<le> step" and "\<bar>step - TimeStep now\<bar> \<le> 1"
  shows "\<exists>matched \<le> step. Validate_code mac secret (hotp mac raw (of_int step)) now = Some matched \<and>
    0 \<le> matched \<and> \<bar>matched - TimeStep now\<bar> \<le> 1 \<and> hotp mac raw (of_int matched) = hotp mac raw (of_int step) \<and>
    (\<forall>s. 0 \<le> s \<and> TimeStep now - 1 \<le> s \<and> s < matched \<longrightarrow> hotp mac raw (of_int s) \<noteq> hotp mac raw (of_int step))"
proof -
  let ?c = "hotp mac raw (of_int step)"
  have "secret = EncodeToString raw" using assms(1,2) by (simp add: GenerateSecret_def)
  then have v: "Validate_code mac secret ?c now =
      find (\<lambda>s. 0 \<le> s \<and> hotp mac raw (of_int s) = ?c) [TimeStep now - 1, TimeStep now, TimeStep now + 1]"
    by (simp add: Validate_code_find secret_survives code_untouched)
  have "\<exists>m \<le> step. find (\<lambda>s. 0 \<le> s \<and> hotp mac raw (of_int s) = ?c) [TimeStep now - 1, (TimeStep now - 1) + 1, (TimeStep now - 1) + 2] = Some m \<and>
      TimeStep now - 1 \<le> m \<and> (0 \<le> m \<and> hotp mac raw (of_int m) = ?c) \<and>
      (\<forall>s. TimeStep now - 1 \<le> s \<and> s < m \<longrightarrow> \<not> (0 \<le> s \<and> hotp mac raw (of_int s) = ?c))"
    by (rule find_three) (use assms(3,4) in auto)
  then obtain m where m: "m \<le> step" "Validate_code mac secret ?c now = Some m" "TimeStep now - 1 \<le> m" "0 \<le> m"
    "hotp mac raw (of_int m) = ?c" "\<forall>s. TimeStep now - 1 \<le> s \<and> s < m \<longrightarrow> \<not> (0 \<le> s \<and> hotp mac raw (of_int s) = ?c)"
    unfolding v by (auto simp: algebra_simps)
  moreover have "\<bar>m - TimeStep now\<bar> \<le> 1" using m(1,3) assms(4) by linarith
  ultimately show ?thesis by blast
qed

theorem enrolled_code_accepted_witness:
  "\<exists>secret matched. GenerateSecret (\<lambda>n. Some (replicate n 7)) = Some secret \<and>
     Validate_code (\<lambda>key msg. replicate 20 (last msg)) secret (hotp (\<lambda>key msg. replicate 20 (last msg)) (replicate 20 7) (of_int 2)) 95000000000 = Some matched \<and>
     2 \<le> matched \<and> matched \<le> 2"
proof -
  obtain secret where s: "GenerateSecret (\<lambda>n. Some (replicate n 7)) = Some secret" by (simp add: GenerateSecret_def)
  have step: "TimeStep 95000000000 = 3" by code_simp
  from enrolled_code_accepted [OF s, of "replicate 20 7" 2 95000000000 "\<lambda>key msg. replicate 20 (last msg)"]
  show ?thesis using s by (auto simp: step SecretSize_def)
qed

end
