(* ===== verification/Login.thy ===== *)
theory Login
  imports Sessions Totp
begin

text \<open>
  Logins (\<^verbatim>\<open>src/internal/session/session.go\<close>, \<^verbatim>\<open>totp.go\<close>, with the queries of
  \<^verbatim>\<open>src/internal/store/mfa.sql.go\<close> and \<^verbatim>\<open>sessions.sql.go\<close>): the password step with its lockout, the opening of a
  session, the challenge between password and code, the redemption of one-time and recovery codes, and the
  life of the second factor.  An operation takes place at one instant (\<open>le_now\<close>); the statements that reach the
  database, the random source, the password check, the hashes and the key envelope are fields of its environment.
\<close>

section \<open>Parameters of an operation\<close>

record login_env =
  le_now :: int
  le_up :: statements
  le_hashToken :: "string \<Rightarrow> string"
  le_hashCode :: "string \<Rightarrow> string"
  le_verify :: "string \<Rightarrow> string \<Rightarrow> bool option"
  le_mac :: mac
  le_token :: "nat \<Rightarrow> string option"
  le_raw :: "nat \<Rightarrow> nat \<Rightarrow> byte list option"
  le_secret :: "nat \<Rightarrow> byte list option"
  le_uuid :: "string option"
  le_encrypt :: "string \<Rightarrow> string \<Rightarrow> string option"
  le_decrypt :: "string \<Rightarrow> string \<Rightarrow> string option"
  le_remote :: string
  le_agent :: string
  le_row_uuid :: string

definition Lifetime :: int where "Lifetime = 12 * 3600 * second"
definition MaxFailedLogins :: int where "MaxFailedLogins = 5"
definition LockoutMinutes :: int where "LockoutMinutes = 15"
definition ChallengeLifetime :: int where "ChallengeLifetime = 5 * 60 * second"
definition RecoveryCodeCount :: nat where "RecoveryCodeCount = 10"
definition recoveryCodeBytes :: nat where "recoveryCodeBytes = 8"

definition dummyHash :: string where
  "dummyHash = ''$argon2id$v=19$m=65536,t=3,p=4$c29tZXNhbHR2YWx1ZQ$RdescudvJCsgt3ub+b+dWRWJTmaaJObG''"

record BrowserSession =
  bs_ID :: int
  bs_UserID :: int
  bs_TeamID :: int
  bs_Email :: string
  bs_Name :: string
  bs_CSRFToken :: string
  bs_Role :: TeamRole
  bs_MFAPending :: bool

text \<open>\<open>ErrMFARequired\<close> comes with the challenge token; \<open>ErrInternal\<close> stands for a failed statement, random source or envelope.\<close>

datatype login_error = ErrInvalidCredentials | ErrAccountLocked | ErrPasswordLoginDisabled | ErrMFARequired string
  | ErrMFAChallengeExpired | ErrMFACodeInvalid | ErrMFAAlreadyEnabled | ErrMFANotConfigured | ErrNoTeam | ErrInternal

section \<open>Queries\<close>

definition GetUserByID :: "int \<Rightarrow> session_db \<Rightarrow> User option" where
  "GetUserByID i db = find (\<lambda>u. u_ID u = i \<and> u_DeletedAt u = None) (s_users db)"

text \<open>The counter is a 32-bit column: past its range the statement fails.\<close>

definition failed_login :: "int \<Rightarrow> User \<Rightarrow> User" where
  "failed_login now u =
     u\<lparr>u_FailedLoginCount := u_FailedLoginCount u + 1,
       u_LockedUntil := (if u_FailedLoginCount u + 1 \<ge> MaxFailedLogins then Some (now + LockoutMinutes * 60 * second)
                         else u_LockedUntil u)\<rparr>"

definition RecordFailedLogin :: "int \<Rightarrow> int \<Rightarrow> session_db \<Rightarrow> session_db option" where
  "RecordFailedLogin now i db =
     (case find (\<lambda>u. u_ID u = i) (s_users db) of
        None \<Rightarrow> None
      | Some u \<Rightarrow>
          if u_FailedLoginCount u + 1 \<ge> 2 ^ 31 then None
          else Some (map_users (\<lambda>u. u_ID u = i) (failed_login now) db))"

definition ClearFailedLogins :: "int \<Rightarrow> session_db \<Rightarrow> session_db" where
  "ClearFailedLogins i = map_users (\<lambda>u. u_ID u = i) (\<lambda>u. u\<lparr>u_FailedLoginCount := 0, u_LockedUntil := None\<rparr>)"

definition GetInstanceSettings :: "session_db \<Rightarrow> InstanceSetting option" where
  "GetInstanceSettings db = s_settings db"

definition GetMfaFactorForUser :: "int \<Rightarrow> session_db \<Rightarrow> MfaFactor option" where
  "GetMfaFactorForUser i db = find (\<lambda>f. f_UserID f = i) (s_factors db)"

definition CountPasskeysForUser :: "int \<Rightarrow> session_db \<Rightarrow> nat" where
  "CountPasskeysForUser i db = length (filter (\<lambda>u. u = i) (s_passkeys db))"

text \<open>Columns the statement does not name have their defaults; a token hash is stored once.\<close>

definition CreateSession ::
  "login_env \<Rightarrow> int \<Rightarrow> string \<Rightarrow> string \<Rightarrow> int \<Rightarrow> addr option \<Rightarrow> string \<Rightarrow> int \<Rightarrow> bool \<Rightarrow> session_db \<Rightarrow> (int \<times> session_db) option" where
  "CreateSession env userID tokenHash csrf team ip agent expires pending db =
     (if list_ex (\<lambda>s. sn_TokenHash s = tokenHash) (s_sessions db) then None
      else Some (s_next_session db,
        db\<lparr>s_sessions := s_sessions db @
             [\<lparr>sn_ID = s_next_session db, sn_Uuid = le_row_uuid env, sn_UserID = userID, sn_TokenHash = tokenHash,
               sn_CurrentTeamID = Some team, sn_MfaVerifiedAt = None, sn_Ip = ip, sn_UserAgent = Some agent,
               sn_LastSeenAt = le_now env, sn_ExpiresAt = expires, sn_RevokedAt = None, sn_CreatedAt = le_now env,
               sn_CsrfToken = Some csrf, sn_MfaPending = pending, sn_TotpVerifiedAt = None, sn_ViewAsRole = None,
               sn_ViewAsCustomRoleID = None\<rparr>],
           s_next_session := s_next_session db + 1\<rparr>))"

definition PurgeExpiredMfaChallenges :: "int \<Rightarrow> session_db \<Rightarrow> session_db" where
  "PurgeExpiredMfaChallenges now db = db\<lparr>s_challenges := filter (\<lambda>c. \<not> ch_ExpiresAt c < now) (s_challenges db)\<rparr>"

definition CreateMfaChallenge :: "string \<Rightarrow> int \<Rightarrow> int \<Rightarrow> session_db \<Rightarrow> session_db option" where
  "CreateMfaChallenge h userID expires db =
     (if list_ex (\<lambda>c. ch_TokenHash c = h) (s_challenges db) then None
      else Some (db\<lparr>s_challenges := s_challenges db @ [\<lparr>ch_TokenHash = h, ch_UserID = userID, ch_ExpiresAt = expires\<rparr>]\<rparr>))"

definition live_challenge :: "int \<Rightarrow> string \<Rightarrow> MfaChallenge \<Rightarrow> bool" where
  "live_challenge now h c \<longleftrightarrow> ch_TokenHash c = h \<and> ch_ExpiresAt c > now"

definition GetMfaChallenge :: "int \<Rightarrow> string \<Rightarrow> session_db \<Rightarrow> MfaChallenge option" where
  "GetMfaChallenge now h db = find (live_challenge now h) (s_challenges db)"

definition ConsumeMfaChallenge :: "int \<Rightarrow> string \<Rightarrow> session_db \<Rightarrow> session_db option" where
  "ConsumeMfaChallenge now h db =
     (if list_ex (live_challenge now h) (s_challenges db)
      then Some (db\<lparr>s_challenges := filter (\<lambda>c. \<not> live_challenge now h c) (s_challenges db)\<rparr>) else None)"

text \<open>An update of factors answers whether a row was affected.\<close>

definition update_factors :: "(MfaFactor \<Rightarrow> bool) \<Rightarrow> (MfaFactor \<Rightarrow> MfaFactor) \<Rightarrow> session_db \<Rightarrow> bool \<times> session_db" where
  "update_factors P f db =
     (list_ex P (s_factors db), db\<lparr>s_factors := map (\<lambda>x. if P x then f x else x) (s_factors db)\<rparr>)"

definition ConsumeMfaRecoveryCode :: "int \<Rightarrow> string \<Rightarrow> session_db \<Rightarrow> bool \<times> session_db" where
  "ConsumeMfaRecoveryCode i h =
     update_factors (\<lambda>f. f_ID f = i \<and> f_ConfirmedAt f \<noteq> None \<and> h \<in> set (f_RecoveryCodeHashes f))
       (\<lambda>f. f\<lparr>f_RecoveryCodeHashes := removeAll h (f_RecoveryCodeHashes f)\<rparr>)"

definition TouchMfaFactorUsed :: "int \<Rightarrow> int \<Rightarrow> session_db \<Rightarrow> bool \<times> session_db" where
  "TouchMfaFactorUsed i used =
     update_factors (\<lambda>f. f_ID f = i \<and> (case f_LastUsedAt f of None \<Rightarrow> True | Some l \<Rightarrow> l < used))
       (\<lambda>f. f\<lparr>f_LastUsedAt := Some used\<rparr>)"

definition UpsertUnconfirmedMfaFactor :: "string \<Rightarrow> int \<Rightarrow> string \<Rightarrow> session_db \<Rightarrow> session_db option" where
  "UpsertUnconfirmedMfaFactor u userID enc db =
     (case GetMfaFactorForUser userID db of
        None \<Rightarrow>
          Some (db\<lparr>s_factors := s_factors db @
                     [\<lparr>f_ID = s_next_factor db, f_Uuid = u, f_UserID = userID, f_SecretEnc = enc, f_RecoveryCodeHashes = [],
                       f_ConfirmedAt = None, f_LastUsedAt = None\<rparr>],
                   s_next_factor := s_next_factor db + 1\<rparr>)
      | Some f \<Rightarrow>
          if f_ConfirmedAt f \<noteq> None then None
          else Some (snd (update_factors (\<lambda>f. f_UserID f = userID \<and> f_ConfirmedAt f = None)
                 (\<lambda>f. f\<lparr>f_Uuid := u, f_SecretEnc := enc, f_RecoveryCodeHashes := [], f_ConfirmedAt := None, f_LastUsedAt := None\<rparr>) db)))"

definition ConfirmMfaFactor :: "int \<Rightarrow> int \<Rightarrow> string list \<Rightarrow> int \<Rightarrow> session_db \<Rightarrow> bool \<times> session_db" where
  "ConfirmMfaFactor now userID hashes used =
     update_factors (\<lambda>f. f_UserID f = userID \<and> f_ConfirmedAt f = None)
       (\<lambda>f. f\<lparr>f_ConfirmedAt := Some now, f_RecoveryCodeHashes := hashes, f_LastUsedAt := Some used\<rparr>)"

definition ReplaceMfaRecoveryCodes :: "int \<Rightarrow> string list \<Rightarrow> session_db \<Rightarrow> bool \<times> session_db" where
  "ReplaceMfaRecoveryCodes userID hashes =
     update_factors (\<lambda>f. f_UserID f = userID \<and> f_ConfirmedAt f \<noteq> None) (\<lambda>f. f\<lparr>f_RecoveryCodeHashes := hashes\<rparr>)"

definition DeleteMfaFactorForUser :: "int \<Rightarrow> session_db \<Rightarrow> session_db" where
  "DeleteMfaFactorForUser userID db = db\<lparr>s_factors := filter (\<lambda>f. f_UserID f \<noteq> userID) (s_factors db)\<rparr>"

definition SetSessionTotpVerified :: "int \<Rightarrow> int \<Rightarrow> session_db \<Rightarrow> session_db" where
  "SetSessionTotpVerified now i = map_sessions (\<lambda>s. sn_ID s = i) (\<lambda>s. s\<lparr>sn_TotpVerifiedAt := Some now\<rparr>)"

section \<open>Opening a session\<close>

definition hasMFAFactor :: "login_env \<Rightarrow> int \<Rightarrow> session_db \<Rightarrow> bool" where
  "hasMFAFactor env userID db \<longleftrightarrow>
     (case answer (le_up env) CallFactorOpen (GetMfaFactorForUser userID db) of
        Some f \<Rightarrow> f_ConfirmedAt f \<noteq> None | None \<Rightarrow> False) \<or>
     (le_up env CallPasskeys \<and> CountPasskeysForUser userID db > 0)"

definition mfa_pending :: "login_env \<Rightarrow> int \<Rightarrow> bool \<Rightarrow> session_db \<Rightarrow> bool" where
  "mfa_pending env userID mfaSatisfied db \<longleftrightarrow>
     \<not> mfaSatisfied \<and>
     (case answer (le_up env) CallSettingsOpen (GetInstanceSettings db) of
        Some st \<Rightarrow> is_MfaRequired st \<and> \<not> hasMFAFactor env userID db | None \<Rightarrow> False)"

definition clientIP :: "string \<Rightarrow> addr option" where
  "clientIP remote = (case SplitHostPort remote of None \<Rightarrow> None | Some host \<Rightarrow> ParseAddr host)"

type_synonym login_result = "(login_error, BrowserSession \<times> string) result \<times> session_db"

definition Open :: "login_env \<Rightarrow> User \<Rightarrow> bool \<Rightarrow> session_db \<Rightarrow> login_result" where
  "Open env user mfaSatisfied db =
     (let preferred = (case u_LastTeamID user of None \<Rightarrow> 0 | Some t \<Rightarrow> t) in
      case answer (le_up env) CallMembership (GetTeamMembershipForUser (u_ID user) preferred db) of
        None \<Rightarrow> (Inl ErrNoTeam, db)
      | Some m \<Rightarrow>
          (case (le_token env 0, le_token env 1) of
             (Some token, Some csrf) \<Rightarrow>
               let pending = mfa_pending env (u_ID user) mfaSatisfied db in
               (case answer (le_up env) CallCreateSession
                       (CreateSession env (u_ID user) (le_hashToken env token) csrf (gm_TeamID m) (clientIP (le_remote env))
                          (le_agent env) (le_now env + Lifetime) pending db) of
                  None \<Rightarrow> (Inl ErrInternal, db)
                | Some (i, db') \<Rightarrow>
                    (Inr (\<lparr>bs_ID = i, bs_UserID = u_ID user, bs_TeamID = gm_TeamID m, bs_Email = u_Email user,
                           bs_Name = u_Name user, bs_CSRFToken = csrf, bs_Role = gm_Role m, bs_MFAPending = pending\<rparr>, token), db'))
           | _ \<Rightarrow> (Inl ErrInternal, db)))"

definition CreateChallenge :: "login_env \<Rightarrow> int \<Rightarrow> session_db \<Rightarrow> string option \<times> session_db" where
  "CreateChallenge env userID db =
     (let db1 = issue (le_up env) CallPurge (PurgeExpiredMfaChallenges (le_now env)) db in
      case le_token env 0 of
        None \<Rightarrow> (None, db1)
      | Some token \<Rightarrow>
          (case answer (le_up env) CallCreateChallenge
                  (CreateMfaChallenge (le_hashToken env token) userID (le_now env + ChallengeLifetime) db1) of
             None \<Rightarrow> (None, db1)
           | Some db2 \<Rightarrow> (Some token, db2)))"

section \<open>The password step\<close>

definition locked :: "int \<Rightarrow> User \<Rightarrow> bool" where
  "locked now u \<longleftrightarrow> (case u_LockedUntil u of None \<Rightarrow> False | Some l \<Rightarrow> l > now)"

text \<open>A failed attempt is recorded before it is answered.\<close>

definition refuse :: "login_env \<Rightarrow> int \<Rightarrow> login_error \<Rightarrow> session_db \<Rightarrow> login_error \<times> session_db" where
  "refuse env userID e db =
     (case answer (le_up env) CallRecordFailed (RecordFailedLogin (le_now env) userID db) of
        None \<Rightarrow> (ErrInternal, db)
      | Some db' \<Rightarrow> (e, db'))"

text \<open>What follows the read of the user, whose row may be older than the tables.\<close>

definition login_with :: "login_env \<Rightarrow> User \<Rightarrow> string \<Rightarrow> session_db \<Rightarrow> login_result" where
  "login_with env user plaintext db =
     (if locked (le_now env) user then (Inl ErrAccountLocked, db)
      else if (case answer (le_up env) CallSettings (GetInstanceSettings db) of
                 Some st \<Rightarrow> is_PasswordLoginDisabled st \<and> \<not> u_IsRoot user | None \<Rightarrow> False)
      then (Inl ErrPasswordLoginDisabled, db)
      else
        let hash = (case u_PasswordHash user of None \<Rightarrow> dummyHash | Some h \<Rightarrow> h) in
        if le_verify env plaintext hash \<noteq> Some True \<or> u_PasswordHash user = None
        then (case refuse env (u_ID user) ErrInvalidCredentials db of (e, db') \<Rightarrow> (Inl e, db'))
        else if (case answer (le_up env) CallFactor (GetMfaFactorForUser (u_ID user) db) of
                   Some f \<Rightarrow> f_ConfirmedAt f \<noteq> None | None \<Rightarrow> False)
        then (case CreateChallenge env (u_ID user) db of
                (None, db') \<Rightarrow> (Inl ErrInternal, db')
              | (Some challenge, db') \<Rightarrow> (Inl (ErrMFARequired challenge), db'))
        else if \<not> le_up env CallClearFailed then (Inl ErrInternal, db)
        else Open env user False (ClearFailedLogins (u_ID user) db))"

definition Login :: "login_env \<Rightarrow> string \<Rightarrow> string \<Rightarrow> session_db \<Rightarrow> login_result" where
  "Login env email plaintext db =
     (case answer (le_up env) CallUser (GetUserByEmail (ToLower (TrimSpace email)) db) of
        None \<Rightarrow> (Inl ErrInvalidCredentials, db)
      | Some user \<Rightarrow> login_with env user plaintext db)"

section \<open>The second factor\<close>

definition stepTime :: "int \<Rightarrow> int" where
  "stepTime step = step * (Period div second) * second"

definition hashRecoveryCode :: "login_env \<Rightarrow> string \<Rightarrow> string" where
  "hashRecoveryCode env code = le_hashCode env (ToLower (filter (\<lambda>c. c \<noteq> CHR ''-'' \<and> c \<noteq> CHR '' '') code))"

definition secretOf :: "login_env \<Rightarrow> MfaFactor \<Rightarrow> string option" where
  "secretOf env f = le_decrypt env (f_Uuid f) (f_SecretEnc f)"

text \<open>The check of the code itself: an error, or whether it was accepted.\<close>

definition check_code ::
  "login_env \<Rightarrow> MfaFactor \<Rightarrow> string \<Rightarrow> string \<Rightarrow> session_db \<Rightarrow> bool option \<times> session_db" where
  "check_code env f code recoveryCode db =
     (if recoveryCode \<noteq> []
      then (if \<not> le_up env CallRecovery then (None, db)
            else case ConsumeMfaRecoveryCode (f_ID f) (hashRecoveryCode env recoveryCode) db of (ok, db') \<Rightarrow> (Some ok, db'))
      else if code \<noteq> []
      then (case secretOf env f of
              None \<Rightarrow> (None, db)
            | Some secret \<Rightarrow>
                (case Validate_code (le_mac env) secret code (le_now env) of
                   None \<Rightarrow> (Some False, db)
                 | Some matched \<Rightarrow>
                     if \<not> le_up env CallTouchFactor then (None, db)
                     else case TouchMfaFactorUsed (f_ID f) (stepTime matched) db of (ok, db') \<Rightarrow> (Some ok, db')))
      else (Some False, db))"

definition redeemCode ::
  "login_env \<Rightarrow> User \<Rightarrow> string \<Rightarrow> string \<Rightarrow> session_db \<Rightarrow> login_error option \<times> session_db" where
  "redeemCode env user code recoveryCode db =
     (case answer (le_up env) CallFactor (GetMfaFactorForUser (u_ID user) db) of
        None \<Rightarrow> (Some ErrMFANotConfigured, db)
      | Some f \<Rightarrow>
          if f_ConfirmedAt f = None then (Some ErrMFANotConfigured, db)
          else case check_code env f code recoveryCode db of
            (None, db') \<Rightarrow> (Some ErrInternal, db')
          | (Some True, db') \<Rightarrow> (None, db')
          | (Some False, db') \<Rightarrow> (case refuse env (u_ID user) ErrMFACodeInvalid db' of (e, db'') \<Rightarrow> (Some e, db'')))"

definition VerifyLogin :: "login_env \<Rightarrow> string \<Rightarrow> string \<Rightarrow> string \<Rightarrow> session_db \<Rightarrow> login_result" where
  "VerifyLogin env challengeToken code recoveryCode db =
     (if challengeToken = [] then (Inl ErrMFAChallengeExpired, db)
      else case answer (le_up env) CallChallenge (GetMfaChallenge (le_now env) (le_hashToken env challengeToken) db) of
        None \<Rightarrow> (Inl ErrMFAChallengeExpired, db)
      | Some chal \<Rightarrow>
          (case answer (le_up env) CallUser (GetUserByID (ch_UserID chal) db) of
             None \<Rightarrow> (Inl ErrMFAChallengeExpired, db)
           | Some user \<Rightarrow>
               if locked (le_now env) user then (Inl ErrAccountLocked, db)
               else case redeemCode env user code recoveryCode db of
                 (Some e, db1) \<Rightarrow> (Inl (if e = ErrMFANotConfigured then ErrMFAChallengeExpired else e), db1)
               | (None, db1) \<Rightarrow>
                   (case answer (le_up env) CallConsume (ConsumeMfaChallenge (le_now env) (le_hashToken env challengeToken) db1) of
                      None \<Rightarrow> (Inl ErrMFAChallengeExpired, db1)
                    | Some db2 \<Rightarrow>
                        if \<not> le_up env CallClearFailed then (Inl ErrInternal, db2)
                        else Open env user True (ClearFailedLogins (u_ID user) db2))))"

text \<open>The guard that the operations on the factor of a known user share.\<close>

definition redeem_for ::
  "login_env \<Rightarrow> int \<Rightarrow> login_error \<Rightarrow> string \<Rightarrow> string \<Rightarrow> session_db \<Rightarrow> (login_error, User) result \<times> session_db" where
  "redeem_for env userID missing code recoveryCode db =
     (case answer (le_up env) CallUser (GetUserByID userID db) of
        None \<Rightarrow> (Inl missing, db)
      | Some user \<Rightarrow>
          if locked (le_now env) user then (Inl ErrAccountLocked, db)
          else case redeemCode env user code recoveryCode db of
            (Some e, db') \<Rightarrow> (Inl e, db')
          | (None, db') \<Rightarrow> (Inr user, db'))"

definition Disable :: "login_env \<Rightarrow> int \<Rightarrow> string \<Rightarrow> string \<Rightarrow> session_db \<Rightarrow> login_error option \<times> session_db" where
  "Disable env userID code recoveryCode db =
     (case redeem_for env userID ErrInternal code recoveryCode db of
        (Inl e, db') \<Rightarrow> (Some e, db')
      | (Inr _, db') \<Rightarrow>
          if le_up env CallDeleteFactor then (None, DeleteMfaFactorForUser userID db') else (Some ErrInternal, db'))"

definition StepUp :: "login_env \<Rightarrow> int \<Rightarrow> int \<Rightarrow> string \<Rightarrow> string \<Rightarrow> session_db \<Rightarrow> login_error option \<times> session_db" where
  "StepUp env sessionID userID code recoveryCode db =
     (case redeem_for env userID ErrMFANotConfigured code recoveryCode db of
        (Inl e, db') \<Rightarrow> (Some e, db')
      | (Inr user, db') \<Rightarrow>
          if \<not> le_up env CallClearFailed then (Some ErrInternal, db')
          else
            let db2 = ClearFailedLogins (u_ID user) db' in
            if le_up env CallTotpVerified then (None, SetSessionTotpVerified (le_now env) sessionID db2) else (Some ErrInternal, db2))"

subsection \<open>Enrolment and recovery codes\<close>

definition hex_char :: "nat \<Rightarrow> char" where
  "hex_char n = ''0123456789abcdef'' ! n"

definition hex_string :: "byte list \<Rightarrow> string" where
  "hex_string bs = concat (map (\<lambda>b. [hex_char (unat b div 16), hex_char (unat b mod 16)]) bs)"

text \<open>The \<open>i\<close>-th draw of the random source gives the \<open>i\<close>-th code; one error ends the loop.\<close>

definition recovery_code :: "byte list \<Rightarrow> string" where
  "recovery_code raw = (let h = hex_string raw in take 8 h @ ''-'' @ drop 8 h)"

definition newRecoveryCodes :: "login_env \<Rightarrow> (string list \<times> string list) option" where
  "newRecoveryCodes env =
     (let draws = map (\<lambda>i. le_raw env i recoveryCodeBytes) [0..<RecoveryCodeCount] in
      if None \<in> set draws then None
      else let codes = map (recovery_code \<circ> the) draws in Some (codes, map (hashRecoveryCode env) codes))"

definition Setup :: "login_env \<Rightarrow> int \<Rightarrow> session_db \<Rightarrow> (login_error, string) result \<times> session_db" where
  "Setup env userID db =
     (case answer (le_up env) CallUser (GetUserByID userID db) of
        None \<Rightarrow> (Inl ErrInternal, db)
      | Some user \<Rightarrow>
          (case (GenerateSecret (le_secret env), le_uuid env) of
             (Some secret, Some u) \<Rightarrow>
               (case le_encrypt env u secret of
                  None \<Rightarrow> (Inl ErrInternal, db)
                | Some enc \<Rightarrow>
                    if \<not> le_up env CallUpsertFactor then (Inl ErrInternal, db)
                    else case UpsertUnconfirmedMfaFactor u userID enc db of
                      None \<Rightarrow> (Inl ErrMFAAlreadyEnabled, db)
                    | Some db' \<Rightarrow> (Inr secret, db'))
           | _ \<Rightarrow> (Inl ErrInternal, db)))"

definition Confirm :: "login_env \<Rightarrow> int \<Rightarrow> string \<Rightarrow> session_db \<Rightarrow> (login_error, string list) result \<times> session_db" where
  "Confirm env userID code db =
     (if \<not> le_up env CallFactor then (Inl ErrInternal, db)
      else case GetMfaFactorForUser userID db of
        None \<Rightarrow> (Inl ErrMFANotConfigured, db)
      | Some f \<Rightarrow>
          if f_ConfirmedAt f \<noteq> None then (Inl ErrMFAAlreadyEnabled, db)
          else case secretOf env f of
            None \<Rightarrow> (Inl ErrInternal, db)
          | Some secret \<Rightarrow>
              (case Validate_code (le_mac env) secret code (le_now env) of
                 None \<Rightarrow> (Inl ErrMFACodeInvalid, db)
               | Some matched \<Rightarrow>
                   (case newRecoveryCodes env of
                      None \<Rightarrow> (Inl ErrInternal, db)
                    | Some (codes, hashes) \<Rightarrow>
                        if \<not> le_up env CallConfirm then (Inl ErrInternal, db)
                        else case ConfirmMfaFactor (le_now env) userID hashes (stepTime matched) db of
                          (ok, db') \<Rightarrow> if ok then (Inr codes, db') else (Inl ErrMFAAlreadyEnabled, db'))))"

definition RegenerateRecoveryCodes ::
  "login_env \<Rightarrow> int \<Rightarrow> string \<Rightarrow> session_db \<Rightarrow> (login_error, string list) result \<times> session_db" where
  "RegenerateRecoveryCodes env userID code db =
     (case redeem_for env userID ErrInternal code [] db of
        (Inl e, db') \<Rightarrow> (Inl e, db')
      | (Inr user, db') \<Rightarrow>
          (case newRecoveryCodes env of
             None \<Rightarrow> (Inl ErrInternal, db')
           | Some (codes, hashes) \<Rightarrow>
               if \<not> le_up env CallReplaceCodes then (Inl ErrInternal, db')
               else case ReplaceMfaRecoveryCodes userID hashes db' of
                 (ok, db'') \<Rightarrow> if ok then (Inr codes, db'') else (Inl ErrMFANotConfigured, db'')))"

section \<open>Facts\<close>

lemma answer_None [simp]: "answer up c x = None \<longleftrightarrow> \<not> up c \<or> x = None"
  by (simp add: answer_def)

lemma find_total: "x \<in> set xs \<Longrightarrow> P x \<Longrightarrow> \<exists>y. find P xs = Some y"
  by (metis find_None_iff not_None_eq)

lemma frame_users [simp]:
  "s_sessions (map_users P f db) = s_sessions db" "s_teams (map_users P f db) = s_teams db"
  "s_members (map_users P f db) = s_members db" "s_roles (map_users P f db) = s_roles db"
  "s_next_session (map_users P f db) = s_next_session db" "s_factors (map_users P f db) = s_factors db"
  "s_challenges (map_users P f db) = s_challenges db" "s_settings (map_users P f db) = s_settings db"
  "s_passkeys (map_users P f db) = s_passkeys db"
  by (simp_all add: map_users_def)

lemma s_users_map_users: "s_users (map_users P f db) = map (\<lambda>u. if P u then f u else u) (s_users db)"
  by (simp add: map_users_def)

text \<open>A session is opened in one way.\<close>

lemma Open_opened:
  assumes "Open env user sat db = (Inr (sess, token), db')"
  obtains m csrf row where
    "GetTeamMembershipForUser (u_ID user) (case u_LastTeamID user of None \<Rightarrow> 0 | Some t \<Rightarrow> t) db = Some m"
    "s_sessions db' = s_sessions db @ [row]" "s_users db' = s_users db" "s_members db' = s_members db" "s_teams db' = s_teams db"
    "s_roles db' = s_roles db" "s_factors db' = s_factors db" "s_challenges db' = s_challenges db"
    "\<forall>s \<in> set (s_sessions db). sn_TokenHash s \<noteq> le_hashToken env token"
    "sn_TokenHash row = le_hashToken env token" "sn_UserID row = u_ID user" "sn_CurrentTeamID row = Some (gm_TeamID m)"
    "sn_ExpiresAt row = le_now env + Lifetime" "sn_RevokedAt row = None" "sn_CsrfToken row = Some (bs_CSRFToken sess)"
    "sn_MfaPending row = bs_MFAPending sess" "sn_ViewAsRole row = None" "sn_ViewAsCustomRoleID row = None"
    "sn_ID row = bs_ID sess"
    "bs_UserID sess = u_ID user" "bs_TeamID sess = gm_TeamID m" "bs_MFAPending sess = mfa_pending env (u_ID user) sat db"
  using assms
  by (auto simp: Open_def CreateSession_def Let_def list_ex_iff split: option.splits if_splits prod.splits)

lemma membership_exists:
  assumes "(m, t) \<in> set (live_memberships i db)" "u \<in> set (s_users db)" "u_ID u = i"
  shows "\<exists>r. GetTeamMembershipForUser i preferred db = Some r"
proof -
  define os where "os = filter (\<lambda>(m, t). mb_team_id m = preferred) (live_memberships i db)
    @ sort_key (\<lambda>(m, t). mb_team_id m) (filter (\<lambda>(m, t). mb_team_id m \<noteq> preferred) (live_memberships i db))"
  have "(m, t) \<in> set os" using assms(1) by (auto simp: os_def)
  then obtain y ys where o: "os = y # ys" by (cases os) simp_all
  obtain u' where u': "find (\<lambda>u. u_ID u = i) (s_users db) = Some u'" using find_total [of u "s_users db" "\<lambda>u. u_ID u = i"] assms(2,3) by blast
  show ?thesis by (cases y) (simp add: GetTeamMembershipForUser_def Let_def os_def [symmetric] o u')
qed

text \<open>The token of a session just opened authenticates its user, in the team it was opened on.\<close>

lemma opened_authenticates:
  assumes "Open env user sat db = (Inr (sess, token), db')" and user: "u \<in> set (s_users db)" "u_ID u = u_ID user" "u_DeletedAt u = None"
    and "token \<noteq> []" "t < le_now env + Lifetime" "up CallSession" "up CallMembership"
  shows "\<exists>ident db''. Authenticate (le_hashToken env) up t token db' = (Some ident, db'') \<and> UserID ident = Some (u_ID user) \<and>
    TeamID ident = bs_TeamID sess \<and> MFAPending ident = bs_MFAPending sess \<and> ViewAs ident = []"
proof -
  from assms(1) obtain m csrf row where o:
    "GetTeamMembershipForUser (u_ID user) (case u_LastTeamID user of None \<Rightarrow> 0 | Some t \<Rightarrow> t) db = Some m"
    "s_sessions db' = s_sessions db @ [row]" "s_users db' = s_users db" "s_members db' = s_members db" "s_teams db' = s_teams db"
    "\<forall>s \<in> set (s_sessions db). sn_TokenHash s \<noteq> le_hashToken env token"
    "sn_TokenHash row = le_hashToken env token" "sn_UserID row = u_ID user" "sn_CurrentTeamID row = Some (gm_TeamID m)"
    "sn_ExpiresAt row = le_now env + Lifetime" "sn_RevokedAt row = None" "sn_MfaPending row = bs_MFAPending sess"
    "sn_ViewAsRole row = None" "sn_ViewAsCustomRoleID row = None" "bs_TeamID sess = gm_TeamID m"
    by (rule Open_opened) blast
  from o(1) obtain mm tt where mm: "(mm, tt) \<in> set (live_memberships (u_ID user) db)" "gm_TeamID m = mb_team_id mm"
    by (rule membership_row)
  define db2 where "db2 = issue up CallTouch (TouchSession t (sn_ID row)) db'"
  have live: "live_memberships i db2 = live_memberships i db" for i
    by (simp add: db2_def live_memberships_def o)
  have users: "s_users db2 = s_users db" by (simp add: db2_def o)
  have find: "GetSessionByTokenHash t (le_hashToken env token) db' = Some row"
    unfolding GetSessionByTokenHash_def o(2) find_append
    using assms(6) user o(3,6-11) by (auto simp: list_ex_iff find_None_iff split: option.splits dest!: find_SomeD)
  obtain r where r: "GetTeamMembershipForUser (u_ID user) (gm_TeamID m) db2 = Some r"
    using membership_exists [of mm tt "u_ID user" db2 u "gm_TeamID m"] mm(1) user unfolding live users by blast
  from r have team: "gm_TeamID r = gm_TeamID m"
    by (rule membership_row) (use mm in \<open>force simp: live\<close>)
  show ?thesis
    using find r team assms(5,7,8) o
    by (simp add: Authenticate_def Let_def session_identity_def narrowToViewAs_def answer_def db2_def [symmetric])
qed

lemma found_user:
  "GetUserByEmail email db = Some u \<Longrightarrow> u \<in> set (s_users db) \<and> ToLower (u_Email u) = ToLower email \<and> u_DeletedAt u = None"
  "GetUserByID i db = Some u \<Longrightarrow> u \<in> set (s_users db) \<and> u_ID u = i \<and> u_DeletedAt u = None"
proof -
  show "u \<in> set (s_users db) \<and> ToLower (u_Email u) = ToLower email \<and> u_DeletedAt u = None" if "GetUserByEmail email db = Some u"
    using find_SomeD [OF that [unfolded GetUserByEmail_def]] .
  show "u \<in> set (s_users db) \<and> u_ID u = i \<and> u_DeletedAt u = None" if "GetUserByID i db = Some u"
    using find_SomeD [OF that [unfolded GetUserByID_def]] .
qed

lemma cleared_users:
  "u \<in> set (s_users (ClearFailedLogins i db)) \<Longrightarrow> u_ID u = i \<Longrightarrow> u_FailedLoginCount u = 0 \<and> u_LockedUntil u = None"
  "u \<in> set (s_users db) \<Longrightarrow> u_ID u = i \<Longrightarrow> u\<lparr>u_FailedLoginCount := 0, u_LockedUntil := None\<rparr> \<in> set (s_users (ClearFailedLogins i db))"
proof -
  show "u_FailedLoginCount u = 0 \<and> u_LockedUntil u = None" if "u \<in> set (s_users (ClearFailedLogins i db))" "u_ID u = i"
  proof -
    from that(1) obtain u0 where u0: "u = (if u_ID u0 = i then u0\<lparr>u_FailedLoginCount := 0, u_LockedUntil := None\<rparr> else u0)"
      unfolding ClearFailedLogins_def s_users_map_users set_map by (elim imageE)
    show ?thesis using that(2) by (cases "u_ID u0 = i") (simp_all add: u0)
  qed
  show "u\<lparr>u_FailedLoginCount := 0, u_LockedUntil := None\<rparr> \<in> set (s_users (ClearFailedLogins i db))" if "u \<in> set (s_users db)" "u_ID u = i"
    unfolding ClearFailedLogins_def s_users_map_users set_map using that by (intro rev_image_eqI [of u]) simp_all
qed

lemma clear_frame [simp]:
  "s_sessions (ClearFailedLogins i db) = s_sessions db" "s_settings (ClearFailedLogins i db) = s_settings db"
  "s_factors (ClearFailedLogins i db) = s_factors db" "s_challenges (ClearFailedLogins i db) = s_challenges db"
  "s_passkeys (ClearFailedLogins i db) = s_passkeys db"
  by (simp_all add: ClearFailedLogins_def)

lemma login_with_opened:
  assumes "login_with env user plaintext db = (Inr (sess, token), db')"
  shows "\<not> locked (le_now env) user" "\<exists>h. u_PasswordHash user = Some h \<and> le_verify env plaintext h = Some True"
    "le_up env CallSettings \<Longrightarrow> s_settings db = Some st \<Longrightarrow> is_PasswordLoginDisabled st \<Longrightarrow> u_IsRoot user"
    "le_up env CallFactor \<Longrightarrow> GetMfaFactorForUser (u_ID user) db = Some f \<Longrightarrow> f_ConfirmedAt f = None"
    "Open env user False (ClearFailedLogins (u_ID user) db) = (Inr (sess, token), db')"
  using assms
  by (auto simp: login_with_def Let_def answer_def GetInstanceSettings_def split: if_splits option.splits prod.splits)

text \<open>C10: A password login that opens a session was made for an account that exists and is not locked, with its
  password, not with single sign-on required unless by the instance root, and without a confirmed second factor (the last
  two as far as the database answered).  It appends one session, of that user, that expires after twelve hours and is
  pending exactly when a factor is required and missing; the failed attempts are forgotten; and the token it returns
  authenticates the user, in the team it names, until the session expires.\<close>

theorem login_opens:
  assumes "Login env email plaintext db = (Inr (sess, token), db')"
  shows "\<exists>user \<in> set (s_users db).
    ToLower (u_Email user) = ToLower (ToLower (TrimSpace email)) \<and> u_DeletedAt user = None \<and> \<not> locked (le_now env) user \<and>
    (\<exists>h. u_PasswordHash user = Some h \<and> le_verify env plaintext h = Some True) \<and>
    (le_up env CallSettings \<longrightarrow> (\<forall>st. s_settings db = Some st \<longrightarrow> is_PasswordLoginDisabled st \<longrightarrow> u_IsRoot user)) \<and>
    (le_up env CallFactor \<longrightarrow> (\<forall>f. GetMfaFactorForUser (u_ID user) db = Some f \<longrightarrow> f_ConfirmedAt f = None)) \<and>
    (\<exists>row. s_sessions db' = s_sessions db @ [row] \<and> sn_UserID row = u_ID user \<and> sn_ExpiresAt row = le_now env + Lifetime \<and>
       sn_TokenHash row = le_hashToken env token \<and> sn_MfaPending row = mfa_pending env (u_ID user) False db) \<and>
    (\<forall>u \<in> set (s_users db'). u_ID u = u_ID user \<longrightarrow> u_FailedLoginCount u = 0 \<and> \<not> locked (le_now env) u) \<and>
    (\<forall>t up. token \<noteq> [] \<longrightarrow> t < le_now env + Lifetime \<longrightarrow> up CallSession \<longrightarrow> up CallMembership \<longrightarrow>
       (\<exists>ident db''. Authenticate (le_hashToken env) up t token db' = (Some ident, db'') \<and> UserID ident = Some (u_ID user) \<and>
          TeamID ident = bs_TeamID sess \<and> MFAPending ident = bs_MFAPending sess \<and> ViewAs ident = []))"
proof -
  from assms obtain user where u: "GetUserByEmail (ToLower (TrimSpace email)) db = Some user"
    and l: "login_with env user plaintext db = (Inr (sess, token), db')"
    by (auto simp: Login_def split: option.splits)
  note user = found_user(1) [OF u] and w = login_with_opened [OF l]
  let ?db1 = "ClearFailedLogins (u_ID user) db"
  from w(5) obtain m csrf row where o: "s_sessions db' = s_sessions ?db1 @ [row]" "s_users db' = s_users ?db1"
    "sn_TokenHash row = le_hashToken env token" "sn_UserID row = u_ID user" "sn_ExpiresAt row = le_now env + Lifetime"
    "sn_MfaPending row = bs_MFAPending sess" "bs_MFAPending sess = mfa_pending env (u_ID user) False ?db1"
    by (rule Open_opened) blast
  have pending: "mfa_pending env (u_ID user) False ?db1 = mfa_pending env (u_ID user) False db"
  proof -
    have "hasMFAFactor env (u_ID user) ?db1 = hasMFAFactor env (u_ID user) db"
      by (simp add: hasMFAFactor_def GetMfaFactorForUser_def CountPasskeysForUser_def)
    then show ?thesis by (simp add: mfa_pending_def GetInstanceSettings_def split: option.split)
  qed
  have auth: "\<exists>ident db''. Authenticate (le_hashToken env) up t token db' = (Some ident, db'') \<and> UserID ident = Some (u_ID user) \<and>
      TeamID ident = bs_TeamID sess \<and> MFAPending ident = bs_MFAPending sess \<and> ViewAs ident = []"
    if "token \<noteq> []" "t < le_now env + Lifetime" "up CallSession" "up CallMembership" for t up
    using opened_authenticates [OF w(5) cleared_users(2) [of user] _ _ that] user by simp
  have clear: "u_FailedLoginCount u = 0 \<and> \<not> locked (le_now env) u" if "u \<in> set (s_users db')" "u_ID u = u_ID user" for u
    using cleared_users(1) that by (auto simp: o(2) locked_def)
  show ?thesis
    using user w(1-4) o pending auth clear by (intro bexI [of _ user]) auto
qed

section \<open>Attempts and the lockout\<close>

text \<open>What an operation does to the accounts: nothing that concerns the lockout, forget the failed attempts of one, or
  record a failed attempt against one that is not locked.\<close>

definition same_attempts :: "User \<Rightarrow> User \<Rightarrow> bool" where
  "same_attempts u u' \<longleftrightarrow> u_ID u' = u_ID u \<and> u_FailedLoginCount u' = u_FailedLoginCount u \<and> u_LockedUntil u' = u_LockedUntil u"

definition users_effect :: "int \<Rightarrow> User list \<Rightarrow> User list \<Rightarrow> bool" where
  "users_effect now us us' \<longleftrightarrow>
     list_all2 same_attempts us us' \<or>
     (\<exists>i. us' = map (\<lambda>u. if u_ID u = i then u\<lparr>u_FailedLoginCount := 0, u_LockedUntil := None\<rparr> else u) us) \<or>
     (\<exists>user \<in> set us. \<not> locked now user \<and> us' = map (\<lambda>u. if u_ID u = u_ID user then failed_login now u else u) us)"

lemma same_effect [simp]: "users_effect now us us"
  by (simp add: users_effect_def same_attempts_def list.rel_refl)

lemma clear_effect: "s_users db = us \<Longrightarrow> users_effect now us (s_users (ClearFailedLogins i db))"
  by (auto simp: users_effect_def ClearFailedLogins_def s_users_map_users)

lemma refuse_users:
  assumes "refuse env i e db = (e', db')"
  shows "s_users db' = s_users db \<or> s_users db' = map (\<lambda>u. if u_ID u = i then failed_login (le_now env) u else u) (s_users db)"
  using assms by (auto simp: refuse_def RecordFailedLogin_def s_users_map_users split: option.splits if_splits)

lemma refuse_effect:
  assumes "refuse env (u_ID user) e db = (e', db')" "user \<in> set (s_users db)" "\<not> locked (le_now env) user"
  shows "users_effect (le_now env) (s_users db) (s_users db')"
  using refuse_users [OF assms(1)] assms(2,3) by (auto simp: users_effect_def same_attempts_def list.rel_refl)

lemma Open_users: "Open env user sat db = (r, db') \<Longrightarrow> s_users db' = s_users db"
  by (auto simp: Open_def CreateSession_def Let_def split: option.splits prod.splits if_splits)

lemma factors_frame [simp]: "s_users (snd (update_factors P f db)) = s_users db"
  by (simp add: update_factors_def)

lemma update_factors_users: "update_factors P f db = (ok, db') \<Longrightarrow> s_users db' = s_users db"
  by (auto simp: update_factors_def)

lemma check_code_users: "check_code env f code rec db = (ok, db') \<Longrightarrow> s_users db' = s_users db"
  by (auto simp: check_code_def ConsumeMfaRecoveryCode_def TouchMfaFactorUsed_def dest: update_factors_users
      split: if_splits option.splits prod.splits)

lemma CreateChallenge_users: "CreateChallenge env i db = (r, db') \<Longrightarrow> s_users db' = s_users db"
  by (auto simp: CreateChallenge_def CreateMfaChallenge_def PurgeExpiredMfaChallenges_def issue_def Let_def
      split: option.splits if_splits)

lemma login_with_effect:
  assumes "login_with env user plaintext db = (r, db')" "user \<in> set (s_users db)"
  shows "users_effect (le_now env) (s_users db) (s_users db')"
  using assms clear_effect [OF refl, of "le_now env" db "u_ID user"]
  by (auto simp: login_with_def Let_def dest: refuse_effect [rotated -1] dest!: Open_users CreateChallenge_users
      split: if_splits option.splits prod.splits)

lemma redeemCode_effect:
  assumes "redeemCode env user code rec db = (e, db')" "user \<in> set (s_users db)" "\<not> locked (le_now env) user"
  shows "users_effect (le_now env) (s_users db) (s_users db')" "e = None \<Longrightarrow> s_users db' = s_users db"
proof -
  have "e = None \<and> s_users db' = s_users db \<or> users_effect (le_now env) (s_users db) (s_users db') \<and> e \<noteq> None"
  proof (cases "answer (le_up env) CallFactor (GetMfaFactorForUser (u_ID user) db)")
    case None
    with assms(1) show ?thesis by (auto simp: redeemCode_def)
  next
    case (Some f)
    obtain ok db1 where c: "check_code env f code rec db = (ok, db1)" by fastforce
    note same = check_code_users [OF c]
    show ?thesis
    proof (cases "f_ConfirmedAt f = None \<or> ok \<noteq> Some False")
      case True
      with assms(1) Some c same show ?thesis by (auto simp: redeemCode_def split: option.splits bool.splits if_splits)
    next
      case False
      with assms(1) Some c obtain e' where "refuse env (u_ID user) ErrMFACodeInvalid db1 = (e', db')" "e = Some e'"
        by (auto simp: redeemCode_def split: prod.splits)
      with refuse_effect [of env user ErrMFACodeInvalid db1 e' db'] same assms(2,3) show ?thesis by simp
    qed
  qed
  then show "users_effect (le_now env) (s_users db) (s_users db')" "e = None \<Longrightarrow> s_users db' = s_users db"
    by auto
qed

lemma redeem_for_effect:
  assumes "redeem_for env i missing code rec db = (r, db')"
  shows "users_effect (le_now env) (s_users db) (s_users db')" "r = Inr user \<Longrightarrow> s_users db' = s_users db"
proof -
  have "users_effect (le_now env) (s_users db) (s_users db') \<and> (\<forall>user. r = Inr user \<longrightarrow> s_users db' = s_users db)"
    using assms redeemCode_effect(2) [of env _ code rec db None db']
    by (auto simp: redeem_for_def dest: redeemCode_effect(1) dest!: found_user(2) split: if_splits option.splits prod.splits)
  then show "users_effect (le_now env) (s_users db) (s_users db')" "r = Inr user \<Longrightarrow> s_users db' = s_users db"
    by blast+
qed

section \<open>Runs\<close>

text \<open>The operations that a request may carry out, one after the other, whatever statements fail.\<close>

inductive auth_step :: "login_env \<Rightarrow> session_db \<Rightarrow> session_db \<Rightarrow> bool" where
  login: "Login env email plaintext db = (r, db') \<Longrightarrow> auth_step env db db'"
| verify: "VerifyLogin env challenge code recoveryCode db = (r, db') \<Longrightarrow> auth_step env db db'"
| step_up: "StepUp env sessionID userID code recoveryCode db = (e, db') \<Longrightarrow> auth_step env db db'"
| disable: "Disable env userID code recoveryCode db = (e, db') \<Longrightarrow> auth_step env db db'"
| regenerate: "RegenerateRecoveryCodes env userID code db = (c, db') \<Longrightarrow> auth_step env db db'"
| enrol: "Setup env userID db = (s, db') \<Longrightarrow> auth_step env db db'"
| confirm: "Confirm env userID code db = (c, db') \<Longrightarrow> auth_step env db db'"
| authenticate: "Authenticate (le_hashToken env) (le_up env) (le_now env) cookie db = (i, db') \<Longrightarrow> auth_step env db db'"
| logout: "Logout (le_hashToken env) (le_up env) (le_now env) cookie db = db' \<Longrightarrow> auth_step env db db'"
| switch: "SwitchTeam (le_up env) userID sessionID teamUUID db = (t, db') \<Longrightarrow> auth_step env db db'"
| view_as: "SetViewAs scan (le_up env) userID sessionID preferred role custom db = (v, db') \<Longrightarrow> auth_step env db db'"

inductive auth_run :: "int \<Rightarrow> session_db \<Rightarrow> int \<Rightarrow> session_db \<Rightarrow> bool" for t0 db0 where
  start: "auth_run t0 db0 t0 db0"
| op: "auth_run t0 db0 t db \<Longrightarrow> t \<le> le_now env \<Longrightarrow> auth_step env db db' \<Longrightarrow> auth_run t0 db0 (le_now env) db'"
| wait: "auth_run t0 db0 t db \<Longrightarrow> t \<le> t' \<Longrightarrow> auth_run t0 db0 t' db"

lemma VerifyLogin_effect:
  assumes "VerifyLogin env challenge code rec db = (r, db')"
  shows "users_effect (le_now env) (s_users db) (s_users db')"
proof -
  have clear: "users_effect (le_now env) (s_users db) (s_users (ClearFailedLogins i db2))" if "s_users db2 = s_users db" for i db2
    by (rule clear_effect) (rule that)
  have consume: "s_users db2 = s_users db1" if "ConsumeMfaChallenge now h db1 = Some db2" for now h db1 db2
    using that by (auto simp: ConsumeMfaChallenge_def split: if_splits)
  show ?thesis
    using assms redeemCode_effect(2) [of env _ code rec db None]
    by (auto simp: VerifyLogin_def clear dest!: Open_users consume dest: redeemCode_effect(1) found_user(2)
        split: if_splits option.splits prod.splits)
qed

lemma same_attempts_effect: "list_all2 same_attempts us us' \<Longrightarrow> users_effect now us us'"
  by (simp add: users_effect_def)

lemma SwitchTeam_effect:
  "SwitchTeam up userID sessionID teamUUID db = (t, db') \<Longrightarrow> users_effect now (s_users db) (s_users db')"
  by (auto simp: SwitchTeam_def SetSessionCurrentTeam_def SetSessionViewAs_def SetUserLastTeam_def issue_def Let_def
      s_users_map_users same_attempts_def list.rel_map list.rel_refl intro!: same_attempts_effect
      split: if_splits option.splits prod.splits)

lemma auth_step_effect:
  assumes "auth_step env db db'"
  shows "users_effect (le_now env) (s_users db) (s_users db')"
  using assms
proof cases
  case (login email plaintext r)
  then show ?thesis
    by (auto simp: Login_def split: option.splits dest!: found_user(1) dest: login_with_effect)
next
  case (verify challenge code recoveryCode r)
  then show ?thesis by (rule VerifyLogin_effect)
next
  case (step_up sessionID userID code recoveryCode e)
  then show ?thesis
    by (auto simp: StepUp_def SetSessionTotpVerified_def Let_def dest: redeem_for_effect(1) intro!: clear_effect [OF redeem_for_effect(2) [OF _ refl]]
        split: if_splits sum.splits prod.splits)
next
  case (disable userID code recoveryCode e)
  then show ?thesis
    by (auto simp: Disable_def DeleteMfaFactorForUser_def dest: redeem_for_effect split: if_splits sum.splits prod.splits)
next
  case (regenerate userID code c)
  then show ?thesis
    by (auto simp: RegenerateRecoveryCodes_def ReplaceMfaRecoveryCodes_def dest: redeem_for_effect dest!: update_factors_users
        split: if_splits sum.splits prod.splits option.splits)
next
  case (enrol userID s)
  then show ?thesis
    by (auto simp: Setup_def UpsertUnconfirmedMfaFactor_def split: option.splits prod.splits if_splits)
next
  case (confirm userID code c)
  then show ?thesis
    by (auto simp: Confirm_def ConfirmMfaFactor_def dest!: update_factors_users split: option.splits prod.splits if_splits)
next
  case (authenticate cookie i)
  then show ?thesis by (auto simp: Authenticate_def Let_def split: if_splits option.splits)
next
  case (logout cookie)
  then show ?thesis by (auto simp: Logout_def issue_def RevokeSession_def split: if_splits option.splits)
next
  case (switch userID sessionID teamUUID t)
  then show ?thesis by (rule SwitchTeam_effect)
next
  case (view_as scan userID sessionID preferred role custom v)
  then show ?thesis
    by (auto simp: SetViewAs_def SetSessionViewAs_def Let_def split: if_splits option.splits prod.splits)
qed

text \<open>The state of an account whose attempts began at \<open>t0\<close>: from the fifth on, every failed attempt has waited for
  the end of a lock.\<close>

abbreviation lock_time :: int where "lock_time \<equiv> LockoutMinutes * 60 * second"

definition within_budget :: "int \<Rightarrow> int \<Rightarrow> User \<Rightarrow> bool" where
  "within_budget t0 now u \<longleftrightarrow>
     0 \<le> u_FailedLoginCount u \<and>
     (u_FailedLoginCount u \<ge> MaxFailedLogins \<longrightarrow>
        (\<exists>l. u_LockedUntil u = Some l \<and> t0 + (u_FailedLoginCount u - (MaxFailedLogins - 1)) * lock_time \<le> l \<and> l \<le> now + lock_time))"

lemma within_budget_later: "within_budget t0 now u \<Longrightarrow> now \<le> now' \<Longrightarrow> within_budget t0 now' u"
  by (auto simp: within_budget_def)

lemma within_budget_failed:
  assumes "within_budget t0 now u" "\<not> locked now u" "t0 \<le> now"
  shows "within_budget t0 now (failed_login now u)"
proof (cases "u_FailedLoginCount u \<ge> MaxFailedLogins")
  case True
  with assms obtain l where l: "u_LockedUntil u = Some l" "t0 + (u_FailedLoginCount u - (MaxFailedLogins - 1)) * lock_time \<le> l" "l \<le> now"
    by (auto simp: within_budget_def locked_def)
  then show ?thesis using assms(1) True
    by (auto simp: within_budget_def failed_login_def algebra_simps)
next
  case False
  with assms(1,3) show ?thesis
    by (auto simp: within_budget_def failed_login_def MaxFailedLogins_def LockoutMinutes_def)
qed

lemma effect_ids: "users_effect now us us' \<Longrightarrow> map u_ID us' = map u_ID us"
  by (auto simp: users_effect_def same_attempts_def failed_login_def list_all2_conv_all_nth list_eq_iff_nth_eq)

lemma effect_budget:
  assumes "users_effect now us us'" "\<forall>u \<in> set us. within_budget t0 now u" "distinct (map u_ID us)" "t0 \<le> now"
  shows "\<forall>u \<in> set us'. within_budget t0 now u"
  using assms(1) unfolding users_effect_def
proof (elim disjE exE bexE conjE)
  assume "list_all2 same_attempts us us'"
  then show ?thesis using assms(2)
    by (fastforce simp: list_all2_conv_all_nth in_set_conv_nth same_attempts_def within_budget_def)
next
  fix i assume "us' = map (\<lambda>u. if u_ID u = i then u\<lparr>u_FailedLoginCount := 0, u_LockedUntil := None\<rparr> else u) us"
  then show ?thesis using assms(2) by (auto simp: within_budget_def MaxFailedLogins_def)
next
  fix user assume user: "user \<in> set us" "\<not> locked now user"
    and us': "us' = map (\<lambda>u. if u_ID u = u_ID user then failed_login now u else u) us"
  have "u = user" if "u \<in> set us" "u_ID u = u_ID user" for u
    using assms(3) that user(1) by (auto simp: distinct_map inj_on_def)
  then show ?thesis using assms(2,4) user us' by (auto intro: within_budget_failed)
qed

lemma run_budget:
  assumes "auth_run t0 db0 now db" "distinct (map u_ID (s_users db0))" "\<forall>u \<in> set (s_users db0). u_FailedLoginCount u \<in> {0..<MaxFailedLogins}"
  shows "t0 \<le> now \<and> distinct (map u_ID (s_users db)) \<and> (\<forall>u \<in> set (s_users db). within_budget t0 now u)"
  using assms(1)
proof induction
  case start
  then show ?case using assms(2,3) by (auto simp: within_budget_def)
next
  case (op t db env db')
  note e = auth_step_effect [OF op.hyps(3)]
  have "\<forall>u \<in> set (s_users db). within_budget t0 (le_now env) u"
    using op.IH op.hyps(2) within_budget_later by blast
  with e op show ?case using effect_budget [OF e] effect_ids [OF e] by simp
next
  case (wait t db t')
  then show ?case using within_budget_later by force
qed

text \<open>While an account is locked nothing is tried against it.\<close>

lemma locked_login:
  assumes "GetUserByEmail (ToLower (TrimSpace email)) db = Some u" "locked (le_now env) u"
  shows "Login env email plaintext db = (Inl (if le_up env CallUser then ErrAccountLocked else ErrInvalidCredentials), db)"
  using assms by (simp add: Login_def login_with_def answer_def)


section \<open>One-time codes\<close>

text \<open>A factor that has accepted a step: as long as it exists it stays confirmed, and its last step does not decrease.\<close>

definition burnt :: "int \<Rightarrow> int \<Rightarrow> session_db \<Rightarrow> bool" where
  "burnt i used db \<longleftrightarrow>
     i < s_next_factor db \<and>
     (\<forall>f \<in> set (s_factors db). f_ID f = i \<longrightarrow> f_ConfirmedAt f \<noteq> None \<and> (\<exists>l. f_LastUsedAt f = Some l \<and> used \<le> l))"

definition same_factors :: "session_db \<Rightarrow> session_db \<Rightarrow> bool" where
  "same_factors db db' \<longleftrightarrow> s_factors db' = s_factors db \<and> s_next_factor db' = s_next_factor db"

lemma same_factors_burnt: "same_factors db db' \<Longrightarrow> burnt i used db \<Longrightarrow> burnt i used db'"
  by (simp add: same_factors_def burnt_def)

lemma same_factors_refl [simp]: "same_factors db db"
  by (simp add: same_factors_def)

lemma same_factors_trans: "same_factors a b \<Longrightarrow> same_factors b c \<Longrightarrow> same_factors a c"
  by (simp add: same_factors_def)

lemma same_factors_simps [simp]:
  "same_factors db (map_users P f db)" "same_factors db (map_sessions Q g db)" "same_factors db (ClearFailedLogins i db)"
  "same_factors db (PurgeExpiredMfaChallenges now db)" "same_factors db (SetSessionTotpVerified now i db)"
  by (simp_all add: same_factors_def map_users_def map_sessions_def ClearFailedLogins_def PurgeExpiredMfaChallenges_def SetSessionTotpVerified_def)

lemma refuse_factors: "refuse env i e db = (e', db') \<Longrightarrow> same_factors db db'"
  by (auto simp: refuse_def RecordFailedLogin_def split: option.splits if_splits)

lemma Open_factors: "Open env user sat db = (r, db') \<Longrightarrow> same_factors db db'"
  by (auto simp: Open_def CreateSession_def same_factors_def Let_def split: option.splits prod.splits if_splits)

lemma CreateChallenge_factors: "CreateChallenge env i db = (r, db') \<Longrightarrow> same_factors db db'"
  by (auto simp: CreateChallenge_def CreateMfaChallenge_def PurgeExpiredMfaChallenges_def issue_def Let_def same_factors_def
      split: option.splits if_splits)

lemma Consume_factors: "ConsumeMfaChallenge now h db = Some db' \<Longrightarrow> same_factors db db'"
  by (auto simp: ConsumeMfaChallenge_def same_factors_def split: if_splits)

lemma update_factors_burnt:
  assumes "burnt i used db" "update_factors P g db = (ok, db')"
    and "\<And>f. f_ID (g f) = f_ID f"
    and "\<And>f. P f \<Longrightarrow> f_ID f = i \<Longrightarrow> f_ConfirmedAt f \<noteq> None \<Longrightarrow> (\<exists>l. f_LastUsedAt f = Some l \<and> used \<le> l) \<Longrightarrow>
      f_ConfirmedAt (g f) \<noteq> None \<and> (\<exists>l. f_LastUsedAt (g f) = Some l \<and> used \<le> l)"
  shows "burnt i used db'"
proof -
  have db': "db' = db\<lparr>s_factors := map (\<lambda>x. if P x then g x else x) (s_factors db)\<rparr>"
    using assms(2) by (auto simp: update_factors_def)
  have "f_ConfirmedAt f' \<noteq> None \<and> (\<exists>l. f_LastUsedAt f' = Some l \<and> used \<le> l)"
    if f': "f' \<in> set (s_factors db')" "f_ID f' = i" for f'
  proof -
    from f'(1) obtain f where f: "f \<in> set (s_factors db)" "f' = (if P f then g f else f)" by (auto simp: db')
    have "f_ID f = i" using f'(2) assms(3) [of f] by (simp add: f(2) split: if_splits)
    with assms(1) f(1) have "f_ConfirmedAt f \<noteq> None" "\<exists>l. f_LastUsedAt f = Some l \<and> used \<le> l" by (auto simp: burnt_def)
    then show ?thesis using assms(4) [of f] \<open>f_ID f = i\<close> by (simp add: f(2))
  qed
  then show ?thesis using assms(1) by (simp add: burnt_def db')
qed

lemma check_code_burnt:
  assumes "burnt i used db" "check_code env f code rec db = (ok, db')"
  shows "burnt i used db'"
proof -
  have r: "burnt i used db'" if "ConsumeMfaRecoveryCode j h db = (ok, db')" for j h ok db'
    using update_factors_burnt [OF assms(1) that [unfolded ConsumeMfaRecoveryCode_def]] by simp
  have t: "burnt i used db'" if "TouchMfaFactorUsed j u db = (ok, db')" for j u ok db'
    using update_factors_burnt [OF assms(1) that [unfolded TouchMfaFactorUsed_def]] by fastforce
  show ?thesis using assms r t by (auto simp: check_code_def split: if_splits option.splits prod.splits)
qed

lemma redeemCode_burnt:
  assumes "burnt i used db" "redeemCode env user code rec db = (e, db')"
  shows "burnt i used db'"
  using assms(2) check_code_burnt [OF assms(1)] assms(1)
  by (auto simp: redeemCode_def dest!: refuse_factors intro: same_factors_burnt
      split: option.splits if_splits prod.splits bool.splits)

lemma redeem_for_burnt: "burnt i used db \<Longrightarrow> redeem_for env j missing code rec db = (r, db') \<Longrightarrow> burnt i used db'"
  by (auto simp: redeem_for_def dest: redeemCode_burnt split: option.splits if_splits prod.splits)

lemma upsert_burnt:
  assumes "burnt i used db" "UpsertUnconfirmedMfaFactor u userID enc db = Some db'"
  shows "burnt i used db'"
proof (cases "GetMfaFactorForUser userID db")
  case None
  with assms show ?thesis by (auto simp: UpsertUnconfirmedMfaFactor_def burnt_def)
next
  case (Some f)
  let ?P = "\<lambda>f. f_UserID f = userID \<and> f_ConfirmedAt f = None"
  let ?g = "\<lambda>f. f\<lparr>f_Uuid := u, f_SecretEnc := enc, f_RecoveryCodeHashes := [], f_ConfirmedAt := None, f_LastUsedAt := None\<rparr>"
  from assms(2) Some have db': "db' = snd (update_factors ?P ?g db)"
    by (auto simp: UpsertUnconfirmedMfaFactor_def split: if_splits)
  show ?thesis
    by (rule update_factors_burnt [OF assms(1), of ?P ?g "fst (update_factors ?P ?g db)"]) (simp_all add: db')
qed

lemma auth_step_burnt:
  assumes "auth_step env db db'" and b: "burnt i used db"
  shows "burnt i used db'"
  using assms(1)
proof cases
  case (login email plaintext r)
  have "same_factors db db'" if "login_with env user plaintext db = (r, db')" for user
    using that
    by (auto simp: login_with_def Let_def dest!: refuse_factors Open_factors CreateChallenge_factors
        intro: same_factors_trans [OF same_factors_simps(3)] split: if_splits option.splits prod.splits)
  with login have "same_factors db db'" by (auto simp: Login_def split: option.splits)
  with b show ?thesis by (rule same_factors_burnt [rotated])
next
  case (verify challenge code recoveryCode r)
  have opened: "burnt i used db''" if "Open env user True (ClearFailedLogins j db2) = (r, db'')" "burnt i used db2" for user j db2 db''
    using same_factors_burnt [OF Open_factors [OF that(1)]] same_factors_burnt [OF same_factors_simps(3) that(2)] by blast
  have consumed: "burnt i used db2" if "ConsumeMfaChallenge n h db1 = Some db2" "burnt i used db1" for n h db1 db2
    using same_factors_burnt [OF Consume_factors] that by blast
  show ?thesis
    using verify b
    by (auto simp: VerifyLogin_def dest!: redeemCode_burnt [OF b] dest: consumed intro: opened
        split: if_splits option.splits prod.splits)
next
  case (step_up sessionID userID code recoveryCode e)
  then show ?thesis using b
    by (auto simp: StepUp_def Let_def dest!: redeem_for_burnt [OF b]
        intro: same_factors_burnt [OF same_factors_simps(3)] same_factors_burnt [OF same_factors_simps(5)]
        split: if_splits sum.splits prod.splits)
next
  case (disable userID code recoveryCode e)
  then show ?thesis
    by (auto simp: Disable_def DeleteMfaFactorForUser_def burnt_def dest!: redeem_for_burnt [OF b] split: if_splits sum.splits prod.splits)
next
  case (regenerate userID code c)
  have replace: "burnt i used db3" if "ReplaceMfaRecoveryCodes j hs db2 = (ok, db3)" "burnt i used db2" for j hs ok db2 db3
    using update_factors_burnt [OF that(2) that(1) [unfolded ReplaceMfaRecoveryCodes_def]] by simp
  show ?thesis using regenerate b
    by (auto simp: RegenerateRecoveryCodes_def dest: redeem_for_burnt replace split: if_splits sum.splits prod.splits option.splits)
next
  case (enrol userID s)
  then show ?thesis using b
    by (auto simp: Setup_def dest: upsert_burnt split: option.splits prod.splits if_splits)
next
  case (confirm userID code c)
  have conf: "burnt i used db3" if "ConfirmMfaFactor now j hs u db = (ok, db3)" for now j hs u ok db3
    using update_factors_burnt [OF b that [unfolded ConfirmMfaFactor_def]] by simp
  show ?thesis using confirm b
    by (auto simp: Confirm_def dest: conf split: option.splits prod.splits if_splits)
next
  case (authenticate cookie i)
  then have "same_factors db db'"
    by (auto simp: Authenticate_def TouchSession_def issue_def Let_def split: if_splits option.splits)
  with b show ?thesis by (rule same_factors_burnt [rotated])
next
  case (logout cookie)
  then have "same_factors db db'" by (auto simp: Logout_def issue_def RevokeSession_def split: if_splits option.splits)
  with b show ?thesis by (rule same_factors_burnt [rotated])
next
  case (switch userID sessionID teamUUID t)
  then have "same_factors db db'"
    by (auto simp: SwitchTeam_def SetSessionCurrentTeam_def SetSessionViewAs_def SetUserLastTeam_def issue_def Let_def
        same_factors_def map_users_def map_sessions_def split: if_splits option.splits prod.splits)
  with b show ?thesis by (rule same_factors_burnt [rotated])
next
  case (view_as scan userID sessionID preferred role custom v)
  then have "same_factors db db'"
    by (auto simp: SetViewAs_def SetSessionViewAs_def Let_def split: if_splits option.splits prod.splits)
  with b show ?thesis by (rule same_factors_burnt [rotated])
qed

lemma auth_run_burnt: "auth_run t0 db0 now db \<Longrightarrow> burnt i used db0 \<Longrightarrow> burnt i used db"
  by (induction rule: auth_run.induct) (auto dest: auth_step_burnt)

text \<open>A step that is not later than the last one is refused.\<close>

lemma burnt_refuses:
  assumes "burnt i used db" "GetMfaFactorForUser (u_ID user) db = Some f" "f_ID f = i" "secretOf env f = Some secret"
    and "Validate_code (le_mac env) secret code (le_now env) = Some step" "stepTime step \<le> used"
  shows "fst (redeemCode env user code [] db) \<noteq> None"
proof -
  have "\<not> list_ex (\<lambda>f. f_ID f = i \<and> (case f_LastUsedAt f of None \<Rightarrow> True | Some l \<Rightarrow> l < stepTime step)) (s_factors db)"
    using assms(1,6) by (fastforce simp: burnt_def list_ex_iff)
  then have "fst (TouchMfaFactorUsed (f_ID f) (stepTime step) db) = False"
    by (simp add: TouchMfaFactorUsed_def update_factors_def assms(3))
  then have "fst (check_code env f code [] db) \<noteq> Some True"
    using assms(4,5) by (auto simp: check_code_def split: prod.splits)
  then show ?thesis
    using assms(2) by (auto simp: redeemCode_def split: option.splits prod.splits bool.splits)
qed

lemma redeemed:
  assumes "redeemCode env user code rec db = (None, db')"
  obtains f where "GetMfaFactorForUser (u_ID user) db = Some f" "f_ConfirmedAt f \<noteq> None" "check_code env f code rec db = (Some True, db')"
  using assms by (auto simp: redeemCode_def split: option.splits prod.splits bool.splits if_splits)

lemma checked_recovery:
  assumes "check_code env f code rec db = (Some True, db')" "rec \<noteq> []"
  shows "ConsumeMfaRecoveryCode (f_ID f) (hashRecoveryCode env rec) db = (True, db')"
  using assms by (auto simp: check_code_def split: if_splits prod.splits)

lemma checked_totp:
  assumes "check_code env f code [] db = (Some True, db')"
  obtains secret step where "secretOf env f = Some secret" "Validate_code (le_mac env) secret code (le_now env) = Some step"
    "TouchMfaFactorUsed (f_ID f) (stepTime step) db = (True, db')"
  using assms by (auto simp: check_code_def split: if_splits prod.splits option.splits)

lemma factor_by_id:
  "distinct (map f_ID fs) \<Longrightarrow> x \<in> set fs \<Longrightarrow> f \<in> set fs \<Longrightarrow> f_ID x = f_ID f \<Longrightarrow> x = f"
  by (auto simp: distinct_map inj_on_def)

lemma touched_burnt:
  assumes "TouchMfaFactorUsed (f_ID f) used db = (True, db')" "f \<in> set (s_factors db)" "f_ConfirmedAt f \<noteq> None"
    and "distinct (map f_ID (s_factors db))" "f_ID f < s_next_factor db"
  shows "burnt (f_ID f) used db'" "\<forall>l. f_LastUsedAt f = Some l \<longrightarrow> l < used"
proof -
  let ?P = "\<lambda>x. f_ID x = f_ID f \<and> (case f_LastUsedAt x of None \<Rightarrow> True | Some l \<Rightarrow> l < used)"
  have ex: "list_ex ?P (s_factors db)"
    and db': "db' = db\<lparr>s_factors := map (\<lambda>x. if ?P x then x\<lparr>f_LastUsedAt := Some used\<rparr> else x) (s_factors db)\<rparr>"
    using assms(1) by (simp_all add: TouchMfaFactorUsed_def update_factors_def)
  note only = factor_by_id [OF assms(4) _ assms(2)]
  from ex obtain x where "x \<in> set (s_factors db)" "?P x" unfolding list_ex_iff by (elim bexE)
  with only [of x] have p: "?P f" by simp
  then show "\<forall>l. f_LastUsedAt f = Some l \<longrightarrow> l < used" by (simp split: option.splits)
  have "f_ConfirmedAt f' \<noteq> None \<and> (\<exists>l. f_LastUsedAt f' = Some l \<and> used \<le> l)" if f': "f' \<in> set (s_factors db')" "f_ID f' = f_ID f" for f'
  proof -
    from f'(1) obtain x where x: "x \<in> set (s_factors db)" "f' = (if ?P x then x\<lparr>f_LastUsedAt := Some used\<rparr> else x)"
      unfolding db' by auto
    with f'(2) have "f_ID x = f_ID f" by (simp split: if_splits)
    with only x(1) have "x = f" by blast
    then show ?thesis using p assms(3) by (simp add: x(2))
  qed
  moreover have "s_next_factor db' = s_next_factor db" by (simp add: db')
  ultimately show "burnt (f_ID f) used db'" using assms(5) unfolding burnt_def by simp
qed

text \<open>C14: A second factor is redeemed once.  A two-step login opens a session only with a live challenge, for the user
  the challenge names, who is not locked out and has a confirmed factor, and with one of its recovery codes or a code of a step later than
  every step accepted before.  The challenge is gone afterwards; a recovery code is gone with it; and as long as the factor
  exists, whatever happens in between, no code of that step or of an earlier one is accepted again.\<close>

theorem second_factor_once:
  assumes "VerifyLogin env challenge code rec db = (Inr (sess, token), db')"
    and "distinct (map f_ID (s_factors db))" and "\<forall>f \<in> set (s_factors db). f_ID f < s_next_factor db"
  shows "\<exists>chal f. chal \<in> set (s_challenges db) \<and> ch_TokenHash chal = le_hashToken env challenge \<and> le_now env < ch_ExpiresAt chal \<and>
    bs_UserID sess = ch_UserID chal \<and> (\<exists>u \<in> set (s_users db). u_ID u = ch_UserID chal \<and> \<not> locked (le_now env) u) \<and>
    GetMfaFactorForUser (ch_UserID chal) db = Some f \<and> f_ConfirmedAt f \<noteq> None \<and>
    (\<forall>env2 code2 rec2. le_hashToken env2 = le_hashToken env \<longrightarrow> le_now env \<le> le_now env2 \<longrightarrow>
       VerifyLogin env2 challenge code2 rec2 db' = (Inl ErrMFAChallengeExpired, db')) \<and>
    (rec \<noteq> [] \<longrightarrow> hashRecoveryCode env rec \<in> set (f_RecoveryCodeHashes f) \<and>
       (\<forall>f' \<in> set (s_factors db'). f_ID f' = f_ID f \<longrightarrow> hashRecoveryCode env rec \<notin> set (f_RecoveryCodeHashes f'))) \<and>
    (rec = [] \<longrightarrow> (\<exists>secret step. secretOf env f = Some secret \<and> Validate_code (le_mac env) secret code (le_now env) = Some step \<and>
       (\<forall>l. f_LastUsedAt f = Some l \<longrightarrow> l < stepTime step) \<and>
       (\<forall>now2 db2 env2 user2 f2 secret2 code2 step2. auth_run (le_now env) db' now2 db2 \<longrightarrow>
          GetMfaFactorForUser (u_ID user2) db2 = Some f2 \<longrightarrow> f_ID f2 = f_ID f \<longrightarrow> secretOf env2 f2 = Some secret2 \<longrightarrow>
          Validate_code (le_mac env2) secret2 code2 (le_now env2) = Some step2 \<longrightarrow> step2 \<le> step \<longrightarrow>
          fst (redeemCode env2 user2 code2 [] db2) \<noteq> None)))"
proof -
  from assms(1) obtain chal user db1 db2 where
    chal: "GetMfaChallenge (le_now env) (le_hashToken env challenge) db = Some chal" and
    user: "GetUserByID (ch_UserID chal) db = Some user" "\<not> locked (le_now env) user" and
    red: "redeemCode env user code rec db = (None, db1)" and
    con: "ConsumeMfaChallenge (le_now env) (le_hashToken env challenge) db1 = Some db2" and
    opn: "Open env user True (ClearFailedLogins (u_ID user) db2) = (Inr (sess, token), db')"
    by (auto simp: VerifyLogin_def split: if_splits option.splits prod.splits)
  note c = find_SomeD [OF chal [unfolded GetMfaChallenge_def]] and u = found_user(2) [OF user(1)]
  from red obtain f where f: "GetMfaFactorForUser (u_ID user) db = Some f" "f_ConfirmedAt f \<noteq> None" and
    chk: "check_code env f code rec db = (Some True, db1)"
    by (rule redeemed)
  have fin: "f \<in> set (s_factors db)" using find_SomeD [OF f(1) [unfolded GetMfaFactorForUser_def]] by blast
  from opn obtain row where o: "s_factors db' = s_factors db2" "s_challenges db' = s_challenges db2" "bs_UserID sess = u_ID user"
    by (rule Open_opened) simp
  have fac: "s_factors db2 = s_factors db1" and cha: "s_challenges db2 = filter (\<lambda>x. \<not> live_challenge (le_now env) (le_hashToken env challenge) x) (s_challenges db1)"
    using con by (auto simp: ConsumeMfaChallenge_def split: if_splits)
  have gone: "VerifyLogin env2 challenge code2 rec2 db' = (Inl ErrMFAChallengeExpired, db')"
    if "le_hashToken env2 = le_hashToken env" "le_now env \<le> le_now env2" for env2 code2 rec2
  proof -
    have "GetMfaChallenge (le_now env2) (le_hashToken env2 challenge) db' = None"
      using that by (auto simp: GetMfaChallenge_def o cha find_None_iff live_challenge_def)
    then show ?thesis by (simp add: VerifyLogin_def answer_def)
  qed
  have recovery: "hashRecoveryCode env rec \<in> set (f_RecoveryCodeHashes f) \<and>
       (\<forall>f' \<in> set (s_factors db'). f_ID f' = f_ID f \<longrightarrow> hashRecoveryCode env rec \<notin> set (f_RecoveryCodeHashes f'))" if "rec \<noteq> []"
  proof -
    have conf: "f_ConfirmedAt x \<noteq> None" if "x \<in> set (s_factors db)" "f_ID x = f_ID f" for x
      using factor_by_id [OF assms(2) that(1) fin that(2)] f(2) by simp
    show ?thesis
      using checked_recovery [OF chk that] factor_by_id [OF assms(2) _ fin] unfolding o(1) fac
      by (auto simp: ConsumeMfaRecoveryCode_def update_factors_def list_ex_iff dest: conf)
  qed
  have totp: "\<exists>secret step. secretOf env f = Some secret \<and> Validate_code (le_mac env) secret code (le_now env) = Some step \<and>
       (\<forall>l. f_LastUsedAt f = Some l \<longrightarrow> l < stepTime step) \<and> burnt (f_ID f) (stepTime step) db'" if "rec = []"
  proof -
    from chk that obtain secret step where s: "secretOf env f = Some secret" "Validate_code (le_mac env) secret code (le_now env) = Some step"
      "TouchMfaFactorUsed (f_ID f) (stepTime step) db = (True, db1)"
      by (auto elim: checked_totp)
    note t = touched_burnt [OF s(3) fin f(2) assms(2)]
    have "f_ID f < s_next_factor db" using assms(3) fin by blast
    moreover have "burnt (f_ID f) (stepTime step) db1 \<Longrightarrow> burnt (f_ID f) (stepTime step) db'"
      using same_factors_burnt [OF Consume_factors [OF con]] same_factors_burnt [OF Open_factors [OF opn]]
        same_factors_burnt [OF same_factors_simps(3)] by blast
    ultimately show ?thesis using s t by blast
  qed
  have mono: "step2 \<le> step \<Longrightarrow> stepTime step2 \<le> stepTime step" for step2 step
    by (simp add: stepTime_def Period_def)
  have later: "fst (redeemCode env2 user2 code2 [] db2) \<noteq> None"
    if "burnt (f_ID f) (stepTime step) db'" "auth_run (le_now env) db' now2 db2" "GetMfaFactorForUser (u_ID user2) db2 = Some f2"
      "f_ID f2 = f_ID f" "secretOf env2 f2 = Some secret2" "Validate_code (le_mac env2) secret2 code2 (le_now env2) = Some step2" "step2 \<le> step"
    for step now2 db2 env2 user2 f2 secret2 code2 step2
    by (rule burnt_refuses [OF auth_run_burnt [OF that(2,1)] that(3-6) mono [OF that(7)]])
  have codes: "\<exists>secret step. secretOf env f = Some secret \<and> Validate_code (le_mac env) secret code (le_now env) = Some step \<and>
       (\<forall>l. f_LastUsedAt f = Some l \<longrightarrow> l < stepTime step) \<and>
       (\<forall>now2 db2 env2 user2 f2 secret2 code2 step2. auth_run (le_now env) db' now2 db2 \<longrightarrow>
          GetMfaFactorForUser (u_ID user2) db2 = Some f2 \<longrightarrow> f_ID f2 = f_ID f \<longrightarrow> secretOf env2 f2 = Some secret2 \<longrightarrow>
          Validate_code (le_mac env2) secret2 code2 (le_now env2) = Some step2 \<longrightarrow> step2 \<le> step \<longrightarrow>
          fst (redeemCode env2 user2 code2 [] db2) \<noteq> None)" if "rec = []"
  proof -
    from totp [OF that] obtain secret step where s: "secretOf env f = Some secret"
      "Validate_code (le_mac env) secret code (le_now env) = Some step"
      "\<forall>l. f_LastUsedAt f = Some l \<longrightarrow> l < stepTime step" "burnt (f_ID f) (stepTime step) db'"
      by blast
    show ?thesis
      by (intro exI [of _ secret] exI [of _ step] conjI allI impI s(1-3)) (rule later [OF s(4)])
  qed
  have user': "\<exists>u \<in> set (s_users db). u_ID u = ch_UserID chal \<and> \<not> locked (le_now env) u" using u user(2) by blast
  have "u_ID user = ch_UserID chal" using u by blast
  then show ?thesis
    using c f gone recovery codes user' o(3) by (intro exI [of _ chal] exI [of _ f]) (simp add: live_challenge_def)
qed

section \<open>Samples\<close>

definition sample_login :: login_env where
  "sample_login =
     \<lparr>le_now = 100, le_up = (\<lambda>_. True), le_hashToken = id, le_hashCode = id, le_verify = (\<lambda>p h. Some (p = h)),
      le_mac = (\<lambda>_ _. replicate 20 0), le_token = (\<lambda>n. Some (if n = 0 then ''tok'' else ''csrf'')), le_raw = (\<lambda>i n. Some (replicate n (of_nat i))),
      le_secret = (\<lambda>n. Some (replicate n 7)), le_uuid = Some ''f1'', le_encrypt = (\<lambda>_ s. Some s), le_decrypt = (\<lambda>_ s. Some s),
      le_remote = ''10.0.0.1:80'', le_agent = ''ua'', le_row_uuid = ''s2''\<rparr>"

definition sample_mfa :: session_db where
  "sample_mfa = sample_sessions
     \<lparr>s_factors := [\<lparr>f_ID = 1, f_Uuid = ''f1'', f_UserID = 11, f_SecretEnc = [], f_RecoveryCodeHashes = [''0011223344556677''],
                     f_ConfirmedAt = Some 0, f_LastUsedAt = None\<rparr>],
      s_next_factor := 2,
      s_challenges := [\<lparr>ch_TokenHash = ''chal'', ch_UserID = 11, ch_ExpiresAt = 1000\<rparr>]\<rparr>"

lemma sample_hotp: "hotp (\<lambda>_ _. replicate 20 0) key c = ''000000''"
proof -
  have "show_nat 0 = ''0''" by code_simp
  moreover have "be32 (take 4 (replicate 20 0)) = 0" by (simp add: be32_def numeral_eq_Suc)
  ultimately show ?thesis by (simp add: hotp_def pad0_def Digits_def Let_def) (simp add: numeral_eq_Suc)
qed

lemma sample_code: "Validate_code (\<lambda>_ _. replicate 20 0) [] ''000000'' 100 = Some 0"
proof -
  have "DecodeString (ToUpper (TrimSpace [])) = Some []" "TrimSpace ''000000'' = ''000000''" "TimeStep 100 = 0" by code_simp+
  then show ?thesis by (simp add: Validate_code_find sample_hotp)
qed

lemma Inr_result: "\<not> isl (fst x) \<Longrightarrow> \<exists>sess token db'. x = (Inr (sess, token), db')"
  by (cases x; cases "fst x") auto

theorem login_opens_witness:
  "\<exists>sess token db'. Login sample_login '' A@b.c'' ''h'' sample_sessions = (Inr (sess, token), db') \<and> length (s_sessions db') = 2"
proof -
  have "\<not> isl (fst (Login sample_login '' A@b.c'' ''h'' sample_sessions))" by code_simp
  then obtain sess token db' where l: "Login sample_login '' A@b.c'' ''h'' sample_sessions = (Inr (sess, token), db')"
    using Inr_result by blast
  from login_opens [OF l] have "length (s_sessions db') = 2" by (auto simp: sample_sessions_def)
  with l show ?thesis by blast
qed

theorem second_factor_once_witness:
  "\<exists>sess token db'. VerifyLogin sample_login ''chal'' ''000000'' [] sample_mfa = (Inr (sess, token), db') \<and>
     VerifyLogin sample_login ''chal'' ''000000'' [] db' = (Inl ErrMFAChallengeExpired, db')"
proof -
  have "\<not> isl (fst (VerifyLogin sample_login ''chal'' ''000000'' [] sample_mfa))"
    by (simp add: VerifyLogin_def answer_def sample_login_def sample_mfa_def GetMfaChallenge_def live_challenge_def GetUserByID_def
        locked_def redeemCode_def GetMfaFactorForUser_def check_code_def secretOf_def sample_code TouchMfaFactorUsed_def
        update_factors_def ConsumeMfaChallenge_def sample_sessions_def ClearFailedLogins_def map_users_def Open_def
        CreateSession_def GetTeamMembershipForUser_def live_memberships_def Let_def)
  then obtain sess token db' where l: "VerifyLogin sample_login ''chal'' ''000000'' [] sample_mfa = (Inr (sess, token), db')"
    using Inr_result by blast
  have "distinct (map f_ID (s_factors sample_mfa))" "\<forall>f \<in> set (s_factors sample_mfa). f_ID f < s_next_factor sample_mfa"
    by (simp_all add: sample_mfa_def)
  from second_factor_once [OF l this] have "VerifyLogin sample_login ''chal'' ''000000'' [] db' = (Inl ErrMFAChallengeExpired, db')"
    by blast
  with l show ?thesis by blast
qed

definition sample_guesses :: "nat \<Rightarrow> session_db" where
  "sample_guesses n = ((\<lambda>db. snd (Login sample_login ''a@b.c'' ''bad'' db)) ^^ n) sample_sessions"

lemma sample_guesses_run: "auth_run 100 sample_sessions 100 (sample_guesses n)"
proof (induction n)
  case 0
  then show ?case by (simp add: sample_guesses_def start)
next
  case (Suc n)
  have "auth_step sample_login (sample_guesses n) (sample_guesses (Suc n))"
    by (rule auth_step.login [of _ "''a@b.c''" "''bad''" _ "fst (Login sample_login ''a@b.c'' ''bad'' (sample_guesses n))"])
      (simp add: sample_guesses_def)
  from auth_run.op [OF Suc _ this] show ?case by (simp add: sample_login_def)
qed


section \<open>Requests at the same time\<close>

text \<open>The lock is read with the account, before the password is checked: requests that have all read the account while it
  was open are all answered, however many of them fail first.\<close>

lemma wrong_guess_frame:
  assumes "\<not> locked (le_now env) user" "u_PasswordHash user = Some h" "le_verify env wrong h = Some False"
  shows "s_settings (snd (login_with env user wrong db)) = s_settings db" "s_factors (snd (login_with env user wrong db)) = s_factors db"
  using assms
  by (auto simp: login_with_def refuse_def RecordFailedLogin_def Let_def split: option.splits prod.splits)

theorem parallel_guesses:
  assumes "\<not> locked (le_now env) user" "u_PasswordHash user = Some h" "le_verify env plaintext h = Some True"
    and wrong: "le_verify env wrong h = Some False"
    and "\<forall>st. s_settings db = Some st \<longrightarrow> \<not> is_PasswordLoginDisabled st" "GetMfaFactorForUser (u_ID user) db = None"
    and "le_up env CallClearFailed"
  defines "after n \<equiv> ((\<lambda>db. snd (login_with env user wrong db)) ^^ n) db"
  shows "login_with env user plaintext (after n) = Open env user False (ClearFailedLogins (u_ID user) (after n))"
proof -
  have "s_settings (after n) = s_settings db \<and> s_factors (after n) = s_factors db"
    by (induction n) (simp_all add: after_def wrong_guess_frame [OF assms(1,2) wrong])
  with assms(1-3,5-7) show ?thesis
    by (auto simp: login_with_def answer_def GetInstanceSettings_def GetMfaFactorForUser_def split: option.splits)
qed

end
