(* ===== verification/JobStore.thy ===== *)
theory JobStore
  imports Prelude
begin

text \<open>
  The \<^verbatim>\<open>jobs\<close> table and the queries of \<^verbatim>\<open>src/internal/store/jobs.sql.go\<close>, the
  persistence of the durable job queue.  Each query is a function on the table at a time \<open>now\<close>
  (nanoseconds); an \<^verbatim>\<open>UPDATE\<close> is \<open>update_where\<close>.  \<^verbatim>\<open>DequeueJob\<close> takes the snapshot its
  sub-query reads and the rows other transactions hold locked, so that concurrent dequeues are covered;
  the partial unique index on the lock key is the net, as in the schema.  The lemmas give the
  invariants every query keeps: unique ids and idempotency keys, a lease exactly on leased and running
  rows, at most one such row per lock key, and the bounds on attempts and resumes.
\<close>

named_theorems job_ops \<open>definitions of the queries on the jobs table\<close>

section \<open>The table\<close>

datatype JobStatus = JobStatusScheduled | JobStatusQueued | JobStatusLeased | JobStatusRunning
  | JobStatusRetryWait | JobStatusSucceeded | JobStatusCancelled | JobStatusDeadLetter

record Step =
  st_name :: string
  st_status :: string
  st_message :: "string option"
  st_started_at :: "int option"
  st_finished_at :: "int option"

record Job =
  ID :: int
  Uuid :: string
  Queue :: string
  JobType :: string
  Payload :: string
  Status :: JobStatus
  Priority :: int
  RunAt :: int
  Attempt :: int
  MaxAttempts :: int
  IdempotencyKey :: "string option"
  LockKey :: "string option"
  LeasedBy :: "string option"
  LeaseExpiresAt :: "int option"
  HeartbeatAt :: "int option"
  CancelRequestedAt :: "int option"
  LastError :: "string option"
  Steps :: "Step list"
  Result :: "string option"
  RetryOfID :: "int option"
  JTeamID :: "int option"
  ResourceID :: "int option"
  CorrelationID :: "string option"
  DeadLetteredAt :: "int option"
  FinishedAt :: "int option"
  CreatedAt :: int
  UpdatedAt :: int
  ResumeCount :: int

record jobs_table =
  rows :: "Job list"
  next_id :: int

text \<open>\<^verbatim>\<open>status IN ('leased', 'running')\<close>, and the states from which a job can still run.\<close>

definition active :: "Job \<Rightarrow> bool" where
  "active j \<longleftrightarrow> Status j \<in> {JobStatusLeased, JobStatusRunning}"

definition waiting :: "Job \<Rightarrow> bool" where
  "waiting j \<longleftrightarrow> Status j \<in> {JobStatusScheduled, JobStatusQueued, JobStatusRetryWait}"

definition finished :: "Job \<Rightarrow> bool" where
  "finished j \<longleftrightarrow> Status j \<in> {JobStatusSucceeded, JobStatusCancelled, JobStatusDeadLetter}"

definition update_where :: "(Job \<Rightarrow> bool) \<Rightarrow> (Job \<Rightarrow> Job) \<Rightarrow> jobs_table \<Rightarrow> jobs_table" where
  "update_where P f db = db\<lparr>rows := map (\<lambda>j. if P j then f j else j) (rows db)\<rparr>"

definition affected :: "(Job \<Rightarrow> bool) \<Rightarrow> jobs_table \<Rightarrow> nat" where
  "affected P db = length (filter P (rows db))"

section \<open>Enqueue and lookup\<close>

record EnqueueJobParams =
  p_Uuid :: string
  p_Queue :: string
  p_JobType :: string
  p_Payload :: string
  p_Priority :: int
  p_RunAt :: int
  p_MaxAttempts :: int
  p_IdempotencyKey :: "string option"
  p_LockKey :: "string option"
  p_TeamID :: "int option"
  p_ResourceID :: "int option"
  p_CorrelationID :: "string option"
  p_RetryOfID :: "int option"
  p_Status :: JobStatus

datatype db_error = ErrNoRows | ErrConstraint

text \<open>
  The insert, with the constraints of the table: \<^verbatim>\<open>CHECK (max_attempts > 0)\<close>, the partial
  unique index on the idempotency key (the \<^verbatim>\<open>ON CONFLICT DO NOTHING\<close> arbiter, which
  yields no row), the unique uuid, and the self reference \<^verbatim>\<open>retry_of_id\<close>.  The teams and
  resources that the other foreign keys name are rows of tables outside this model and are taken to exist.
\<close>

definition EnqueueJob :: "int \<Rightarrow> EnqueueJobParams \<Rightarrow> jobs_table \<Rightarrow> (db_error, Job \<times> jobs_table) result" where
  "EnqueueJob now a db =
     (if p_MaxAttempts a \<le> 0 then Inl ErrConstraint
      else if p_IdempotencyKey a \<noteq> None \<and>
              list_ex (\<lambda>j. IdempotencyKey j = p_IdempotencyKey a) (rows db)
      then Inl ErrNoRows
      else if list_ex (\<lambda>j. Uuid j = p_Uuid a) (rows db) then Inl ErrConstraint
      else if (case p_RetryOfID a of None \<Rightarrow> False | Some r \<Rightarrow> \<not> list_ex (\<lambda>j. ID j = r) (rows db))
      then Inl ErrConstraint
      else
        let j = \<lparr>ID = next_id db, Uuid = p_Uuid a, Queue = p_Queue a, JobType = p_JobType a,
                 Payload = p_Payload a, Status = p_Status a, Priority = p_Priority a,
                 RunAt = p_RunAt a, Attempt = 0, MaxAttempts = p_MaxAttempts a,
                 IdempotencyKey = p_IdempotencyKey a, LockKey = p_LockKey a, LeasedBy = None,
                 LeaseExpiresAt = None, HeartbeatAt = None, CancelRequestedAt = None,
                 LastError = None, Steps = [], Result = None, RetryOfID = p_RetryOfID a,
                 JTeamID = p_TeamID a, ResourceID = p_ResourceID a,
                 CorrelationID = p_CorrelationID a, DeadLetteredAt = None, FinishedAt = None, CreatedAt = now, UpdatedAt = now, ResumeCount = 0\<rparr>
        in Inr (j, db\<lparr>rows := rows db @ [j], next_id := next_id db + 1\<rparr>))"

definition GetJobByIdempotencyKey :: "string option \<Rightarrow> jobs_table \<Rightarrow> (db_error, Job) result" where
  "GetJobByIdempotencyKey key db =
     (case key of
        None \<Rightarrow> Inl ErrNoRows
      | Some k \<Rightarrow> (case find (\<lambda>j. IdempotencyKey j = Some k) (rows db) of
                     None \<Rightarrow> Inl ErrNoRows | Some j \<Rightarrow> Inr j))"

definition CountActiveJobsByLockKey :: "string option \<Rightarrow> jobs_table \<Rightarrow> nat" where
  "CountActiveJobsByLockKey key db =
     affected (\<lambda>j. key \<noteq> None \<and> LockKey j = key \<and> (waiting j \<or> active j)) db"

section \<open>Dequeue\<close>

text \<open>The condition of the sub-query, on a table: queued, in one of the queues, due, and no other row
  holding the same lock key.\<close>

definition lock_free :: "jobs_table \<Rightarrow> Job \<Rightarrow> bool" where
  "lock_free db j = (LockKey j = None \<or> \<not> list_ex (\<lambda>h. LockKey h = LockKey j \<and> active h) (rows db))"

definition due :: "int \<Rightarrow> string list \<Rightarrow> Job \<Rightarrow> bool" where
  "due now queues j = (Status j = JobStatusQueued \<and> Queue j \<in> set queues \<and> RunAt j \<le> now)"

text \<open>A row is a candidate when it satisfied the condition in the snapshot, is not locked by another
  transaction, and still satisfies the row condition in its current version.\<close>

definition candidate :: "jobs_table \<Rightarrow> (int \<Rightarrow> bool) \<Rightarrow> int \<Rightarrow> string list \<Rightarrow> Job \<Rightarrow> bool" where
  "candidate snap locked now queues j =
     (due now queues j \<and> \<not> locked (ID j) \<and>
      list_ex (\<lambda>s. ID s = ID j \<and> due now queues s \<and> lock_free snap s) (rows snap))"

text \<open>\<^verbatim>\<open>ORDER BY priority DESC, run_at, id\<close>.\<close>

definition before :: "Job \<Rightarrow> Job \<Rightarrow> bool" where
  "before a b = (Priority a > Priority b \<or>
     Priority a = Priority b \<and> (RunAt a < RunAt b \<or> RunAt a = RunAt b \<and> ID a < ID b))"

fun best :: "Job list \<Rightarrow> Job option" where
  "best [] = None"
| "best (j # js) = (case best js of None \<Rightarrow> Some j | Some k \<Rightarrow> if before k j then Some k else Some j)"

definition lease_row :: "int \<Rightarrow> string \<Rightarrow> int \<Rightarrow> Job \<Rightarrow> Job" where
  "lease_row now worker secs j =
     j\<lparr>Status := JobStatusLeased, LeasedBy := Some worker, LeaseExpiresAt := Some (now + secs * second),
       HeartbeatAt := Some now, Attempt := Attempt j + 1, UpdatedAt := now\<rparr>"

definition DequeueJob ::
  "jobs_table \<Rightarrow> (int \<Rightarrow> bool) \<Rightarrow> int \<Rightarrow> string \<Rightarrow> int \<Rightarrow> string list \<Rightarrow> jobs_table
     \<Rightarrow> (db_error, Job \<times> jobs_table) result" where
  "DequeueJob snap locked now worker secs queues db =
     (case best (filter (candidate snap locked now queues) (rows db)) of
        None \<Rightarrow> Inl ErrNoRows
      | Some j \<Rightarrow>
          if \<not> lock_free db j then Inl ErrConstraint
          else Inr (lease_row now worker secs j,
                    update_where (\<lambda>k. ID k = ID j) (lease_row now worker secs) db))"

section \<open>The lease holder's updates\<close>

definition owned :: "int \<Rightarrow> string \<Rightarrow> Job \<Rightarrow> bool" where
  "owned i worker j \<longleftrightarrow> ID j = i \<and> LeasedBy j = Some worker \<and> active j"

definition MarkJobRunning :: "int \<Rightarrow> int \<Rightarrow> string \<Rightarrow> jobs_table \<Rightarrow> nat \<times> jobs_table" where
  "MarkJobRunning now i worker db =
     (let P = (\<lambda>j. ID j = i \<and> LeasedBy j = Some worker \<and> Status j = JobStatusLeased) in
      (affected P db, update_where P (\<lambda>j. j\<lparr>Status := JobStatusRunning, UpdatedAt := now\<rparr>) db))"

definition HeartbeatJob :: "int \<Rightarrow> int \<Rightarrow> string \<Rightarrow> int \<Rightarrow> jobs_table \<Rightarrow> nat \<times> jobs_table" where
  "HeartbeatJob now i worker secs db =
     (affected (owned i worker) db,
      update_where (owned i worker)
        (\<lambda>j. j\<lparr>HeartbeatAt := Some now, LeaseExpiresAt := Some (now + secs * second), UpdatedAt := now\<rparr>) db)"

definition SucceedJob :: "int \<Rightarrow> int \<Rightarrow> string option \<Rightarrow> string \<Rightarrow> jobs_table \<Rightarrow> nat \<times> jobs_table" where
  "SucceedJob now i res worker db =
     (affected (owned i worker) db,
      update_where (owned i worker)
        (\<lambda>j. j\<lparr>Status := JobStatusSucceeded, Result := res, FinishedAt := Some now,
               LeasedBy := None, LeaseExpiresAt := None, UpdatedAt := now\<rparr>) db)"

definition FailJob ::
  "int \<Rightarrow> int \<Rightarrow> string \<Rightarrow> int \<Rightarrow> bool \<Rightarrow> string \<Rightarrow> jobs_table \<Rightarrow> nat \<times> jobs_table" where
  "FailJob now i err nextRunAt toDead worker db =
     (affected (owned i worker) db,
      update_where (owned i worker)
        (\<lambda>j. j\<lparr>Status := (if toDead then JobStatusDeadLetter else JobStatusRetryWait),
               LastError := Some err, RunAt := nextRunAt,
               DeadLetteredAt := (if toDead then Some now else None),
               FinishedAt := (if toDead then Some now else None),
               LeasedBy := None, LeaseExpiresAt := None, UpdatedAt := now\<rparr>) db)"

definition UpdateJobSteps :: "int \<Rightarrow> int \<Rightarrow> Step list \<Rightarrow> jobs_table \<Rightarrow> jobs_table" where
  "UpdateJobSteps now i sts db = update_where (\<lambda>j. ID j = i) (\<lambda>j. j\<lparr>Steps := sts, UpdatedAt := now\<rparr>) db"

section \<open>Maintenance\<close>

definition expired :: "int \<Rightarrow> Job \<Rightarrow> bool" where
  "expired now j \<longleftrightarrow> active j \<and> (case LeaseExpiresAt j of None \<Rightarrow> False | Some t \<Rightarrow> t < now)"

definition reap_row :: "int \<Rightarrow> int \<Rightarrow> Job \<Rightarrow> Job" where
  "reap_row now maxRes j =
     (let dead = (ResumeCount j \<ge> maxRes) in
      j\<lparr>Status := (if dead then JobStatusDeadLetter else JobStatusRetryWait),
        DeadLetteredAt := (if dead then Some now else DeadLetteredAt j),
        FinishedAt := (if dead then Some now else FinishedAt j),
        ResumeCount := ResumeCount j + 1,
        Attempt := (if dead then Attempt j else max (Attempt j - 1) 0),
        LastError := (case LastError j of None \<Rightarrow> Some ''lease expired (worker crash or hang)'' | Some e \<Rightarrow> Some e),
        RunAt := now, LeasedBy := None, LeaseExpiresAt := None, UpdatedAt := now\<rparr>)"

definition ReapExpiredLeases :: "int \<Rightarrow> int \<Rightarrow> jobs_table \<Rightarrow> (int \<times> string \<times> JobStatus) list \<times> jobs_table" where
  "ReapExpiredLeases now maxRes db =
     (map (\<lambda>j. (ID j, Uuid j, Status (reap_row now maxRes j))) (filter (expired now) (rows db)),
      update_where (expired now) (reap_row now maxRes) db)"

definition PromoteWaitingJobs :: "int \<Rightarrow> jobs_table \<Rightarrow> nat \<times> jobs_table" where
  "PromoteWaitingJobs now db =
     (let P = (\<lambda>j. Status j \<in> {JobStatusRetryWait, JobStatusScheduled} \<and> RunAt j \<le> now) in
      (affected P db, update_where P (\<lambda>j. j\<lparr>Status := JobStatusQueued, UpdatedAt := now\<rparr>) db))"

definition ForgetDeadLetterJob :: "int \<Rightarrow> int \<Rightarrow> jobs_table \<Rightarrow> nat \<times> jobs_table" where
  "ForgetDeadLetterJob now i db =
     (let P = (\<lambda>j. ID j = i \<and> Status j = JobStatusDeadLetter) in
      (affected P db,
       update_where P (\<lambda>j. j\<lparr>Status := JobStatusCancelled, FinishedAt := Some now, UpdatedAt := now\<rparr>) db))"

text \<open>\<^verbatim>\<open>payload->>'deployment_id'\<close> is PostgreSQL's JSON access, a parameter here.\<close>

definition RequestDeploymentJobCancel ::
  "(string \<Rightarrow> int option) \<Rightarrow> int \<Rightarrow> int \<Rightarrow> jobs_table \<Rightarrow> nat \<times> jobs_table" where
  "RequestDeploymentJobCancel deployment_id now d db =
     (let P = (\<lambda>j. JobType j = ''deployment.run'' \<and> deployment_id (Payload j) = Some d \<and>
               Status j \<in> {JobStatusScheduled, JobStatusQueued, JobStatusLeased, JobStatusRunning}) in
      (affected P db, update_where P (\<lambda>j. j\<lparr>CancelRequestedAt := Some now, UpdatedAt := now\<rparr>) db))"

definition IsJobCancelRequested :: "int \<Rightarrow> jobs_table \<Rightarrow> (db_error, bool) result" where
  "IsJobCancelRequested i db =
     (case find (\<lambda>j. ID j = i) (rows db) of
        None \<Rightarrow> Inl ErrNoRows | Some j \<Rightarrow> Inr (CancelRequestedAt j \<noteq> None))"

text \<open>Deleting a row clears the references to it (\<^verbatim>\<open>ON DELETE SET NULL\<close>).\<close>

definition PurgeTerminalJobs :: "int \<Rightarrow> int \<Rightarrow> jobs_table \<Rightarrow> nat \<times> jobs_table" where
  "PurgeTerminalJobs now retentionDays db =
     (let P = (\<lambda>j. Status j \<in> {JobStatusSucceeded, JobStatusCancelled} \<and>
               (case FinishedAt j of None \<Rightarrow> False | Some t \<Rightarrow> t < now - retentionDays * 86400 * second)) in
      (affected P db,
       db\<lparr>rows := map (\<lambda>j. case RetryOfID j of
                           None \<Rightarrow> j
                         | Some r \<Rightarrow> if list_ex (\<lambda>k. ID k = r \<and> P k) (rows db) then j\<lparr>RetryOfID := None\<rparr> else j)
                     (filter (\<lambda>j. \<not> P j) (rows db))\<rparr>))"

section \<open>The invariant\<close>

text \<open>\<open>maxRes\<close> is the bound on resumes the reaper is called with.\<close>

definition lease_ok :: "Job \<Rightarrow> bool" where
  "lease_ok j \<longleftrightarrow> (LeasedBy j \<noteq> None \<longleftrightarrow> active j) \<and> (LeaseExpiresAt j \<noteq> None \<longleftrightarrow> active j)"

definition counters_ok :: "int \<Rightarrow> Job \<Rightarrow> bool" where
  "counters_ok maxRes j \<longleftrightarrow>
     0 \<le> Attempt j \<and> (active j \<longrightarrow> 1 \<le> Attempt j) \<and> 0 \<le> ResumeCount j \<and>
     ResumeCount j \<le> maxRes + 1 \<and> (\<not> finished j \<longrightarrow> ResumeCount j \<le> maxRes)"

definition ids_ok :: "jobs_table \<Rightarrow> bool" where
  "ids_ok db \<longleftrightarrow> distinct (map ID (rows db)) \<and> (\<forall>j \<in> set (rows db). ID j < next_id db)"

definition keys_ok :: "jobs_table \<Rightarrow> bool" where
  "keys_ok db \<longleftrightarrow> (\<forall>x. \<forall>j \<in> set (rows db). \<forall>k \<in> set (rows db).
     IdempotencyKey j = Some x \<and> IdempotencyKey k = Some x \<longrightarrow> ID j = ID k)"

definition locks_ok :: "jobs_table \<Rightarrow> bool" where
  "locks_ok db \<longleftrightarrow> (\<forall>x. \<forall>j \<in> set (rows db). \<forall>k \<in> set (rows db).
     active j \<and> active k \<and> LockKey j = Some x \<and> LockKey k = Some x \<longrightarrow> ID j = ID k)"

definition table_ok :: "int \<Rightarrow> jobs_table \<Rightarrow> bool" where
  "table_ok maxRes db \<longleftrightarrow> ids_ok db \<and> keys_ok db \<and> locks_ok db \<and>
     (\<forall>j \<in> set (rows db). lease_ok j \<and> counters_ok maxRes j)"

lemma keys_okI:
  "(\<And>j k x. j \<in> set (rows db) \<Longrightarrow> k \<in> set (rows db) \<Longrightarrow> IdempotencyKey j = Some x \<Longrightarrow>
     IdempotencyKey k = Some x \<Longrightarrow> ID j = ID k) \<Longrightarrow> keys_ok db"
  unfolding keys_ok_def by blast

lemma keys_okD:
  "keys_ok db \<Longrightarrow> j \<in> set (rows db) \<Longrightarrow> k \<in> set (rows db) \<Longrightarrow> IdempotencyKey j = Some x \<Longrightarrow>
     IdempotencyKey k = Some x \<Longrightarrow> ID j = ID k"
  unfolding keys_ok_def by blast

lemma locks_okI:
  "(\<And>j k x. j \<in> set (rows db) \<Longrightarrow> k \<in> set (rows db) \<Longrightarrow> active j \<Longrightarrow> active k \<Longrightarrow> LockKey j = Some x \<Longrightarrow>
     LockKey k = Some x \<Longrightarrow> ID j = ID k) \<Longrightarrow> locks_ok db"
  unfolding locks_ok_def by blast

lemma locks_okD:
  "locks_ok db \<Longrightarrow> j \<in> set (rows db) \<Longrightarrow> k \<in> set (rows db) \<Longrightarrow> active j \<Longrightarrow> active k \<Longrightarrow>
     LockKey j = Some x \<Longrightarrow> LockKey k = Some x \<Longrightarrow> ID j = ID k"
  unfolding locks_ok_def by blast

lemmas status_defs = active_def waiting_def finished_def

lemma status_cases: "active j \<or> waiting j \<or> finished j"
  by (cases "Status j") (simp_all add: status_defs)

lemma status_disjoint [simp]:
  "active j \<Longrightarrow> \<not> waiting j" "active j \<Longrightarrow> \<not> finished j" "waiting j \<Longrightarrow> \<not> finished j"
  by (cases "Status j"; simp add: status_defs)+

subsection \<open>Updates that do not take a lease\<close>

text \<open>An update keeps the invariant when it leaves the identifying columns alone, never makes a row
  active, and keeps each updated row well formed.\<close>

definition benign :: "int \<Rightarrow> (Job \<Rightarrow> bool) \<Rightarrow> (Job \<Rightarrow> Job) \<Rightarrow> bool" where
  "benign maxRes P f \<longleftrightarrow> (\<forall>j. P j \<longrightarrow>
     ID (f j) = ID j \<and> IdempotencyKey (f j) = IdempotencyKey j \<and> LockKey (f j) = LockKey j \<and>
     (active (f j) \<longrightarrow> active j) \<and>
     (lease_ok j \<and> counters_ok maxRes j \<longrightarrow> lease_ok (f j) \<and> counters_ok maxRes (f j)))"

lemma rows_update_where [simp]: "rows (update_where P f db) = map (\<lambda>j. if P j then f j else j) (rows db)"
  by (simp add: update_where_def)

lemma next_id_update_where [simp]: "next_id (update_where P f db) = next_id db"
  by (simp add: update_where_def)

lemma ids_ok_map:
  "ids_ok db \<Longrightarrow> (\<And>j. ID (g j) = ID j) \<Longrightarrow> rows db' = map g (rows db) \<Longrightarrow> next_id db' = next_id db \<Longrightarrow> ids_ok db'"
  by (simp add: ids_ok_def comp_def)

lemma keys_ok_map:
  assumes ok: "keys_ok db" and g: "\<And>j. ID (g j) = ID j" "\<And>j. IdempotencyKey (g j) = IdempotencyKey j"
    and rows: "rows db' = map g (rows db)"
  shows "keys_ok db'"
proof (rule keys_okI)
  fix a b x assume "a \<in> set (rows db')" "b \<in> set (rows db')"
  then obtain a0 b0 where ab: "a0 \<in> set (rows db)" "b0 \<in> set (rows db)" "a = g a0" "b = g b0"
    unfolding rows by auto
  assume "IdempotencyKey a = Some x" "IdempotencyKey b = Some x"
  with keys_okD [OF ok ab(1,2), of x] show "ID a = ID b" by (simp add: ab(3,4) g)
qed

lemma locks_ok_map:
  assumes ok: "locks_ok db" and g: "\<And>j. ID (g j) = ID j" "\<And>j. LockKey (g j) = LockKey j"
      "\<And>j. active (g j) \<Longrightarrow> active j"
    and rows: "rows db' = map g (rows db)"
  shows "locks_ok db'"
proof (rule locks_okI)
  fix a b x assume "a \<in> set (rows db')" "b \<in> set (rows db')"
  then obtain a0 b0 where ab: "a0 \<in> set (rows db)" "b0 \<in> set (rows db)" "a = g a0" "b = g b0"
    unfolding rows by auto
  assume "active a" "active b" and lk: "LockKey a = Some x" "LockKey b = Some x"
  then have "active a0" "active b0" using g(3) ab(3,4) by auto
  with lk locks_okD [OF ok ab(1,2), of x] show "ID a = ID b" by (simp add: ab(3,4) g(1,2))
qed

lemma update_where_ok:
  assumes ok: "table_ok maxRes db" and f: "benign maxRes P f"
  shows "table_ok maxRes (update_where P f db)"
proof -
  define g where "g j = (if P j then f j else j)" for j
  have g: "ID (g j) = ID j" "IdempotencyKey (g j) = IdempotencyKey j" "LockKey (g j) = LockKey j"
    "active (g j) \<Longrightarrow> active j"
    "lease_ok j \<and> counters_ok maxRes j \<Longrightarrow> lease_ok (g j) \<and> counters_ok maxRes (g j)" for j
    using f by (auto simp: benign_def g_def split: if_splits)
  have rows: "rows (update_where P f db) = map g (rows db)"
    by (simp add: g_def)
  have "ids_ok (update_where P f db)"
    by (rule ids_ok_map [of db g]) (use ok g(1) rows in \<open>simp_all add: table_ok_def\<close>)
  moreover have "keys_ok (update_where P f db)"
    by (rule keys_ok_map [of db g]) (use ok g(1,2) rows in \<open>simp_all add: table_ok_def\<close>)
  moreover have "locks_ok (update_where P f db)"
    by (rule locks_ok_map [of db g]) (use ok g(1,3,4) rows in \<open>simp_all add: table_ok_def\<close>)
  ultimately show ?thesis
    using ok g(5) rows by (auto simp: table_ok_def)
qed

lemmas row_ok_defs = lease_ok_def counters_ok_def status_defs

lemma MarkJobRunning_ok: "table_ok m db \<Longrightarrow> table_ok m (snd (MarkJobRunning now i w db))"
  by (auto simp: MarkJobRunning_def Let_def benign_def row_ok_defs intro!: update_where_ok)

lemma HeartbeatJob_ok: "table_ok m db \<Longrightarrow> table_ok m (snd (HeartbeatJob now i w secs db))"
  by (auto simp: HeartbeatJob_def benign_def owned_def row_ok_defs intro!: update_where_ok)

lemma SucceedJob_ok: "table_ok m db \<Longrightarrow> table_ok m (snd (SucceedJob now i r w db))"
  by (auto simp: SucceedJob_def benign_def owned_def row_ok_defs intro!: update_where_ok)

lemma FailJob_ok: "table_ok m db \<Longrightarrow> table_ok m (snd (FailJob now i e nr d w db))"
  by (auto simp: FailJob_def benign_def owned_def row_ok_defs intro!: update_where_ok)

lemma UpdateJobSteps_ok: "table_ok m db \<Longrightarrow> table_ok m (UpdateJobSteps now i sts db)"
  by (auto simp: UpdateJobSteps_def benign_def row_ok_defs intro!: update_where_ok)

lemma ReapExpiredLeases_ok: "table_ok m db \<Longrightarrow> table_ok m (snd (ReapExpiredLeases now m db))"
  by (auto simp: ReapExpiredLeases_def benign_def expired_def reap_row_def Let_def row_ok_defs
      intro!: update_where_ok)

lemma PromoteWaitingJobs_ok: "table_ok m db \<Longrightarrow> table_ok m (snd (PromoteWaitingJobs now db))"
  by (auto simp: PromoteWaitingJobs_def Let_def benign_def row_ok_defs intro!: update_where_ok)

lemma ForgetDeadLetterJob_ok: "table_ok m db \<Longrightarrow> table_ok m (snd (ForgetDeadLetterJob now i db))"
  by (auto simp: ForgetDeadLetterJob_def Let_def benign_def row_ok_defs intro!: update_where_ok)

lemma RequestDeploymentJobCancel_ok:
  "table_ok m db \<Longrightarrow> table_ok m (snd (RequestDeploymentJobCancel di now d db))"
  by (auto simp: RequestDeploymentJobCancel_def Let_def benign_def row_ok_defs intro!: update_where_ok)

lemma table_ok_filter:
  assumes "table_ok m db" shows "table_ok m (db\<lparr>rows := filter Q (rows db)\<rparr>)"
  using assms unfolding table_ok_def keys_ok_def locks_ok_def ids_ok_def by (simp add: distinct_map_filter)

lemma table_ok_map:
  assumes "table_ok m db" "\<And>j. ID (g j) = ID j" "\<And>j. IdempotencyKey (g j) = IdempotencyKey j"
    "\<And>j. LockKey (g j) = LockKey j" "\<And>j. active (g j) = active j"
    "\<And>j. lease_ok (g j) = lease_ok j" "\<And>j. counters_ok m (g j) = counters_ok m j"
  shows "table_ok m (db\<lparr>rows := map g (rows db)\<rparr>)"
  using assms ids_ok_map [of db g] keys_ok_map [of db g] locks_ok_map [of db g]
  unfolding table_ok_def by auto

lemma PurgeTerminalJobs_ok:
  assumes "table_ok m db"
  shows "table_ok m (snd (PurgeTerminalJobs now d db))"
  using table_ok_map [OF table_ok_filter [OF assms]]
  by (simp add: PurgeTerminalJobs_def Let_def row_ok_defs split: option.splits)

subsection \<open>Enqueue and dequeue\<close>

lemma EnqueueJob_InrD:
  assumes "EnqueueJob now a db = Inr (j, db')"
  shows "rows db' = rows db @ [j]" "next_id db' = next_id db + 1" "ID j = next_id db"
    "Status j = p_Status a" "Attempt j = 0" "ResumeCount j = 0" "LeasedBy j = None" "LeaseExpiresAt j = None"
    "IdempotencyKey j = p_IdempotencyKey a" "LockKey j = p_LockKey a" "MaxAttempts j = p_MaxAttempts a"
    "0 < p_MaxAttempts a" "RunAt j = p_RunAt a" "Queue j = p_Queue a"
    "\<And>k x. k \<in> set (rows db) \<Longrightarrow> IdempotencyKey k = Some x \<Longrightarrow> p_IdempotencyKey a \<noteq> Some x"
  using assms by (auto simp: EnqueueJob_def Let_def list_ex_iff split: if_splits)

lemma EnqueueJob_ok:
  assumes ok: "table_ok m db" and e: "EnqueueJob now a db = Inr (j, db')"
    and st: "p_Status a \<in> {JobStatusQueued, JobStatusScheduled}" and m: "0 \<le> m"
  shows "table_ok m db'"
proof -
  note e = EnqueueJob_InrD [OF e]
  have na: "\<not> active j" using st e(4) by (auto simp: active_def)
  have "ids_ok db'"
    using ok e unfolding table_ok_def ids_ok_def by fastforce
  moreover have "keys_ok db'"
  proof (rule keys_okI)
    fix a b x assume ab: "a \<in> set (rows db')" "b \<in> set (rows db')"
      and x: "IdempotencyKey a = Some x" "IdempotencyKey b = Some x"
    have "a \<in> set (rows db) \<and> b \<in> set (rows db) \<or> a = j \<and> b = j"
      using ab x e(1,9,15) by auto
    then show "ID a = ID b"
      using ok x keys_okD [of db a b x] by (auto simp: table_ok_def)
  qed
  moreover have "locks_ok db'"
    using ok e(1) na locks_okD unfolding table_ok_def by (intro locks_okI) auto
  moreover have "lease_ok j \<and> counters_ok m j"
    using e st m by (auto simp: row_ok_defs)
  ultimately show ?thesis
    using ok e unfolding table_ok_def by auto
qed

lemma best_in: "best js = Some j \<Longrightarrow> j \<in> set js"
  by (induction js arbitrary: j) (auto split: option.splits if_splits)

lemma best_None [simp]: "best js = None \<longleftrightarrow> js = []"
  by (cases js) (auto split: option.splits)

lemma before_trans: "before a b \<Longrightarrow> before b c \<Longrightarrow> before a c"
  by (auto simp: before_def)

lemma before_total: "ID a \<noteq> ID b \<Longrightarrow> before a b \<or> before b a"
  by (auto simp: before_def)

lemma before_asym: "before a b \<Longrightarrow> \<not> before b a"
  by (auto simp: before_def)

text \<open>The order is a strict weak order: rows that compare equal are interchangeable.\<close>

lemma before_cases: "before a c \<Longrightarrow> before a b \<or> before b c"
  by (auto simp: before_def)

lemma best_first: "best js = Some j \<Longrightarrow> k \<in> set js \<Longrightarrow> \<not> before k j"
proof (induction js arbitrary: j k)
  case (Cons x js)
  show ?case
  proof (cases "best js")
    case None
    with Cons.prems show ?thesis using before_asym by auto
  next
    case (Some y)
    have y: "\<not> before k' y" if "k' \<in> set js" for k'
      using Cons.IH [OF Some that] .
    show ?thesis
    proof (cases "before y x")
      case True
      with Some Cons.prems y before_asym show ?thesis by auto
    next
      case False
      have "\<not> before k' x" if "k' \<in> set js" for k'
        using y [OF that] False before_cases by blast
      with False Some Cons.prems before_asym show ?thesis by auto
    qed
  qed
qed simp

lemma DequeueJob_InrD:
  assumes "DequeueJob snap locked now w secs queues db = Inr (j, db')"
  obtains j0 where "j0 \<in> set (rows db)" "candidate snap locked now queues j0" "lock_free db j0"
    "j = lease_row now w secs j0" "db' = update_where (\<lambda>k. ID k = ID j0) (lease_row now w secs) db"
    "\<And>k. k \<in> set (rows db) \<Longrightarrow> candidate snap locked now queues k \<Longrightarrow> \<not> before k j0"
proof -
  from assms obtain j0 where b: "best (filter (candidate snap locked now queues) (rows db)) = Some j0"
    and lf: "lock_free db j0"
    and eqs: "j = lease_row now w secs j0" "db' = update_where (\<lambda>k. ID k = ID j0) (lease_row now w secs) db"
    by (auto simp: DequeueJob_def split: option.splits if_splits)
  from best_in [OF b] have j0: "j0 \<in> set (rows db)" "candidate snap locked now queues j0" by auto
  have "\<not> before k j0" if "k \<in> set (rows db)" "candidate snap locked now queues k" for k
    using best_first [OF b, of k] that by auto
  then show thesis using that j0 lf eqs by blast
qed

lemma unique_row:
  "ids_ok db \<Longrightarrow> j \<in> set (rows db) \<Longrightarrow> k \<in> set (rows db) \<Longrightarrow> ID j = ID k \<Longrightarrow> j = k"
  unfolding ids_ok_def by (metis distinct_map inj_onD)

lemma lease_row_simps [simp]:
  "ID (lease_row now w secs j) = ID j" "IdempotencyKey (lease_row now w secs j) = IdempotencyKey j"
  "LockKey (lease_row now w secs j) = LockKey j" "Attempt (lease_row now w secs j) = Attempt j + 1"
  "MaxAttempts (lease_row now w secs j) = MaxAttempts j" "active (lease_row now w secs j)"
  "LeasedBy (lease_row now w secs j) = Some w" "ResumeCount (lease_row now w secs j) = ResumeCount j"
  by (simp_all add: lease_row_def active_def)

lemma DequeueJob_ok:
  assumes ok: "table_ok m db" and d: "DequeueJob snap locked now w secs queues db = Inr (j, db')"
  shows "table_ok m db'"
proof -
  from d obtain j0 where j0: "j0 \<in> set (rows db)" "candidate snap locked now queues j0" "lock_free db j0"
    "db' = update_where (\<lambda>k. ID k = ID j0) (lease_row now w secs) db"
    by (rule DequeueJob_InrD) blast
  define g where "g k = (if ID k = ID j0 then lease_row now w secs k else k)" for k
  have rows: "rows db' = map g (rows db)" by (simp add: g_def j0(4))
  have g: "ID (g k) = ID k" "IdempotencyKey (g k) = IdempotencyKey k" "LockKey (g k) = LockKey k"
    "ID k \<noteq> ID j0 \<Longrightarrow> g k = k" for k
    by (simp_all add: g_def)
  have ids: "ids_ok db" and wf: "\<And>k. k \<in> set (rows db) \<Longrightarrow> lease_ok k \<and> counters_ok m k"
    using ok by (auto simp: table_ok_def)
  have same: "k = j0" if "k \<in> set (rows db)" "ID k = ID j0" for k
    using unique_row [OF ids that(1) j0(1) that(2)] .
  have lf: "\<not> active h" if "h \<in> set (rows db)" "LockKey j0 = Some x" "LockKey h = Some x" for h x
    using j0(3) that by (auto simp: lock_free_def list_ex_iff)
  have "ids_ok db'"
    by (rule ids_ok_map [OF ids g(1) rows]) (simp add: j0(4))
  moreover have "keys_ok db'"
    by (rule keys_ok_map [of db g]) (use ok g(1,2) rows in \<open>simp_all add: table_ok_def\<close>)
  moreover have "locks_ok db'"
  proof (rule locks_okI)
    fix a b x assume "a \<in> set (rows db')" "b \<in> set (rows db')"
    then obtain a0 b0 where ab: "a0 \<in> set (rows db)" "b0 \<in> set (rows db)" "a = g a0" "b = g b0"
      using rows by auto
    assume act: "active a" "active b" and lk: "LockKey a = Some x" "LockKey b = Some x"
    then have lk0: "LockKey a0 = Some x" "LockKey b0 = Some x" using ab g(3) by auto
    consider "a0 = j0" "b0 = j0" | "a0 = j0" "ID b0 \<noteq> ID j0" | "b0 = j0" "ID a0 \<noteq> ID j0"
      | "ID a0 \<noteq> ID j0" "ID b0 \<noteq> ID j0"
      using same ab(1,2) by blast
    then show "ID a = ID b"
    proof cases
      case 1
      then show ?thesis using ab by simp
    next
      case 2
      then show ?thesis using lf [OF ab(2)] lk0 act ab g(4) by metis
    next
      case 3
      then show ?thesis using lf [OF ab(1)] lk0 act ab g(4) by metis
    next
      case 4
      then show ?thesis using ok ab act lk0 g(4) locks_okD unfolding table_ok_def by metis
    qed
  qed
  moreover have "lease_ok (lease_row now w secs j0) \<and> counters_ok m (lease_row now w secs j0)"
    using wf [OF j0(1)] j0(2)
    by (auto simp: lease_row_def row_ok_defs candidate_def due_def)
  then have "lease_ok k \<and> counters_ok m k" if "k \<in> set (rows db')" for k
    using that rows wf same g(4) by (auto simp: g_def)
  ultimately show ?thesis
    by (auto simp: table_ok_def)
qed

end
