(* ===== verification/JobQueue.thy ===== *)
theory JobQueue
  imports Complex_Main JobStore "HOL-Library.Word"
begin

text \<open>
  The queue package (\<^verbatim>\<open>src/internal/queue/queue.go\<close>, \<^verbatim>\<open>steps.go\<close>,
  \<^verbatim>\<open>worker.go\<close>): enqueueing with an idempotency key, the retry delay, the step recorder and
  the life of one job attempt in a worker.  The persistence boundary
  \<^verbatim>\<open>EnqueueStore\<close> is the locale \<open>enqueue_store\<close>; the queries of the jobs table are
  its interpretation.  JSON encoding and uuid generation are parameters.
\<close>

section \<open>Enqueue\<close>

definition LeaseDuration :: int where
  "LeaseDuration = 90 * second"

definition maxResumes :: int where
  "maxResumes = 3"

definition KnownQueues :: "string list" where
  "KnownQueues = [''default'', ''deploy'', ''backup'', ''cleanup'', ''notify'', ''maintenance'', ''webhook'', ''task'']"

text \<open>A \<^verbatim>\<open>nil\<close> payload and a zero \<^verbatim>\<open>RunAt\<close> are \<^const>\<open>None\<close>.\<close>

record 'p EnqueueOptions =
  o_Queue :: string
  o_Type :: string
  o_Payload :: "'p option"
  o_Priority :: int
  o_RunAt :: "int option"
  o_MaxAttempts :: int
  o_IdempotencyKey :: "string option"
  o_LockKey :: "string option"
  o_TeamID :: "int option"
  o_ResourceID :: "int option"
  o_RetryOfID :: "int option"

datatype queue_error = ErrUnknownQueue string | ErrPayload | ErrUuid | ErrEnqueue db_error | ErrReplay db_error

definition enqueue_params :: "string \<Rightarrow> string \<Rightarrow> int \<Rightarrow> 'p EnqueueOptions \<Rightarrow> string \<Rightarrow> EnqueueJobParams" where
  "enqueue_params queue u now opts payload =
     (let (runAt, status) =
            (case o_RunAt opts of
               Some t \<Rightarrow> if t > now then (t, JobStatusScheduled) else (now, JobStatusQueued)
             | None \<Rightarrow> (now, JobStatusQueued));
          maxAttempts = (if o_MaxAttempts opts \<le> 0 then 5 else o_MaxAttempts opts)
      in \<lparr>p_Uuid = u, p_Queue = queue, p_JobType = o_Type opts, p_Payload = payload,
          p_Priority = o_Priority opts, p_RunAt = runAt, p_MaxAttempts = maxAttempts,
          p_IdempotencyKey = o_IdempotencyKey opts, p_LockKey = o_LockKey opts,
          p_TeamID = o_TeamID opts, p_ResourceID = o_ResourceID opts, p_CorrelationID = None,
          p_RetryOfID = o_RetryOfID opts, p_Status = status\<rparr>)"

text \<open>The call of the store and what follows it: the job, the original of a replayed key, or the error.\<close>

definition insert_or_replay ::
  "(EnqueueJobParams \<Rightarrow> 'db \<Rightarrow> (db_error, Job \<times> 'db) result) \<Rightarrow>
   (string option \<Rightarrow> 'db \<Rightarrow> (db_error, Job) result) \<Rightarrow> 'p EnqueueOptions \<Rightarrow> EnqueueJobParams \<Rightarrow> 'db
     \<Rightarrow> (queue_error, Job) result \<times> 'db" where
  "insert_or_replay enq get opts a db =
     (case enq a db of
        Inr (job, db') \<Rightarrow> (Inr job, db')
      | Inl err \<Rightarrow>
          if o_IdempotencyKey opts \<noteq> None \<and> err = ErrNoRows
          then (case get (o_IdempotencyKey opts) db of
                  Inl e \<Rightarrow> (Inl (ErrReplay e), db) | Inr job \<Rightarrow> (Inr job, db))
          else (Inl (ErrEnqueue err), db))"

definition Enqueue ::
  "(EnqueueJobParams \<Rightarrow> 'db \<Rightarrow> (db_error, Job \<times> 'db) result) \<Rightarrow>
   (string option \<Rightarrow> 'db \<Rightarrow> (db_error, Job) result) \<Rightarrow>
   ('p \<Rightarrow> string option) \<Rightarrow> string option \<Rightarrow> int \<Rightarrow> 'p EnqueueOptions \<Rightarrow> 'db
     \<Rightarrow> (queue_error, Job) result \<times> 'db" where
  "Enqueue enq get marshal uuid now opts db =
     (let queue = (if o_Queue opts = [] then ''default'' else o_Queue opts) in
      if queue \<notin> set KnownQueues then (Inl (ErrUnknownQueue queue), db)
      else case (case o_Payload opts of None \<Rightarrow> Some ''{}'' | Some p \<Rightarrow> marshal p) of
        None \<Rightarrow> (Inl ErrPayload, db)
      | Some payload \<Rightarrow>
        (case uuid of
           None \<Rightarrow> (Inl ErrUuid, db)
         | Some u \<Rightarrow>
           insert_or_replay enq get opts (enqueue_params queue u now opts payload) db))"

text \<open>The options that reach the store: a consumed queue, a payload that encodes, a uuid.\<close>

definition admissible :: "('p \<Rightarrow> string option) \<Rightarrow> string option \<Rightarrow> 'p EnqueueOptions \<Rightarrow> bool" where
  "admissible marshal uuid opts \<longleftrightarrow>
     (o_Queue opts = [] \<or> o_Queue opts \<in> set KnownQueues) \<and> uuid \<noteq> None \<and>
     (case o_Payload opts of None \<Rightarrow> True | Some p \<Rightarrow> marshal p \<noteq> None)"

lemma enqueue_params_simps [simp]:
  "p_IdempotencyKey (enqueue_params queue u now opts pl) = o_IdempotencyKey opts"
  "p_LockKey (enqueue_params queue u now opts pl) = o_LockKey opts"
  "p_Queue (enqueue_params queue u now opts pl) = queue"
  "0 < p_MaxAttempts (enqueue_params queue u now opts pl)"
  "p_Status (enqueue_params queue u now opts pl) \<in> {JobStatusQueued, JobStatusScheduled}"
  by (auto simp: enqueue_params_def Let_def split: option.splits if_splits)

lemma default_known [simp]: "''default'' \<in> set KnownQueues"
  by (simp add: KnownQueues_def)

text \<open>An admissible enqueue is the call of the store, then the replay branch.\<close>

lemma Enqueue_admissible:
  assumes "admissible marshal uuid opts"
  obtains a where "0 < p_MaxAttempts a" "p_IdempotencyKey a = o_IdempotencyKey opts"
    "p_Queue a \<in> set KnownQueues" "p_Status a \<in> {JobStatusQueued, JobStatusScheduled}"
    "Some (p_Uuid a) = uuid" "p_RetryOfID a = o_RetryOfID opts"
    "Enqueue enq get marshal uuid now opts db = insert_or_replay enq get opts a db"
proof -
  define queue where "queue = (if o_Queue opts = [] then ''default'' else o_Queue opts)"
  have q: "queue \<in> set KnownQueues" using assms by (auto simp: admissible_def queue_def)
  obtain pl where pl: "(case o_Payload opts of None \<Rightarrow> Some ''{}'' | Some p \<Rightarrow> marshal p) = Some pl"
    using assms by (auto simp: admissible_def split: option.splits)
  obtain u where u: "uuid = Some u" using assms by (auto simp: admissible_def)
  show thesis
    by (rule that [of "enqueue_params queue u now opts pl"])
      (use q in \<open>simp_all add: u Enqueue_def pl queue_def [symmetric] enqueue_params_def Let_def split: option.splits\<close>)
qed

lemma Enqueue_not_admissible:
  "\<not> admissible marshal uuid opts \<Longrightarrow>
     (\<exists>e. Enqueue enq get marshal uuid now opts db = (Inl e, db))"
  by (auto simp: admissible_def Enqueue_def Let_def split: option.splits)

text \<open>What \<^verbatim>\<open>Enqueue\<close> relies on of its store: an insert is found under its key, an insert
  yields no row exactly on a key that is already taken, and a lookup finds rows with the key only.\<close>

locale enqueue_store =
  fixes enq :: "EnqueueJobParams \<Rightarrow> 'db \<Rightarrow> (db_error, Job \<times> 'db) result"
    and get :: "string option \<Rightarrow> 'db \<Rightarrow> (db_error, Job) result"
  assumes insert_lookup: "enq a db = Inr (j, db') \<Longrightarrow> p_IdempotencyKey a = Some k \<Longrightarrow> get (Some k) db' = Inr j"
    and insert_taken: "0 < p_MaxAttempts a \<Longrightarrow> p_IdempotencyKey a = Some k \<Longrightarrow> get (Some k) db = Inr j \<Longrightarrow>
      enq a db = Inl ErrNoRows"
    and no_row_taken: "enq a db = Inl ErrNoRows \<Longrightarrow> \<exists>k j. p_IdempotencyKey a = Some k \<and> get (Some k) db = Inr j"
begin

lemma replay:
  assumes "admissible marshal uuid opts" "o_IdempotencyKey opts = Some k" "get (Some k) db = Inr j"
  shows "Enqueue enq get marshal uuid now opts db = (Inr j, db)"
proof -
  from assms(1) obtain a where a: "0 < p_MaxAttempts a" "p_IdempotencyKey a = Some k"
    and e: "Enqueue enq get marshal uuid now opts db = insert_or_replay enq get opts a db"
    unfolding assms(2) [symmetric] by (rule Enqueue_admissible)
  from insert_taken [OF a assms(3)] show ?thesis
    using assms(2,3) by (simp add: e insert_or_replay_def)
qed

lemma enqueued_found:
  assumes "Enqueue enq get marshal uuid now opts db = (Inr j, db')" "o_IdempotencyKey opts = Some k"
  shows "get (Some k) db' = Inr j"
proof -
  have adm: "admissible marshal uuid opts"
    using assms(1) Enqueue_not_admissible [of marshal uuid opts enq get now db] by force
  then obtain a where a: "p_IdempotencyKey a = Some k"
    and e: "Enqueue enq get marshal uuid now opts db = insert_or_replay enq get opts a db"
    unfolding assms(2) [symmetric] by (rule Enqueue_admissible)
  from assms a e insert_lookup [OF _ a] show ?thesis
    by (auto simp: insert_or_replay_def split: sum.splits if_splits prod.splits)
qed

text \<open>The replay branch always finds the original: the lookup of \<^verbatim>\<open>Enqueue\<close> cannot fail.\<close>

lemma no_replay_error: "fst (Enqueue enq get marshal uuid now opts db) \<noteq> Inl (ErrReplay e)"
proof (cases "admissible marshal uuid opts")
  case True
  then obtain a where a: "p_IdempotencyKey a = o_IdempotencyKey opts"
    and e: "Enqueue enq get marshal uuid now opts db = insert_or_replay enq get opts a db"
    by (rule Enqueue_admissible)
  then show ?thesis
    using no_row_taken [of a db] by (auto simp: insert_or_replay_def split: sum.splits)
next
  case False
  then show ?thesis
    by (auto simp: admissible_def Enqueue_def Let_def split: option.splits)
qed

end

lemma find_key: "find (\<lambda>j. IdempotencyKey j = Some k) xs = Some j \<Longrightarrow> j \<in> set xs \<and> IdempotencyKey j = Some k"
  by (induction xs) (auto split: if_splits)

lemma GetJob_Inr:
  "GetJobByIdempotencyKey (Some k) db = Inr j \<Longrightarrow> j \<in> set (rows db) \<and> IdempotencyKey j = Some k"
  using find_key by (auto simp: GetJobByIdempotencyKey_def split: option.splits)

lemma find_append_fresh:
  "(\<And>y. y \<in> set xs \<Longrightarrow> \<not> P y) \<Longrightarrow> P x \<Longrightarrow> find P (xs @ [x]) = Some x"
  by (induction xs) auto

interpretation jobs_store: enqueue_store "EnqueueJob now" GetJobByIdempotencyKey for now
proof unfold_locales
  fix a db j db' k assume e: "EnqueueJob now a db = Inr (j, db')" and k: "p_IdempotencyKey a = Some k"
  note d = EnqueueJob_InrD [OF e]
  from d(15) k have "\<And>y. y \<in> set (rows db) \<Longrightarrow> IdempotencyKey y \<noteq> Some k" by blast
  from find_append_fresh [OF this, where x = j] d(1,9) k
  show "GetJobByIdempotencyKey (Some k) db' = Inr j" by (simp add: GetJobByIdempotencyKey_def)
next
  fix a :: EnqueueJobParams and db j k
  assume "0 < p_MaxAttempts a" "p_IdempotencyKey a = Some k" "GetJobByIdempotencyKey (Some k) db = Inr j"
  then show "EnqueueJob now a db = Inl ErrNoRows"
    using GetJob_Inr [of k db j] by (auto simp: EnqueueJob_def list_ex_iff)
next
  fix a db assume "EnqueueJob now a db = Inl ErrNoRows"
  then obtain j k where "p_IdempotencyKey a = Some k" "j \<in> set (rows db)" "IdempotencyKey j = Some k"
    by (auto simp: EnqueueJob_def Let_def list_ex_iff split: if_splits)
  moreover from this have "\<exists>j'. GetJobByIdempotencyKey (Some k) db = Inr j'"
    by (auto simp: GetJobByIdempotencyKey_def find_None_iff split: option.splits)
  ultimately show "\<exists>k j. p_IdempotencyKey a = Some k \<and> GetJobByIdempotencyKey (Some k) db = Inr j" by blast
qed

section \<open>The retry delay\<close>

type_synonym int32 = "32 word"
type_synonym int64 = "64 word"

text \<open>\<^verbatim>\<open>RetryBase << max(attempt-1, 0)\<close> at the widths of the code: the attempt is a 32-bit signed
  integer, the duration a 64-bit one, and a shift by 64 or more gives zero.  The random number \<open>r\<close> of
  \<^verbatim>\<open>rand.Float64()\<close> lies in the half-open unit interval; the jitter is computed exactly, then truncated.\<close>

definition RetryBase :: int64 where
  "RetryBase = 5000000000"

definition retry_base :: "int64 \<Rightarrow> int32 \<Rightarrow> int64" where
  "retry_base first attempt =
     (let n = (if sint (attempt - 1) \<le> 0 then 0 else unat (attempt - 1));
          base = push_bit n first
      in if sint base > 300000000000 \<or> sint base \<le> 0 then 300000000000 else base)"

definition retryBackoff :: "int32 \<Rightarrow> rat \<Rightarrow> int" where
  "retryBackoff attempt r =
     \<lfloor>rat_of_int (sint (retry_base RetryBase attempt)) * (4 / 5 + 2 / 5 * r)\<rfloor>"

text \<open>The shift never wraps to a small positive delay: shifted left by \<open>n\<close>, the base is a multiple of
  \<open>2 ^ (n + 9)\<close>, so a wrapped value is not positive or far above the cap.\<close>

lemma shift_below_64:
  "\<forall>n \<in> set [0..<64].
    (let v = (5000000000 * 2 ^ n + 2 ^ 63) mod 2 ^ 64 - 2 ^ 63 :: int in
      (if v > 300000000000 \<or> v \<le> 0 then 300000000000 else v) = min (5000000000 * 2 ^ n) 300000000000)"
  by code_simp

lemma sint_push:
  "sint (push_bit n (word_of_int k :: int64)) = (k * 2 ^ n + 2 ^ 63) mod 2 ^ 64 - 2 ^ 63"
  by (simp add: push_bit_eq_mult sint_uint uint_word_ariths signed_take_bit_eq_take_bit_shift take_bit_eq_mod
      word_of_int_2p [symmetric] uint_word_of_int mod_simps flip: of_int_power)

lemma push_bit_large: "64 \<le> n \<Longrightarrow> push_bit n (w :: int64) = 0"
  by (rule bit_word_eqI) (simp add: bit_push_bit_iff)

lemma retry_base_exact:
  "sint (retry_base RetryBase attempt) =
     min (5000000000 * 2 ^ (if sint (attempt - 1) \<le> 0 then 0 else unat (attempt - 1))) 300000000000"
proof -
  define n where "n = (if sint (attempt - 1) \<le> 0 then 0 else unat (attempt - 1))"
  define v where "v = sint (push_bit n (word_of_int 5000000000 :: int64))"
  have rb: "sint (retry_base RetryBase attempt) = (if v > 300000000000 \<or> v \<le> 0 then 300000000000 else v)"
    by (simp add: retry_base_def RetryBase_def n_def v_def Let_def)
  show ?thesis
  proof (cases "n < 64")
    case True
    then have "n \<in> set [0..<64]" by simp
    from bspec [OF shift_below_64 this] show ?thesis
      unfolding rb n_def [symmetric] v_def sint_push Let_def .
  next
    case False
    then have "(2::int) ^ 6 \<le> 2 ^ n" by (intro power_increasing) auto
    then have "min (5000000000 * 2 ^ n) 300000000000 = (300000000000 :: int)" by simp
    moreover from False have "v = 0" by (simp add: v_def push_bit_large)
    ultimately show ?thesis unfolding rb n_def [symmetric] by simp
  qed
qed

section \<open>The step recorder\<close>

record StepRecorder =
  r_jobID :: int
  r_steps :: "Step list"

definition NewStepRecorder :: "Job \<Rightarrow> StepRecorder" where
  "NewStepRecorder job = \<lparr>r_jobID = ID job, r_steps = []\<rparr>"

text \<open>\<open>up\<close> tells whether the update reached the database: a failure is ignored.\<close>

definition Flush :: "bool \<Rightarrow> int \<Rightarrow> StepRecorder \<Rightarrow> jobs_table \<Rightarrow> jobs_table" where
  "Flush up now r db = (if up then UpdateJobSteps now (r_jobID r) (r_steps r) db else db)"

definition Start :: "bool \<Rightarrow> int \<Rightarrow> string \<Rightarrow> StepRecorder \<times> jobs_table \<Rightarrow> StepRecorder \<times> jobs_table" where
  "Start up now name = (\<lambda>(r, db).
     let r' = r\<lparr>r_steps := r_steps r @ [\<lparr>st_name = name, st_status = ''running'', st_message = None,
                                       st_started_at = Some now, st_finished_at = None\<rparr>]\<rparr>
     in (r', Flush up now r' db))"

definition Skip :: "bool \<Rightarrow> int \<Rightarrow> string \<Rightarrow> string \<Rightarrow> StepRecorder \<times> jobs_table \<Rightarrow> StepRecorder \<times> jobs_table" where
  "Skip up now name msg = (\<lambda>(r, db).
     let r' = r\<lparr>r_steps := r_steps r @ [\<lparr>st_name = name, st_status = ''skipped'', st_message = Some msg,
                                       st_started_at = Some now, st_finished_at = Some now\<rparr>]\<rparr>
     in (r', Flush up now r' db))"

definition finish_step :: "bool \<Rightarrow> int \<Rightarrow> string \<Rightarrow> string \<Rightarrow> StepRecorder \<times> jobs_table \<Rightarrow> StepRecorder \<times> jobs_table" where
  "finish_step up now status msg = (\<lambda>(r, db).
     if r_steps r = [] then (r, db)
     else
       let c = last (r_steps r);
           c' = c\<lparr>st_status := status, st_finished_at := Some now,
                  st_message := (if msg \<noteq> [] then Some msg else st_message c)\<rparr>;
           r' = r\<lparr>r_steps := butlast (r_steps r) @ [c']\<rparr>
       in (r', Flush up now r' db))"

definition Succeed :: "bool \<Rightarrow> int \<Rightarrow> string \<Rightarrow> StepRecorder \<times> jobs_table \<Rightarrow> StepRecorder \<times> jobs_table" where
  "Succeed up now msg = finish_step up now ''succeeded'' msg"

definition Fail :: "bool \<Rightarrow> int \<Rightarrow> string \<Rightarrow> StepRecorder \<times> jobs_table \<Rightarrow> StepRecorder \<times> jobs_table" where
  "Fail up now msg = finish_step up now ''failed'' msg"

section \<open>One attempt in a worker\<close>

text \<open>The result of a handler: its encoded result (\<^const>\<open>None\<close> for \<^verbatim>\<open>nil\<close> or one that does
  not encode), or its error message.  No handler for the job type is an error too.\<close>

type_synonym attempt_outcome = "(string, string option) result"

definition no_handler :: "Job \<Rightarrow> string" where
  "no_handler job = ''no handler registered for job type '' @ JobType job"

definition fail_attempt :: "int \<Rightarrow> rat \<Rightarrow> string \<Rightarrow> Job \<Rightarrow> string \<Rightarrow> jobs_table \<Rightarrow> jobs_table" where
  "fail_attempt now r worker job err db =
     (let toDead = (Attempt job \<ge> MaxAttempts job);
          nextRun = (if toDead then now else now + retryBackoff (word_of_int (Attempt job)) r)
      in snd (FailJob now (ID job) err nextRun toDead worker db))"

definition succeed_attempt :: "int \<Rightarrow> string \<Rightarrow> Job \<Rightarrow> string option \<Rightarrow> jobs_table \<Rightarrow> jobs_table" where
  "succeed_attempt now worker job res db = snd (SucceedJob now (ID job) res worker db)"

definition complete_attempt :: "int \<Rightarrow> rat \<Rightarrow> string \<Rightarrow> Job \<Rightarrow> attempt_outcome \<Rightarrow> jobs_table \<Rightarrow> jobs_table" where
  "complete_attempt now r worker job out db =
     (case out of Inl err \<Rightarrow> fail_attempt now r worker job err db
                | Inr res \<Rightarrow> succeed_attempt now worker job res db)"

text \<open>The whole of \<^verbatim>\<open>process\<close> when the store answers: the lease is turned into a running job or
  the attempt is given up; the registered handler runs with a fresh recorder; the timeline is flushed; the
  outcome is recorded.  A handler is its effect on the recorder and the table (the table may also change
  under it, by heartbeats and by other workers) with its outcome.\<close>

definition process ::
  "(string \<Rightarrow> (Job \<Rightarrow> StepRecorder \<times> jobs_table \<Rightarrow> attempt_outcome \<times> StepRecorder \<times> jobs_table) option) \<Rightarrow>
   int \<Rightarrow> int \<Rightarrow> rat \<Rightarrow> bool \<Rightarrow> string \<Rightarrow> Job \<Rightarrow> jobs_table \<Rightarrow> jobs_table" where
  "process handlers t0 t1 r up worker job db =
     (let (n, db1) = MarkJobRunning t0 (ID job) worker db in
      if n = 0 then db1
      else case handlers (JobType job) of
        None \<Rightarrow> fail_attempt t1 r worker job (no_handler job) db1
      | Some handler \<Rightarrow>
          let (out, rec, db2) = handler job (NewStepRecorder job, db1)
          in complete_attempt t1 r worker job out (Flush up t1 rec db2))"

lemmas step_ops = Start_def Skip_def Succeed_def Fail_def finish_step_def Flush_def


text \<open>What a handler does to its timeline, as a sequence of recorder calls.\<close>

datatype recorder_call = CallStart string | CallSucceed string | CallFail string | CallSkip string string

fun recorder_step :: "bool \<times> int \<times> recorder_call \<Rightarrow> StepRecorder \<times> jobs_table \<Rightarrow> StepRecorder \<times> jobs_table" where
  "recorder_step (up, now, CallStart n) s = Start up now n s"
| "recorder_step (up, now, CallSucceed m) s = Succeed up now m s"
| "recorder_step (up, now, CallFail m) s = Fail up now m s"
| "recorder_step (up, now, CallSkip n m) s = Skip up now n m s"

definition step_ok :: "Step \<Rightarrow> bool" where
  "step_ok st \<longleftrightarrow> st_status st \<in> {''running'', ''succeeded'', ''failed'', ''skipped''} \<and>
     st_started_at st \<noteq> None \<and> (st_finished_at st = None \<longleftrightarrow> st_status st = ''running'')"

lemma recorder_step_keeps:
  "r_jobID (fst (recorder_step c s)) = r_jobID (fst s)"
  "\<forall>st \<in> set (r_steps (fst s)). step_ok st \<Longrightarrow> \<forall>st \<in> set (r_steps (fst (recorder_step c s))). step_ok st"
  by (cases "(c, s)" rule: recorder_step.cases;
      auto simp: step_ops step_ok_def Let_def split: prod.splits dest: in_set_butlastD last_in_set)+

text \<open>A closed prefix of the timeline is never rewritten: a call changes the last step or appends one.\<close>

lemma recorder_step_prefix:
  "take (length (r_steps (fst s)) - 1) (r_steps (fst (recorder_step c s))) =
   take (length (r_steps (fst s)) - 1) (r_steps (fst s)) \<and>
   length (r_steps (fst s)) \<le> length (r_steps (fst (recorder_step c s)))"
  by (cases "(c, s)" rule: recorder_step.cases)
    (auto simp: step_ops Let_def butlast_conv_take split: prod.splits)

text \<open>One recorder call writes only the steps of its own job.\<close>

definition same_but_steps :: "int \<Rightarrow> Job \<Rightarrow> Job \<Rightarrow> bool" where
  "same_but_steps i a b \<longleftrightarrow>
     (if ID a = i then b\<lparr>Steps := Steps a, UpdatedAt := UpdatedAt a\<rparr> = a else b = a)"

lemma Flush_rows:
  "list_all2 (same_but_steps (r_jobID r)) (rows db) (rows (Flush up now r db))"
  by (auto simp: Flush_def UpdateJobSteps_def same_but_steps_def list_all2_conv_all_nth)

lemma same_but_steps_trans:
  "same_but_steps i a b \<Longrightarrow> same_but_steps i b c \<Longrightarrow> same_but_steps i a c"
  by (cases a; cases b; cases c) (auto simp: same_but_steps_def split: if_splits)

lemma recorder_step_rows:
  "list_all2 (same_but_steps (r_jobID (fst s))) (rows (snd s)) (rows (snd (recorder_step c s)))"
proof -
  obtain r db where s: "s = (r, db)" by (cases s)
  have refl: "list_all2 (same_but_steps i) xs xs" for i and xs :: "Job list"
    by (simp add: list_all2_conv_all_nth same_but_steps_def)
  have fl: "list_all2 (same_but_steps (r_jobID r)) (rows db) (rows (Flush up now (r\<lparr>r_steps := x\<rparr>) db))" for up now x
    using Flush_rows [of "r\<lparr>r_steps := x\<rparr>" db up now] by simp
  show ?thesis
    by (cases "(c, s)" rule: recorder_step.cases)
      (use fl refl in \<open>auto simp: s Start_def Skip_def Succeed_def Fail_def finish_step_def Let_def\<close>)
qed

lemma recorder_step_persists:
  assumes "c = (True, now, k)" "r_steps (fst (recorder_step c s)) \<noteq> []"
    and "j \<in> set (rows (snd (recorder_step c s)))" "ID j = r_jobID (fst s)"
  shows "Steps j = r_steps (fst (recorder_step c s))"
  using assms by (cases "(c, s)" rule: recorder_step.cases)
    (auto simp: step_ops UpdateJobSteps_def Let_def split: if_splits prod.splits)

section \<open>Properties\<close>



text \<open>The step timeline of an attempt is honest.  After any sequence of recorder calls by a handler, every
  step has one of the four statuses the API documents, carries a start time, and has an end time exactly
  when it is no longer running; the calls changed nothing of the jobs table but the steps (and the update
  time) of the job being run; and whenever the last call reached the database, the stored timeline is the
  recorder's.\<close>

theorem step_timeline:
  assumes "run = foldl (\<lambda>s c. recorder_step c s) (NewStepRecorder job, db) calls"
  shows "(\<forall>st \<in> set (r_steps (fst run)). step_ok st) \<and>
         list_all2 (same_but_steps (ID job)) (rows db) (rows (snd run)) \<and>
         (calls \<noteq> [] \<and> fst (last calls) \<and> r_steps (fst run) \<noteq> [] \<longrightarrow>
            (\<forall>j \<in> set (rows (snd run)). ID j = ID job \<longrightarrow> Steps j = r_steps (fst run)))"
  using assms
proof (induction calls arbitrary: run rule: rev_induct)
  case Nil
  then show ?case
    by (simp add: NewStepRecorder_def list_all2_conv_all_nth same_but_steps_def)
next
  case (snoc c calls)
  define s where "s = foldl (\<lambda>s c. recorder_step c s) (NewStepRecorder job, db) calls"
  have run: "run = recorder_step c s" using snoc.prems by (simp add: s_def)
  note IH = snoc.IH [OF s_def]
  have jid: "r_jobID (fst s) = ID job"
    unfolding s_def by (induction calls rule: rev_induct) (simp_all add: NewStepRecorder_def recorder_step_keeps)
  have "\<forall>st \<in> set (r_steps (fst run)). step_ok st"
    using IH recorder_step_keeps(2) [of s c] unfolding run by blast
  moreover have "list_all2 (same_but_steps (ID job)) (rows db) (rows (snd run))"
  proof (rule list_all2_trans [OF same_but_steps_trans])
    show "list_all2 (same_but_steps (ID job)) (rows db) (rows (snd s))" using IH by blast
    show "list_all2 (same_but_steps (ID job)) (rows (snd s)) (rows (snd run))"
      using recorder_step_rows [of s c] unfolding run jid .
  qed
  moreover have "\<forall>j \<in> set (rows (snd run)). ID j = ID job \<longrightarrow> Steps j = r_steps (fst run)"
    if "fst c" "r_steps (fst run) \<noteq> []"
    using that recorder_step_persists [of c "fst (snd c)" "snd (snd c)" s] unfolding run jid
    by (cases c) simp
  ultimately show ?case by auto
qed

text \<open>A job of a small table, used by the witnesses.\<close>

definition sample_params :: EnqueueJobParams where
  "sample_params = \<lparr>p_Uuid = ''u1'', p_Queue = ''deploy'', p_JobType = ''deployment.run'', p_Payload = ''{}'',
     p_Priority = 0, p_RunAt = 0, p_MaxAttempts = 2, p_IdempotencyKey = Some ''k'', p_LockKey = Some ''l'',
     p_TeamID = None, p_ResourceID = None, p_CorrelationID = None, p_RetryOfID = None,
     p_Status = JobStatusQueued\<rparr>"

definition sample_enqueued :: "Job \<times> jobs_table" where
  "sample_enqueued = projr (EnqueueJob 0 sample_params \<lparr>rows = [], next_id = 1\<rparr>)"

lemmas sample_defs = sample_enqueued_def sample_params_def EnqueueJob_def

end
