(* ===== verification/QueueMachine.thy ===== *)
theory QueueMachine
  imports JobQueue
begin

text \<open>
  The job queue as a state machine: the jobs table, the attempts in flight in the workers, and a ghost
  count of the leases each job has been given.  One step is one call of the store made by
  \<^verbatim>\<open>Enqueue\<close>, by a worker goroutine of \<^verbatim>\<open>Worker.Run\<close> and
  \<^verbatim>\<open>Worker.process\<close>, by its heartbeat, by the maintenance loop, or by the API, in any
  interleaving and at any times.  A worker may vanish at any point (\<open>q_lost\<close>).  With the flag of the relation
  set, the maintenance loop reaps no lease whose attempt is still in flight: the assumption that heartbeats
  arrive within the lease duration.
\<close>

record exec =
  ex_worker :: string
  ex_job :: Job

record qstate =
  tbl :: jobs_table
  execs :: "exec list"
  leases :: "int \<Rightarrow> nat"

abbreviation ex_id :: "exec \<Rightarrow> int" where "ex_id e \<equiv> ID (ex_job e)"

definition leaseSeconds :: int where
  "leaseSeconds = LeaseDuration div second"

inductive qstep :: "bool \<Rightarrow> qstate \<Rightarrow> qstate \<Rightarrow> bool" for b :: bool where
  q_enqueue: "Enqueue (EnqueueJob t) GetJobByIdempotencyKey (marshal :: string \<Rightarrow> string option) uuid now opts (tbl s) = (res, db)
    \<Longrightarrow> qstep b s (s\<lparr>tbl := db\<rparr>)"
| q_dequeue: "DequeueJob snap locked now w leaseSeconds KnownQueues (tbl s) = Inr (j, db)
    \<Longrightarrow> qstep b s (s\<lparr>tbl := db, execs := \<lparr>ex_worker = w, ex_job = j\<rparr> # execs s,
                     leases := (leases s)(ID j := leases s (ID j) + 1)\<rparr>)"
| q_start: "e \<in> set (execs s) \<Longrightarrow> MarkJobRunning now (ex_id e) (ex_worker e) (tbl s) = (n, db)
    \<Longrightarrow> qstep b s (s\<lparr>tbl := db, execs := (if n = 0 then remove1 e (execs s) else execs s)\<rparr>)"
| q_heartbeat: "e \<in> set (execs s) \<Longrightarrow> HeartbeatJob now (ex_id e) (ex_worker e) leaseSeconds (tbl s) = (n, db)
    \<Longrightarrow> qstep b s (s\<lparr>tbl := db\<rparr>)"
| q_record: "e \<in> set (execs s) \<Longrightarrow> r_jobID rec = ex_id e \<Longrightarrow> recorder_step c (rec, tbl s) = (rec', db)
    \<Longrightarrow> qstep b s (s\<lparr>tbl := db\<rparr>)"
| q_complete: "e \<in> set (execs s) \<Longrightarrow> complete_attempt now r (ex_worker e) (ex_job e) out (tbl s) = db
    \<Longrightarrow> qstep b s (s\<lparr>tbl := db, execs := remove1 e (execs s)\<rparr>)"
| q_lost: "e \<in> set (execs s) \<Longrightarrow> qstep b s (s\<lparr>execs := remove1 e (execs s)\<rparr>)"
| q_promote: "PromoteWaitingJobs now (tbl s) = (n, db) \<Longrightarrow> qstep b s (s\<lparr>tbl := db\<rparr>)"
| q_reap: "ReapExpiredLeases now maxResumes (tbl s) = (reaped, db)
    \<Longrightarrow> b \<longrightarrow> (\<forall>e \<in> set (execs s). \<forall>j \<in> set (rows (tbl s)). ID j = ex_id e \<longrightarrow> \<not> expired now j)
    \<Longrightarrow> qstep b s (s\<lparr>tbl := db\<rparr>)"
| q_cancel: "RequestDeploymentJobCancel deployment_id now d (tbl s) = (n, db) \<Longrightarrow> qstep b s (s\<lparr>tbl := db\<rparr>)"
| q_forget: "ForgetDeadLetterJob now i (tbl s) = (n, db) \<Longrightarrow> qstep b s (s\<lparr>tbl := db\<rparr>)"
| q_purge: "PurgeTerminalJobs now days (tbl s) = (n, db) \<Longrightarrow> qstep b s (s\<lparr>tbl := db\<rparr>)"

inductive_cases qstepE: "qstep b s s'"

definition init :: "qstate \<Rightarrow> bool" where
  "init s \<longleftrightarrow> rows (tbl s) = [] \<and> execs s = [] \<and> (\<forall>i. leases s i = 0)"

inductive reachable :: "bool \<Rightarrow> qstate \<Rightarrow> bool" for b :: bool where
  r_init: "init s \<Longrightarrow> reachable b s"
| r_step: "reachable b s \<Longrightarrow> qstep b s s' \<Longrightarrow> reachable b s'"

section \<open>How a step changes the rows\<close>

text \<open>
  Every step acts on the table in one of four ways: it leaves it alone, appends a fresh row, leases one
  row, or evolves rows one by one (dropping some).  \<open>row_change\<close> bounds the rewriting; its last argument
  tells whether the row may be given back by the reaper.
\<close>

definition row_change :: "Job \<Rightarrow> Job \<Rightarrow> bool" where
  "row_change j k \<longleftrightarrow>
     ID k = ID j \<and> IdempotencyKey k = IdempotencyKey j \<and> LockKey k = LockKey j \<and> MaxAttempts k = MaxAttempts j \<and>
     (active k \<longrightarrow> active j \<and> LeasedBy k = LeasedBy j) \<and> (finished j \<longrightarrow> finished k) \<and>
     (if Attempt k = Attempt j \<and> ResumeCount k = ResumeCount j then True
      else active j \<and> \<not> active k \<and> ResumeCount k = ResumeCount j + 1 \<and>
           (if ResumeCount j \<ge> maxResumes then Attempt k = Attempt j \<and> finished k else Attempt k = max (Attempt j - 1) 0))"

lemma row_change_refl [simp]: "row_change j j"
  by (simp add: row_change_def)

lemmas op_defs = MarkJobRunning_def HeartbeatJob_def SucceedJob_def FailJob_def UpdateJobSteps_def
  ReapExpiredLeases_def PromoteWaitingJobs_def ForgetDeadLetterJob_def RequestDeploymentJobCancel_def
  owned_def expired_def reap_row_def

lemmas attempt_defs = complete_attempt_def fail_attempt_def succeed_attempt_def

definition evolves :: "jobs_table \<Rightarrow> jobs_table \<Rightarrow> bool" where
  "evolves db db' \<longleftrightarrow> next_id db' = next_id db \<and> (\<forall>k \<in> set (rows db'). \<exists>j \<in> set (rows db). row_change j k)"

lemma evolves_refl [simp]: "evolves db db"
  unfolding evolves_def by (auto intro: bexI [where P = "\<lambda>j. row_change j k" and x = k for k])

lemma evolves_update_where:
  "(\<And>j. P j \<Longrightarrow> row_change j (f j)) \<Longrightarrow> evolves db (update_where P f db)"
  unfolding evolves_def by (auto intro: bexI [where P = "\<lambda>j. row_change j k" and x = k for k])

lemmas change_defs = row_change_def status_defs

lemma evolves_MarkJobRunning: "evolves db (snd (MarkJobRunning now i w db))"
  by (auto simp: op_defs change_defs Let_def intro!: evolves_update_where)

lemma evolves_HeartbeatJob: "evolves db (snd (HeartbeatJob now i w secs db))"
  by (auto simp: op_defs change_defs intro!: evolves_update_where)

lemma evolves_UpdateJobSteps: "evolves db (UpdateJobSteps now i sts db)"
  by (auto simp: op_defs change_defs intro!: evolves_update_where)

lemma evolves_complete: "evolves db (complete_attempt now r w j out db)"
  by (auto simp: op_defs change_defs attempt_defs Let_def intro!: evolves_update_where split: sum.splits)

lemma evolves_promote: "evolves db (snd (PromoteWaitingJobs now db))"
  by (auto simp: op_defs change_defs Let_def intro!: evolves_update_where)

lemma evolves_reap: "evolves db (snd (ReapExpiredLeases now maxResumes db))"
  by (auto simp: op_defs change_defs Let_def intro!: evolves_update_where)

lemma evolves_cancel: "evolves db (snd (RequestDeploymentJobCancel di now d db))"
  by (auto simp: op_defs change_defs Let_def intro!: evolves_update_where)

lemma evolves_forget: "evolves db (snd (ForgetDeadLetterJob now i db))"
  by (auto simp: op_defs change_defs Let_def intro!: evolves_update_where)

lemma evolves_purge: "evolves db (snd (PurgeTerminalJobs now d db))"
  by (auto simp: PurgeTerminalJobs_def Let_def evolves_def change_defs split: option.splits)

lemma evolves_recorder: "evolves (snd s) (snd (recorder_step c s))"
  by (cases "(c, s)" rule: recorder_step.cases)
    (auto simp: step_ops Let_def evolves_UpdateJobSteps split: prod.splits)

lemmas op_evolves = evolves_MarkJobRunning evolves_HeartbeatJob evolves_complete evolves_promote
  evolves_reap evolves_cancel evolves_forget evolves_purge evolves_recorder

definition appends :: "jobs_table \<Rightarrow> Job \<Rightarrow> jobs_table \<Rightarrow> bool" where
  "appends db j db' \<longleftrightarrow> rows db' = rows db @ [j] \<and> next_id db' = next_id db + 1 \<and> ID j = next_id db \<and>
     waiting j \<and> Attempt j = 0 \<and> ResumeCount j = 0 \<and> 0 < MaxAttempts j"

lemma Enqueue_cases:
  assumes "Enqueue (EnqueueJob t) GetJobByIdempotencyKey marshal uuid now opts db = (res, db')"
  obtains "db' = db"
  | a j where "EnqueueJob t a db = Inr (j, db')" "p_Status a \<in> {JobStatusQueued, JobStatusScheduled}"
      "appends db j db'" "res = Inr j"
proof (cases "admissible marshal uuid opts")
  case True
  then obtain a where a: "p_Status a \<in> {JobStatusQueued, JobStatusScheduled}"
    and e: "Enqueue (EnqueueJob t) GetJobByIdempotencyKey marshal uuid now opts db =
      insert_or_replay (EnqueueJob t) GetJobByIdempotencyKey opts a db"
    by (rule Enqueue_admissible)
  show thesis
  proof (cases "EnqueueJob t a db")
    case (Inl err)
    then show ?thesis using that(1) assms e by (auto simp: insert_or_replay_def split: if_splits sum.splits)
  next
    case (Inr x)
    then obtain j db2 where x: "EnqueueJob t a db = Inr (j, db2)" by (cases x) auto
    then have eq: "db2 = db'" "res = Inr j" using assms e by (auto simp: insert_or_replay_def)
    note d = EnqueueJob_InrD [OF x]
    have "appends db j db'"
      using d a eq by (auto simp: appends_def waiting_def)
    with that(2) [of a j] x a eq show ?thesis by blast
  qed
next
  case False
  then show thesis
    using that(1) assms Enqueue_not_admissible [of marshal uuid opts "EnqueueJob t" GetJobByIdempotencyKey now db] by force
qed

definition leases_row :: "jobs_table \<Rightarrow> Job \<Rightarrow> jobs_table \<Rightarrow> bool" where
  "leases_row db j db' \<longleftrightarrow> j \<in> set (rows db) \<and> Status j = JobStatusQueued \<and>
     (\<exists>now w. db' = update_where (\<lambda>k. ID k = ID j) (lease_row now w leaseSeconds) db)"

lemma Dequeue_leases:
  assumes "DequeueJob snap locked now w leaseSeconds queues db = Inr (j, db')"
  obtains j0 where "leases_row db j0 db'" "j = lease_row now w leaseSeconds j0"
    "db' = update_where (\<lambda>k. ID k = ID j0) (lease_row now w leaseSeconds) db"
  using assms by (rule DequeueJob_InrD) (auto simp: leases_row_def candidate_def due_def)

text \<open>The four ways.\<close>

lemma qstep_rows:
  assumes "qstep b s s'"
  obtains "evolves (tbl s) (tbl s')" "leases s' = leases s"
  | j where "appends (tbl s) j (tbl s')" "leases s' = leases s"
  | j where "leases_row (tbl s) j (tbl s')" "leases s' = (leases s)(ID j := leases s (ID j) + 1)"
  using assms
proof cases
  case (q_enqueue t marshal uuid now opts res db)
  from q_enqueue(2) show thesis
    by (rule Enqueue_cases) (use that q_enqueue(1) in auto)
next
  case (q_dequeue snap locked now w j db)
  from q_dequeue(2) show thesis
    by (rule Dequeue_leases) (use that(3) q_dequeue(1) in auto)
next
  case (q_record e rec c rec' db)
  then show thesis using that(1) evolves_recorder [of "(rec, tbl s)" c] by simp
next
  case (q_start e now n db)
  then show thesis using that(1) evolves_MarkJobRunning [of "tbl s" now "ex_id e" "ex_worker e"] by simp
next
  case (q_heartbeat e now n db)
  then show thesis using that(1) evolves_HeartbeatJob [of "tbl s" now "ex_id e" "ex_worker e" leaseSeconds] by simp
next
  case (q_complete e now r out db)
  then show thesis using that(1) evolves_complete [of "tbl s" now r "ex_worker e" "ex_job e" out] by simp
next
  case (q_promote now n db)
  then show thesis using that(1) evolves_promote [of "tbl s" now] by simp
next
  case (q_reap now reaped db)
  then show thesis using that(1) evolves_reap [of "tbl s" now] by simp
next
  case (q_cancel di now d n db)
  then show thesis using that(1) evolves_cancel [of "tbl s" di now d] by simp
next
  case (q_forget now i n db)
  then show thesis using that(1) evolves_forget [of "tbl s" now i] by simp
next
  case (q_purge now days n db)
  then show thesis using that(1) evolves_purge [of "tbl s" now days] by simp
qed (use that(1) in auto)

section \<open>The invariant of the table\<close>

lemma recorder_ok: "table_ok m (snd s) \<Longrightarrow> table_ok m (snd (recorder_step c s))"
  by (cases "(c, s)" rule: recorder_step.cases)
    (auto simp: step_ops Let_def UpdateJobSteps_ok split: prod.splits)

lemma complete_ok: "table_ok m db \<Longrightarrow> table_ok m (complete_attempt now r w j out db)"
  by (simp add: attempt_defs FailJob_ok SucceedJob_ok Let_def split: sum.splits)

lemma qstep_table_ok:
  assumes "qstep b s s'" "table_ok maxResumes (tbl s)"
  shows "table_ok maxResumes (tbl s')"
  using assms(1)
proof cases
  case (q_enqueue t marshal uuid now opts res db)
  from q_enqueue(2) show ?thesis
  proof (rule Enqueue_cases)
    assume "db = tbl s" then show ?thesis using q_enqueue(1) assms(2) by simp
  next
    fix a j assume "EnqueueJob t a (tbl s) = Inr (j, db)" "p_Status a \<in> {JobStatusQueued, JobStatusScheduled}"
    from EnqueueJob_ok [OF assms(2) this] show ?thesis using q_enqueue(1) by (simp add: maxResumes_def)
  qed
next
  case (q_dequeue snap locked now w j db)
  then show ?thesis using DequeueJob_ok [OF assms(2) q_dequeue(2)] by simp
next
  case (q_record e rec c rec' db)
  then show ?thesis using recorder_ok [of maxResumes "(rec, tbl s)" c] assms(2) by simp
next
  case (q_start e now n db)
  then show ?thesis using MarkJobRunning_ok [OF assms(2), of now "ex_id e" "ex_worker e"] by simp
next
  case (q_heartbeat e now n db)
  then show ?thesis using HeartbeatJob_ok [OF assms(2), of now "ex_id e" "ex_worker e" leaseSeconds] by simp
next
  case (q_promote now n db)
  then show ?thesis using PromoteWaitingJobs_ok [OF assms(2), of now] by simp
next
  case (q_reap now reaped db)
  then show ?thesis using ReapExpiredLeases_ok [OF assms(2), of now] by simp
next
  case (q_cancel di now d n db)
  then show ?thesis using RequestDeploymentJobCancel_ok [OF assms(2), of di now d] by simp
next
  case (q_forget now i n db)
  then show ?thesis using ForgetDeadLetterJob_ok [OF assms(2), of now i] by simp
next
  case (q_purge now days n db)
  then show ?thesis using PurgeTerminalJobs_ok [OF assms(2), of now days] by simp
qed (use assms(2) complete_ok in auto)

lemma init_table_ok: "init s \<Longrightarrow> table_ok m (tbl s)"
  by (simp add: init_def table_ok_def ids_ok_def keys_ok_def locks_ok_def)

lemma reachable_table_ok: "reachable b s \<Longrightarrow> table_ok maxResumes (tbl s)"
  by (induction rule: reachable.induct) (auto intro: qstep_table_ok init_table_ok)

section \<open>The ledger of leases\<close>

text \<open>A lease costs an attempt; the reaper gives the attempt back and counts a resume, except when the
  resumes are exhausted and the job goes to the dead letter.\<close>

definition row_ledger :: "(int \<Rightarrow> nat) \<Rightarrow> Job \<Rightarrow> bool" where
  "row_ledger ls j \<longleftrightarrow>
     int (ls (ID j)) + (if ResumeCount j > maxResumes then 1 else 0) = Attempt j + ResumeCount j"

definition ledger_ok :: "qstate \<Rightarrow> bool" where
  "ledger_ok s \<longleftrightarrow> (\<forall>j \<in> set (rows (tbl s)). row_ledger (leases s) j) \<and>
     (\<forall>i \<ge> next_id (tbl s). leases s i = 0)"

lemma row_change_ledger:
  assumes "row_change j k" "row_ledger ls j" "counters_ok maxResumes j" "lease_ok j"
  shows "row_ledger ls k"
proof -
  have r: "\<not> finished j \<Longrightarrow> ResumeCount j \<le> maxResumes" "active j \<Longrightarrow> 1 \<le> Attempt j"
    and nf: "active j \<Longrightarrow> \<not> finished j"
    using assms(3) by (simp_all add: counters_ok_def)
  have id: "ID k = ID j" using assms(1) by (simp add: row_change_def)
  show ?thesis
  proof (cases "Attempt k = Attempt j \<and> ResumeCount k = ResumeCount j")
    case True
    then show ?thesis using assms(2) id by (simp add: row_ledger_def)
  next
    case False
    then have c: "active j" "ResumeCount k = ResumeCount j + 1"
      "if ResumeCount j \<ge> maxResumes then Attempt k = Attempt j else Attempt k = max (Attempt j - 1) 0"
      using assms(1) unfolding row_change_def by (meson | presburger)+
    then show ?thesis
      using assms(2) r nf id by (simp add: row_ledger_def split: if_splits)
  qed
qed

lemma table_okD:
  assumes "table_ok m db" "j \<in> set (rows db)"
  shows "lease_ok j" "counters_ok m j" "ID j < next_id db"
  using assms by (auto simp: table_ok_def ids_ok_def)

lemma qstep_ledger:
  assumes st: "qstep b s s'" and ok: "table_ok maxResumes (tbl s)" and led: "ledger_ok s"
  shows "ledger_ok s'"
  using st
proof (cases rule: qstep_rows)
  case 1
  have "row_ledger (leases s') k" if "k \<in> set (rows (tbl s'))" for k
  proof -
    from 1(1) that obtain j where "j \<in> set (rows (tbl s))" "row_change j k" by (auto simp: evolves_def)
    then show ?thesis
      using row_change_ledger [of j k] led table_okD [OF ok, of j] 1(2) by (simp add: ledger_ok_def)
  qed
  then show ?thesis using led 1 by (simp add: ledger_ok_def evolves_def)
next
  case (2 j)
  then show ?thesis using led by (auto simp: ledger_ok_def appends_def row_ledger_def maxResumes_def)
next
  case (3 j)
  then obtain now w where j: "j \<in> set (rows (tbl s))" "Status j = JobStatusQueued"
    and t: "tbl s' = update_where (\<lambda>k. ID k = ID j) (lease_row now w leaseSeconds) (tbl s)"
    by (auto simp: leases_row_def)
  have ids: "ids_ok (tbl s)" using ok by (simp add: table_ok_def)
  have "row_ledger (leases s') k'" if k': "k' \<in> set (rows (tbl s'))" for k'
  proof -
    from k' t obtain k where k: "k \<in> set (rows (tbl s))"
      "k' = (if ID k = ID j then lease_row now w leaseSeconds k else k)" by auto
    moreover have "row_ledger (leases s) k" using led k by (simp add: ledger_ok_def)
    ultimately show ?thesis using 3(2) by (auto simp: row_ledger_def)
  qed
  moreover have "leases s' i = 0" if "i \<ge> next_id (tbl s')" for i
    using that 3(2) t led table_okD(3) [OF ok j(1)] by (auto simp: ledger_ok_def)
  ultimately show ?thesis by (simp add: ledger_ok_def)
qed

lemma init_ledger: "init s \<Longrightarrow> ledger_ok s"
  by (simp add: init_def ledger_ok_def)

lemma reachable_ledger: "reachable b s \<Longrightarrow> ledger_ok s"
  by (induction rule: reachable.induct) (auto intro: qstep_ledger init_ledger reachable_table_ok)

section \<open>Attempts in flight, when no live lease is reaped\<close>

definition row_budget :: "Job \<Rightarrow> bool" where
  "row_budget j \<longleftrightarrow> Attempt j \<le> MaxAttempts j \<and> (waiting j \<longrightarrow> Attempt j < MaxAttempts j)"

definition budget_ok :: "jobs_table \<Rightarrow> bool" where
  "budget_ok db \<longleftrightarrow> (\<forall>j \<in> set (rows db). row_budget j)"

text \<open>An attempt in flight holds the lease of its row, and no two hold the same row.\<close>

definition holds :: "exec \<Rightarrow> Job \<Rightarrow> bool" where
  "holds e j \<longleftrightarrow> ID j = ex_id e \<and> active j \<and> LeasedBy j = Some (ex_worker e) \<and>
     Attempt j = Attempt (ex_job e) \<and> MaxAttempts j = MaxAttempts (ex_job e)"

definition exec_ok :: "jobs_table \<Rightarrow> exec list \<Rightarrow> bool" where
  "exec_ok db es \<longleftrightarrow> distinct (map ex_id es) \<and> (\<forall>e \<in> set es. \<exists>j \<in> set (rows db). holds e j)"

lemma remove1_distinct_map:
  "distinct (map f es) \<Longrightarrow> distinct (map f (remove1 e es))"
  "distinct (map f es) \<Longrightarrow> e \<in> set es \<Longrightarrow> e' \<in> set (remove1 e es) \<Longrightarrow> f e' \<noteq> f e"
proof -
  show "distinct (map f (remove1 e es))" if "distinct (map f es)"
    using that by (metis distinct_map distinct_remove1 inj_on_subset set_remove1_subset)
  show "f e' \<noteq> f e" if "distinct (map f es)" "e \<in> set es" "e' \<in> set (remove1 e es)"
    using that by (auto simp: distinct_map inj_on_def)
qed

lemma exec_ok_remove1: "exec_ok db es \<Longrightarrow> exec_ok db (remove1 e es)"
  unfolding exec_ok_def by (auto simp: remove1_distinct_map(1) dest: notin_set_remove1)

lemma update_where_exec_ok:
  assumes "exec_ok db es" "\<And>e j. e \<in> set es \<Longrightarrow> j \<in> set (rows db) \<Longrightarrow> P j \<Longrightarrow> holds e j \<Longrightarrow> holds e (f j)"
  shows "exec_ok (update_where P f db) es"
  unfolding exec_ok_def
proof (intro conjI ballI)
  show "distinct (map ex_id es)" using assms(1) by (simp add: exec_ok_def)
  fix e assume e: "e \<in> set es"
  then obtain j where j: "j \<in> set (rows db)" "holds e j" using assms(1) by (auto simp: exec_ok_def)
  then have "holds e (if P j then f j else j)" using assms(2) [OF e] by simp
  moreover have "(if P j then f j else j) \<in> set (rows (update_where P f db))" using j(1) by auto
  ultimately show "\<exists>k \<in> set (rows (update_where P f db)). holds e k" by blast
qed

lemma update_where_budget_ok:
  assumes "budget_ok db" "\<And>j. j \<in> set (rows db) \<Longrightarrow> P j \<Longrightarrow> row_budget j \<Longrightarrow> row_budget (f j)"
  shows "budget_ok (update_where P f db)"
  using assms by (auto simp: budget_ok_def)

text \<open>Completing an attempt: the row is the one it holds, so the budget the worker compares is the row's.\<close>

lemma complete_budget_ok:
  assumes bud: "budget_ok db" and ex: "exec_ok db es" and e: "e \<in> set es" and ids: "ids_ok db"
  shows "budget_ok (complete_attempt now r (ex_worker e) (ex_job e) out db)"
proof -
  obtain h where h: "h \<in> set (rows db)" "holds e h" using ex e by (auto simp: exec_ok_def)
  have same: "j = h" if "j \<in> set (rows db)" "owned (ex_id e) (ex_worker e) j" for j
    using unique_row [OF ids that(1) h(1)] that(2) h(2) by (auto simp: owned_def holds_def)
  show ?thesis
  proof (cases out)
    case (Inl err)
    show ?thesis
      unfolding attempt_defs Inl sum.case Let_def FailJob_def snd_conv
    proof (rule update_where_budget_ok [OF bud])
      fix j assume j: "j \<in> set (rows db)" "owned (ex_id e) (ex_worker e) j" "row_budget j"
      have "j = h" using same j by blast
      with h(2) j(3) show "row_budget
          (j\<lparr>Status := (if MaxAttempts (ex_job e) \<le> Attempt (ex_job e) then JobStatusDeadLetter else JobStatusRetryWait),
             LastError := Some err,
             RunAt := if MaxAttempts (ex_job e) \<le> Attempt (ex_job e) then now
                      else now + retryBackoff (word_of_int (Attempt (ex_job e))) r,
             DeadLetteredAt := if MaxAttempts (ex_job e) \<le> Attempt (ex_job e) then Some now else None,
             FinishedAt := if MaxAttempts (ex_job e) \<le> Attempt (ex_job e) then Some now else None,
             LeasedBy := None, LeaseExpiresAt := None, UpdatedAt := now\<rparr>)"
        by (auto simp: row_budget_def holds_def waiting_def)
    qed
  next
    case (Inr res)
    show ?thesis
      unfolding attempt_defs Inr sum.case SucceedJob_def snd_conv
      by (rule update_where_budget_ok [OF bud]) (auto simp: row_budget_def waiting_def)
  qed
qed

lemma complete_exec_ok:
  assumes ex: "exec_ok db es" and e: "e \<in> set es"
  shows "exec_ok (complete_attempt now r (ex_worker e) (ex_job e) out db) (remove1 e es)"
proof -
  have d: "distinct (map ex_id es)" using ex by (simp add: exec_ok_def)
  then have other: "ex_id e' \<noteq> ex_id e" if "e' \<in> set (remove1 e es)" for e'
    using remove1_distinct_map(2) [OF d e that] by simp
  have "exec_ok db (remove1 e es)" using ex by (rule exec_ok_remove1)
  then show ?thesis
    unfolding attempt_defs SucceedJob_def FailJob_def Let_def
    by (cases out) (auto simp: owned_def holds_def dest: other intro!: update_where_exec_ok)
qed

lemma reap_budget: "row_budget j \<Longrightarrow> counters_ok maxResumes j \<Longrightarrow> active j \<Longrightarrow> row_budget (reap_row now maxResumes j)"
  by (auto simp: row_budget_def reap_row_def counters_ok_def Let_def waiting_def)

lemma budget_ok_ops:
  "budget_ok db \<Longrightarrow> budget_ok (snd (MarkJobRunning now i w db))"
  "budget_ok db \<Longrightarrow> budget_ok (snd (HeartbeatJob now i w secs db))"
  "budget_ok db \<Longrightarrow> budget_ok (UpdateJobSteps now i sts db)"
  "budget_ok db \<Longrightarrow> budget_ok (snd (PromoteWaitingJobs now db))"
  "budget_ok db \<Longrightarrow> budget_ok (snd (RequestDeploymentJobCancel di now d db))"
  "budget_ok db \<Longrightarrow> budget_ok (snd (ForgetDeadLetterJob now i db))"
  by (auto simp: op_defs Let_def row_budget_def waiting_def intro!: update_where_budget_ok)

lemma exec_ok_ops:
  "exec_ok db es \<Longrightarrow> exec_ok (snd (MarkJobRunning now i w db)) es"
  "exec_ok db es \<Longrightarrow> exec_ok (snd (HeartbeatJob now i w secs db)) es"
  "exec_ok db es \<Longrightarrow> exec_ok (UpdateJobSteps now i sts db) es"
  "exec_ok db es \<Longrightarrow> exec_ok (snd (PromoteWaitingJobs now db)) es"
  "exec_ok db es \<Longrightarrow> exec_ok (snd (RequestDeploymentJobCancel di now d db)) es"
  "exec_ok db es \<Longrightarrow> exec_ok (snd (ForgetDeadLetterJob now i db)) es"
  by (auto simp: op_defs Let_def holds_def active_def intro!: update_where_exec_ok)

lemma recorder_budget_exec:
  "budget_ok (snd s) \<Longrightarrow> budget_ok (snd (recorder_step c s))"
  "exec_ok (snd s) es \<Longrightarrow> exec_ok (snd (recorder_step c s)) es"
  by (cases "(c, s)" rule: recorder_step.cases;
      auto simp: step_ops Let_def budget_ok_ops exec_ok_ops split: prod.splits)+

lemma purge_budget_exec:
  assumes "budget_ok db" "exec_ok db es"
  shows "budget_ok (snd (PurgeTerminalJobs now d db))" "exec_ok (snd (PurgeTerminalJobs now d db)) es"
proof -
  show "budget_ok (snd (PurgeTerminalJobs now d db))"
    using assms(1) by (auto simp: PurgeTerminalJobs_def Let_def budget_ok_def row_budget_def waiting_def split: option.splits)
  define drop where "drop k \<longleftrightarrow> Status k \<in> {JobStatusSucceeded, JobStatusCancelled} \<and>
    (case FinishedAt k of None \<Rightarrow> False | Some t \<Rightarrow> t < now - d * 86400 * second)" for k :: Job
  define clear where "clear k = (case RetryOfID k of None \<Rightarrow> k
    | Some r \<Rightarrow> if list_ex (\<lambda>k. ID k = r \<and> drop k) (rows db) then k\<lparr>RetryOfID := None\<rparr> else k)" for k :: Job
  have purged: "rows (snd (PurgeTerminalJobs now d db)) = map clear (filter (\<lambda>k. \<not> drop k) (rows db))"
    unfolding PurgeTerminalJobs_def Let_def clear_def [abs_def] drop_def [abs_def] by simp
  have "\<exists>k \<in> set (rows (snd (PurgeTerminalJobs now d db))). holds e k" if "j \<in> set (rows db)" "holds e j" for e j
  proof -
    have "\<not> drop j" using that(2) by (auto simp: drop_def holds_def active_def)
    moreover have "holds e (clear j)" using that(2) by (auto simp: clear_def holds_def active_def split: option.splits)
    ultimately show ?thesis unfolding purged using that(1) by auto
  qed
  then show "exec_ok (snd (PurgeTerminalJobs now d db)) es"
    using assms(2) unfolding exec_ok_def by blast
qed

lemma dequeue_budget_exec:
  assumes ok: "table_ok maxResumes db" and bud: "budget_ok db" and ex: "exec_ok db es"
    and l: "leases_row db j0 db'" "db' = update_where (\<lambda>k. ID k = ID j0) (lease_row now w leaseSeconds) db"
  shows "budget_ok db' \<and> exec_ok db' (\<lparr>ex_worker = w, ex_job = lease_row now w leaseSeconds j0\<rparr> # es)"
proof
  have j0: "j0 \<in> set (rows db)" "Status j0 = JobStatusQueued" using l(1) by (auto simp: leases_row_def)
  have ids: "ids_ok db" using ok by (simp add: table_ok_def)
  have same: "k = j0" if "k \<in> set (rows db)" "ID k = ID j0" for k
    using unique_row [OF ids that(1) j0(1) that(2)] .
  show "budget_ok db'"
    unfolding l(2) by (rule update_where_budget_ok [OF bud])
      (use same j0(2) in \<open>auto simp: row_budget_def lease_row_def waiting_def\<close>)
  have no: "ex_id e \<noteq> ID j0" if e: "e \<in> set es" for e
  proof -
    from ex e obtain h where h: "h \<in> set (rows db)" "holds e h" by (auto simp: exec_ok_def)
    then have "h \<noteq> j0" using j0(2) by (auto simp: holds_def active_def)
    then show ?thesis using same [OF h(1)] h(2) by (auto simp: holds_def)
  qed
  have "exec_ok db' es"
    unfolding l(2) by (rule update_where_exec_ok [OF ex]) (use no in \<open>auto simp: holds_def\<close>)
  moreover have "lease_row now w leaseSeconds j0 \<in> set (rows db')" using j0(1) l(2) by force
  moreover have "holds \<lparr>ex_worker = w, ex_job = lease_row now w leaseSeconds j0\<rparr> (lease_row now w leaseSeconds j0)"
    by (simp add: holds_def)
  moreover have "ID j0 \<notin> ex_id ` set es" using no by fastforce
  ultimately show "exec_ok db' (\<lparr>ex_worker = w, ex_job = lease_row now w leaseSeconds j0\<rparr> # es)"
    by (auto simp: exec_ok_def)
qed

lemma append_budget_exec:
  assumes "appends db j db'" "budget_ok db" "exec_ok db es"
  shows "budget_ok db' \<and> exec_ok db' es"
  using assms by (auto simp: appends_def budget_ok_def exec_ok_def row_budget_def)

lemma reap_budget_exec:
  assumes ok: "table_ok maxResumes db" and bud: "budget_ok db" and ex: "exec_ok db es"
    and live: "\<forall>e \<in> set es. \<forall>j \<in> set (rows db). ID j = ex_id e \<longrightarrow> \<not> expired now j"
  shows "budget_ok (snd (ReapExpiredLeases now maxResumes db)) \<and> exec_ok (snd (ReapExpiredLeases now maxResumes db)) es"
  unfolding ReapExpiredLeases_def snd_conv
proof
  show "budget_ok (update_where (expired now) (reap_row now maxResumes) db)"
    by (rule update_where_budget_ok [OF bud]) (use table_okD [OF ok] reap_budget in \<open>auto simp: expired_def\<close>)
  show "exec_ok (update_where (expired now) (reap_row now maxResumes) db) es"
    by (rule update_where_exec_ok [OF ex]) (use live in \<open>auto simp: holds_def\<close>)
qed

lemma qstep_strict:
  assumes st: "qstep True s s'" and ok: "table_ok maxResumes (tbl s)"
    and bud: "budget_ok (tbl s)" and ex: "exec_ok (tbl s) (execs s)"
  shows "budget_ok (tbl s') \<and> exec_ok (tbl s') (execs s')"
  using st
proof cases
  case (q_enqueue t marshal uuid now opts res db)
  from q_enqueue(2) show ?thesis
    by (rule Enqueue_cases) (use q_enqueue(1) bud ex append_budget_exec [OF _ bud ex] in auto)
next
  case (q_dequeue snap locked now w j db)
  from q_dequeue(2) show ?thesis
    by (rule Dequeue_leases) (use q_dequeue(1) dequeue_budget_exec [OF ok bud ex] in simp)
next
  case (q_start e now n db)
  then show ?thesis
    using budget_ok_ops(1) [OF bud, of now "ex_id e" "ex_worker e"] exec_ok_ops(1) [OF ex, of now "ex_id e" "ex_worker e"]
    by (simp add: exec_ok_remove1)
next
  case (q_heartbeat e now n db)
  then show ?thesis
    using budget_ok_ops(2) [OF bud, of now "ex_id e" "ex_worker e" leaseSeconds]
      exec_ok_ops(2) [OF ex, of now "ex_id e" "ex_worker e" leaseSeconds] by simp
next
  case (q_record e rec c rec' db)
  then show ?thesis
    using recorder_budget_exec(1) [of "(rec, tbl s)" c] recorder_budget_exec(2) [of "(rec, tbl s)" "execs s" c] bud ex
    by simp
next
  case (q_complete e now r out db)
  then show ?thesis
    using complete_budget_ok [OF bud ex, of e now r out] complete_exec_ok [OF ex, of e now r out] ok
    by (simp add: table_ok_def)
next
  case (q_lost e)
  then show ?thesis using bud ex by (simp add: exec_ok_remove1)
next
  case (q_promote now n db)
  then show ?thesis using budget_ok_ops(4) [OF bud, of now] exec_ok_ops(4) [OF ex, of now] by simp
next
  case (q_reap now reaped db)
  then show ?thesis using reap_budget_exec [OF ok bud ex, of now] by simp
next
  case (q_cancel di now d n db)
  then show ?thesis using budget_ok_ops(5) [OF bud, of di now d] exec_ok_ops(5) [OF ex, of di now d] by simp
next
  case (q_forget now i n db)
  then show ?thesis using budget_ok_ops(6) [OF bud, of now i] exec_ok_ops(6) [OF ex, of now i] by simp
next
  case (q_purge now days n db)
  then show ?thesis using purge_budget_exec [OF bud ex, of now days] by simp
qed

lemma reachable_strict: "reachable True s \<Longrightarrow> budget_ok (tbl s) \<and> exec_ok (tbl s) (execs s)"
proof (induction rule: reachable.induct)
  case (r_init s)
  then show ?case by (simp add: init_def budget_ok_def exec_ok_def)
next
  case (r_step s s')
  then show ?case using qstep_strict reachable_table_ok by blast
qed

section \<open>Final states and stable keys\<close>

lemma lease_row_in:
  assumes "leases_row db j0 db'" "k \<in> set (rows db')"
  obtains j where "j \<in> set (rows db)" "ID k = ID j" "IdempotencyKey k = IdempotencyKey j"
    "ID j \<noteq> ID j0 \<longrightarrow> k = j"
proof -
  from assms(1) obtain now w where db': "db' = update_where (\<lambda>k. ID k = ID j0) (lease_row now w leaseSeconds) db"
    by (auto simp: leases_row_def)
  from assms(2) obtain j where "j \<in> set (rows db)" "k = (if ID j = ID j0 then lease_row now w leaseSeconds j else j)"
    unfolding db' by auto
  then show thesis using that [of j] by simp
qed

text \<open>A row that exists after a step was appended by it or comes from a row with the same key.\<close>

lemma qstep_origin:
  assumes st: "qstep b s s'" and ids: "ids_ok (tbl s)" and k: "k \<in> set (rows (tbl s'))" "ID k < next_id (tbl s)"
  shows "\<exists>j \<in> set (rows (tbl s)). ID k = ID j \<and> IdempotencyKey k = IdempotencyKey j \<and> (finished j \<longrightarrow> finished k)"
  using st
proof (cases rule: qstep_rows)
  case 1
  then obtain j where j: "j \<in> set (rows (tbl s))" "row_change j k" using k(1) by (auto simp: evolves_def)
  from j(2) have "ID k = ID j \<and> IdempotencyKey k = IdempotencyKey j \<and> (finished j \<longrightarrow> finished k)"
    unfolding row_change_def by (intro conjI) (elim conjE, assumption)+
  with j(1) show ?thesis by blast
next
  case (2 j)
  then have "k \<in> set (rows (tbl s))" using k by (auto simp: appends_def)
  then show ?thesis by blast
next
  case (3 j0)
  then have j0: "j0 \<in> set (rows (tbl s))" "Status j0 = JobStatusQueued" by (auto simp: leases_row_def)
  from 3(1) k(1) obtain j where j: "j \<in> set (rows (tbl s))" "ID k = ID j" "IdempotencyKey k = IdempotencyKey j"
    "ID j \<noteq> ID j0 \<longrightarrow> k = j"
    by (rule lease_row_in)
  have "finished k" if "finished j"
  proof (cases "ID j = ID j0")
    case True
    then have "j = j0" using unique_row [OF ids j(1) j0(1)] by simp
    with that j0(2) show ?thesis by (simp add: finished_def)
  next
    case False
    with j(4) that show ?thesis by simp
  qed
  with j show ?thesis by blast
qed

lemma qstep_next_id: "qstep b s s' \<Longrightarrow> next_id (tbl s) \<le> next_id (tbl s')"
  by (erule qstep_rows) (auto simp: evolves_def appends_def leases_row_def)

lemma qsteps_origin:
  assumes "(qstep b)\<^sup>*\<^sup>* s s'" "reachable b s" "k \<in> set (rows (tbl s'))" "ID k < next_id (tbl s)"
  shows "reachable b s' \<and>
    (\<exists>j \<in> set (rows (tbl s)). ID k = ID j \<and> IdempotencyKey k = IdempotencyKey j \<and> (finished j \<longrightarrow> finished k))"
  using assms
proof (induction arbitrary: k rule: rtranclp_induct)
  case base
  then show ?case by blast
next
  case (step y z)
  have n: "next_id (tbl s) \<le> next_id (tbl y)"
    using step.hyps(1) by (induction rule: rtranclp_induct) (auto dest: qstep_next_id)
  have ry: "reachable b y"
    using step.hyps(1) step.prems(1) by (induction rule: rtranclp_induct) (auto intro: r_step)
  then have "ids_ok (tbl y)" using reachable_table_ok by (auto simp: table_ok_def)
  then obtain j where "j \<in> set (rows (tbl y))" "ID k = ID j" "IdempotencyKey k = IdempotencyKey j"
    "finished j \<longrightarrow> finished k"
    using qstep_origin [OF step.hyps(2) _ step.prems(2)] step.prems(3) n by auto
  moreover from this step.IH [of j] step.prems obtain i where "i \<in> set (rows (tbl s))" "ID j = ID i"
    "IdempotencyKey j = IdempotencyKey i" "finished i \<longrightarrow> finished j" by auto
  ultimately show ?case using ry r_step [OF ry step.hyps(2)] by metis
qed

section \<open>Properties\<close>

text \<open>C11: However enqueues, workers, heartbeats, crashes, the reaper and the API interleave, and whether or not
  leases are lost, in every reachable state of the queue: two leased or running jobs never share a lock
  key; an idempotency key names one job; a job carries a lease (a worker and an expiry) exactly while it
  is leased or running; and no job is resumed more than three times before it is dead-lettered.\<close>

theorem queue_invariant:
  assumes "reachable b s"
  shows "(\<forall>j \<in> set (rows (tbl s)). \<forall>k \<in> set (rows (tbl s)). \<forall>x.
            active j \<and> active k \<and> LockKey j = Some x \<and> LockKey k = Some x \<longrightarrow> j = k) \<and>
         (\<forall>j \<in> set (rows (tbl s)). \<forall>k \<in> set (rows (tbl s)). \<forall>x.
            IdempotencyKey j = Some x \<and> IdempotencyKey k = Some x \<longrightarrow> j = k) \<and>
         (\<forall>j \<in> set (rows (tbl s)). (active j \<longleftrightarrow> LeasedBy j \<noteq> None) \<and> (active j \<longleftrightarrow> LeaseExpiresAt j \<noteq> None) \<and>
            (\<not> finished j \<longrightarrow> ResumeCount j \<le> 3))"
proof -
  have ok: "table_ok maxResumes (tbl s)" using assms by (rule reachable_table_ok)
  then have ids: "ids_ok (tbl s)" and keys: "keys_ok (tbl s)" and locks: "locks_ok (tbl s)"
    by (auto simp: table_ok_def)
  have "j = k" if "j \<in> set (rows (tbl s))" "k \<in> set (rows (tbl s))"
    "active j \<and> active k \<and> LockKey j = Some x \<and> LockKey k = Some x" for j k x
    using unique_row [OF ids that(1,2)] locks_okD [OF locks that(1,2)] that(3) by blast
  moreover have "j = k" if "j \<in> set (rows (tbl s))" "k \<in> set (rows (tbl s))"
    "IdempotencyKey j = Some x \<and> IdempotencyKey k = Some x" for j k x
    using unique_row [OF ids that(1,2)] keys_okD [OF keys that(1,2)] that(3) by blast
  moreover have "(active j \<longleftrightarrow> LeasedBy j \<noteq> None) \<and> (active j \<longleftrightarrow> LeaseExpiresAt j \<noteq> None) \<and>
      (\<not> finished j \<longrightarrow> ResumeCount j \<le> 3)" if "j \<in> set (rows (tbl s))" for j
    using table_okD [OF ok that] by (simp add: lease_ok_def counters_ok_def maxResumes_def)
  ultimately show ?thesis by blast
qed

text \<open>C12: When no lease is reaped under an attempt still in flight, a job is never worked on twice at once, is
  attempted at most \<^verbatim>\<open>max_attempts\<close> times in its own account, and is leased at most
  \<^verbatim>\<open>max_attempts\<close> plus three times in all, crashes of workers included: no job cycles
  forever.\<close>

theorem bounded_attempts:
  assumes "reachable True s"
  shows "distinct (map ex_id (execs s)) \<and>
         (\<forall>j \<in> set (rows (tbl s)). Attempt j \<le> MaxAttempts j \<and> int (leases s (ID j)) \<le> MaxAttempts j + 3)"
proof -
  have ok: "table_ok maxResumes (tbl s)" and led: "ledger_ok s"
    using assms by (auto intro: reachable_table_ok reachable_ledger)
  have st: "budget_ok (tbl s)" "exec_ok (tbl s) (execs s)" using reachable_strict [OF assms] by auto
  have "Attempt j \<le> MaxAttempts j \<and> int (leases s (ID j)) \<le> MaxAttempts j + 3" if j: "j \<in> set (rows (tbl s))" for j
  proof -
    have "row_ledger (leases s) j" "row_budget j" "counters_ok maxResumes j"
      using j led st(1) table_okD [OF ok j] by (auto simp: ledger_ok_def budget_ok_def)
    then show ?thesis
      by (auto simp: row_ledger_def row_budget_def counters_ok_def maxResumes_def split: if_splits)
  qed
  then show ?thesis using st(2) by (simp add: exec_ok_def)
qed

text \<open>C13: An idempotency key names one job for as long as the job exists.  If \<^verbatim>\<open>Enqueue\<close>
  returned a job for a key, then after any further steps of the queue that leave a row of that job in the
  table, an admissible \<^verbatim>\<open>Enqueue\<close> with the same key returns that same job and changes
  nothing.\<close>

theorem enqueue_idempotent:
  assumes s: "reachable b s" and j: "j \<in> set (rows (tbl s))" "IdempotencyKey j = Some k"
    and later: "(qstep b)\<^sup>*\<^sup>* s s'" and row: "\<exists>j' \<in> set (rows (tbl s')). ID j' = ID j"
    and again: "admissible marshal uuid opts" "o_IdempotencyKey opts = Some k"
  shows "\<exists>j'. ID j' = ID j \<and> j' \<in> set (rows (tbl s')) \<and>
    Enqueue (EnqueueJob t) GetJobByIdempotencyKey marshal uuid now opts (tbl s') = (Inr j', tbl s')"
proof -
  have ok: "table_ok maxResumes (tbl s)" using s by (rule reachable_table_ok)
  from row obtain j' where j': "j' \<in> set (rows (tbl s'))" "ID j' = ID j" by blast
  moreover have "ID j' < next_id (tbl s)" using j'(2) table_okD(3) [OF ok j(1)] by simp
  ultimately obtain i where s': "reachable b s'" and i: "i \<in> set (rows (tbl s))" "ID j' = ID i" "IdempotencyKey j' = IdempotencyKey i"
    using qsteps_origin [OF later s] by blast
  have "i = j" using unique_row [of "tbl s" i j] ok i(1,2) j(1) j'(2) by (simp add: table_ok_def)
  then have key: "IdempotencyKey j' = Some k" using i(3) j(2) by simp
  have keys: "keys_ok (tbl s')" "ids_ok (tbl s')" using reachable_table_ok [OF s'] by (auto simp: table_ok_def)
  have "find (\<lambda>j. IdempotencyKey j = Some k) (rows (tbl s')) \<noteq> None"
    using j'(1) key by (auto simp: find_None_iff)
  then obtain h where h: "GetJobByIdempotencyKey (Some k) (tbl s') = Inr h"
    by (auto simp: GetJobByIdempotencyKey_def)
  then have "ID h = ID j'" "h \<in> set (rows (tbl s'))"
    using GetJob_Inr [OF h] keys_okD [OF keys(1) _ j'(1)] key by auto
  then show ?thesis
    using jobs_store.replay [OF again h] j'(2) by auto
qed

text \<open>A job that succeeded, was cancelled or was dead-lettered is never run again: no step of the queue gives
  a finished job a lease, or takes it back to a waiting state.\<close>

theorem finished_is_final:
  assumes s: "reachable b s" and j: "j \<in> set (rows (tbl s))" "finished j"
    and later: "(qstep b)\<^sup>*\<^sup>* s s'" and j': "j' \<in> set (rows (tbl s'))" "ID j' = ID j"
  shows "finished j' \<and> LeasedBy j' = None"
proof -
  have ok: "table_ok maxResumes (tbl s)" using s by (rule reachable_table_ok)
  have "ID j' < next_id (tbl s)" using j'(2) table_okD(3) [OF ok j(1)] by simp
  with qsteps_origin [OF later s j'(1)] obtain i where s': "reachable b s'"
    and i: "i \<in> set (rows (tbl s))" "ID j' = ID i" "finished i \<longrightarrow> finished j'" by blast
  have "i = j" using unique_row [of "tbl s" i j] ok i(1,2) j(1) j'(2) by (simp add: table_ok_def)
  then have "finished j'" using i(3) j(2) by simp
  moreover from this have "\<not> active j'" using status_disjoint(2) by blast
  ultimately show ?thesis
    using table_okD(1) [OF reachable_table_ok [OF s'] j'(1)] by (simp add: lease_ok_def)
qed

section \<open>Runs of the queue\<close>

text \<open>Calls as functions on states, to exhibit reachable states by evaluation.\<close>

definition run_enqueue :: "string EnqueueOptions \<Rightarrow> qstate \<Rightarrow> qstate" where
  "run_enqueue opts s = s\<lparr>tbl := snd (Enqueue (EnqueueJob 0) GetJobByIdempotencyKey Some (Some ''u1'') 0 opts (tbl s))\<rparr>"

definition run_dequeue :: "int \<Rightarrow> string \<Rightarrow> qstate \<Rightarrow> qstate" where
  "run_dequeue now w s =
     (case DequeueJob (tbl s) (\<lambda>_. False) now w leaseSeconds KnownQueues (tbl s) of
        Inl _ \<Rightarrow> s
      | Inr (j, db) \<Rightarrow> s\<lparr>tbl := db, execs := \<lparr>ex_worker = w, ex_job = j\<rparr> # execs s,
                        leases := (leases s)(ID j := leases s (ID j) + 1)\<rparr>)"

definition run_complete :: "int \<Rightarrow> nat \<Rightarrow> attempt_outcome \<Rightarrow> qstate \<Rightarrow> qstate" where
  "run_complete now i out s =
     (if i < length (execs s)
      then s\<lparr>tbl := complete_attempt now 0 (ex_worker (execs s ! i)) (ex_job (execs s ! i)) out (tbl s),
             execs := remove1 (execs s ! i) (execs s)\<rparr>
      else s)"

definition run_promote :: "int \<Rightarrow> qstate \<Rightarrow> qstate" where
  "run_promote now s = s\<lparr>tbl := snd (PromoteWaitingJobs now (tbl s))\<rparr>"

definition run_reap :: "int \<Rightarrow> qstate \<Rightarrow> qstate" where
  "run_reap now s = s\<lparr>tbl := snd (ReapExpiredLeases now maxResumes (tbl s))\<rparr>"

lemma run_enqueue_step: "qstep b s (run_enqueue opts s)"
  unfolding run_enqueue_def by (rule q_enqueue [OF surjective_pairing])

lemma run_dequeue_steps: "(qstep b)\<^sup>*\<^sup>* s (run_dequeue now w s)"
  by (auto simp: run_dequeue_def simp del: One_nat_def add_Suc_right intro!: r_into_rtranclp q_dequeue [unfolded Suc_eq_plus1] split: sum.splits)

lemma run_complete_steps: "(qstep b)\<^sup>*\<^sup>* s (run_complete now i out s)"
  unfolding run_complete_def by (auto intro!: r_into_rtranclp q_complete)

lemma run_promote_step: "qstep b s (run_promote now s)"
  unfolding run_promote_def by (rule q_promote [OF surjective_pairing])

lemma run_reap_step: "qstep False s (run_reap now s)"
  unfolding run_reap_def by (rule q_reap [OF surjective_pairing]) simp

lemma reachable_steps: "(qstep b)\<^sup>*\<^sup>* s s' \<Longrightarrow> reachable b s \<Longrightarrow> reachable b s'"
  by (induction rule: rtranclp_induct) (auto intro: r_step)

lemmas run_reachable = run_enqueue_step [THEN r_step [rotated]] run_dequeue_steps [THEN reachable_steps]
  run_complete_steps [THEN reachable_steps] run_promote_step [THEN r_step [rotated]]
  run_reap_step [THEN r_step [rotated]]

definition sample_opts :: "string EnqueueOptions" where
  "sample_opts = \<lparr>o_Queue = ''deploy'', o_Type = ''deployment.run'', o_Payload = None, o_Priority = 0,
     o_RunAt = None, o_MaxAttempts = 2, o_IdempotencyKey = Some ''k'', o_LockKey = Some ''l'',
     o_TeamID = None, o_ResourceID = None, o_RetryOfID = None\<rparr>"

definition sample_start :: qstate where
  "sample_start = \<lparr>tbl = \<lparr>rows = [], next_id = 1\<rparr>, execs = [], leases = (\<lambda>_. 0)\<rparr>"

lemma sample_start_reachable: "reachable b sample_start"
  by (rule r_init) (simp add: init_def sample_start_def)

definition sample_enq :: qstate where
  "sample_enq = run_enqueue sample_opts sample_start"

definition sample_leased :: qstate where
  "sample_leased = run_dequeue 0 ''w'' sample_enq"

definition sample_done :: qstate where
  "sample_done = run_complete 1 0 (Inr None) sample_leased"

lemma sample_reachable: "reachable b sample_enq" "reachable b sample_leased" "reachable b sample_done"
  unfolding sample_done_def sample_leased_def sample_enq_def
  by (intro run_reachable sample_start_reachable)+

lemma sample_leased_rows:
  "map Status (rows (tbl sample_leased)) = [JobStatusLeased] \<and> map ID (rows (tbl sample_leased)) = [1] \<and>
   map LeasedBy (rows (tbl sample_leased)) = [Some ''w''] \<and> map IdempotencyKey (rows (tbl sample_leased)) = [Some ''k''] \<and>
   map MaxAttempts (rows (tbl sample_leased)) = [2] \<and> length (execs sample_leased) = 1 \<and> leases sample_leased 1 = 1"
  by code_simp

lemma sample_done_rows:
  "map Status (rows (tbl sample_done)) = [JobStatusSucceeded] \<and> map ID (rows (tbl sample_done)) = [1]"
  by code_simp

theorem queue_invariant_witness:
  "\<exists>s. reachable False s \<and> map active (rows (tbl s)) = [True] \<and>
     list_all (\<lambda>j. LeasedBy j \<noteq> None \<and> ResumeCount j \<le> 3) (rows (tbl s))"
  using queue_invariant [OF sample_reachable(2) [of False]] sample_reachable(2) [of False] sample_leased_rows
  by (intro exI [of _ sample_leased]) (auto simp: map_eq_Cons_conv active_def finished_def)

theorem bounded_attempts_witness:
  "\<exists>s. reachable True s \<and> length (execs s) = 1 \<and> leases s 1 = 1 \<and>
     list_all (\<lambda>j. Attempt j \<le> MaxAttempts j) (rows (tbl s))"
  using bounded_attempts [OF sample_reachable(2)] sample_reachable(2) [of True] sample_leased_rows
  by (intro exI [of _ sample_leased]) (auto simp: list_all_iff)

theorem enqueue_idempotent_witness:
  "\<exists>j'. ID j' = 1 \<and> Enqueue (EnqueueJob 9) GetJobByIdempotencyKey Some (Some ''u2'') 7 sample_opts (tbl sample_done)
     = (Inr j', tbl sample_done)"
proof -
  obtain j where j: "rows (tbl sample_leased) = [j]" "ID j = 1" "IdempotencyKey j = Some ''k''"
    using sample_leased_rows by (auto simp: map_eq_Cons_conv)
  have later: "(qstep True)\<^sup>*\<^sup>* sample_leased sample_done"
    unfolding sample_done_def by (rule run_complete_steps)
  have "\<exists>j' \<in> set (rows (tbl sample_done)). ID j' = ID j"
    using sample_done_rows j(2) by (auto simp: map_eq_Cons_conv)
  moreover have "admissible Some (Some ''u2'') sample_opts" "o_IdempotencyKey sample_opts = Some ''k''"
    by (simp_all add: admissible_def sample_opts_def KnownQueues_def)
  ultimately show ?thesis
    using enqueue_idempotent [OF sample_reachable(2), of j "''k''" True sample_done Some "Some ''u2''" sample_opts 9 7]
      j later by auto
qed

definition late_outcome_run :: qstate where
  "late_outcome_run =
     run_dequeue (1000 * second) ''w'' (run_promote (1000 * second)
      (run_complete (290 * second) 1 (Inl ''late'')
       (run_dequeue (280 * second) ''w'' (run_promote (280 * second)
        (run_complete (200 * second) 0 (Inl ''failed'')
         (run_dequeue (100 * second) ''w'' (run_promote (100 * second)
          (run_reap (100 * second) sample_leased))))))))"

text \<open>The assumption of the bound on attempts is needed.  A lease is identified by the worker process alone, so
  an attempt whose lease expired and was reaped can still record its outcome on a later lease of the same
  job taken by the same process: there is a run in which a job with a budget of two attempts is leased with
  attempt number three.\<close>

theorem late_outcome_exceeds_budget:
  "reachable False late_outcome_run \<and>
   map (\<lambda>j. (Status j, Attempt j, MaxAttempts j)) (rows (tbl late_outcome_run)) = [(JobStatusLeased, 3, 2)]"
proof
  show "reachable False late_outcome_run"
    unfolding late_outcome_run_def by (intro run_reachable sample_reachable)
  show "map (\<lambda>j. (Status j, Attempt j, MaxAttempts j)) (rows (tbl late_outcome_run)) = [(JobStatusLeased, 3, 2)]"
    by code_simp
qed

definition eligible :: "jobs_table \<Rightarrow> int \<Rightarrow> string list \<Rightarrow> Job \<Rightarrow> bool" where
  "eligible db now queues j \<longleftrightarrow> j \<in> set (rows db) \<and> due now queues j \<and> lock_free db j"

text \<open>C16: Dequeueing serves the right job.  With no concurrent transaction, \<^verbatim>\<open>DequeueJob\<close> fails exactly
  when no queued, due job of the worker's queues has a free lock; otherwise it returns one of the highest
  priority among the eligible jobs, of these the earliest due, of these the one of least id, leased to the worker with one more
  attempt and the lease set to expire after the lease time, and leaves every other row as it was.\<close>

theorem dequeue_serves_first:
  assumes ids: "ids_ok db"
  shows "case DequeueJob db (\<lambda>_. False) now w secs queues db of
           Inl e \<Rightarrow> e = ErrNoRows \<and> (\<nexists>j. eligible db now queues j)
         | Inr (j, db') \<Rightarrow> \<exists>j0. eligible db now queues j0 \<and> (\<forall>k. eligible db now queues k \<longrightarrow>
               Priority k \<le> Priority j0 \<and> (Priority k = Priority j0 \<longrightarrow>
                 RunAt j0 \<le> RunAt k \<and> (RunAt j0 = RunAt k \<longrightarrow> ID j0 \<le> ID k))) \<and>
             j = lease_row now w secs j0 \<and> Status j = JobStatusLeased \<and> LeasedBy j = Some w \<and>
             Attempt j = Attempt j0 + 1 \<and> LeaseExpiresAt j = Some (now + secs * second) \<and>
             rows db' = map (\<lambda>k. if k = j0 then j else k) (rows db)"
proof -
  have cand: "candidate db (\<lambda>_. False) now queues j \<longleftrightarrow> eligible db now queues j" if "j \<in> set (rows db)" for j
  proof -
    have "s = j" if "s \<in> set (rows db)" "ID s = ID j" for s
      using unique_row [OF ids that(1) \<open>j \<in> set (rows db)\<close> that(2)] .
    then show ?thesis using that by (auto simp: candidate_def eligible_def list_ex_iff)
  qed
  show ?thesis
  proof (cases "DequeueJob db (\<lambda>_. False) now w secs queues db")
    case (Inl e)
    show ?thesis
    proof (cases "best (filter (candidate db (\<lambda>_. False) now queues) (rows db))")
      case None
      then have "\<forall>j \<in> set (rows db). \<not> candidate db (\<lambda>_. False) now queues j" by (simp add: filter_empty_conv)
      then have "\<nexists>j. eligible db now queues j" using cand by (auto simp: eligible_def)
      then show ?thesis using Inl None by (auto simp: DequeueJob_def)
    next
      case (Some j)
      from best_in [OF Some] have "lock_free db j" using cand by (auto simp: eligible_def)
      then show ?thesis using Inl Some by (simp add: DequeueJob_def)
    qed
  next
    case (Inr x)
    then obtain j db' where x: "DequeueJob db (\<lambda>_. False) now w secs queues db = Inr (j, db')" by (cases x) auto
    then obtain j0 where j0: "j0 \<in> set (rows db)" "candidate db (\<lambda>_. False) now queues j0"
      "j = lease_row now w secs j0" "db' = update_where (\<lambda>k. ID k = ID j0) (lease_row now w secs) db"
      "\<forall>k \<in> set (rows db). candidate db (\<lambda>_. False) now queues k \<longrightarrow> \<not> before k j0"
      by (rule DequeueJob_InrD) blast
    have "rows db' = map (\<lambda>k. if k = j0 then j else k) (rows db)"
      using unique_row [OF ids _ j0(1)] by (auto simp: j0(3,4))
    moreover have "eligible db now queues j0" "\<forall>k. eligible db now queues k \<longrightarrow> \<not> before k j0"
      using cand j0(1,2,5) by (auto simp: eligible_def)
    moreover from this(2) have "\<forall>k. eligible db now queues k \<longrightarrow> Priority k \<le> Priority j0 \<and>
        (Priority k = Priority j0 \<longrightarrow> RunAt j0 \<le> RunAt k \<and> (RunAt j0 = RunAt k \<longrightarrow> ID j0 \<le> ID k))"
      by (auto simp: before_def not_less)
    ultimately show ?thesis unfolding x sum.case prod.case
      by (intro exI [of _ j0] conjI) (simp_all add: j0(3) lease_row_def)
  qed
qed

theorem dequeue_serves_first_witness:
  "ids_ok (tbl sample_enq) \<and> (\<exists>j db. DequeueJob (tbl sample_enq) (\<lambda>_. False) 0 ''w'' 90 KnownQueues (tbl sample_enq) = Inr (j, db) \<and>
     LeaseExpiresAt j = Some (90 * second))"
proof -
  have ids: "ids_ok (tbl sample_enq)"
    using reachable_table_ok [OF sample_reachable(1)] by (simp add: table_ok_def)
  have "\<exists>x. DequeueJob (tbl sample_enq) (\<lambda>_. False) 0 ''w'' 90 KnownQueues (tbl sample_enq) = Inr x"
    by (rule exI [of _ "projr (DequeueJob (tbl sample_enq) (\<lambda>_. False) 0 ''w'' 90 KnownQueues (tbl sample_enq))"]) code_simp
  then obtain j db where "DequeueJob (tbl sample_enq) (\<lambda>_. False) 0 ''w'' 90 KnownQueues (tbl sample_enq) = Inr (j, db)"
    by auto
  with dequeue_serves_first [OF ids, of 0 KnownQueues "''w''" 90] ids show ?thesis by auto
qed

end
