(* ===== verification/AccessRoute.thy ===== *)
theory AccessRoute
  imports Prelude
begin

text \<open>
  Public routes of a protected resource (\<^verbatim>\<open>src/internal/accessroute/accessroute.go\<close>): the
  validation that normalizes a route, its rendering as rules of the proxy, and the test that a resource
  can serve it.  A Go map is an association list with distinct keys whose order is the (arbitrary)
  iteration order.  Regular expressions that the code compiles are the predicates they denote on bytes;
  error texts are reduced to their kind and the offending value.
\<close>

section \<open>Validation\<close>

record Route =
  Path :: string
  Match :: string
  Methods :: "string list"
  Parameters :: "(string \<times> string list) list"

abbreviation MatchExact :: string where "MatchExact \<equiv> ''exact''"
abbreviation MatchTemplate :: string where "MatchTemplate \<equiv> ''template''"
abbreviation MatchPrefix :: string where "MatchPrefix \<equiv> ''prefix''"

abbreviation backtick :: char where "backtick \<equiv> CHR 0x60"
abbreviation slash :: char where "slash \<equiv> CHR 0x2F"
abbreviation colon :: char where "colon \<equiv> CHR 0x3A"

definition maxPathBytes :: nat where
  "maxPathBytes = 2048"

definition parameterName :: "string \<Rightarrow> bool" where
  "parameterName s = (case s of [] \<Rightarrow> False
     | c # cs \<Rightarrow> (is_alpha c \<or> c = CHR ''_'') \<and> list_all (\<lambda>d. is_alnum d \<or> d = CHR ''_'') cs)"

definition methodToken :: "string \<Rightarrow> bool" where
  "methodToken s = (case s of [] \<Rightarrow> False
     | c # cs \<Rightarrow> is_upper c \<and>
         list_all (\<lambda>d. is_upper d \<or> is_digit d \<or> d \<in> set (backtick # CHR 0x27 # ''!#$%&*+.^_|~-'')) cs)"

definition segmentValue :: "string \<Rightarrow> bool" where
  "segmentValue s = (s \<noteq> [] \<and> list_all (\<lambda>d. is_alnum d \<or> d \<in> set ''._~-'') s)"

datatype route_error = ErrMatch | ErrPathRequired | ErrPathTooLong | ErrPathSlash | ErrPathChars | ErrPathSpace
  | ErrPathEmptySegment | ErrPathDots | ErrNoMethods | ErrMethod string | ErrPlaceholderSegment
  | ErrPlaceholderMatch | ErrParameterName string | ErrTemplateEmpty | ErrParametersMatch
  | ErrParameterUnknown string | ErrParameterNoValue string | ErrParameterValue string string

definition validatePath :: "string \<Rightarrow> route_error option" where
  "validatePath value =
     (if value = [] then Some ErrPathRequired
      else if length value > maxPathBytes then Some ErrPathTooLong
      else if \<not> HasPrefix value [slash] then Some ErrPathSlash
      else if ContainsAny value (backtick # CHR 0x5C # ''?#%*'') then Some ErrPathChars
      else if list_ex (\<lambda>c. of_char c \<le> (0x20 :: nat) \<or> of_char c = (0x7F :: nat)) value then Some ErrPathSpace
      else if ContainsStr value [slash, slash] then Some ErrPathEmptySegment
      else if list_ex (\<lambda>seg. seg = ''.'' \<or> seg = ''..'') (Split value slash) then Some ErrPathDots
      else None)"

fun scan_segments :: "string \<Rightarrow> string list \<Rightarrow> string list \<Rightarrow> (route_error, string list) result" where
  "scan_segments match [] acc = Inr acc"
| "scan_segments match (seg # segs) acc =
     (if \<not> HasPrefix seg [colon]
      then if colon \<in> set seg then Inl ErrPlaceholderSegment else scan_segments match segs acc
      else if match \<noteq> MatchTemplate then Inl ErrPlaceholderMatch
      else if \<not> parameterName (TrimPrefix seg [colon]) then Inl (ErrParameterName (TrimPrefix seg [colon]))
      else scan_segments match segs (TrimPrefix seg [colon] # acc))"

definition validateMatchPath :: "string \<Rightarrow> string \<Rightarrow> (route_error, string list) result" where
  "validateMatchPath value match =
     (case scan_segments match (Split (TrimPrefix value [slash]) slash) [] of
        Inl e \<Rightarrow> Inl e
      | Inr ps \<Rightarrow> if match = MatchTemplate \<and> ps = [] then Inl ErrTemplateEmpty else Inr ps)"

fun norm_methods :: "string list \<Rightarrow> string list \<Rightarrow> (route_error, string list) result" where
  "norm_methods [] seen = Inr (rev seen)"
| "norm_methods (raw # raws) seen =
     (let method = ToUpper (TrimSpace raw) in
      if method = [] \<or> \<not> methodToken method then Inl (ErrMethod raw)
      else if method \<in> set seen then norm_methods raws seen
      else norm_methods raws (method # seen))"

fun check_values :: "string \<Rightarrow> string list \<Rightarrow> route_error option" where
  "check_values name [] = None"
| "check_values name (v # vs) =
     (if v = ''.'' \<or> v = ''..'' \<or> \<not> segmentValue v then Some (ErrParameterValue name v)
      else check_values name vs)"

fun norm_parameters ::
  "string list \<Rightarrow> (string \<times> string list) list \<Rightarrow> (route_error, (string \<times> string list) list) result" where
  "norm_parameters placeholders [] = Inr []"
| "norm_parameters placeholders ((name, vals) # rest) =
     (if name \<notin> set placeholders then Inl (ErrParameterUnknown name)
      else if vals = [] then Inl (ErrParameterNoValue name)
      else case check_values name vals of
        Some e \<Rightarrow> Inl e
      | None \<Rightarrow>
          (case norm_parameters placeholders rest of
             Inl e \<Rightarrow> Inl e
           | Inr out \<Rightarrow> Inr ((name, sorted_keys vals) # out)))"

definition Validate :: "Route \<Rightarrow> (route_error, Route) result" where
  "Validate r =
     (let match = (if Match r = [] then MatchExact else Match r) in
      if match \<notin> {MatchExact, MatchTemplate, MatchPrefix} then Inl ErrMatch
      else case validatePath (Path r) of
        Some e \<Rightarrow> Inl e
      | None \<Rightarrow>
        if Methods r = [] then Inl ErrNoMethods
        else case norm_methods (Methods r) [] of
          Inl e \<Rightarrow> Inl e
        | Inr ms \<Rightarrow>
          (case validateMatchPath (Path r) match of
             Inl e \<Rightarrow> Inl e
           | Inr placeholders \<Rightarrow>
             if Parameters r \<noteq> [] \<and> match \<noteq> MatchTemplate then Inl ErrParametersMatch
             else case norm_parameters placeholders (Parameters r) of
               Inl e \<Rightarrow> Inl e
             | Inr ps \<Rightarrow> Inr (r\<lparr>Match := match, Methods := sort ms, Parameters := ps\<rparr>)))"

section \<open>Rendering\<close>

text \<open>\<^verbatim>\<open>regexp.QuoteMeta\<close>: a backslash before each of the special bytes.\<close>

definition special :: "char \<Rightarrow> bool" where
  "special c = (c \<in> set (CHR 0x5C # ''.+*?()|[]{}^$''))"

definition QuoteMeta :: "string \<Rightarrow> string" where
  "QuoteMeta s = concat (map (\<lambda>c. if special c then [CHR 0x5C, c] else [c]) s)"

definition segment_expression :: "(string \<times> string list) list \<Rightarrow> string \<Rightarrow> string" where
  "segment_expression params segment =
     (if \<not> HasPrefix segment [colon] then QuoteMeta segment
      else case map_of params (TrimPrefix segment [colon]) of
        None \<Rightarrow> ''[A-Za-z0-9._~-]+''
      | Some [] \<Rightarrow> ''[A-Za-z0-9._~-]+''
      | Some vs \<Rightarrow> ''('' @ Join (map QuoteMeta vs) ''|'' @ '')'')"

definition quoted :: "string \<Rightarrow> string \<Rightarrow> string" where
  "quoted f body = f @ ''('' @ [backtick] @ body @ [backtick] @ '')''"

definition PathExpression :: "Route \<Rightarrow> string" where
  "PathExpression route =
     (if Match route = MatchPrefix
      then if Path route = [slash] \<or> HasSuffix (Path route) [slash]
           then quoted ''PathPrefix'' (Path route)
           else ''('' @ quoted ''Path'' (Path route) @ '' || '' @ quoted ''PathPrefix'' (Path route @ [slash]) @ '')''
      else if Match route = MatchTemplate
      then quoted ''PathRegexp''
             (''^'' @ Join (map (segment_expression (Parameters route)) (Split (Path route) slash)) [slash] @ ''$'')
      else quoted ''Path'' (Path route))"

definition MethodExpression :: "string list \<Rightarrow> string" where
  "MethodExpression methods =
     (if length methods = 1 then quoted ''Method'' (hd methods)
      else ''('' @ Join (map (quoted ''Method'') methods) '' || '' @ '')'')"

definition Covers :: "string \<Rightarrow> Route \<Rightarrow> bool" where
  "Covers base public =
     (if base = [] \<or> base = [slash] then True
      else
        let b = TrimSuffix base [slash];
            path = (case IndexStr (Path public) [slash, colon] of
                      Some i \<Rightarrow> take i (Path public) | None \<Rightarrow> Path public)
        in path = b \<or> HasPrefix path (b @ [slash]))"

definition IsNavigationMethod :: "string \<Rightarrow> bool" where
  "IsNavigationMethod m = (m = ''GET'' \<or> m = ''HEAD'')"

section \<open>Normal form\<close>

lemma class_facts:
  "is_upper c \<Longrightarrow> up_char c = c \<and> \<not> is_space c" "is_digit c \<Longrightarrow> up_char c = c \<and> \<not> is_space c"
  by (auto simp: is_upper_def is_digit_def up_char_def is_space_def Let_def)

lemma token_char:
  "is_upper d \<or> is_digit d \<or> d \<in> set (backtick # CHR 0x27 # ''!#$%&*+.^_|~-'') \<Longrightarrow> up_char d = d \<and> \<not> is_space d"
  using class_facts by (auto simp: up_char_def is_space_def)

lemma methodToken_chars: "methodToken m \<Longrightarrow> d \<in> set m \<Longrightarrow> up_char d = d \<and> \<not> is_space d"
  using token_char class_facts by (auto simp: methodToken_def list_all_iff split: list.splits)

lemma methodToken_normal: "methodToken m \<Longrightarrow> ToUpper (TrimSpace m) = m"
proof -
  assume m: "methodToken m"
  have "dropWhile is_space m = m" "dropWhile is_space (rev m) = rev m"
    using methodToken_chars [OF m] by (auto intro!: dropWhile_none)
  then show ?thesis using methodToken_chars [OF m] by (simp add: TrimSpace_def ToUpper_def map_idI)
qed

lemma norm_methods_spec:
  "norm_methods raws seen = Inr ms \<Longrightarrow> distinct seen \<Longrightarrow> \<forall>m \<in> set seen. methodToken m \<Longrightarrow>
   distinct ms \<and> (\<forall>m \<in> set ms. methodToken m) \<and> set ms = set seen \<union> (\<lambda>m. ToUpper (TrimSpace m)) ` set raws"
proof (induction raws arbitrary: seen)
  case (Cons raw raws)
  define m where "m = ToUpper (TrimSpace raw)"
  have m: "methodToken m" using Cons.prems(1) by (auto simp: Let_def m_def [symmetric] split: if_splits)
  show ?case
  proof (cases "m \<in> set seen")
    case True
    then have "norm_methods raws seen = Inr ms" using Cons.prems(1) m by (simp add: Let_def m_def [symmetric] split: if_splits)
    with Cons.IH [OF _ Cons.prems(2,3)] True show ?thesis by (auto simp: m_def)
  next
    case False
    then have "norm_methods raws (m # seen) = Inr ms"
      using Cons.prems(1) m by (simp add: Let_def m_def [symmetric] split: if_splits)
    with Cons.IH [of "m # seen"] Cons.prems(2,3) False m show ?thesis by (auto simp: m_def)
  qed
qed auto

lemma norm_methods_id:
  "distinct (ms @ seen) \<Longrightarrow> \<forall>m \<in> set ms. methodToken m \<Longrightarrow> norm_methods ms seen = Inr (rev seen @ ms)"
  by (induction ms arbitrary: seen) (auto simp: methodToken_normal Let_def methodToken_def)

lemma check_values_None: "check_values n vs = None \<longleftrightarrow> (\<forall>v \<in> set vs. v \<noteq> ''.'' \<and> v \<noteq> ''..'' \<and> segmentValue v)"
  by (induction vs) auto

lemma sorted_keys_idem [simp]: "sorted_keys (sorted_keys xs) = sorted_keys xs"
  by (rule sorted_keys_cong) simp

lemma norm_parameters_idem: "norm_parameters ph ps = Inr out \<Longrightarrow> norm_parameters ph out = Inr out"
proof (induction ph ps arbitrary: out rule: norm_parameters.induct)
  case (2 ph name vals rest)
  from "2.prems"(1) obtain out' where eqs: "out = (name, sorted_keys vals) # out'" "norm_parameters ph rest = Inr out'"
    "name \<in> set ph" "vals \<noteq> []" "check_values name vals = None"
    by (auto split: if_splits option.splits sum.splits)
  moreover have "check_values name (sorted_keys vals) = None" using eqs(5) by (simp add: check_values_None)
  moreover have "sorted_keys vals \<noteq> []" using eqs(4) by (metis set_empty set_sorted_keys)
  moreover have "norm_parameters ph out' = Inr out'" by (rule "2.IH") (use eqs in simp_all)
  ultimately show ?case by simp
qed simp

lemma norm_parameters_values:
  "norm_parameters ph ps = Inr out \<Longrightarrow> (name, vs) \<in> set out \<Longrightarrow>
     name \<in> set ph \<and> vs \<noteq> [] \<and> sorted vs \<and> distinct vs \<and> (\<forall>v \<in> set vs. segmentValue v)"
proof (induction ph ps arbitrary: out rule: norm_parameters.induct)
  case (2 ph n vals rest)
  from "2.prems"(1) obtain out' where eqs: "out = (n, sorted_keys vals) # out'" "norm_parameters ph rest = Inr out'"
    "n \<in> set ph" "vals \<noteq> []" "check_values n vals = None"
    by (auto split: if_splits option.splits sum.splits)
  have ne: "sorted_keys vals \<noteq> []" using eqs(4) by (metis set_empty set_sorted_keys)
  have ok: "\<forall>v \<in> set (sorted_keys vals). segmentValue v" using eqs(5) by (simp add: check_values_None)
  from "2.prems"(2) eqs(1) consider "name = n" "vs = sorted_keys vals" | "(name, vs) \<in> set out'" by auto
  then show ?case
  proof cases
    case 1
    then show ?thesis using eqs(3) ne ok by (simp del: set_sorted_keys)
  next
    case 2
    then show ?thesis by (intro "2.IH") (use eqs in simp_all)
  qed
qed simp

lemma norm_parameters_Nil: "norm_parameters ph ps = Inr [] \<longleftrightarrow> ps = []"
  by (induction ph ps rule: norm_parameters.induct) (auto split: option.splits sum.splits)

lemma Validate_InrE:
  assumes "Validate r = Inr n"
  obtains m ms ph ps where "m = (if Match r = [] then MatchExact else Match r)"
    "m \<in> {MatchExact, MatchTemplate, MatchPrefix}" "validatePath (Path r) = None" "Methods r \<noteq> []"
    "norm_methods (Methods r) [] = Inr ms" "validateMatchPath (Path r) m = Inr ph"
    "Parameters r = [] \<or> m = MatchTemplate" "norm_parameters ph (Parameters r) = Inr ps"
    "n = r\<lparr>Match := m, Methods := sort ms, Parameters := ps\<rparr>"
  using assms unfolding Validate_def Let_def
  by (auto split: if_splits option.splits sum.splits)

section \<open>Quoting\<close>

lemma validatePath_chars:
  assumes "validatePath p = None"
  shows "backtick \<notin> set p" "HasPrefix p [slash]" "\<not> ContainsStr p [slash, slash]"
  using assms by (auto simp: validatePath_def ContainsAny_def list_ex_iff split: if_splits)

lemma QuoteMeta_chars: "c \<in> set (QuoteMeta s) \<Longrightarrow> c \<in> set s \<or> c = CHR 0x5C"
  by (auto simp: QuoteMeta_def split: if_splits)

lemma segmentValue_chars: "segmentValue v \<Longrightarrow> c \<in> set v \<Longrightarrow> c \<noteq> backtick"
  by (auto simp: segmentValue_def list_all_iff is_upper_def is_lower_def is_digit_def Let_def)

lemma Join_chars: "c \<in> set (Join ws sep) \<Longrightarrow> c \<in> set sep \<or> (\<exists>w \<in> set ws. c \<in> set w)"
  by (induction ws sep rule: Join.induct) auto

lemma segment_expression_chars:
  assumes "backtick \<notin> set seg" "\<And>name vs v. (name, vs) \<in> set ps \<Longrightarrow> v \<in> set vs \<Longrightarrow> segmentValue v"
  shows "backtick \<notin> set (segment_expression ps seg)"
proof (cases "HasPrefix seg [colon]")
  case False
  then show ?thesis using assms(1) QuoteMeta_chars by (force simp: segment_expression_def)
next
  case True
  have "backtick \<notin> set (Join (map QuoteMeta vs) ''|'')"
    if "map_of ps (TrimPrefix seg [colon]) = Some vs" for vs
    using map_of_SomeD [OF that] assms(2) segmentValue_chars QuoteMeta_chars
    by (fastforce dest!: Join_chars)
  then show ?thesis using True by (auto simp: segment_expression_def split: option.splits list.splits)
qed

definition backticks :: "string \<Rightarrow> nat" where
  "backticks s = length (filter (\<lambda>c. c = backtick) s)"

lemma backticks_0: "backtick \<notin> set s \<Longrightarrow> backticks s = 0"
  by (auto simp: backticks_def filter_empty_conv)

lemma backticks_quoted [simp]:
  "backtick \<notin> set f \<Longrightarrow> backtick \<notin> set body \<Longrightarrow> backticks (quoted f body) = 2"
  by (auto simp: quoted_def backticks_def filter_empty_conv)

section \<open>Coverage\<close>

text \<open>The request paths a public route lets through, as the three modes of matching document them: the path
  itself, the path and the subtree below it, or the paths that fill each placeholder with one segment.\<close>

definition fills :: "string \<Rightarrow> string \<Rightarrow> bool" where
  "fills pat seg \<longleftrightarrow> (if HasPrefix pat [colon] then seg \<noteq> [] \<and> slash \<notin> set seg else seg = pat)"

definition serves :: "Route \<Rightarrow> string \<Rightarrow> bool" where
  "serves r p \<longleftrightarrow>
     (if Match r = MatchPrefix
      then p = Path r \<or> HasPrefix p (TrimSuffix (Path r) [slash] @ [slash])
      else if Match r = MatchTemplate then list_all2 fills (Split (Path r) slash) (Split p slash)
      else p = Path r)"

definition under :: "string \<Rightarrow> string \<Rightarrow> bool" where
  "under base p \<longleftrightarrow> (let b = TrimSuffix base [slash] in p = b \<or> HasPrefix p (b @ [slash]))"

lemma Split_append_sep: "Split (a @ c # b) c = Split a c @ Split b c"
  by (induction a) (auto split: list.splits)

lemma IndexStr_take: "IndexStr s sub = Some i \<Longrightarrow> sub \<noteq> [] \<Longrightarrow> IndexStr (take i s) sub = None"
proof (induction s arbitrary: i)
  case (Cons x xs)
  show ?case
  proof (cases "HasPrefix (x # xs) sub")
    case False
    with Cons.prems obtain j where j: "IndexStr xs sub = Some j" "i = Suc j" by auto
    have "\<not> HasPrefix (x # take j xs) sub"
      using False by (auto simp: HasPrefix_iff Cons_eq_append_conv) (metis append.assoc append_take_drop_id)+
    with Cons.IH [OF j(1) Cons.prems(2)] j show ?thesis by simp
  qed (use Cons.prems in auto)
qed (auto split: if_splits)

lemma no_placeholder_tail:
  "IndexStr s [slash, colon] = None \<Longrightarrow> seg \<in> set (tl (Split s slash)) \<Longrightarrow> \<not> HasPrefix seg [colon]"
proof (induction s)
  case (Cons x xs)
  obtain w ws where ws: "Split xs slash = w # ws"
    using Split_not_Nil [of xs slash] by (cases "Split xs slash") auto
  from Cons.prems(1) have xs: "IndexStr xs [slash, colon] = None" and np: "\<not> HasPrefix (x # xs) [slash, colon]"
    by (auto split: if_splits)
  have head: "\<not> HasPrefix w [colon]" if "x = slash"
  proof
    assume "HasPrefix w [colon]"
    then obtain t where "w = colon # t" by (auto simp: HasPrefix_iff)
    moreover have "xs = Join (w # ws) [slash]" using Join_Split [of xs slash] ws by simp
    ultimately have "\<exists>u. xs = colon # u" by (cases ws) auto
    then show False using np that by (auto simp: HasPrefix_iff)
  qed
  show ?case using Cons.IH [OF xs] Cons.prems(2) ws head by (auto split: if_splits)
qed simp

lemma fills_static:
  "list_all2 fills xs ys \<Longrightarrow> (\<And>x. x \<in> set xs \<Longrightarrow> \<not> HasPrefix x [colon]) \<Longrightarrow> ys = xs"
  by (induction rule: list_all2_induct) (auto simp: fills_def)

lemma static_segments:
  assumes "IndexStr s [slash, colon] = None" "s = [] \<or> HasPrefix s [slash]" "seg \<in> set (Split s slash)"
  shows "\<not> HasPrefix seg [colon]"
proof -
  have "hd (Split s slash) = []" using assms(2) by (auto simp: HasPrefix_iff)
  with assms(3) have "seg = [] \<or> seg \<in> set (tl (Split s slash))"
    by (cases "Split s slash") auto
  with no_placeholder_tail [OF assms(1)] show ?thesis by (auto simp: HasPrefix_def)
qed

text \<open>An instance of a template starts with the text before its first placeholder.\<close>

lemma template_prefix:
  assumes i: "IndexStr path [slash, colon] = Some i" and p: "HasPrefix path [slash]"
    and inst: "list_all2 fills (Split path slash) (Split p' slash)"
  shows "HasPrefix p' (take i path @ [slash])"
proof -
  define pre where "pre = take i path"
  from IndexStr_SomeD [OF i] obtain t where t: "path = pre @ slash # colon # t" by (auto simp: pre_def)
  then have sp: "Split path slash = Split pre slash @ Split (colon # t) slash" by (simp add: Split_append_sep)
  from inst [unfolded sp list_all2_append1] obtain us vs where uv: "Split p' slash = us @ vs"
    "list_all2 fills (Split pre slash) us" "list_all2 fills (Split (colon # t) slash) vs" by auto
  have pre: "IndexStr pre [slash, colon] = None" using IndexStr_take [OF i] by (simp add: pre_def)
  have "pre = [] \<or> HasPrefix pre [slash]" using p t by (cases pre) (auto simp: HasPrefix_def)
  then have us: "us = Split pre slash" using fills_static [OF uv(2)] static_segments [OF pre] by blast
  have "vs \<noteq> []" using uv(3) Split_not_Nil [of "colon # t" slash] by (metis list_all2_Nil2)
  then have "p' = pre @ slash # Join vs [slash]"
    using Join_Split [of p' slash] Join_append [of us vs "[slash]"] us uv(1) by simp
  then show ?thesis by (simp add: HasPrefix_iff pre_def)
qed

lemma HasPrefix_trans: "HasPrefix s p \<Longrightarrow> HasPrefix p q \<Longrightarrow> HasPrefix s q"
  by (auto simp: HasPrefix_iff)

section \<open>Properties\<close>

text \<open>C17: Validation normalizes.  A route that validates is returned in a normal form that validates to itself:
  its match mode is one of the three, its path starts with a slash and has no backtick, empty segment, dot
  segment or white space, its methods are a sorted list without duplicates of HTTP tokens, namely the
  trimmed upper-case forms of the given ones, and each restricted parameter names a placeholder and lists,
  sorted, at least one plain segment value.\<close>

theorem Validate_normal_form:
  assumes "Validate r = Inr n"
  shows "Validate n = Inr n \<and> Path n = Path r \<and> Match n \<in> {MatchExact, MatchTemplate, MatchPrefix} \<and>
         sorted (Methods n) \<and> distinct (Methods n) \<and>
         set (Methods n) = (\<lambda>m. ToUpper (TrimSpace m)) ` set (Methods r) \<and>
         (\<forall>(name, vs) \<in> set (Parameters n). vs \<noteq> [] \<and> sorted vs \<and> distinct vs \<and> list_all segmentValue vs)"
  using assms
proof (rule Validate_InrE)
  fix m ms ph ps
  assume m: "m = (if Match r = [] then MatchExact else Match r)" "m \<in> {MatchExact, MatchTemplate, MatchPrefix}"
    and path: "validatePath (Path r) = None" and nonempty: "Methods r \<noteq> []"
    and ms: "norm_methods (Methods r) [] = Inr ms" and ph: "validateMatchPath (Path r) m = Inr ph"
    and par: "Parameters r = [] \<or> m = MatchTemplate" "norm_parameters ph (Parameters r) = Inr ps"
    and n: "n = r\<lparr>Match := m, Methods := sort ms, Parameters := ps\<rparr>"
  have s: "distinct ms" "\<forall>x \<in> set ms. methodToken x" "set ms = (\<lambda>m. ToUpper (TrimSpace m)) ` set (Methods r)"
    using norm_methods_spec [OF ms] by auto
  have "norm_methods (sort ms) [] = Inr (sort ms)" using norm_methods_id [of "sort ms" "[]"] s by simp
  moreover have "sort ms \<noteq> []" using s(3) nonempty by (metis image_is_empty set_empty set_sort)
  moreover have "ps = [] \<or> m = MatchTemplate" using par norm_parameters_Nil [of ph "Parameters r"] by auto
  ultimately have "Validate n = Inr n"
    using m path ph norm_parameters_idem [OF par(2)] by (auto simp: Validate_def n Let_def sorted_sort_id)
  moreover have "\<forall>(name, vs) \<in> set ps. vs \<noteq> [] \<and> sorted vs \<and> distinct vs \<and> list_all segmentValue vs"
    using norm_parameters_values [OF par(2)] by (auto simp: list_all_iff)
  ultimately show ?thesis using m(2) s by (auto simp: n)
qed

definition sample_route :: Route where
  "sample_route = \<lparr>Path = ''/hooks/:id'', Match = MatchTemplate, Methods = [''post'', ''get '', ''GET''],
     Parameters = [(''id'', [''b'', ''a''])]\<rparr>"

definition sample_normal :: Route where
  "sample_normal = \<lparr>Path = ''/hooks/:id'', Match = MatchTemplate, Methods = [''GET'', ''POST''],
     Parameters = [(''id'', [''a'', ''b''])]\<rparr>"

lemma sample_validates: "Validate sample_route = Inr sample_normal"
  by code_simp

theorem Validate_normal_form_witness:
  "Validate sample_route = Inr sample_normal \<and> Validate sample_normal = Inr sample_normal"
  using Validate_normal_form [OF sample_validates] sample_validates by simp

text \<open>No path of a validated route breaks out of the rule it is rendered in: the rendered path rule has
  exactly its own quoting backticks, two for each of the one or two quoted matchers.\<close>

theorem PathExpression_quoted:
  assumes "Validate r = Inr n"
  shows "backticks (PathExpression n) =
    (if Match n = MatchPrefix \<and> Path n \<noteq> [slash] \<and> \<not> HasSuffix (Path n) [slash] then 4 else 2)"
  using assms
proof (rule Validate_InrE)
  fix m ms ph ps
  assume path: "validatePath (Path r) = None" and par: "norm_parameters ph (Parameters r) = Inr ps"
    and n: "n = r\<lparr>Match := m, Methods := sort ms, Parameters := ps\<rparr>"
  have p: "backtick \<notin> set (Path n)" using validatePath_chars [OF path] by (simp add: n)
  have vals: "segmentValue v" if "(name, vs) \<in> set (Parameters n)" "v \<in> set vs" for name vs v
    using norm_parameters_values [OF par] that by (auto simp: n)
  have "backtick \<notin> set (segment_expression (Parameters n) seg)" if "seg \<in> set (Split (Path n) slash)" for seg
    using segment_expression_chars [of seg "Parameters n"] Split_chars [OF that] p vals by blast
  then have "backtick \<notin> set (Join (map (segment_expression (Parameters n)) (Split (Path n) slash)) [slash])"
    by (auto dest!: Join_chars)
  then show ?thesis
    using p by (auto simp: PathExpression_def backticks_quoted) (auto simp: backticks_def quoted_def filter_empty_conv)
qed

text \<open>Methods are not so confined: the method token pattern admits a backtick, so a route validates whose
  rendered method rule closes its quotation early and goes on with text of the author's choice.\<close>

theorem MethodExpression_escape:
  "let r = \<lparr>Path = ''/'', Match = MatchExact, Methods = [''A'' @ [backtick] @ ''|'' @ [backtick] @ ''B''], Parameters = []\<rparr>
   in Validate r = Inr r \<and>
      MethodExpression (Methods r) = ''Method('' @ [backtick] @ ''A'' @ [backtick] @ ''|'' @ [backtick] @ ''B'' @ [backtick] @ '')''"
  by code_simp

text \<open>C20: Coverage is sound.  If a resource rooted at \<open>base\<close> covers a public route, every request path the route
  lets through lies under \<open>base\<close>: the check never admits an exception for paths of another resource.\<close>

theorem Covers_sound:
  assumes c: "Covers base r" and base: "base \<noteq> []" "base \<noteq> [slash]" "\<not> HasSuffix (TrimSuffix base [slash]) [slash]"
    and path: "HasPrefix (Path r) [slash]" and p: "serves r p"
  shows "under base p"
proof -
  define b where "b = TrimSuffix base [slash]"
  define pre where "pre = (case IndexStr (Path r) [slash, colon] of Some i \<Rightarrow> take i (Path r) | None \<Rightarrow> Path r)"
  have cov: "pre = b \<or> HasPrefix pre (b @ [slash])"
    using c base(1,2) by (simp add: Covers_def Let_def b_def [symmetric] pre_def [symmetric])
  have pre: "Path r = pre \<or> HasPrefix (Path r) (pre @ [slash])"
  proof (cases "IndexStr (Path r) [slash, colon]")
    case (Some i)
    from IndexStr_SomeD [OF Some] obtain t where "Path r = take i (Path r) @ [slash, colon] @ t" by blast
    then have "Path r = (pre @ [slash]) @ colon # t" by (simp add: pre_def Some)
    then show ?thesis by (metis HasPrefix_append)
  qed (simp add: pre_def)
  have up: "q = b \<or> HasPrefix q (b @ [slash])" if "q = pre \<or> HasPrefix q (pre @ [slash])" for q
    using that cov by (auto simp: HasPrefix_iff)
  have path_under: "Path r = b \<or> HasPrefix (Path r) (b @ [slash])" using up [OF pre] .
  have "p = b \<or> HasPrefix p (b @ [slash])"
  proof (cases "Match r = MatchTemplate")
    case True
    then have inst: "list_all2 fills (Split (Path r) slash) (Split p slash)" using p by (simp add: serves_def)
    show ?thesis
    proof (cases "IndexStr (Path r) [slash, colon]")
      case None
      then have "Split p slash = Split (Path r) slash"
        using fills_static [OF inst] static_segments [OF None] path by blast
      then have "p = Path r" by (metis Join_Split)
      then show ?thesis using path_under by simp
    next
      case (Some i)
      then show ?thesis using up [of p] template_prefix [OF Some path inst] by (simp add: pre_def)
    qed
  next
    case False
    show ?thesis
    proof (cases "p = Path r")
      case True
      then show ?thesis using path_under by simp
    next
      case p': False
      then have sub: "HasPrefix p (TrimSuffix (Path r) [slash] @ [slash])"
        using p False by (auto simp: serves_def split: if_splits)
      then have sub': "HasPrefix p (Path r)" and "HasSuffix (Path r) [slash] \<or> HasPrefix p (Path r @ [slash])"
        by (auto simp: TrimSuffix_def HasSuffix_iff HasPrefix_iff split: if_splits)
      then show ?thesis
        using path_under base(3) HasPrefix_trans [OF sub'] by (auto simp: b_def)
    qed
  qed
  then show ?thesis by (simp add: under_def Let_def b_def)
qed

theorem Covers_sound_witness: "under ''/hooks/'' ''/hooks/42''"
  by (rule Covers_sound [of _ sample_normal]) code_simp+

end
