(* ===== verification/ComposeGraph.thy ===== *)
theory ComposeGraph
  imports Prelude "HOL-Library.Multiset"
begin

text \<open>
  The dependency graph of a Compose stack (\<^verbatim>\<open>topologicalOrder\<close> and \<^verbatim>\<open>findCycle\<close> of
  \<^verbatim>\<open>src/internal/compose/transform.go\<close>).  A graph lists each service with the names in its
  \<^verbatim>\<open>depends_on\<close>; the order of the list and of the dependencies is the iteration order of the Go
  maps, about which nothing is assumed.  The lemmas relate the two algorithms: Kahn's loop orders all the
  services exactly when the depth-first search finds no cycle.
\<close>

type_synonym graph = "(string \<times> string list) list"

definition gnames :: "graph \<Rightarrow> string list" where
  "gnames G = map fst G"

definition raw_deps :: "graph \<Rightarrow> string \<Rightarrow> string list" where
  "raw_deps G n = (case map_of G n of None \<Rightarrow> [] | Some ds \<Rightarrow> ds)"

text \<open>The declared dependencies that are services of the file.\<close>

definition deps_of :: "graph \<Rightarrow> string \<Rightarrow> string list" where
  "deps_of G n = filter (\<lambda>d. d \<in> set (gnames G)) (raw_deps G n)"

text \<open>Keys of a Go map are distinct.\<close>

definition wf_graph :: "graph \<Rightarrow> bool" where
  "wf_graph G \<longleftrightarrow> distinct (gnames G) \<and> (\<forall>n. distinct (raw_deps G n))"

section \<open>Kahn's algorithm\<close>

definition indegree0 :: "graph \<Rightarrow> string \<Rightarrow> int" where
  "indegree0 G n = int (length (deps_of G n))"

definition dependents :: "graph \<Rightarrow> string \<Rightarrow> string list" where
  "dependents G d = filter (\<lambda>n. d \<in> set (deps_of G n)) (gnames G)"

fun relax :: "string list \<Rightarrow> string list \<times> (string \<Rightarrow> int) \<Rightarrow> string list \<times> (string \<Rightarrow> int)" where
  "relax [] s = s"
| "relax (d # ds) (ready, ind) =
     (let ind' = ind(d := ind d - 1) in
      if ind' d = 0 then relax ds (sort (ready @ [d]), ind') else relax ds (ready, ind'))"

text \<open>Each round takes one name from the queue, and a name enters it when its count falls from one to zero.\<close>

lemma sum_nat_update:
  "finite N \<Longrightarrow> d \<in> N \<Longrightarrow>
   (\<Sum>m\<in>N. nat ((ind(d := ind d - 1 :: int)) m)) = (\<Sum>m\<in>N. nat (ind m)) - (if 0 < ind d then 1 else 0)"
  by (simp add: sum.remove [of N d]) (auto simp: nat_diff_distrib)

lemma relax_size:
  "finite N \<Longrightarrow> set ds \<subseteq> N \<Longrightarrow> relax ds (ready, ind) = (ready', ind') \<Longrightarrow>
   length ready' + (\<Sum>m\<in>N. nat (ind' m)) \<le> length ready + (\<Sum>m\<in>N. nat (ind m))"
proof (induction ds "(ready, ind)" arbitrary: ready ind rule: relax.induct)
  case (2 d ds ready ind)
  define ind1 where "ind1 = ind(d := ind d - 1)"
  have d: "d \<in> N" and ds: "set ds \<subseteq> N" using "2.prems"(2) by auto
  have sum: "(\<Sum>m\<in>N. nat (ind1 m)) = (\<Sum>m\<in>N. nat (ind m)) - (if 0 < ind d then 1 else 0)"
    unfolding ind1_def by (rule sum_nat_update [OF "2.prems"(1) d])
  have pos: "0 < (\<Sum>m\<in>N. nat (ind m))" if "0 < ind d"
    using that "2.prems"(1) d by (simp add: sum_pos2 [of N d])
  show ?case
  proof (cases "ind1 d = 0")
    case True
    then have "relax ds (sort (ready @ [d]), ind1) = (ready', ind')" using "2.prems"(3) by (simp add: ind1_def)
    with "2.hyps"(1) [OF refl _ "2.prems"(1) ds] True
    have "length ready' + (\<Sum>m\<in>N. nat (ind' m)) \<le> length ready + 1 + (\<Sum>m\<in>N. nat (ind1 m))"
      by (simp add: ind1_def)
    moreover have "0 < ind d" using True by (simp add: ind1_def)
    ultimately show ?thesis using sum pos by simp
  next
    case False
    then have "relax ds (ready, ind1) = (ready', ind')" using "2.prems"(3) by (simp add: ind1_def Let_def)
    with "2.hyps"(2) [OF refl _ "2.prems"(1) ds] False
    have "length ready' + (\<Sum>m\<in>N. nat (ind' m)) \<le> length ready + (\<Sum>m\<in>N. nat (ind1 m))"
      by (simp add: ind1_def)
    then show ?thesis using sum by simp
  qed
qed simp

function kahn :: "graph \<Rightarrow> string list \<Rightarrow> (string \<Rightarrow> int) \<Rightarrow> string list \<Rightarrow> string list" where
  "kahn G [] ind order = order"
| "kahn G (n # ready) ind order =
     (let (ready', ind') = relax (sort (dependents G n)) (ready, ind) in kahn G ready' ind' (order @ [n]))"
  by pat_completeness auto
termination
proof (relation "measure (\<lambda>(G, ready, ind, order). length ready + (\<Sum>m\<in>set (gnames G). nat (ind m)))")
  fix G n ready ind order x ready' ind'
  assume "x = relax (sort (dependents G n)) (ready, ind)" "(ready', ind') = x"
  then show "((G, ready', ind', order @ [n]), (G, n # ready, ind, order))
      \<in> measure (\<lambda>(G, ready, ind, order). length ready + (\<Sum>m\<in>set (gnames G). nat (ind m)))"
    using relax_size [of "set (gnames G)" "sort (dependents G n)" ready ind ready' ind']
    by (auto simp: dependents_def)
qed simp

definition topologicalOrder :: "graph \<Rightarrow> string list \<times> bool" where
  "topologicalOrder G =
     (let order = kahn G (sort (filter (\<lambda>n. indegree0 G n = 0) (gnames G))) (indegree0 G) []
      in (order, length order = length (gnames G)))"

section \<open>Depth-first search\<close>

datatype color = white | gray | black

datatype dfs = OutOfFuel | Cycle "string list" | Done "string \<Rightarrow> color"

text \<open>The recursion of \<^verbatim>\<open>visit\<close> goes at most as deep as there are services: that is the fuel.\<close>

fun visit :: "nat \<Rightarrow> graph \<Rightarrow> string \<Rightarrow> (string \<Rightarrow> color) \<Rightarrow> string list \<Rightarrow> dfs"
  and visit_deps :: "nat \<Rightarrow> graph \<Rightarrow> string list \<Rightarrow> (string \<Rightarrow> color) \<Rightarrow> string list \<Rightarrow> dfs" where
  "visit 0 G n col stack = OutOfFuel"
| "visit (Suc f) G n col stack =
     (case visit_deps f G (sort (raw_deps G n)) (col(n := gray)) (stack @ [n]) of
        Done col' \<Rightarrow> Done (col'(n := black))
      | r \<Rightarrow> r)"
| "visit_deps f G [] col stack = Done col"
| "visit_deps f G (d # ds) col stack =
     (if d \<notin> set (gnames G) then visit_deps f G ds col stack
      else case col d of
        white \<Rightarrow> (case visit f G d col stack of Done col' \<Rightarrow> visit_deps f G ds col' stack | r \<Rightarrow> r)
      | gray \<Rightarrow> if d \<in> set stack then Cycle (dropWhile (\<lambda>x. x \<noteq> d) stack @ [d]) else visit_deps f G ds col stack
      | black \<Rightarrow> visit_deps f G ds col stack)"

fun search :: "nat \<Rightarrow> graph \<Rightarrow> string list \<Rightarrow> (string \<Rightarrow> color) \<Rightarrow> dfs" where
  "search f G [] col = Done col"
| "search f G (n # ns) col =
     (if col n = white
      then (case visit f G n col [] of Done col' \<Rightarrow> search f G ns col' | r \<Rightarrow> r)
      else search f G ns col)"

definition findCycle :: "graph \<Rightarrow> string list option" where
  "findCycle G =
     (case search (length G) G (sort (gnames G)) (\<lambda>_. white) of
        Cycle c \<Rightarrow> Some c | Done _ \<Rightarrow> Some [] | OutOfFuel \<Rightarrow> None)"

section \<open>Orders of the services\<close>

text \<open>A list in which every name comes after all its dependencies.\<close>

definition deps_first :: "graph \<Rightarrow> string list \<Rightarrow> bool" where
  "deps_first G xs \<longleftrightarrow> (\<forall>ys x zs. xs = ys @ x # zs \<longrightarrow> set (deps_of G x) \<subseteq> set ys)"

definition start_order :: "graph \<Rightarrow> string list \<Rightarrow> bool" where
  "start_order G xs \<longleftrightarrow> distinct xs \<and> set xs = set (gnames G) \<and> deps_first G xs"

lemma deps_first_Nil [simp]: "deps_first G []"
  by (simp add: deps_first_def)

lemma deps_first_snoc: "deps_first G (xs @ [x]) \<longleftrightarrow> deps_first G xs \<and> set (deps_of G x) \<subseteq> set xs"
proof
  assume l: "deps_first G (xs @ [x])"
  have "set (deps_of G y) \<subseteq> set ys" if "xs = ys @ y # zs" for ys y zs
  proof -
    have "xs @ [x] = ys @ y # (zs @ [x])" using that by simp
    with l show ?thesis unfolding deps_first_def by blast
  qed
  moreover have "set (deps_of G x) \<subseteq> set xs" using l unfolding deps_first_def by blast
  ultimately show "deps_first G xs \<and> set (deps_of G x) \<subseteq> set xs" unfolding deps_first_def by blast
next
  assume r: "deps_first G xs \<and> set (deps_of G x) \<subseteq> set xs"
  show "deps_first G (xs @ [x])"
    unfolding deps_first_def
  proof (intro allI impI)
    fix ys y zs assume eq: "xs @ [x] = ys @ y # zs"
    show "set (deps_of G y) \<subseteq> set ys"
    proof (cases zs rule: rev_cases)
      case Nil
      with eq r show ?thesis by simp
    next
      case (snoc zs' z)
      with eq have "xs = ys @ y # zs'" by simp
      with r show ?thesis unfolding deps_first_def by blast
    qed
  qed
qed

lemma deps_of_names: "set (deps_of G n) \<subseteq> set (gnames G)"
  by (auto simp: deps_of_def)

text \<open>No order exists when some services only wait for one another.\<close>

lemma stuck_no_order:
  assumes "start_order G xs" "U \<noteq> {}" "U \<subseteq> set (gnames G)" "\<And>n. n \<in> U \<Longrightarrow> \<exists>d \<in> set (deps_of G n). d \<in> U"
  shows False
proof -
  have "\<exists>x \<in> set xs. x \<in> U" using assms(1-3) by (auto simp: start_order_def)
  then obtain ys x zs where s: "xs = ys @ x # zs" "x \<in> U" "\<forall>y \<in> set ys. y \<notin> U"
    using split_list_first_prop [of xs "\<lambda>x. x \<in> U"] by blast
  then have "set (deps_of G x) \<subseteq> set ys" using assms(1) by (auto simp: start_order_def deps_first_def)
  with assms(4) [OF s(2)] s(3) show False by blast
qed

section \<open>Correctness of Kahn's algorithm\<close>

lemma relax_spec:
  "distinct ds \<Longrightarrow> relax ds (ready, ind) = (ready', ind') \<Longrightarrow>
   ind' = (\<lambda>m. if m \<in> set ds then ind m - 1 else ind m) \<and>
   mset ready' = mset ready + mset (filter (\<lambda>d. ind d = 1) ds)"
proof (induction ds arbitrary: ready ind)
  case (Cons d ds)
  define ind1 where "ind1 = ind(d := ind d - 1)"
  have d: "d \<notin> set ds" "distinct ds" using Cons.prems(1) by auto
  then have same: "filter (\<lambda>x. ind1 x = 1) ds = filter (\<lambda>x. ind x = 1) ds"
    by (intro filter_cong) (auto simp: ind1_def)
  show ?case
  proof (cases "ind1 d = 0")
    case True
    then have "relax ds (sort (ready @ [d]), ind1) = (ready', ind')" using Cons.prems(2) by (simp add: ind1_def)
    from Cons.IH [OF d(2) this] have "ind' = (\<lambda>m. if m \<in> set ds then ind1 m - 1 else ind1 m)"
      "mset ready' = mset ready + {#d#} + mset (filter (\<lambda>x. ind x = 1) ds)" unfolding same by simp_all
    with True d show ?thesis by (auto simp: ind1_def fun_eq_iff)
  next
    case False
    then have "relax ds (ready, ind1) = (ready', ind')" using Cons.prems(2) by (simp add: ind1_def Let_def)
    from Cons.IH [OF d(2) this] have "ind' = (\<lambda>m. if m \<in> set ds then ind1 m - 1 else ind1 m)"
      "mset ready' = mset ready + mset (filter (\<lambda>x. ind x = 1) ds)" unfolding same by simp_all
    with False d show ?thesis by (auto simp: ind1_def fun_eq_iff)
  qed
qed auto

definition pending :: "graph \<Rightarrow> string list \<Rightarrow> string \<Rightarrow> int" where
  "pending G order n = int (length (filter (\<lambda>d. d \<notin> set order) (deps_of G n)))"

definition kahn_inv :: "graph \<Rightarrow> string list \<Rightarrow> (string \<Rightarrow> int) \<Rightarrow> string list \<Rightarrow> bool" where
  "kahn_inv G ready ind order \<longleftrightarrow>
     distinct (order @ ready) \<and> set (order @ ready) \<subseteq> set (gnames G) \<and> deps_first G order \<and>
     (\<forall>n \<in> set (gnames G). ind n = pending G order n \<and> (n \<in> set (order @ ready) \<longleftrightarrow> ind n = 0))"

lemma pending_snoc:
  assumes "wf_graph G" "m \<notin> set order"
  shows "pending G (order @ [m]) n = pending G order n - (if m \<in> set (deps_of G n) then 1 else 0)"
proof -
  have d: "distinct (deps_of G n)" using assms(1) by (simp add: wf_graph_def deps_of_def)
  have "filter (\<lambda>d. d \<notin> set (order @ [m])) (deps_of G n) = filter (\<lambda>d. d \<noteq> m) (filter (\<lambda>d. d \<notin> set order) (deps_of G n))"
    by (simp add: conj_commute)
  also have "\<dots> = remove1 m (filter (\<lambda>d. d \<notin> set order) (deps_of G n))"
    using d by (simp add: distinct_remove1_removeAll removeAll_filter_not_eq eq_commute)
  finally have eq: "filter (\<lambda>d. d \<notin> set (order @ [m])) (deps_of G n) =
      remove1 m (filter (\<lambda>d. d \<notin> set order) (deps_of G n))" .
  have "0 < length (filter (\<lambda>d. d \<notin> set order) (deps_of G n))" if "m \<in> set (deps_of G n)"
    using that assms(2) by (auto simp: filter_empty_conv)
  then show ?thesis
    using assms(2) unfolding pending_def eq by (auto simp: length_remove1 of_nat_diff Suc_le_eq)
qed

lemma kahn_step:
  assumes wf: "wf_graph G" and inv: "kahn_inv G (n # ready) ind order"
    and r: "relax (sort (dependents G n)) (ready, ind) = (ready', ind')"
  shows "kahn_inv G ready' ind' (order @ [n])"
proof -
  have dd: "distinct (sort (dependents G n))" using wf by (simp add: dependents_def wf_graph_def)
  note spec = relax_spec [OF dd r]
  have n: "n \<in> set (gnames G)" "n \<notin> set order" "n \<notin> set ready" "distinct order" "distinct ready"
    "set order \<inter> set ready = {}"
    using inv by (auto simp: kahn_inv_def)
  have ind: "ind m = pending G order m" "m \<in> set order \<or> m = n \<or> m \<in> set ready \<longleftrightarrow> ind m = 0"
    if "m \<in> set (gnames G)" for m
    using inv that by (auto simp: kahn_inv_def)
  have deps: "m \<in> set (dependents G n) \<longleftrightarrow> m \<in> set (gnames G) \<and> n \<in> set (deps_of G m)" for m
    by (auto simp: dependents_def)
  have ind': "ind' m = pending G (order @ [n]) m" if "m \<in> set (gnames G)" for m
    using spec ind(1) [OF that] pending_snoc [OF wf n(2), of m] deps that by auto
  have fresh: "set (filter (\<lambda>d. ind d = 1) (dependents G n)) = {m \<in> set (gnames G). n \<in> set (deps_of G m) \<and> ind m = 1}"
    by (auto simp: dependents_def)
  have mset: "mset ready' = mset ready + mset (filter (\<lambda>d. ind d = 1) (dependents G n))"
    using spec by (simp add: filter_sort)
  then have set': "set ready' = set ready \<union> {m \<in> set (gnames G). n \<in> set (deps_of G m) \<and> ind m = 1}"
    using fresh by (metis set_mset_mset set_mset_union)
  have one: "m \<notin> set order \<and> m \<noteq> n \<and> m \<notin> set ready" if "m \<in> set (gnames G)" "ind m = 1" for m
    using ind(2) [OF that(1)] that(2) by auto
  have "distinct ready'"
  proof -
    have "distinct (ready @ filter (\<lambda>d. ind d = 1) (dependents G n))"
      using n(5) one dd deps by (auto simp: distinct_append)
    moreover have "mset (ready @ filter (\<lambda>d. ind d = 1) (dependents G n)) = mset ready'" using mset by simp
    ultimately show ?thesis by (metis mset_eq_imp_distinct_iff)
  qed
  moreover have "set (order @ [n]) \<inter> set ready' = {}" using n one set' by auto
  moreover have "deps_first G (order @ [n])"
  proof -
    have "pending G order n = 0" using ind n(1) by auto
    then have "set (deps_of G n) \<subseteq> set order" by (auto simp: pending_def filter_empty_conv)
    then show ?thesis using inv by (simp add: kahn_inv_def deps_first_snoc)
  qed
  moreover have "m \<in> set ((order @ [n]) @ ready') \<longleftrightarrow> ind' m = 0" if m: "m \<in> set (gnames G)" for m
  proof -
    have i': "ind' m = (if n \<in> set (deps_of G m) then ind m - 1 else ind m)"
      using ind' [OF m] ind(1) [OF m] pending_snoc [OF wf n(2), of m] by simp
    have "0 < pending G order m" if "n \<in> set (deps_of G m)"
      using that n(2) by (auto simp: pending_def filter_empty_conv)
    then show ?thesis using i' set' ind [OF m] m by (auto split: if_splits)
  qed
  moreover have "set (order @ [n]) \<subseteq> set (gnames G)" "set ready' \<subseteq> set (gnames G)"
    using inv set' by (auto simp: kahn_inv_def)
  ultimately show ?thesis using ind' n by (auto simp: kahn_inv_def)
qed

lemma kahn_result:
  "wf_graph G \<Longrightarrow> kahn_inv G ready ind order \<Longrightarrow> \<exists>ind'. kahn_inv G [] ind' (kahn G ready ind order)"
proof (induction G ready ind order rule: kahn.induct)
  case (2 G n ready ind order)
  obtain ready' ind' where r: "relax (sort (dependents G n)) (ready, ind) = (ready', ind')" by fastforce
  from "2.IH" [OF refl r [symmetric] "2.prems"(1) kahn_step [OF "2.prems" r]] r show ?case by simp
qed auto

lemma kahn_init:
  assumes "wf_graph G"
  shows "kahn_inv G (sort (filter (\<lambda>n. indegree0 G n = 0) (gnames G))) (indegree0 G) []"
  using assms by (auto simp: kahn_inv_def wf_graph_def pending_def indegree0_def)

text \<open>The order returned is complete exactly when some order exists, and then it is one.\<close>

lemma topologicalOrder_correct:
  assumes wf: "wf_graph G"
  shows "if snd (topologicalOrder G) then start_order G (fst (topologicalOrder G)) else \<nexists>xs. start_order G xs"
proof -
  define order where "order = fst (topologicalOrder G)"
  obtain ind where inv: "kahn_inv G [] ind order"
    using kahn_result [OF wf kahn_init [OF wf]] by (auto simp: order_def topologicalOrder_def Let_def)
  have o: "distinct order" "set order \<subseteq> set (gnames G)" "deps_first G order" using inv by (auto simp: kahn_inv_def)
  have ok: "snd (topologicalOrder G) \<longleftrightarrow> length order = length (gnames G)"
    by (simp add: order_def topologicalOrder_def Let_def)
  have dn: "distinct (gnames G)" using wf by (simp add: wf_graph_def)
  show ?thesis
  proof (cases "snd (topologicalOrder G)")
    case True
    then have "card (set order) = card (set (gnames G))" using ok o(1) dn by (simp add: distinct_card)
    then have "set order = set (gnames G)" using o(2) by (intro card_subset_eq) auto
    then show ?thesis using True o by (simp add: start_order_def order_def)
  next
    case False
    define U where "U = set (gnames G) - set order"
    have "U \<noteq> {}"
    proof
      assume "U = {}"
      then have "set order = set (gnames G)" using o(2) by (auto simp: U_def)
      then have "length order = length (gnames G)" using o(1) dn by (metis distinct_card)
      with False ok show False by simp
    qed
    moreover have "\<exists>d \<in> set (deps_of G n). d \<in> U" if "n \<in> U" for n
    proof -
      have "pending G order n \<noteq> 0" using inv that by (auto simp: kahn_inv_def U_def)
      then obtain d where "d \<in> set (deps_of G n)" "d \<notin> set order" by (auto simp: pending_def filter_empty_conv)
      then show ?thesis using deps_of_names by (auto simp: U_def)
    qed
    ultimately have "\<nexists>xs. start_order G xs" using stuck_no_order [of G _ U] by (auto simp: U_def)
    then show ?thesis using False by simp
  qed
qed

section \<open>Correctness of the search for a cycle\<close>

definition waits_for :: "graph \<Rightarrow> string \<Rightarrow> string \<Rightarrow> bool" where
  "waits_for G a b \<longleftrightarrow> b \<in> set (deps_of G a)"

text \<open>What \<^verbatim>\<open>findCycle\<close> reports: a walk along dependencies from a service back to itself.\<close>

definition is_cycle :: "graph \<Rightarrow> string list \<Rightarrow> bool" where
  "is_cycle G c \<longleftrightarrow> 2 \<le> length c \<and> hd c = last c \<and> successively (waits_for G) c"

definition colored :: "color \<Rightarrow> (string \<Rightarrow> color) \<Rightarrow> string set" where
  "colored k col = {n. col n = k}"

definition whites :: "graph \<Rightarrow> (string \<Rightarrow> color) \<Rightarrow> string set" where
  "whites G col = {n \<in> set (gnames G). col n = white}"

definition dfs_inv :: "graph \<Rightarrow> (string \<Rightarrow> color) \<Rightarrow> string list \<Rightarrow> bool" where
  "dfs_inv G col stack \<longleftrightarrow>
     distinct stack \<and> set stack = colored gray col \<and> set stack \<subseteq> set (gnames G) \<and> successively (waits_for G) stack \<and>
     colored black col \<subseteq> set (gnames G) \<and> (\<exists>xs. distinct xs \<and> set xs = colored black col \<and> deps_first G xs)"

definition dfs_post :: "graph \<Rightarrow> (string \<Rightarrow> color) \<Rightarrow> string list \<Rightarrow> string set \<Rightarrow> dfs \<Rightarrow> bool" where
  "dfs_post G col stack B r \<longleftrightarrow> (case r of OutOfFuel \<Rightarrow> False | Cycle c \<Rightarrow> is_cycle G c
     | Done col' \<Rightarrow> dfs_inv G col' stack \<and> whites G col' \<subseteq> whites G col \<and>
         colored black col \<subseteq> colored black col' \<and> B \<subseteq> colored black col')"

lemma whites_gray: "col n = white \<Longrightarrow> n \<in> set (gnames G) \<Longrightarrow>
    whites G (col(n := gray)) = whites G col - {n} \<and> n \<in> whites G col \<and> finite (whites G col)"
  by (auto simp: whites_def)

lemma dfs_enter:
  assumes "dfs_inv G col stack" "n \<in> set (gnames G)" "col n = white" "stack \<noteq> [] \<Longrightarrow> waits_for G (last stack) n"
  shows "dfs_inv G (col(n := gray)) (stack @ [n])"
proof -
  have "colored gray (col(n := gray)) = insert n (colored gray col)" "colored black (col(n := gray)) = colored black col"
    "n \<notin> colored gray col"
    using assms(3) by (auto simp: colored_def)
  then show ?thesis using assms by (auto simp: dfs_inv_def successively_append_iff)
qed

lemma dfs_leave:
  assumes "dfs_inv G col (stack @ [n])" "set (deps_of G n) \<subseteq> colored black col"
  shows "dfs_inv G (col(n := black)) stack"
proof -
  from assms(1) obtain xs where xs: "distinct xs" "set xs = colored black col" "deps_first G xs"
    by (auto simp: dfs_inv_def)
  have n: "n \<notin> set stack" "insert n (set stack) = colored gray col" "n \<in> set (gnames G)"
    using assms(1) by (auto simp: dfs_inv_def)
  then have "col n = gray" by (auto simp: colored_def)
  then have c: "colored gray (col(n := black)) = set stack" "colored black (col(n := black)) = insert n (colored black col)"
    "n \<notin> colored black col"
    using n by (auto simp: colored_def)
  have "distinct (xs @ [n])" "set (xs @ [n]) = colored black (col(n := black))" "deps_first G (xs @ [n])"
    using xs c(2,3) assms(2) by (auto simp: deps_first_snoc)
  moreover have "colored black (col(n := black)) \<subseteq> set (gnames G)" "distinct stack" "set stack \<subseteq> set (gnames G)"
    "successively (waits_for G) stack"
    using assms(1) c(2) n(3) by (auto simp: dfs_inv_def successively_append_iff)
  ultimately show ?thesis unfolding dfs_inv_def c(1) by blast
qed

lemma dfs_cycle:
  assumes "dfs_inv G col stack" "d \<in> set stack" "waits_for G (last stack) d"
  shows "is_cycle G (dropWhile (\<lambda>x. x \<noteq> d) stack @ [d])"
proof -
  define c where "c = dropWhile (\<lambda>x. x \<noteq> d) stack"
  obtain ys where ys: "stack = ys @ c" by (metis c_def takeWhile_dropWhile_id)
  have ne: "c \<noteq> []" using assms(2) by (auto simp: c_def dropWhile_eq_Nil_conv)
  then have "hd c = d" using hd_dropWhile [of "\<lambda>x. x \<noteq> d" stack] by (simp add: c_def)
  moreover have "successively (waits_for G) c" using assms(1) ys by (auto simp: dfs_inv_def successively_append_iff)
  moreover have "last stack = last c" using ys ne by simp
  ultimately show ?thesis
    unfolding c_def [symmetric] is_cycle_def using ne assms(3)
    by (auto simp: successively_append_iff Suc_le_eq)
qed

lemma dfs_post_mono:
  "dfs_post G col1 stack B r \<Longrightarrow> whites G col1 \<subseteq> whites G col \<Longrightarrow> colored black col \<subseteq> colored black col1 \<Longrightarrow>
   B' \<subseteq> colored black col1 \<union> B \<Longrightarrow> dfs_post G col stack B' r"
  by (auto simp: dfs_post_def split: dfs.splits)

lemma visit_correct:
  "wf_graph G \<Longrightarrow> dfs_inv G col stack \<Longrightarrow> n \<in> set (gnames G) \<Longrightarrow> col n = white \<Longrightarrow>
     (stack \<noteq> [] \<longrightarrow> waits_for G (last stack) n) \<Longrightarrow> card (whites G col) \<le> f \<Longrightarrow>
     dfs_post G col stack {n} (visit f G n col stack)"
  "wf_graph G \<Longrightarrow> dfs_inv G col stack \<Longrightarrow> stack \<noteq> [] \<Longrightarrow>
     (\<forall>d \<in> set ds \<inter> set (gnames G). waits_for G (last stack) d) \<Longrightarrow> card (whites G col) \<le> f \<Longrightarrow>
     dfs_post G col stack (set ds \<inter> set (gnames G)) (visit_deps f G ds col stack)"
proof (induction f G n col stack and f G ds col stack rule: visit_visit_deps.induct)
  case (1 G n col stack)
  then have "card (whites G col) = 0" "n \<in> whites G col" "finite (whites G col)" by (auto simp: whites_def)
  then show ?case by auto
next
  case (2 f G n col stack)
  let ?col = "col(n := gray)"
  note w = whites_gray [of col n G, OF "2.prems"(4,3)]
  have f: "card (whites G ?col) \<le> f" using w "2.prems"(6) by simp
  have enter: "dfs_inv G ?col (stack @ [n])" using dfs_enter [OF "2.prems"(2,3,4)] "2.prems"(5) by simp
  have edges: "\<forall>d \<in> set (sort (raw_deps G n)) \<inter> set (gnames G). waits_for G (last (stack @ [n])) d"
    by (auto simp: waits_for_def deps_of_def)
  have post: "dfs_post G ?col (stack @ [n]) (set (sort (raw_deps G n)) \<inter> set (gnames G))
      (visit_deps f G (sort (raw_deps G n)) ?col (stack @ [n]))"
    by (rule "2.IH" [OF "2.prems"(1) enter _ edges f]) simp
  show ?case
  proof (cases "visit_deps f G (sort (raw_deps G n)) ?col (stack @ [n])")
    case (Done col')
    have p: "dfs_inv G col' (stack @ [n])" "whites G col' \<subseteq> whites G ?col" "colored black ?col \<subseteq> colored black col'"
      "set (deps_of G n) \<subseteq> colored black col'"
      using post Done by (auto simp: dfs_post_def deps_of_def)
    have "whites G (col'(n := black)) \<subseteq> whites G col" using p(2) w by (auto simp: whites_def)
    moreover have "colored black col \<subseteq> colored black (col'(n := black))"
      using p(3) "2.prems"(4) by (auto simp: colored_def)
    ultimately show ?thesis using dfs_leave [OF p(1,4)] Done by (simp add: dfs_post_def colored_def)
  qed (use post in \<open>auto simp: dfs_post_def\<close>)
next
  case (3 f G col stack)
  then show ?case by (simp add: dfs_post_def)
next
  case (4 f G d ds col stack)
  have rest: "\<forall>d \<in> set ds \<inter> set (gnames G). waits_for G (last stack) d" using "4.prems"(4) by auto
  show ?case
  proof (cases "d \<in> set (gnames G)")
    case False
    then have "dfs_post G col stack (set ds \<inter> set (gnames G)) (visit_deps f G ds col stack)"
      using "4.IH"(1) "4.prems"(1,2,3,5) rest by blast
    with False show ?thesis by (auto intro: dfs_post_mono)
  next
    case True
    have edge: "waits_for G (last stack) d" using "4.prems"(4) True by simp
    show ?thesis
    proof (cases "col d")
      case white
      have v: "dfs_post G col stack {d} (visit f G d col stack)"
        using "4.IH"(2) [OF _ white] True white "4.prems"(1,2,3,5) edge by simp
      show ?thesis
      proof (cases "visit f G d col stack")
        case (Done col')
        have p: "dfs_inv G col' stack" "whites G col' \<subseteq> whites G col" "colored black col \<subseteq> colored black col'"
          "d \<in> colored black col'" using v Done by (auto simp: dfs_post_def)
        have "card (whites G col') \<le> f"
          using card_mono [OF _ p(2)] "4.prems"(5) by (simp add: whites_def)
        then have "dfs_post G col' stack (set ds \<inter> set (gnames G)) (visit_deps f G ds col' stack)"
          using "4.IH"(3) [OF _ white Done] True "4.prems"(1,3) p(1) rest by simp
        from dfs_post_mono [OF this p(2,3)] show ?thesis using True white Done p(4) by auto
      qed (use v True white in \<open>auto simp: dfs_post_def\<close>)
    next
      case gray
      then have "d \<in> set stack" using "4.prems"(2) by (auto simp: dfs_inv_def colored_def)
      then show ?thesis using True gray dfs_cycle [OF "4.prems"(2) _ edge] by (simp add: dfs_post_def)
    next
      case black
      then have "dfs_post G col stack (set ds \<inter> set (gnames G)) (visit_deps f G ds col stack)"
        using "4.IH"(5) True "4.prems"(1,2,3,5) rest by blast
      from dfs_post_mono [OF this subset_refl subset_refl] show ?thesis
        using True black by (auto simp: colored_def)
    qed
  qed
qed

lemma search_correct:
  "wf_graph G \<Longrightarrow> dfs_inv G col [] \<Longrightarrow> set ns \<subseteq> set (gnames G) \<Longrightarrow> card (whites G col) \<le> f \<Longrightarrow>
   dfs_post G col [] (set ns) (search f G ns col)"
proof (induction ns arbitrary: col)
  case (Cons n ns)
  show ?case
  proof (cases "col n = white")
    case True
    have v: "dfs_post G col [] {n} (visit f G n col [])"
      using visit_correct(1) [of G col "[]" n f] Cons.prems True by simp
    show ?thesis
    proof (cases "visit f G n col []")
      case (Done col')
      have p: "dfs_inv G col' []" "whites G col' \<subseteq> whites G col" "colored black col \<subseteq> colored black col'"
        "n \<in> colored black col'" using v Done by (auto simp: dfs_post_def)
      have "card (whites G col') \<le> f" using card_mono [OF _ p(2)] Cons.prems(4) by (simp add: whites_def)
      then have "dfs_post G col' [] (set ns) (search f G ns col')" using Cons.IH p(1) Cons.prems by simp
      from dfs_post_mono [OF this p(2,3)] show ?thesis using True Done p(4) by auto
    qed (use v True in \<open>auto simp: dfs_post_def\<close>)
  next
    case False
    have "n \<notin> colored gray col" using Cons.prems(2) by (simp add: dfs_inv_def)
    then have "n \<in> colored black col" using False by (cases "col n") (auto simp: colored_def)
    moreover have "dfs_post G col [] (set ns) (search f G ns col)" using Cons.IH Cons.prems by simp
    ultimately show ?thesis using False dfs_post_mono [of G col "[]" "set ns" _ col "set (n # ns)"] by auto
  qed
qed (simp add: dfs_post_def)

lemma cycle_no_order:
  assumes "is_cycle G c" shows "\<nexists>xs. start_order G xs"
proof
  have c: "2 \<le> length c" "hd c = last c" "successively (waits_for G) c" using assms by (auto simp: is_cycle_def)
  then obtain a u where au: "c = a # u" "u \<noteq> []" by (cases c; cases "tl c") auto
  have "\<exists>d \<in> set (deps_of G n). d \<in> set u" if "n \<in> set u" for n
  proof -
    from that obtain ys zs where u: "u = ys @ n # zs" by (auto simp: in_set_conv_decomp)
    show ?thesis
    proof (cases zs)
      case Nil
      then have "n = a" using c(2) au u by simp
      moreover have "waits_for G a (hd u)" using c(3) au by (cases u) auto
      ultimately show ?thesis using au(2) by (auto simp: waits_for_def intro: bexI [of _ "hd u"])
    next
      case (Cons z zs')
      then have "waits_for G n z" using c(3) au(1) u by (auto simp: successively_append_iff successively_Cons)
      then show ?thesis using u Cons by (auto simp: waits_for_def)
    qed
  qed
  moreover have "set u \<subseteq> set (gnames G)"
  proof
    fix n assume "n \<in> set u"
    then obtain ys zs where "c = (a # ys) @ n # zs" using au by (auto simp: in_set_conv_decomp)
    then have "waits_for G (last (a # ys)) n" using c(3) by (simp only: successively_append_iff) simp
    then show "n \<in> set (gnames G)" using deps_of_names by (auto simp: waits_for_def)
  qed
  moreover assume "\<exists>xs. start_order G xs"
  ultimately show False using stuck_no_order [of G _ "set u"] au(2) by auto
qed

lemma findCycle_correct:
  assumes wf: "wf_graph G"
  obtains "findCycle G = Some []" "\<exists>xs. start_order G xs"
  | c where "findCycle G = Some c" "is_cycle G c"
proof -
  have inv: "dfs_inv G (\<lambda>_. white) []" by (simp add: dfs_inv_def colored_def)
  have "card (whites G (\<lambda>_. white)) \<le> length G"
    using card_length [of "gnames G"] by (simp add: whites_def gnames_def)
  from search_correct [OF wf inv _ this, of "sort (gnames G)"]
  have post: "dfs_post G (\<lambda>_. white) [] (set (gnames G)) (search (length G) G (sort (gnames G)) (\<lambda>_. white))" by simp
  show thesis
  proof (cases "search (length G) G (sort (gnames G)) (\<lambda>_. white)")
    case (Done col)
    then have "dfs_inv G col []" "set (gnames G) \<subseteq> colored black col" using post by (auto simp: dfs_post_def)
    then have "\<exists>xs. start_order G xs" by (auto simp: dfs_inv_def start_order_def)
    then show ?thesis using that(1) Done by (simp add: findCycle_def)
  next
    case (Cycle c)
    then show ?thesis using that(2) post by (simp add: findCycle_def dfs_post_def)
  qed (use post in \<open>simp add: dfs_post_def\<close>)
qed

section \<open>Independence of the iteration order\<close>

definition same_graph :: "graph \<Rightarrow> graph \<Rightarrow> bool" where
  "same_graph G H \<longleftrightarrow> wf_graph G \<and> wf_graph H \<and> set (gnames G) = set (gnames H) \<and>
     (\<forall>n. set (raw_deps G n) = set (raw_deps H n))"

lemma same_graph_sort:
  "same_graph G H \<Longrightarrow> sort (raw_deps G n) = sort (raw_deps H n)"
  "same_graph G H \<Longrightarrow> sort (gnames G) = sort (gnames H)"
  "same_graph G H \<Longrightarrow> length (gnames G) = length (gnames H)"
proof -
  assume s: "same_graph G H"
  show "sort (raw_deps G n) = sort (raw_deps H n)" "sort (gnames G) = sort (gnames H)"
    using s by (intro sorted_distinct_set_unique; simp add: same_graph_def wf_graph_def)+
  then show "length (gnames G) = length (gnames H)" by (metis length_sort)
qed

lemma same_graph_deps:
  assumes "same_graph G H"
  shows "set (deps_of G n) = set (deps_of H n)" "length (deps_of G n) = length (deps_of H n)"
    "sort (dependents G n) = sort (dependents H n)"
proof -
  show eq: "set (deps_of G n) = set (deps_of H n)" for n using assms by (auto simp: same_graph_def deps_of_def)
  have "distinct (deps_of G n)" "distinct (deps_of H n)" using assms by (auto simp: same_graph_def wf_graph_def deps_of_def)
  then show "length (deps_of G n) = length (deps_of H n)" using eq by (metis distinct_card)
  show "sort (dependents G n) = sort (dependents H n)"
    using assms eq by (intro sorted_distinct_set_unique) (auto simp: same_graph_def wf_graph_def dependents_def)
qed

lemma kahn_same: "same_graph G H \<Longrightarrow> kahn G ready ind order = kahn H ready ind order"
  by (induction G ready ind order rule: kahn.induct) (auto simp: same_graph_deps(3) split: prod.splits)

lemma topologicalOrder_same:
  assumes s: "same_graph G H"
  shows "topologicalOrder G = topologicalOrder H"
proof -
  have ind: "indegree0 G = indegree0 H" using same_graph_deps(2) [OF s] by (simp add: indegree0_def fun_eq_iff)
  have "sort (filter (\<lambda>n. indegree0 H n = 0) (gnames G)) = sort (filter (\<lambda>n. indegree0 H n = 0) (gnames H))"
    using same_graph_sort(2) [OF s] by (simp flip: filter_sort)
  then show ?thesis
    using same_graph_sort(3) [OF s] kahn_same [OF s] ind by (simp add: topologicalOrder_def)
qed

lemma visit_same:
  "same_graph G H \<Longrightarrow> visit f G n col stack = visit f H n col stack"
  "same_graph G H \<Longrightarrow> visit_deps f G ds col stack = visit_deps f H ds col stack"
proof (induction f G n col stack and f G ds col stack rule: visit_visit_deps.induct)
  case (2 f G n col stack)
  have "visit_deps f G (sort (raw_deps G n)) (col(n := gray)) (stack @ [n]) =
      visit_deps f H (sort (raw_deps H n)) (col(n := gray)) (stack @ [n])"
    using "2.IH" [OF "2.prems"] same_graph_sort(1) [OF "2.prems", of n] by metis
  then show ?case by (simp only: visit.simps)
next
  case (4 f G d ds col stack)
  have n: "set (gnames G) = set (gnames H)" using "4.prems" by (simp add: same_graph_def)
  then show ?case using "4.IH" "4.prems" by (auto split: color.splits dfs.splits)
qed simp_all

lemma search_same: "same_graph G H \<Longrightarrow> search f G ns col = search f H ns col"
  by (induction ns arbitrary: col) (auto simp: visit_same(1) split: dfs.splits)

section \<open>Properties\<close>

text \<open>C21: Services start in dependency order.  When \<^verbatim>\<open>topologicalOrder\<close> reports success, its order lists
  every service of the stack once, each after all the services it depends on; when it reports failure, no
  order with that property exists.\<close>

theorem start_order_correct:
  assumes "wf_graph G"
  shows "(if snd (topologicalOrder G)
          then distinct (fst (topologicalOrder G)) \<and> set (fst (topologicalOrder G)) = set (gnames G) \<and>
               deps_first G (fst (topologicalOrder G))
          else \<nexists>xs. distinct xs \<and> set xs = set (gnames G) \<and> deps_first G xs)"
  using topologicalOrder_correct [OF assms] unfolding start_order_def .

definition sample_graph :: graph where
  "sample_graph = [(''web'', [''db'', ''cache'', ''other'']), (''db'', []), (''job'', [''db'']), (''cache'', [''db''])]"

lemma sample_graph_wf: "wf_graph sample_graph"
  by (auto simp: wf_graph_def sample_graph_def gnames_def raw_deps_def)

theorem start_order_correct_witness:
  "topologicalOrder sample_graph = ([''db'', ''cache'', ''job'', ''web''], True) \<and>
   deps_first sample_graph [''db'', ''cache'', ''job'', ''web'']"
proof -
  have "topologicalOrder sample_graph = ([''db'', ''cache'', ''job'', ''web''], True)" by code_simp
  then show ?thesis using start_order_correct [OF sample_graph_wf] by simp
qed

text \<open>C22: The two graph algorithms agree.  \<^verbatim>\<open>findCycle\<close> always ends, reports no cycle exactly when
  \<^verbatim>\<open>topologicalOrder\<close> orders all services, and otherwise reports a real one: a walk along declared
  dependencies that returns to its first service.  So the failure branch of \<^verbatim>\<open>buildPlan\<close> for a cycle
  that survived validation cannot be reached.\<close>

theorem findCycle_agrees:
  assumes wf: "wf_graph G"
  shows "findCycle G \<noteq> None \<and> (findCycle G = Some [] \<longleftrightarrow> snd (topologicalOrder G)) \<and>
         (\<forall>c. findCycle G = Some c \<and> c \<noteq> [] \<longrightarrow> is_cycle G c)"
  using wf
proof (cases rule: findCycle_correct)
  case 1
  then show ?thesis using topologicalOrder_correct [OF wf] by (auto split: if_splits)
next
  case (2 c)
  then have "c \<noteq> []" by (auto simp: is_cycle_def)
  then show ?thesis using 2 cycle_no_order [OF 2(2)] topologicalOrder_correct [OF wf] by (auto split: if_splits)
qed

theorem findCycle_agrees_witness:
  "wf_graph [(''a'', [''b'']), (''b'', [''c'']), (''c'', [''b''])] \<and>
   is_cycle [(''a'', [''b'']), (''b'', [''c'']), (''c'', [''b''])] [''b'', ''c'', ''b''] \<and>
   \<not> snd (topologicalOrder [(''a'', [''b'']), (''b'', [''c'']), (''c'', [''b''])])"
proof -
  let ?G = "[(''a'', [''b'']), (''b'', [''c'']), (''c'', [''b''])]"
  have wf: "wf_graph ?G" by (auto simp: wf_graph_def gnames_def raw_deps_def)
  have f: "findCycle ?G = Some [''b'', ''c'', ''b'']" by code_simp
  from findCycle_agrees [OF wf] f wf show ?thesis by simp
qed

text \<open>The start order and the reported cycle are functions of the file, not of the iteration order of Go maps:
  two graphs with the same services and the same dependencies give the same order and the same cycle.\<close>

theorem graph_deterministic:
  assumes s: "same_graph G H"
  shows "topologicalOrder G = topologicalOrder H \<and> findCycle G = findCycle H"
proof
  show "topologicalOrder G = topologicalOrder H" using s by (rule topologicalOrder_same)
  have "length G = length H" using same_graph_sort(3) [OF s] by (simp add: gnames_def)
  then show "findCycle G = findCycle H"
    using same_graph_sort(2) [OF s] search_same [OF s] by (simp add: findCycle_def)
qed

end
