(* ===== verification/ComposePolicy.thy ===== *)
theory ComposePolicy
  imports Complex_Main AccessRoute ComposeGraph
begin

text \<open>
  The policy of Compose files (\<^verbatim>\<open>src/internal/compose\<close>: \<^verbatim>\<open>findings.go\<close>,
  \<^verbatim>\<open>policy.go\<close>, \<^verbatim>\<open>xakerdock.go\<close>): what a file may ask of the host.  The loaded
  project is the data the code reads of the types of \<^verbatim>\<open>compose-go\<close>, with Go maps as association
  lists in iteration order; a pass returns the findings it appends.  The display text of a finding is left
  out.  The lemmas give the meaning of the path checks and of a project without errors.
\<close>

section \<open>Findings\<close>

datatype Severity = Error | Warning

datatype Code = CodeParseError | CodeVersionIgnored | CodeKeyIgnored | CodeContainerNameIgnored
  | CodeSwarmKeyRejected | CodeNetworkModeHostRejected | CodeNetworkModeRejected | CodeHostNamespaceRejected
  | CodePrivilegedDenied | CodeBindMountDenied | CodeExternalObjectRejected | CodeIncludeRejected
  | CodePlatformUnsupported | CodeInvalidServiceName | CodeReservedLabel | CodePathTraversal
  | CodeConflictingLimits | CodeDependencyCycle | CodeDependencyNeedsHealthcheck
  | CodeRequiredVariableMissing | CodePreviewSeedInvalid | CodeVariableUndefined
  | CodeSharedVariableMissing | CodeMagicVariableInvalidType | CodeMagicVariableUnknownComp
  | CodeStorageExtensionConflict | CodeAccessPublicRouteInvalid | CodeRoutablePortUnresolved
  | CodeDomainConflict | CodeOneshotWithoutExclude | CodeZeroDowntimeIneligible | CodeFileContentTooLarge
  | CodeHookOnOneShot | CodeHookWithoutHealthcheck

record Finding =
  f_Code :: Code
  f_Severity :: Severity
  f_Service :: string
  f_Path :: string

definition errf :: "Code \<Rightarrow> string \<Rightarrow> string \<Rightarrow> Finding" where
  "errf c service path = \<lparr>f_Code = c, f_Severity = Error, f_Service = service, f_Path = path\<rparr>"

definition warnf :: "Code \<Rightarrow> string \<Rightarrow> string \<Rightarrow> Finding" where
  "warnf c service path = \<lparr>f_Code = c, f_Severity = Warning, f_Service = service, f_Path = path\<rparr>"

definition HasErrors :: "Finding list \<Rightarrow> bool" where
  "HasErrors fs = list_ex (\<lambda>f. f_Severity f = Error) fs"

section \<open>The loaded project\<close>

text \<open>Values of an extension block, as \<^verbatim>\<open>any\<close>; \<open>AOther\<close> is a value JSON cannot encode.\<close>

datatype any = ANull | ABool bool | AInt int | AStr string | AList "any list" | AMap "(string \<times> any) list" | AOther

type_synonym extensions = "(string \<times> any) list"

record HealthCheckConfig =
  hc_Test :: "string list"
  hc_Timeout :: "int option"
  hc_Interval :: "int option"
  hc_Retries :: "nat option"
  hc_StartPeriod :: "int option"
  hc_StartInterval :: "int option"
  hc_Disable :: bool

record Resource =
  rs_NanoCPUs :: rat
  rs_MemoryBytes :: int
  rs_Pids :: int

record DeployConfig =
  d_Mode :: string
  d_Replicas :: "int option"
  d_Labels :: "(string \<times> string) list"
  d_UpdateConfig :: bool
  d_RollbackConfig :: bool
  d_Limits :: "Resource option"
  d_Reservations :: "Resource option"
  d_Constraints :: "string list"
  d_Preferences :: "string list"
  d_EndpointMode :: string

record ServiceVolumeConfig =
  v_Type :: string
  v_Source :: string
  v_Target :: string
  v_ReadOnly :: bool
  v_Extensions :: extensions

text \<open>\<open>s_Build\<close> is the build context and \<open>s_Extends\<close> the file of \<^verbatim>\<open>extends\<close>, when declared.\<close>

record ServiceConfig =
  s_Image :: string
  s_Build :: "string option"
  s_Extends :: "string option"
  s_EnvFiles :: "string list"
  s_Volumes :: "ServiceVolumeConfig list"
  s_Labels :: "(string \<times> string) list"
  s_DependsOn :: "(string \<times> string) list"
  s_HealthCheck :: "HealthCheckConfig option"
  s_Restart :: string
  s_Deploy :: "DeployConfig option"
  s_Scale :: "int option"
  s_ExternalLinks :: "string list"
  s_NetworkMode :: string
  s_Pid :: string
  s_Ipc :: string
  s_UserNSMode :: string
  s_Cgroup :: string
  s_CgroupParent :: string
  s_CredentialSpec :: bool
  s_Isolation :: string
  s_Privileged :: bool
  s_CapAdd :: "string list"
  s_Devices :: "string list"
  s_SecurityOpt :: "string list"
  s_Sysctls :: "(string \<times> string) list"
  s_MemLimit :: int
  s_MemReservation :: int
  s_MemSwapLimit :: int
  s_CPUS :: rat
  s_CPUShares :: int
  s_CPUSet :: string
  s_Networks :: "string list"
  s_Ports :: "string list"
  s_Expose :: "string list"
  s_Extensions :: extensions

record VolumeConfig =
  vc_Name :: string
  vc_External :: bool
  vc_Extensions :: extensions

record Project =
  pj_Services :: "(string \<times> ServiceConfig) list"
  pj_Networks :: "(string \<times> bool) list"
  pj_Volumes :: "(string \<times> VolumeConfig) list"
  pj_Configs :: "(string \<times> bool) list"
  pj_Secrets :: "(string \<times> bool) list"

record Policy =
  AllowPrivileged :: bool
  AllowDevices :: bool
  AllowSecurityOpt :: bool
  AllowExternalObjects :: bool
  ExtraCapAdd :: "string list"
  AllowedBindRoots :: "string list"

text \<open>The dependency graph of the project.\<close>

definition dep_graph :: "Project \<Rightarrow> graph" where
  "dep_graph project = map (\<lambda>(n, svc). (n, map fst (s_DependsOn svc))) (pj_Services project)"

section \<open>Rejected and gated keys\<close>

definition serviceNamePattern :: "string \<Rightarrow> bool" where
  "serviceNamePattern s = (case s of [] \<Rightarrow> False
     | c # cs \<Rightarrow> (is_lower c \<or> is_digit c) \<and> list_all (\<lambda>d. is_lower d \<or> is_digit d \<or> d \<in> set ''_.-'') cs)"

definition defaultCapAllowlist :: "string list" where
  "defaultCapAllowlist = [''NET_BIND_SERVICE'', ''CHOWN'', ''SETUID'', ''SETGID'']"

definition validateRejected :: "string \<Rightarrow> string \<Rightarrow> ServiceConfig \<Rightarrow> Finding list" where
  "validateRejected name p svc =
     (case s_Deploy svc of
        None \<Rightarrow> []
      | Some d \<Rightarrow>
          if d_Replicas d \<noteq> None then [errf CodeSwarmKeyRejected name (p @ ''.deploy.replicas'')]
          else if d_Mode d \<noteq> [] then [errf CodeSwarmKeyRejected name (p @ ''.deploy.mode'')]
          else if d_UpdateConfig d \<or> d_RollbackConfig d then [errf CodeSwarmKeyRejected name (p @ ''.deploy.update_config'')]
          else if d_Constraints d \<noteq> [] \<or> d_Preferences d \<noteq> [] then [errf CodeSwarmKeyRejected name (p @ ''.deploy.placement'')]
          else if d_EndpointMode d \<noteq> [] then [errf CodeSwarmKeyRejected name (p @ ''.deploy.endpoint_mode'')]
          else if d_Labels d \<noteq> [] then [errf CodeSwarmKeyRejected name (p @ ''.deploy.labels'')]
          else []) @
     (case s_Scale svc of
        Some n \<Rightarrow> if n \<noteq> 1 then [errf CodeSwarmKeyRejected name (p @ ''.scale'')] else []
      | None \<Rightarrow> []) @
     (if s_ExternalLinks svc \<noteq> [] then [errf CodeSwarmKeyRejected name (p @ ''.external_links'')] else []) @
     (if s_NetworkMode svc = ''host'' then [errf CodeNetworkModeHostRejected name (p @ ''.network_mode'')]
      else if HasPrefix (s_NetworkMode svc) ''service:'' \<or> HasPrefix (s_NetworkMode svc) ''container:''
      then [errf CodeNetworkModeRejected name (p @ ''.network_mode'')]
      else []) @
     (if s_Pid svc = ''host'' \<or> s_Ipc svc = ''host'' \<or> s_UserNSMode svc = ''host'' \<or> s_Cgroup svc = ''host'' \<or>
         s_CgroupParent svc \<noteq> []
      then [errf CodeHostNamespaceRejected name p] else []) @
     (if s_CredentialSpec svc \<or> s_Isolation svc \<noteq> [] then [errf CodePlatformUnsupported name p] else [])"

definition validatePolicy :: "string \<Rightarrow> string \<Rightarrow> ServiceConfig \<Rightarrow> Policy \<Rightarrow> Finding list" where
  "validatePolicy name p svc policy =
     (if s_Privileged svc \<and> \<not> AllowPrivileged policy then [errf CodePrivilegedDenied name (p @ ''.privileged'')] else []) @
     concat (map (\<lambda>cap.
       if cap \<in> set defaultCapAllowlist \<or> cap \<in> set (ExtraCapAdd policy) then []
       else [errf CodePrivilegedDenied name (p @ ''.cap_add'')]) (s_CapAdd svc)) @
     (if s_Devices svc \<noteq> [] \<and> \<not> AllowDevices policy then [errf CodePrivilegedDenied name (p @ ''.devices'')] else []) @
     concat (map (\<lambda>opt.
       if opt = ''no-new-privileges:true'' \<or> opt = ''no-new-privileges'' then []
       else if \<not> AllowSecurityOpt policy then [errf CodePrivilegedDenied name (p @ ''.security_opt'')]
       else []) (s_SecurityOpt svc)) @
     concat (map (\<lambda>(key, _).
       if \<not> HasPrefix key ''net.'' then [errf CodePrivilegedDenied name (p @ ''.sysctls'')] else []) (s_Sysctls svc))"

definition validateLimits :: "string \<Rightarrow> string \<Rightarrow> ServiceConfig \<Rightarrow> Finding list" where
  "validateLimits name p svc =
     (case s_Deploy svc of
        None \<Rightarrow> []
      | Some d \<Rightarrow>
        (case d_Limits d of
           None \<Rightarrow> []
         | Some limits \<Rightarrow>
             (if s_MemLimit svc \<noteq> 0 \<and> rs_MemoryBytes limits \<noteq> 0 \<and> rs_MemoryBytes limits \<noteq> s_MemLimit svc
              then [errf CodeConflictingLimits name p] else []) @
             (if s_CPUS svc \<noteq> 0 \<and> rs_NanoCPUs limits \<noteq> 0 \<and> rs_NanoCPUs limits \<noteq> s_CPUS svc
              then [errf CodeConflictingLimits name p] else [])))"

definition validateLabels :: "string \<Rightarrow> string \<Rightarrow> ServiceConfig \<Rightarrow> Finding list" where
  "validateLabels name p svc =
     concat (map (\<lambda>(key, _).
       if HasPrefix (ToLower key) ''akerdock.'' then [errf CodeReservedLabel name (p @ ''.labels'')] else [])
       (s_Labels svc))"

section \<open>Mounts\<close>

definition escapesBase :: "string \<Rightarrow> bool" where
  "escapesBase rel = (let cleaned = PathClean rel in cleaned = ''..'' \<or> HasPrefix cleaned ''../'')"

definition underAllowedRoot :: "string \<Rightarrow> string list \<Rightarrow> bool" where
  "underAllowedRoot apath roots =
     (let cleaned = PathClean apath in
      list_ex (\<lambda>root. let r = PathClean root in cleaned = r \<or> HasPrefix cleaned (r @ ''/'')) roots)"

definition validateMounts :: "string \<Rightarrow> string \<Rightarrow> ServiceConfig \<Rightarrow> Policy \<Rightarrow> Finding list" where
  "validateMounts name p svc policy =
     concat (map (\<lambda>vol.
       if v_Type vol \<noteq> ''bind'' \<or> v_Source vol = [] then []
       else if HasPrefix (v_Source vol) ''/''
       then if \<not> underAllowedRoot (v_Source vol) (AllowedBindRoots policy)
            then [errf CodeBindMountDenied name (p @ ''.volumes'')] else []
       else if escapesBase (v_Source vol) then [errf CodePathTraversal name (p @ ''.volumes'')] else [])
       (s_Volumes svc)) @
     concat (map (\<lambda>envFile.
       if HasPrefix envFile ''/'' then [errf CodePathTraversal name (p @ ''.env_file'')]
       else if escapesBase envFile then [errf CodePathTraversal name (p @ ''.env_file'')] else [])
       (s_EnvFiles svc)) @
     (case s_Build svc of
        None \<Rightarrow> []
      | Some ctx \<Rightarrow> if HasPrefix ctx ''/'' \<or> escapesBase ctx
                   then [errf CodePathTraversal name (p @ ''.build.context'')] else []) @
     (case s_Extends svc of
        None \<Rightarrow> []
      | Some file \<Rightarrow> if file \<noteq> [] \<and> (HasPrefix file ''/'' \<or> escapesBase file)
                    then [errf CodePathTraversal name (p @ ''.extends.file'')] else [])"

section \<open>Extensions\<close>

definition maxFileContentBytes :: nat where
  "maxFileContentBytes = 5 * 2 ^ 20"

record ServiceExtensions =
  e_ExcludeFromHC :: bool
  e_AccessPublicRoutes :: "Route list"
  e_ZeroDowntime :: "bool option"
  e_PreDeploymentCommand :: string
  e_PostDeploymentCommand :: string

record VolumeExtensions =
  x_IsDirectory :: bool
  x_Content :: string
  x_FileMode :: string
  x_OwnerUID :: "int option"
  x_GroupGID :: "int option"

definition extensionMap :: "extensions \<Rightarrow> (string \<times> any) list option" where
  "extensionMap ext = (case map_of ext ''x-akerdock'' of Some (AMap m) \<Rightarrow> Some m | _ \<Rightarrow> None)"

definition as_bool :: "any option \<Rightarrow> bool option" where
  "as_bool v = (case v of Some (ABool b) \<Rightarrow> Some b | _ \<Rightarrow> None)"

definition as_str :: "any option \<Rightarrow> string option" where
  "as_str v = (case v of Some (AStr s) \<Rightarrow> Some s | _ \<Rightarrow> None)"

definition as_int :: "any option \<Rightarrow> int option" where
  "as_int v = (case v of Some (AInt i) \<Rightarrow> Some i | _ \<Rightarrow> None)"

text \<open>\<^verbatim>\<open>json.Marshal\<close> fails on a value it cannot encode.\<close>

fun encodable :: "any \<Rightarrow> bool" where
  "encodable (AList xs) = list_all encodable xs"
| "encodable (AMap m) = list_all (\<lambda>(k, v). encodable v) m"
| "encodable AOther = False"
| "encodable _ = True"

text \<open>\<^verbatim>\<open>json.Unmarshal\<close> of the encoded value into \<^verbatim>\<open>[]accessroute.Route\<close>: keys match field
  names up to case and in sorted order, \<^verbatim>\<open>null\<close> leaves a field alone, other types are errors.\<close>

fun decode_strings :: "any list \<Rightarrow> string list option" where
  "decode_strings [] = Some []"
| "decode_strings (AStr s # vs) = map_option (Cons s) (decode_strings vs)"
| "decode_strings (ANull # vs) = map_option (Cons []) (decode_strings vs)"
| "decode_strings (_ # vs) = None"

fun decode_params :: "(string \<times> any) list \<Rightarrow> (string \<times> string list) list option" where
  "decode_params [] = Some []"
| "decode_params ((k, AList vs) # rest) =
     (case (decode_strings vs, decode_params rest) of (Some ss, Some ps) \<Rightarrow> Some ((k, ss) # ps) | _ \<Rightarrow> None)"
| "decode_params ((k, ANull) # rest) = map_option (Cons (k, [])) (decode_params rest)"
| "decode_params ((k, _) # rest) = None"

definition decode_field :: "string \<times> any \<Rightarrow> Route \<Rightarrow> Route option" where
  "decode_field kv r =
     (let k = ToLower (fst kv) in
      if k = ''path'' then (case snd kv of AStr s \<Rightarrow> Some (r\<lparr>Path := s\<rparr>) | ANull \<Rightarrow> Some r | _ \<Rightarrow> None)
      else if k = ''match'' then (case snd kv of AStr s \<Rightarrow> Some (r\<lparr>Match := s\<rparr>) | ANull \<Rightarrow> Some r | _ \<Rightarrow> None)
      else if k = ''methods''
      then (case snd kv of AList vs \<Rightarrow> map_option (\<lambda>ms. r\<lparr>Methods := ms\<rparr>) (decode_strings vs)
            | ANull \<Rightarrow> Some (r\<lparr>Methods := []\<rparr>) | _ \<Rightarrow> None)
      else if k = ''parameters''
      then (case snd kv of AMap m \<Rightarrow> map_option (\<lambda>ps. r\<lparr>Parameters := ps\<rparr>) (decode_params m)
            | ANull \<Rightarrow> Some (r\<lparr>Parameters := []\<rparr>) | _ \<Rightarrow> None)
      else Some r)"

fun decode_fields :: "(string \<times> any) list \<Rightarrow> Route \<Rightarrow> Route option" where
  "decode_fields [] r = Some r"
| "decode_fields (kv # kvs) r = (case decode_field kv r of None \<Rightarrow> None | Some r' \<Rightarrow> decode_fields kvs r')"

definition zero_route :: Route where
  "zero_route = \<lparr>Path = [], Match = [], Methods = [], Parameters = []\<rparr>"

fun decode_route :: "any \<Rightarrow> Route option" where
  "decode_route (AMap m) = decode_fields (sort_key fst m) zero_route"
| "decode_route ANull = Some zero_route"
| "decode_route _ = None"

fun decode_list :: "any list \<Rightarrow> Route list option" where
  "decode_list [] = Some []"
| "decode_list (v # vs) =
     (case (decode_route v, decode_list vs) of (Some r, Some rs) \<Rightarrow> Some (r # rs) | _ \<Rightarrow> None)"

fun decode_routes :: "any \<Rightarrow> Route list option" where
  "decode_routes (AList vs) = decode_list vs"
| "decode_routes ANull = Some []"
| "decode_routes _ = None"

fun keep_valid :: "string \<Rightarrow> string \<Rightarrow> nat \<Rightarrow> Route list \<Rightarrow> Route list \<times> Finding list" where
  "keep_valid name p i [] = ([], [])"
| "keep_valid name p i (r # rs) =
     (let (ok, fs) = keep_valid name p (Suc i) rs in
      case Validate r of
        Inl _ \<Rightarrow> (ok, errf CodeAccessPublicRouteInvalid name (p @ ''.access_public_routes['' @ show_nat i @ '']'') # fs)
      | Inr n \<Rightarrow> (n # ok, fs))"

definition public_routes :: "string \<Rightarrow> string \<Rightarrow> any option \<Rightarrow> Route list \<times> Finding list" where
  "public_routes name p v =
     (case v of
        None \<Rightarrow> ([], [])
      | Some x \<Rightarrow>
          if \<not> encodable x then ([], [errf CodeAccessPublicRouteInvalid name (p @ ''.access_public_routes'')])
          else case decode_routes x of
            None \<Rightarrow> ([], [errf CodeAccessPublicRouteInvalid name (p @ ''.access_public_routes'')])
          | Some routes \<Rightarrow> keep_valid name p 0 routes)"

definition serviceExtensions :: "string \<Rightarrow> string \<Rightarrow> ServiceConfig \<Rightarrow> ServiceExtensions \<times> Finding list" where
  "serviceExtensions name p svc =
     (let none = \<lparr>e_ExcludeFromHC = False, e_AccessPublicRoutes = [], e_ZeroDowntime = None,
                  e_PreDeploymentCommand = [], e_PostDeploymentCommand = []\<rparr> in
      case extensionMap (s_Extensions svc) of
        None \<Rightarrow> (none, [])
      | Some raw \<Rightarrow>
          let (routes, fs) = public_routes name p (map_of raw ''access_public_routes'');
              out = \<lparr>e_ExcludeFromHC = (case as_bool (map_of raw ''exclude_from_hc'') of Some b \<Rightarrow> b | None \<Rightarrow> False),
                     e_AccessPublicRoutes = routes,
                     e_ZeroDowntime = as_bool (map_of raw ''zero_downtime''),
                     e_PreDeploymentCommand = (case as_str (map_of raw ''pre_deployment_command'') of Some s \<Rightarrow> s | None \<Rightarrow> []),
                     e_PostDeploymentCommand = (case as_str (map_of raw ''post_deployment_command'') of Some s \<Rightarrow> s | None \<Rightarrow> [])\<rparr>
          in (out, fs @
               (if e_PostDeploymentCommand out \<noteq> []
                then if s_Restart svc = ''no'' then [errf CodeHookOnOneShot name (p @ ''.post_deployment_command'')]
                     else if (case s_HealthCheck svc of None \<Rightarrow> True | Some hc \<Rightarrow> hc_Disable hc)
                     then [warnf CodeHookWithoutHealthcheck name (p @ ''.post_deployment_command'')]
                     else []
                else [])))"

definition volumeExtensions :: "string \<Rightarrow> string \<Rightarrow> ServiceVolumeConfig \<Rightarrow> VolumeExtensions option \<times> Finding list" where
  "volumeExtensions service p vol =
     (case extensionMap (v_Extensions vol) of
        None \<Rightarrow> (None, [])
      | Some raw \<Rightarrow>
          let out = \<lparr>x_IsDirectory = (case as_bool (map_of raw ''is_directory'') of Some b \<Rightarrow> b | None \<Rightarrow> False),
                     x_Content = (case as_str (map_of raw ''content'') of Some s \<Rightarrow> s | None \<Rightarrow> []),
                     x_FileMode = (case as_str (map_of raw ''file_mode'') of Some s \<Rightarrow> s | None \<Rightarrow> []),
                     x_OwnerUID = as_int (map_of raw ''owner_uid''),
                     x_GroupGID = as_int (map_of raw ''group_gid'')\<rparr>;
              fs = (if x_IsDirectory out \<and> x_Content out \<noteq> [] then [errf CodeStorageExtensionConflict service p] else []) @
                   (if length (x_Content out) > maxFileContentBytes then [errf CodeFileContentTooLarge service p] else [])
          in if x_Content out = [] \<and> \<not> x_IsDirectory out \<and> x_FileMode out = [] \<and> x_OwnerUID out = None \<and> x_GroupGID out = None
             then (None, fs) else (Some out, fs))"

definition validateExtensions :: "string \<Rightarrow> string \<Rightarrow> ServiceConfig \<Rightarrow> Finding list" where
  "validateExtensions name p svc =
     snd (serviceExtensions name (p @ ''.x-akerdock'') svc) @
     concat (map (\<lambda>(i, vol). snd (volumeExtensions name (p @ ''.volumes['' @ show_nat i @ ''].x-akerdock'') vol))
       (enumerate 0 (s_Volumes svc)))"

section \<open>Dependencies and top-level objects\<close>

definition validate_dep :: "Project \<Rightarrow> string \<Rightarrow> string \<Rightarrow> string \<times> string \<Rightarrow> Finding list" where
  "validate_dep project name p = (\<lambda>(dep, condition).
     case map_of (pj_Services project) dep of
       None \<Rightarrow> [errf CodeParseError name p]
     | Some target \<Rightarrow>
         if condition = ''service_healthy''
         then if (case s_HealthCheck target of None \<Rightarrow> True | Some hc \<Rightarrow> hc_Disable hc)
              then [errf CodeDependencyNeedsHealthcheck name p] else []
         else if condition = ''service_completed_successfully''
         then if s_Restart target \<noteq> [] \<and> s_Restart target \<noteq> ''no'' then [errf CodeParseError name p] else []
         else [])"

definition validateDependencies :: "Project \<Rightarrow> Finding list" where
  "validateDependencies project =
     concat (map (\<lambda>(name, svc).
       concat (map (validate_dep project name (''services.'' @ name @ ''.depends_on'')) (s_DependsOn svc)))
       (pj_Services project)) @
     (case findCycle (dep_graph project) of
        Some (c # cs) \<Rightarrow> [errf CodeDependencyCycle [] ''services'']
      | _ \<Rightarrow> [])"

definition validateTopLevelObjects :: "Project \<Rightarrow> Policy \<Rightarrow> Finding list" where
  "validateTopLevelObjects project policy =
     concat (map (\<lambda>(name, ext). if ext \<and> \<not> AllowExternalObjects policy
       then [errf CodeExternalObjectRejected [] (''networks.'' @ name)] else []) (pj_Networks project)) @
     concat (map (\<lambda>(name, vol). if vc_External vol \<and> \<not> AllowExternalObjects policy
       then [errf CodeExternalObjectRejected [] (''volumes.'' @ name)] else []) (pj_Volumes project)) @
     concat (map (\<lambda>(name, ext). if ext then [errf CodeExternalObjectRejected [] (''configs.'' @ name)] else [])
       (pj_Configs project)) @
     concat (map (\<lambda>(name, ext). if ext then [errf CodeSwarmKeyRejected [] (''secrets.'' @ name)] else [])
       (pj_Secrets project))"

definition validate_service :: "Policy \<Rightarrow> string \<times> ServiceConfig \<Rightarrow> Finding list" where
  "validate_service policy = (\<lambda>(name, svc).
     let p = ''services.'' @ name in
     (if serviceNamePattern name then [] else [errf CodeInvalidServiceName name p]) @
     validateRejected name p svc @ validatePolicy name p svc policy @ validateLimits name p svc @
     validateLabels name p svc @ validateMounts name p svc policy @ validateExtensions name p svc)"

definition validate :: "Project \<Rightarrow> Policy \<Rightarrow> Finding list" where
  "validate project policy =
     concat (map (validate_service policy) (pj_Services project)) @
     validateDependencies project @ validateTopLevelObjects project policy"

section \<open>The meaning of the path checks\<close>

text \<open>Where a path leads, lexically, from a directory given by its segments below the root.\<close>

definition resolve :: "string list \<Rightarrow> string \<Rightarrow> string list" where
  "resolve base p = clean_segs True (rev base) (Split p CHR ''/'')"

lemma clean_bottom:
  "acc \<noteq> [] \<Longrightarrow> last acc = ''..'' \<Longrightarrow>
     clean_segs False acc ss \<noteq> [] \<and> hd (clean_segs False acc ss) = ''..''"
proof (induction ss arbitrary: acc)
  case Nil
  then show ?case by (simp add: hd_rev)
next
  case (Cons s ss)
  obtain a as where acc: "acc = a # as" using Cons.prems by (cases acc) auto
  show ?case using Cons.IH Cons.prems acc by (auto split: if_splits)
qed

lemma clean_inside:
  "''..'' \<notin> set acc \<Longrightarrow> clean_segs False acc ss = r \<Longrightarrow> r = [] \<or> hd r \<noteq> ''..'' \<Longrightarrow>
     clean_segs True (acc @ rev base) ss = base @ r \<and> ''..'' \<notin> set r"
proof (induction ss arbitrary: acc)
  case (Cons s ss)
  show ?case
  proof (cases "s = ''..'' \<and> acc = []")
    case True
    then have "clean_segs False [''..''] ss = r" using Cons.prems by simp
    then show ?thesis using clean_bottom [of "[''..'']" ss] Cons.prems(3) by simp
  next
    case False
    consider "s = [] \<or> s = ''.''" | a as where "s = ''..''" "acc = a # as" "a \<noteq> ''..''"
      | "s \<noteq> []" "s \<noteq> ''.''" "s \<noteq> ''..''"
      using False Cons.prems(1) by (cases acc) auto
    then show ?thesis
    proof cases
      case 1
      then show ?thesis using Cons.IH [OF Cons.prems(1) _ Cons.prems(3)] Cons.prems(2) by auto
    next
      case 2
      then show ?thesis using Cons.IH [of as] Cons.prems by simp
    next
      case 3
      then show ?thesis using Cons.IH [of "s # acc"] Cons.prems by simp
    qed
  qed
qed auto

lemma clean_set:
  "x \<in> set (clean_segs rooted acc ss) \<Longrightarrow> x \<in> set acc \<or> x = ''..'' \<or> x \<in> set ss \<and> x \<noteq> []"
  by (induction rooted acc ss rule: clean_segs.induct) (auto split: list.splits if_splits)

lemma not_escapes_contained:
  assumes "\<not> HasPrefix rel ''/''" "\<not> escapesBase rel"
  shows "\<exists>t. resolve base rel = base @ t \<and> ''..'' \<notin> set t"
proof -
  define r where "r = clean_segs False [] (Split rel CHR ''/'')"
  have "r = [] \<or> hd r \<noteq> ''..''"
  proof (rule ccontr)
    assume "\<not> ?thesis"
    then obtain rest where r: "r = ''..'' # rest" by (cases r) auto
    have "PathClean rel = Join r ''/''" using assms(1) r by (cases rest) (auto simp: PathClean_def r_def [symmetric])
    then have "escapesBase rel" using r by (cases rest) (auto simp: escapesBase_def HasPrefix_def)
    with assms(2) show False by simp
  qed
  then have "resolve base rel = base @ r \<and> ''..'' \<notin> set r"
    using clean_inside [of "[]" "Split rel CHR ''/''" r base] by (simp add: resolve_def r_def)
  then show ?thesis by blast
qed

lemma resolve_root_segments: "x \<in> set (resolve [] p) \<Longrightarrow> x \<noteq> [] \<and> CHR ''/'' \<notin> set x"
  using clean_set [of x True "[]" "Split p CHR ''/''"] Split_no_sep by (auto simp: resolve_def)

lemma PathClean_rooted: "HasPrefix p ''/'' \<Longrightarrow> PathClean p = ''/'' @ Join (resolve [] p) ''/''"
  by (simp add: PathClean_def resolve_def)

lemma Join_segments_prefix:
  assumes A: "\<forall>x \<in> set A. x \<noteq> [] \<and> CHR ''/'' \<notin> set x" and R: "\<forall>x \<in> set R. x \<noteq> [] \<and> CHR ''/'' \<notin> set x"
    and p: "Join A ''/'' = Join R ''/'' \<or> HasPrefix (Join A ''/'') (Join R ''/'' @ ''/'')"
  shows "\<exists>t. A = R @ t"
  using p
proof
  assume eq: "Join A ''/'' = Join R ''/''"
  have empty: "Join X ''/'' = [] \<longleftrightarrow> X = []" if "\<forall>x \<in> set X. x \<noteq> [] \<and> CHR ''/'' \<notin> set x" for X
    using that by (simp add: Join_empty_iff)
  show ?thesis
  proof (cases "A = [] \<or> R = []")
    case True
    then show ?thesis using empty [OF A] empty [OF R] eq by auto
  next
    case False
    then have "A = R" using Split_Join [of A "CHR ''/''"] Split_Join [of R "CHR ''/''"] A R eq by force
    then show ?thesis by simp
  qed
next
  assume "HasPrefix (Join A ''/'') (Join R ''/'' @ ''/'')"
  then obtain u where u: "Join A ''/'' = Join R ''/'' @ CHR ''/'' # u" by (auto simp: HasPrefix_iff)
  then have ne: "A \<noteq> []" by auto
  have "A = Split (Join R ''/'' @ CHR ''/'' # u) CHR ''/''" using Split_Join [OF ne, of "CHR ''/''"] A u by simp
  then have A': "A = Split (Join R ''/'') CHR ''/'' @ Split u CHR ''/''" by (simp add: Split_append_sep)
  show ?thesis
  proof (cases "R = []")
    case True
    then show ?thesis by simp
  next
    case False
    then show ?thesis using A' Split_Join [OF False, of "CHR ''/''"] R by auto
  qed
qed

lemma underAllowedRoot_contained:
  assumes "underAllowedRoot p roots" "HasPrefix p ''/''"
  shows "\<exists>root \<in> set roots. HasPrefix root ''/'' \<and> (\<exists>t. resolve [] p = resolve [] root @ t)"
proof -
  from assms(1) obtain root where root: "root \<in> set roots"
    "PathClean p = PathClean root \<or> HasPrefix (PathClean p) (PathClean root @ ''/'')"
    by (auto simp: underAllowedRoot_def Let_def list_ex_iff)
  have pc: "PathClean p = ''/'' @ Join (resolve [] p) ''/''" using PathClean_rooted [OF assms(2)] .
  have rooted: "HasPrefix root ''/''"
  proof (rule ccontr)
    assume n: "\<not> HasPrefix root ''/''"
    let ?R = "clean_segs False [] (Split root CHR ''/'')"
    have seg: "x \<noteq> [] \<and> CHR ''/'' \<notin> set x" if "x \<in> set ?R" for x
      using clean_set [OF that] Split_no_sep by auto
    have "PathClean root = (if Join ?R ''/'' = [] then ''.'' else Join ?R ''/'')" using n by (simp add: PathClean_def Let_def)
    moreover have "hd (Join ?R ''/'') \<noteq> CHR ''/''" if "?R \<noteq> []"
      using hd_Join [OF that, of "''/''"] seg [of "hd ?R"] that by (metis hd_in_set)
    moreover have "Join ?R ''/'' = [] \<longleftrightarrow> ?R = []" using seg by (simp add: Join_empty_iff)
    ultimately have "PathClean root \<noteq> [] \<and> hd (PathClean root) \<noteq> CHR ''/''" by auto
    then obtain c cs where "PathClean root = c # cs" "c \<noteq> CHR ''/''" by (cases "PathClean root") auto
    then show False using root(2) pc by (auto simp: HasPrefix_def)
  qed
  have "\<exists>t. resolve [] p = resolve [] root @ t"
    by (rule Join_segments_prefix)
      (use root(2) pc PathClean_rooted [OF rooted] resolve_root_segments in \<open>auto simp: HasPrefix_def\<close>)
  with root(1) rooted show ?thesis by blast
qed

section \<open>Projects without errors\<close>

lemma HasErrors_simps [simp]:
  "HasErrors [] = False" "HasErrors (fs @ gs) = (HasErrors fs \<or> HasErrors gs)"
  "HasErrors (errf c s p # fs)" "HasErrors (warnf c s p # fs) = HasErrors fs"
  "HasErrors (concat (map f xs)) = (\<exists>x \<in> set xs. HasErrors (f x))"
  by (auto simp: HasErrors_def errf_def warnf_def list_ex_iff)

text \<open>What a service may do to the host under a policy.\<close>

definition stays_inside :: "string \<Rightarrow> bool" where
  "stays_inside rel \<longleftrightarrow> \<not> HasPrefix rel ''/'' \<and> (\<forall>base. \<exists>t. resolve base rel = base @ t)"

definition bind_allowed :: "Policy \<Rightarrow> string \<Rightarrow> bool" where
  "bind_allowed policy src \<longleftrightarrow>
     (if HasPrefix src ''/''
      then \<exists>root \<in> set (AllowedBindRoots policy). \<exists>t. resolve [] src = resolve [] root @ t
      else stays_inside src)"

definition isolated :: "Policy \<Rightarrow> ServiceConfig \<Rightarrow> bool" where
  "isolated policy svc \<longleftrightarrow>
     (s_Privileged svc \<longrightarrow> AllowPrivileged policy) \<and>
     set (s_CapAdd svc) \<subseteq> set defaultCapAllowlist \<union> set (ExtraCapAdd policy) \<and>
     (s_Devices svc \<noteq> [] \<longrightarrow> AllowDevices policy) \<and>
     (AllowSecurityOpt policy \<or> set (s_SecurityOpt svc) \<subseteq> {''no-new-privileges:true'', ''no-new-privileges''}) \<and>
     s_NetworkMode svc \<noteq> ''host'' \<and>
     ''host'' \<notin> {s_Pid svc, s_Ipc svc, s_UserNSMode svc, s_Cgroup svc} \<and> s_CgroupParent svc = [] \<and>
     (\<forall>vol \<in> set (s_Volumes svc). v_Type vol = ''bind'' \<and> v_Source vol \<noteq> [] \<longrightarrow> bind_allowed policy (v_Source vol)) \<and>
     list_all stays_inside (s_EnvFiles svc) \<and>
     (\<forall>ctx. s_Build svc = Some ctx \<longrightarrow> stays_inside ctx) \<and>
     (\<forall>file. s_Extends svc = Some file \<longrightarrow> file = [] \<or> stays_inside file) \<and>
     (\<forall>(key, _) \<in> set (s_Labels svc). \<not> HasPrefix (ToLower key) ''akerdock.'')"

lemma stays_insideI: "\<not> HasPrefix rel ''/'' \<Longrightarrow> \<not> escapesBase rel \<Longrightarrow> stays_inside rel"
  unfolding stays_inside_def using not_escapes_contained by blast

lemma validateRejected_ok:
  assumes "\<not> HasErrors (validateRejected name p svc)"
  shows "s_NetworkMode svc \<noteq> ''host'' \<and> ''host'' \<notin> {s_Pid svc, s_Ipc svc, s_UserNSMode svc, s_Cgroup svc} \<and>
    s_CgroupParent svc = []"
  using assms by (auto simp: validateRejected_def split: if_splits)

lemma validatePolicy_ok:
  assumes "\<not> HasErrors (validatePolicy name p svc policy)"
  shows "s_Privileged svc \<longrightarrow> AllowPrivileged policy"
    "set (s_CapAdd svc) \<subseteq> set defaultCapAllowlist \<union> set (ExtraCapAdd policy)"
    "s_Devices svc \<noteq> [] \<longrightarrow> AllowDevices policy"
    "AllowSecurityOpt policy \<or> set (s_SecurityOpt svc) \<subseteq> {''no-new-privileges:true'', ''no-new-privileges''}"
  using assms by (auto simp: validatePolicy_def split: if_splits)

lemma validateMounts_ok:
  assumes "\<not> HasErrors (validateMounts name p svc policy)"
  shows "vol \<in> set (s_Volumes svc) \<Longrightarrow> v_Type vol = ''bind'' \<Longrightarrow> v_Source vol \<noteq> [] \<Longrightarrow>
      bind_allowed policy (v_Source vol)"
    "list_all stays_inside (s_EnvFiles svc)" "s_Build svc = Some ctx \<Longrightarrow> stays_inside ctx"
    "s_Extends svc = Some file \<Longrightarrow> file = [] \<or> stays_inside file"
proof -
  show "bind_allowed policy (v_Source vol)"
    if vol: "vol \<in> set (s_Volumes svc)" "v_Type vol = ''bind''" "v_Source vol \<noteq> []"
  proof (cases "HasPrefix (v_Source vol) ''/''")
    case True
    then have "underAllowedRoot (v_Source vol) (AllowedBindRoots policy)"
      using assms vol by (auto simp: validateMounts_def split: if_splits)
    then show ?thesis using underAllowedRoot_contained [OF _ True] True by (auto simp: bind_allowed_def)
  next
    case False
    then have "\<not> escapesBase (v_Source vol)" using assms vol by (auto simp: validateMounts_def split: if_splits)
    then show ?thesis using False stays_insideI by (simp add: bind_allowed_def)
  qed
  show "list_all stays_inside (s_EnvFiles svc)"
    using assms by (auto simp: validateMounts_def list_all_iff intro: stays_insideI split: if_splits)
  show "s_Build svc = Some ctx \<Longrightarrow> stays_inside ctx"
    using assms by (auto simp: validateMounts_def intro: stays_insideI split: if_splits)
  show "s_Extends svc = Some file \<Longrightarrow> file = [] \<or> stays_inside file"
    using assms by (auto simp: validateMounts_def intro: stays_insideI split: if_splits)
qed

lemma validateLabels_ok:
  "\<not> HasErrors (validateLabels name p svc) \<Longrightarrow> \<forall>(key, _) \<in> set (s_Labels svc). \<not> HasPrefix (ToLower key) ''akerdock.''"
  by (auto simp: validateLabels_def split: if_splits)

lemma validate_services_ok:
  assumes "\<not> HasErrors (validate project policy)" "(name, svc) \<in> set (pj_Services project)"
  shows "serviceNamePattern name \<and> isolated policy svc"
proof -
  let ?p = "''services.'' @ name"
  have e: "\<not> HasErrors (validate_service policy (name, svc))" using assms by (auto simp: validate_def)
  then have "\<not> HasErrors (validateRejected name ?p svc)" "\<not> HasErrors (validatePolicy name ?p svc policy)"
    "\<not> HasErrors (validateLabels name ?p svc)" "\<not> HasErrors (validateMounts name ?p svc policy)"
    "serviceNamePattern name"
    unfolding validate_service_def by (auto simp: Let_def split: if_splits)
  note parts = validateRejected_ok [OF this(1)] validatePolicy_ok [OF this(2)] validateLabels_ok [OF this(3)]
    validateMounts_ok [OF this(4)] this(5)
  then show ?thesis unfolding isolated_def by blast
qed

definition wf_project :: "Project \<Rightarrow> bool" where
  "wf_project project \<longleftrightarrow> distinct (map fst (pj_Services project)) \<and>
     (\<forall>(n, svc) \<in> set (pj_Services project). distinct (map fst (s_DependsOn svc)))"

lemma gnames_dep_graph [simp]: "gnames (dep_graph project) = map fst (pj_Services project)"
  by (simp add: gnames_def dep_graph_def case_prod_beta comp_def)

lemma raw_deps_dep_graph:
  "raw_deps (dep_graph project) n =
     (case map_of (pj_Services project) n of None \<Rightarrow> [] | Some svc \<Rightarrow> map fst (s_DependsOn svc))"
proof -
  have "map_of (map (\<lambda>(n, svc). (n, map fst (s_DependsOn svc))) xs) n =
      map_option (\<lambda>svc. map fst (s_DependsOn svc)) (map_of xs n)" for xs :: "(string \<times> ServiceConfig) list"
    by (induction xs) auto
  then show ?thesis by (simp add: raw_deps_def dep_graph_def split: option.splits)
qed

lemma wf_dep_graph: "wf_project project \<Longrightarrow> wf_graph (dep_graph project)"
  unfolding wf_graph_def wf_project_def
  by (auto simp: raw_deps_dep_graph dest!: map_of_SomeD split: option.splits)

lemma validated_order:
  assumes ok: "\<not> HasErrors (validate project policy)" and wf: "wf_project project"
  shows "snd (topologicalOrder (dep_graph project))"
  using wf_dep_graph [OF wf]
proof (cases rule: findCycle_correct)
  case 1
  then show ?thesis using topologicalOrder_correct [OF wf_dep_graph [OF wf]] by (auto split: if_splits)
next
  case (2 c)
  then obtain x xs where "c = x # xs" by (cases c) (auto simp: is_cycle_def)
  then show ?thesis using 2(1) ok by (simp add: validate_def validateDependencies_def)
qed

section \<open>Properties\<close>

text \<open>C24: The containment checks mean what they promise.  A relative path that \<^verbatim>\<open>escapesBase\<close> lets
  through leads, from any directory, into that directory; an absolute path that
  \<^verbatim>\<open>underAllowedRoot\<close> lets through lies, segment by segment, below one of the allowed roots, so that
  neither dot-dot sequences nor a sibling with a common name prefix get through.\<close>

theorem path_checks_sound:
  "(HasPrefix rel ''/'' \<or> escapesBase rel \<or> (\<exists>t. resolve base rel = base @ t \<and> ''..'' \<notin> set t)) \<and>
   (HasPrefix p ''/'' \<and> underAllowedRoot p roots \<longrightarrow>
      (\<exists>root \<in> set roots. HasPrefix root ''/'' \<and> (\<exists>t. resolve [] p = resolve [] root @ t)))"
  using not_escapes_contained underAllowedRoot_contained by blast

theorem path_checks_sound_witness:
  "underAllowedRoot ''/srv/../data/x'' [''/data/''] \<and>
   (\<exists>root. root = ''/data/'' \<and> (\<exists>t. resolve [] ''/srv/../data/x'' = resolve [] root @ t)) \<and>
   \<not> underAllowedRoot ''/database'' [''/data'']"
proof -
  have u: "underAllowedRoot ''/srv/../data/x'' [''/data/'']" "HasPrefix ''/srv/../data/x'' ''/''"
    "\<not> underAllowedRoot ''/database'' [''/data'']"
    by code_simp+
  with path_checks_sound [of "[]" "[]" "''/srv/../data/x''" "[''/data/'']"] show ?thesis by simp
qed

text \<open>C25: A validated stack stays in its cage.  In a project that validates without errors, every service has a
  well-formed name and every privilege it asks for is granted by the server policy: no privileged mode,
  capability, device or security option beyond it, no host network and no host namespace, no bind mount
  outside the stack directory and the allowed roots, no environment file, build context or extended file
  outside the source, and no label in the reserved namespace.\<close>

theorem validated_isolated:
  assumes "\<not> HasErrors (validate project policy)" "(name, svc) \<in> set (pj_Services project)"
  shows "serviceNamePattern name \<and> isolated policy svc"
  using validate_services_ok [OF assms] .

definition plain_service :: ServiceConfig where
  "plain_service = \<lparr>s_Image = ''nginx'', s_Build = None, s_Extends = None, s_EnvFiles = [''./.env''],
     s_Volumes = [\<lparr>v_Type = ''bind'', v_Source = ''./conf'', v_Target = ''/etc/nginx'', v_ReadOnly = True, v_Extensions = []\<rparr>],
     s_Labels = [], s_DependsOn = [], s_HealthCheck = None, s_Restart = [], s_Deploy = None, s_Scale = None,
     s_ExternalLinks = [], s_NetworkMode = [], s_Pid = [], s_Ipc = [], s_UserNSMode = [], s_Cgroup = [],
     s_CgroupParent = [], s_CredentialSpec = False, s_Isolation = [], s_Privileged = False, s_CapAdd = [''CHOWN''],
     s_Devices = [], s_SecurityOpt = [], s_Sysctls = [], s_MemLimit = 0, s_MemReservation = 0, s_MemSwapLimit = 0,
     s_CPUS = 0, s_CPUShares = 0, s_CPUSet = [], s_Networks = [], s_Ports = [], s_Expose = [''80''], s_Extensions = []\<rparr>"

definition plain_project :: Project where
  "plain_project = \<lparr>pj_Services = [(''web'', plain_service\<lparr>s_DependsOn := [(''db'', ''service_started'')]\<rparr>), (''db'', plain_service)],
     pj_Networks = [], pj_Volumes = [], pj_Configs = [], pj_Secrets = []\<rparr>"

definition strict_policy :: Policy where
  "strict_policy = \<lparr>AllowPrivileged = False, AllowDevices = False, AllowSecurityOpt = False,
     AllowExternalObjects = False, ExtraCapAdd = [], AllowedBindRoots = []\<rparr>"

lemma plain_project_ok: "\<not> HasErrors (validate plain_project strict_policy)"
  by code_simp

theorem validated_isolated_witness:
  "\<not> HasErrors (validate plain_project strict_policy) \<and> isolated strict_policy plain_service"
proof -
  have "(''db'', plain_service) \<in> set (pj_Services plain_project)" by (simp add: plain_project_def)
  from validated_isolated [OF plain_project_ok this] plain_project_ok show ?thesis by simp
qed

text \<open>Validation protects the planner.  When a project validates without errors, every declared dependency is a
  service of the file and the services can be ordered: \<^verbatim>\<open>topologicalOrder\<close> succeeds.\<close>

theorem validated_orderable:
  assumes ok: "\<not> HasErrors (validate project policy)" and wf: "wf_project project"
  shows "snd (topologicalOrder (dep_graph project)) \<and>
         (\<forall>(name, svc) \<in> set (pj_Services project). fst ` set (s_DependsOn svc) \<subseteq> set (map fst (pj_Services project)))"
proof
  have deps: "\<not> HasErrors (validateDependencies project)" using ok by (simp add: validate_def)
  show "snd (topologicalOrder (dep_graph project))" using validated_order [OF ok wf] .
  have "dep \<in> set (map fst (pj_Services project))"
    if "(name, svc) \<in> set (pj_Services project)" "(dep, condition) \<in> set (s_DependsOn svc)" for name svc dep condition
  proof -
    have "\<not> HasErrors (validate_dep project name (''services.'' @ name @ ''.depends_on'') (dep, condition))"
      using deps that by (fastforce simp: validateDependencies_def)
    then have "map_of (pj_Services project) dep \<noteq> None"
      by (cases "map_of (pj_Services project) dep") (simp_all add: validate_dep_def)
    then show ?thesis by (simp add: map_of_eq_None_iff)
  qed
  then show "\<forall>(name, svc) \<in> set (pj_Services project). fst ` set (s_DependsOn svc) \<subseteq> set (map fst (pj_Services project))"
    by auto
qed

end
