(* ===== verification/ComposePlan.thy ===== *)
theory ComposePlan
  imports ComposePolicy
begin

text \<open>
  The transformation of a validated Compose project into an execution plan
  (\<^verbatim>\<open>src/internal/compose/transform.go\<close>): names of containers, networks and volumes, mounts, start
  order, health and limit flags.  The canonical YAML form of \<^verbatim>\<open>compose-go\<close> is a parameter.
\<close>

section \<open>The plan\<close>

record Dependency =
  dp_Service :: string
  dp_Condition :: string

record MountPlan =
  m_Type :: string
  m_Source :: string
  m_Target :: string
  m_ReadOnly :: bool
  m_Ext :: "VolumeExtensions option"

record HealthFlags =
  hf_Test :: "string list"
  hf_Interval :: int
  hf_Timeout :: int
  hf_StartPeriod :: int
  hf_StartInterval :: int
  hf_Retries :: nat
  hf_Disable :: bool

record LimitFlags =
  l_Memory :: int
  l_MemoryReservation :: int
  l_MemorySwap :: int
  l_CPUs :: rat
  l_CPUShares :: int
  l_CPUSet :: string
  l_Pids :: int

record ServicePlan =
  sp_Name :: string
  sp_ContainerName :: string
  sp_CandidateName :: string
  sp_Aliases :: "string list"
  sp_ExtraNetworks :: "string list"
  sp_Image :: string
  sp_Build :: bool
  sp_BuildImage :: string
  sp_Mounts :: "MountPlan list"
  sp_DependsOn :: "Dependency list"
  sp_Restart :: string
  sp_OneShot :: bool
  sp_PreCommand :: string
  sp_PostCommand :: string
  sp_AccessPublicRoutes :: "Route list"
  sp_ExcludeFromHC :: bool
  sp_ZeroDowntimeOptOut :: bool
  sp_HasHostPorts :: bool
  sp_DefaultRoutePort :: int
  sp_Health :: "HealthFlags option"
  sp_Limits :: LimitFlags
  sp_IsDatabase :: bool
  sp_DatabaseEngine :: string
  sp_Service :: ServiceConfig

record Plan =
  pl_StackUUID :: string
  pl_NetworkName :: string
  pl_ExtraNetworks :: "(string \<times> string) list"
  pl_Volumes :: "(string \<times> string) list"
  pl_SeedVolumes :: "(string \<times> string) list"
  pl_ExternalVolumes :: "(string \<times> string) list"
  pl_Services :: "ServicePlan list"
  pl_Canonical :: string

section \<open>Flags\<close>

definition healthFlags :: "HealthCheckConfig option \<Rightarrow> HealthFlags option" where
  "healthFlags hc = map_option (\<lambda>h.
     \<lparr>hf_Test = hc_Test h,
      hf_Interval = (case hc_Interval h of None \<Rightarrow> 30 * second | Some d \<Rightarrow> d),
      hf_Timeout = (case hc_Timeout h of None \<Rightarrow> 30 * second | Some d \<Rightarrow> d),
      hf_StartPeriod = (case hc_StartPeriod h of None \<Rightarrow> 0 | Some d \<Rightarrow> d),
      hf_StartInterval = (case hc_StartInterval h of None \<Rightarrow> 5 * second | Some d \<Rightarrow> d),
      hf_Retries = (case hc_Retries h of None \<Rightarrow> 3 | Some n \<Rightarrow> n),
      hf_Disable = hc_Disable h\<rparr>) hc"

definition limitFlags :: "ServiceConfig \<Rightarrow> LimitFlags" where
  "limitFlags svc =
     (let out = \<lparr>l_Memory = s_MemLimit svc, l_MemoryReservation = s_MemReservation svc,
                 l_MemorySwap = s_MemSwapLimit svc, l_CPUs = s_CPUS svc, l_CPUShares = s_CPUShares svc,
                 l_CPUSet = s_CPUSet svc, l_Pids = 0\<rparr> in
      case s_Deploy svc of
        None \<Rightarrow> out
      | Some d \<Rightarrow>
          let out1 = (case d_Limits d of
                None \<Rightarrow> out
              | Some limits \<Rightarrow>
                  out\<lparr>l_Memory := (if rs_MemoryBytes limits \<noteq> 0 then rs_MemoryBytes limits else l_Memory out),
                      l_CPUs := (if rs_NanoCPUs limits \<noteq> 0 then rs_NanoCPUs limits else l_CPUs out),
                      l_Pids := (if rs_Pids limits \<noteq> 0 then rs_Pids limits else l_Pids out)\<rparr>)
          in (case d_Reservations d of
                None \<Rightarrow> out1
              | Some res \<Rightarrow> if rs_MemoryBytes res \<noteq> 0 then out1\<lparr>l_MemoryReservation := rs_MemoryBytes res\<rparr> else out1))"

definition databaseImages :: "(string \<times> string) list" where
  "databaseImages =
     [(''postgres'', ''postgresql''), (''postgresql'', ''postgresql''), (''pgvector'', ''postgresql''),
      (''mysql'', ''mysql''), (''percona'', ''mysql''), (''percona-server'', ''mysql''),
      (''mariadb'', ''mariadb''),
      (''mongo'', ''mongodb''), (''mongodb'', ''mongodb''), (''mongodb-community-server'', ''mongodb'')]"

definition detectDatabase :: "string \<Rightarrow> bool \<times> string" where
  "detectDatabase img =
     (if img = [] then (False, [])
      else
        let base = (case CutLast img CHR ''/'' of None \<Rightarrow> img | Some (_, b) \<Rightarrow> b);
            name = takeWhile (\<lambda>c. c \<noteq> CHR '':'' \<and> c \<noteq> CHR ''@'') base
        in (case map_of databaseImages (ToLower name) of None \<Rightarrow> (False, []) | Some engine \<Rightarrow> (True, engine)))"

text \<open>\<^verbatim>\<open>fmt.Sscanf(s, "%d", &port)\<close>: an optional sign and the leading digits; zero stays when they are
  missing or do not fit 64 bits.\<close>

definition scan_port :: "string \<Rightarrow> int" where
  "scan_port s =
     (let t = dropWhile is_space s;
          (neg, u) = (case t of c # cs \<Rightarrow> if c = CHR ''-'' then (True, cs) else if c = CHR ''+'' then (False, cs) else (False, t)
                      | [] \<Rightarrow> (False, []));
          ds = takeWhile is_digit u;
          n = (if neg then - digits_value ds else digits_value ds)
      in if ds = [] \<or> n < - (2 ^ 63) \<or> n \<ge> 2 ^ 63 then 0 else n)"

section \<open>Building\<close>

definition network_entry :: "string \<Rightarrow> bool \<Rightarrow> string \<times> bool \<Rightarrow> (string \<times> string) list" where
  "network_entry uuid raw = (\<lambda>(name, external).
     if name = ''default'' \<or> external then []
     else [(if raw then name else uuid @ ''_'' @ name, name)])"

record volume_entry =
  ve_volumes :: "(string \<times> string) list"
  ve_seeds :: "(string \<times> string) list"
  ve_external :: "(string \<times> string) list"
  ve_findings :: "Finding list"

definition volume_plan :: "string \<Rightarrow> bool \<Rightarrow> string \<times> VolumeConfig \<Rightarrow> volume_entry" where
  "volume_plan uuid raw = (\<lambda>(name, vol).
     let declared = (case extensionMap (vc_Extensions vol) of
                       None \<Rightarrow> None | Some m \<Rightarrow> map_of m ''preview_seed'');
         seed = (case as_str declared of Some s \<Rightarrow> s | None \<Rightarrow> []);
         bad = [errf CodePreviewSeedInvalid [] (''volumes.'' @ name @ ''.x-akerdock.preview_seed'')];
         dockerName = (if raw then name else uuid @ ''_'' @ name)
     in if vc_External vol
        then \<lparr>ve_volumes = [], ve_seeds = [],
              ve_external = [(name, if vc_Name vol = [] then name else vc_Name vol)],
              ve_findings = (if declared \<noteq> None then bad else [])\<rparr>
        else \<lparr>ve_volumes = [(name, dockerName)],
              ve_seeds = (if declared \<noteq> None \<and> seed = ''clone'' \<and> \<not> raw then [(dockerName, name)] else []),
              ve_external = [],
              ve_findings = (if declared \<noteq> None \<and> (seed \<noteq> ''clone'' \<or> raw) then bad else [])\<rparr>)"

definition mount_plan :: "Plan \<Rightarrow> string \<Rightarrow> string \<Rightarrow> nat \<times> ServiceVolumeConfig \<Rightarrow> MountPlan" where
  "mount_plan plan name p = (\<lambda>(i, vol).
     \<lparr>m_Type = v_Type vol,
      m_Source =
        (if v_Type vol = ''volume'' \<and> v_Source vol \<noteq> []
         then (case map_of (pl_Volumes plan) (v_Source vol) of
                 Some d \<Rightarrow> d
               | None \<Rightarrow> (case map_of (pl_ExternalVolumes plan) (v_Source vol) of Some d \<Rightarrow> d | None \<Rightarrow> v_Source vol))
         else v_Source vol),
      m_Target = v_Target vol, m_ReadOnly = v_ReadOnly vol,
      m_Ext = fst (volumeExtensions name (p @ ''.volumes['' @ show_nat i @ '']'') vol)\<rparr>)"

definition service_networks :: "Plan \<Rightarrow> ServiceConfig \<Rightarrow> string list" where
  "service_networks plan svc =
     sort (concat (map (\<lambda>net. if net = ''default'' then []
                              else map fst (filter (\<lambda>(_, declared). declared = net) (pl_ExtraNetworks plan)))
           (s_Networks svc)))"

definition buildServicePlan :: "string \<Rightarrow> ServiceConfig \<Rightarrow> string \<Rightarrow> bool \<Rightarrow> Plan \<Rightarrow> ServicePlan \<times> Finding list" where
  "buildServicePlan name svc uuid raw plan =
     (let p = ''services.'' @ name;
          ext = fst (serviceExtensions name (p @ ''.x-akerdock'') svc);
          oneShot = (s_Restart svc = ''no'');
          db = detectDatabase (s_Image svc)
      in (\<lparr>sp_Name = name, sp_ContainerName = uuid @ ''-'' @ name, sp_CandidateName = uuid @ ''-'' @ name @ ''-next'',
           sp_Aliases = [name, uuid @ ''-'' @ name],
           sp_ExtraNetworks = service_networks plan svc,
           sp_Image = s_Image svc, sp_Build = (s_Build svc \<noteq> None),
           sp_BuildImage = (if s_Build svc \<noteq> None then ''akerdock/'' @ uuid @ ''-'' @ name else []),
           sp_Mounts = map (mount_plan plan name p) (enumerate 0 (s_Volumes svc)),
           sp_DependsOn = map (\<lambda>(d, c). \<lparr>dp_Service = d, dp_Condition = c\<rparr>) (sort_key fst (s_DependsOn svc)),
           sp_Restart = (if s_Restart svc = [] \<and> \<not> raw then ''unless-stopped'' else s_Restart svc),
           sp_OneShot = oneShot,
           sp_PreCommand = e_PreDeploymentCommand ext, sp_PostCommand = e_PostDeploymentCommand ext,
           sp_AccessPublicRoutes = e_AccessPublicRoutes ext, sp_ExcludeFromHC = e_ExcludeFromHC ext,
           sp_ZeroDowntimeOptOut = (e_ZeroDowntime ext = Some False),
           sp_HasHostPorts = (s_Ports svc \<noteq> []),
           sp_DefaultRoutePort = (case s_Expose svc of [] \<Rightarrow> 0 | e # _ \<Rightarrow> scan_port e),
           sp_Health = healthFlags (s_HealthCheck svc), sp_Limits = limitFlags svc,
           sp_IsDatabase = fst db, sp_DatabaseEngine = snd db, sp_Service = svc\<rparr>,
          if oneShot \<and> \<not> e_ExcludeFromHC ext then [warnf CodeOneshotWithoutExclude name (p @ ''.restart'')] else []))"

datatype plan_error = CycleSurvived | CanonicalForm

definition plan_header :: "Project \<Rightarrow> string \<Rightarrow> bool \<Rightarrow> Plan" where
  "plan_header project uuid raw =
     (let vols = map (volume_plan uuid raw) (pj_Volumes project) in
      \<lparr>pl_StackUUID = uuid, pl_NetworkName = uuid,
       pl_ExtraNetworks = concat (map (network_entry uuid raw) (pj_Networks project)),
       pl_Volumes = concat (map ve_volumes vols), pl_SeedVolumes = concat (map ve_seeds vols),
       pl_ExternalVolumes = concat (map ve_external vols), pl_Services = [], pl_Canonical = []\<rparr>)"

definition buildPlan ::
  "(Project \<Rightarrow> string option) \<Rightarrow> Project \<Rightarrow> string \<Rightarrow> bool \<Rightarrow> (plan_error, Plan \<times> Finding list) result" where
  "buildPlan marshalYAML project uuid raw =
     (let plan = plan_header project uuid raw;
          fs = concat (map (ve_findings \<circ> volume_plan uuid raw) (pj_Volumes project));
          (order, ok) = topologicalOrder (dep_graph project)
      in if \<not> ok then Inl CycleSurvived
         else
           let sps = map (\<lambda>name. buildServicePlan name (the (map_of (pj_Services project) name)) uuid raw plan) order
           in (case marshalYAML project of
                 None \<Rightarrow> Inl CanonicalForm
               | Some canonical \<Rightarrow>
                   Inr (plan\<lparr>pl_Services := map fst sps, pl_Canonical := canonical\<rparr>, fs @ concat (map snd sps))))"

section \<open>Properties\<close>

lemma buildPlan_InrE:
  assumes "buildPlan my project uuid raw = Inr (plan, fs)"
  obtains canonical where "my project = Some canonical" "snd (topologicalOrder (dep_graph project))"
    "plan = (plan_header project uuid raw)\<lparr>
       pl_Services := map (\<lambda>name. fst (buildServicePlan name (the (map_of (pj_Services project) name)) uuid raw
                                    (plan_header project uuid raw))) (fst (topologicalOrder (dep_graph project))),
       pl_Canonical := canonical\<rparr>"
  using assms by (auto simp: buildPlan_def Let_def comp_def split: prod.splits if_splits option.splits)

lemma orderable_planned:
  "snd (topologicalOrder (dep_graph project)) \<Longrightarrow> my project = Some canonical \<Longrightarrow>
   \<exists>plan fs. buildPlan my project uuid raw = Inr (plan, fs) \<and> pl_Canonical plan = canonical"
  by (auto simp: buildPlan_def Let_def split: prod.splits)

lemma buildServicePlan_names:
  "sp_Name (fst (buildServicePlan n svc uuid raw plan)) = n"
  "sp_ContainerName (fst (buildServicePlan n svc uuid raw plan)) = uuid @ ''-'' @ n"
  "sp_Mounts (fst (buildServicePlan n svc uuid raw plan)) =
     map (mount_plan plan n (''services.'' @ n)) (enumerate 0 (s_Volumes svc))"
  "sp_CandidateName (fst (buildServicePlan n svc uuid raw plan)) = uuid @ ''-'' @ n @ ''-next''"
  by (simp_all add: buildServicePlan_def Let_def)

text \<open>A volume declared in the file is mounted under one docker name by every service.\<close>

lemma plan_volumes_lookup:
  "map_of (pl_Volumes (plan_header project uuid raw)) v =
     (case map_of (pj_Volumes project) v of
        None \<Rightarrow> None
      | Some vol \<Rightarrow> if vc_External vol then None else Some (if raw then v else uuid @ ''_'' @ v))"
  if "distinct (map fst (pj_Volumes project))"
proof -
  have "map_of (concat (map (\<lambda>x. ve_volumes (volume_plan uuid raw x)) vs)) v =
     (case map_of vs v of None \<Rightarrow> None
      | Some vol \<Rightarrow> if vc_External vol then None else Some (if raw then v else uuid @ ''_'' @ v))"
    if "distinct (map fst vs)" for vs
    using that
  proof (induction vs)
    case (Cons x vs)
    obtain n vol where x: "x = (n, vol)" by (cases x)
    have n: "map_of vs n = None" using Cons.prems x by (simp add: map_of_eq_None_iff)
    have e: "ve_volumes (volume_plan uuid raw x) = (if vc_External vol then [] else [(n, if raw then n else uuid @ ''_'' @ n)])"
      by (simp add: x volume_plan_def Let_def)
    have IH: "map_of (concat (map (\<lambda>x. ve_volumes (volume_plan uuid raw x)) vs)) v =
       (case map_of vs v of None \<Rightarrow> None
        | Some vol \<Rightarrow> if vc_External vol then None else Some (if raw then v else uuid @ ''_'' @ v))"
      using Cons by simp
    have "map_of (concat (map (\<lambda>x. ve_volumes (volume_plan uuid raw x)) (x # vs))) v =
       (if v = n \<and> \<not> vc_External vol then Some (if raw then n else uuid @ ''_'' @ n)
        else map_of (concat (map (\<lambda>x. ve_volumes (volume_plan uuid raw x)) vs)) v)"
      unfolding list.map concat.simps e by simp
    then show ?case unfolding IH using n by (simp add: x)
  qed simp
  then show ?thesis using that by (simp add: plan_header_def Let_def comp_def)
qed

text \<open>C27: The plan of a stack is well formed.  It has exactly one entry per service, listed so that every service
  comes after those it depends on; the containers get pairwise distinct names, all prefixed by the stack's
  identifier; and a named volume of the file is mounted by every service under the same docker name,
  prefixed by the stack's identifier unless the raw mode is asked for.\<close>

theorem plan_well_formed:
  assumes wf: "wf_project project" "distinct (map fst (pj_Volumes project))"
    and plan: "buildPlan my project uuid raw = Inr (plan, fs)"
  shows "distinct (map sp_Name (pl_Services plan)) \<and>
         set (map sp_Name (pl_Services plan)) = set (map fst (pj_Services project)) \<and>
         deps_first (dep_graph project) (map sp_Name (pl_Services plan)) \<and>
         map sp_ContainerName (pl_Services plan) = map (\<lambda>sp. uuid @ ''-'' @ sp_Name sp) (pl_Services plan) \<and>
         distinct (map sp_ContainerName (pl_Services plan)) \<and>
         (\<forall>sp \<in> set (pl_Services plan). \<forall>(vol, m) \<in> set (zip (s_Volumes (the (map_of (pj_Services project) (sp_Name sp)))) (sp_Mounts sp)).
            v_Type vol = ''volume'' \<and> v_Source vol \<noteq> [] \<and>
            (\<exists>vc. map_of (pj_Volumes project) (v_Source vol) = Some vc \<and> \<not> vc_External vc) \<longrightarrow>
            m_Source m = (if raw then v_Source vol else uuid @ ''_'' @ v_Source vol))"
  using plan
proof (rule buildPlan_InrE)
  fix canonical
  assume ok: "snd (topologicalOrder (dep_graph project))"
    and p: "plan = (plan_header project uuid raw)\<lparr>
       pl_Services := map (\<lambda>name. fst (buildServicePlan name (the (map_of (pj_Services project) name)) uuid raw
                                    (plan_header project uuid raw))) (fst (topologicalOrder (dep_graph project))),
       pl_Canonical := canonical\<rparr>"
  define order where "order = fst (topologicalOrder (dep_graph project))"
  have names: "map sp_Name (pl_Services plan) = order" by (simp add: p order_def comp_def buildServicePlan_names)
  have so: "start_order (dep_graph project) order"
    using topologicalOrder_correct [OF wf_dep_graph [OF wf(1)]] ok by (simp add: order_def)
  have cn: "map sp_ContainerName (pl_Services plan) = map (\<lambda>sp. uuid @ ''-'' @ sp_Name sp) (pl_Services plan)"
    by (simp add: p comp_def buildServicePlan_names)
  also have "\<dots> = map (\<lambda>n. uuid @ ''-'' @ n) (map sp_Name (pl_Services plan))" by simp
  also have "\<dots> = map (\<lambda>n. uuid @ ''-'' @ n) order" unfolding names ..
  finally have dist: "distinct (map sp_ContainerName (pl_Services plan))"
    using so by (simp add: start_order_def distinct_map inj_on_def)
  have mounts: "m_Source m = (if raw then v_Source vol else uuid @ ''_'' @ v_Source vol)"
    if sp: "sp \<in> set (pl_Services plan)"
      and m: "(vol, m) \<in> set (zip (s_Volumes (the (map_of (pj_Services project) (sp_Name sp)))) (sp_Mounts sp))"
      and v: "v_Type vol = ''volume''" "v_Source vol \<noteq> []" "map_of (pj_Volumes project) (v_Source vol) = Some vc" "\<not> vc_External vc"
    for sp vol m vc
  proof -
    let ?svc = "the (map_of (pj_Services project) (sp_Name sp))"
    have "sp_Mounts sp = map (mount_plan (plan_header project uuid raw) (sp_Name sp) (''services.'' @ sp_Name sp))
        (enumerate 0 (s_Volumes ?svc))"
      using sp by (auto simp: p buildServicePlan_names)
    then obtain i where "m = mount_plan (plan_header project uuid raw) (sp_Name sp) (''services.'' @ sp_Name sp) (i, vol)"
      using m by (auto simp: in_set_zip nth_enumerate_eq)
    then show ?thesis using v plan_volumes_lookup [OF wf(2)] by (simp add: mount_plan_def)
  qed
  show ?thesis
  proof (intro conjI)
    show "distinct (map sp_Name (pl_Services plan))" "deps_first (dep_graph project) (map sp_Name (pl_Services plan))"
      "set (map sp_Name (pl_Services plan)) = set (map fst (pj_Services project))"
      unfolding names using so by (simp_all add: start_order_def)
  qed (use cn dist mounts in \<open>blast+\<close>)
qed

text \<open>A project that validates without errors can be planned: the planner fails on it only if its canonical form
  cannot be printed.\<close>

theorem validated_planned:
  assumes "\<not> HasErrors (validate project policy)" "wf_project project" "my project = Some canonical"
  shows "\<exists>plan fs. buildPlan my project uuid raw = Inr (plan, fs) \<and> pl_Canonical plan = canonical"
proof -
  from orderable_planned [of project my canonical, OF validated_order [OF assms(1,2)] assms(3)] show ?thesis .
qed

lemma plain_planned: "\<exists>plan fs. buildPlan (\<lambda>_. Some []) plain_project ''u'' False = Inr (plan, fs)"
proof -
  have "snd (topologicalOrder (dep_graph plain_project))" by code_simp
  from orderable_planned [OF this, of "\<lambda>_. Some []"] show ?thesis by blast
qed

lemma plain_wf: "wf_project plain_project" "distinct (map fst (pj_Volumes plain_project))"
  by (simp_all add: wf_project_def plain_project_def plain_service_def)

theorem plan_well_formed_witness:
  "\<exists>plan fs. buildPlan (\<lambda>_. Some []) plain_project ''u'' False = Inr (plan, fs) \<and>
     set (map sp_Name (pl_Services plan)) = {''web'', ''db''}"
proof -
  obtain plan fs where p: "buildPlan (\<lambda>_. Some []) plain_project ''u'' False = Inr (plan, fs)"
    using plain_planned by blast
  from plan_well_formed [OF plain_wf p] p show ?thesis by (auto simp: plain_project_def)
qed

definition clash_project :: Project where
  "clash_project = \<lparr>pj_Services = [(''app'', plain_service), (''app-next'', plain_service)],
     pj_Networks = [], pj_Volumes = [], pj_Configs = [], pj_Secrets = []\<rparr>"

text \<open>Container names and candidate names are not kept apart: a stack with the services \<^verbatim>\<open>app\<close> and
  \<^verbatim>\<open>app-next\<close> validates without errors, and the zero-downtime candidate of the first gets the name
  of the container of the second.\<close>

theorem candidate_name_clash:
  "\<not> HasErrors (validate clash_project strict_policy) \<and>
   (case buildPlan (\<lambda>_. Some []) clash_project ''u'' False of
      Inl _ \<Rightarrow> False
    | Inr (plan, _) \<Rightarrow> map sp_CandidateName (pl_Services plan) = [''u-app-next'', ''u-app-next-next''] \<and>
        map sp_ContainerName (pl_Services plan) = [''u-app'', ''u-app-next''])"
  by code_simp

text \<open>The plan does not depend on the iteration order of the services: a project that lists the same services
  in another order gets the same service plans, in the same order.\<close>

theorem plan_order_independent:
  assumes wf: "wf_project project" and perm: "mset ss = mset (pj_Services project)"
    and p: "buildPlan my project uuid raw = Inr (plan, fs)"
    and p': "buildPlan my (project\<lparr>pj_Services := ss\<rparr>) uuid raw = Inr (plan', fs')"
  shows "pl_Services plan' = pl_Services plan"
proof -
  let ?q = "project\<lparr>pj_Services := ss\<rparr>"
  have dist: "distinct (map fst ss)" and dset: "set ss = set (pj_Services project)"
    using wf perm by (auto simp: wf_project_def dest: mset_eq_setD)
      (metis mset_eq_imp_distinct_iff mset_map)
  then have wf': "wf_project ?q" using wf by (simp add: wf_project_def)
  have lookup: "map_of ss = map_of (pj_Services project)"
    using dist dset wf by (intro map_of_inject_set [THEN iffD2]) (auto simp: wf_project_def)
  have "same_graph (dep_graph ?q) (dep_graph project)"
    using wf_dep_graph [OF wf] wf_dep_graph [OF wf'] dset lookup
    by (simp add: same_graph_def raw_deps_dep_graph)
  then have order: "topologicalOrder (dep_graph ?q) = topologicalOrder (dep_graph project)"
    by (rule topologicalOrder_same)
  have header: "plan_header ?q uuid raw = plan_header project uuid raw" by (simp add: plan_header_def)
  have "pl_Services plan = map (\<lambda>name. fst (buildServicePlan name (the (map_of (pj_Services project) name)) uuid raw
      (plan_header project uuid raw))) (fst (topologicalOrder (dep_graph project)))"
    using p by (rule buildPlan_InrE) simp
  moreover have "pl_Services plan' = map (\<lambda>name. fst (buildServicePlan name (the (map_of (pj_Services ?q) name)) uuid raw
      (plan_header ?q uuid raw))) (fst (topologicalOrder (dep_graph ?q)))"
    using p' by (rule buildPlan_InrE) simp
  ultimately show ?thesis unfolding header order by (simp add: lookup)
qed

end
