(* ===== verification/ComposeMagic.thy ===== *)
theory ComposeMagic
  imports ComposePolicy
begin

text \<open>
  Magic variables of Compose files (\<^verbatim>\<open>src/internal/compose/magic.go\<close>): parsing of
  \<^verbatim>\<open>SERVICE_<TYPE>_<ID>\<close> names, the scan of a file for them, and the generation of credential
  values.  The random source is a parameter: its answers, or its failure.
\<close>

section \<open>Names\<close>

datatype MagicType = MagicFQDN | MagicURL | MagicUser | MagicPassword | MagicPasswordWithSymbols
  | MagicBase64 | MagicRealBase64 | MagicHex

fun type_name :: "MagicType \<Rightarrow> string" where
  "type_name MagicFQDN = ''FQDN''"
| "type_name MagicURL = ''URL''"
| "type_name MagicUser = ''USER''"
| "type_name MagicPassword = ''PASSWORD''"
| "type_name MagicPasswordWithSymbols = ''PASSWORDWITHSYMBOLS''"
| "type_name MagicBase64 = ''BASE64''"
| "type_name MagicRealBase64 = ''REALBASE64''"
| "type_name MagicHex = ''HEX''"

record MagicRef =
  mr_Name :: string
  mr_Type :: MagicType
  mr_ID :: string
  mr_Length :: int
  mr_Port :: int
  mr_Credential :: bool

definition NormalizeComponentID :: "string \<Rightarrow> string" where
  "NormalizeComponentID service = map (\<lambda>c. if is_upper c \<or> is_digit c then c else CHR ''_'') (ToUpper service)"

fun magicLengths :: "MagicType \<Rightarrow> int list" where
  "magicLengths MagicUser = [16]"
| "magicLengths MagicPassword = [32, 64]"
| "magicLengths MagicPasswordWithSymbols = [32, 64]"
| "magicLengths MagicBase64 = [32, 64, 128]"
| "magicLengths MagicRealBase64 = [32, 64, 128]"
| "magicLengths MagicHex = [32, 64, 128]"
| "magicLengths _ = []"

text \<open>The types in the order in which the parser tries their prefixes.\<close>

definition magic_types :: "MagicType list" where
  "magic_types = [MagicPasswordWithSymbols, MagicRealBase64, MagicPassword, MagicBase64, MagicFQDN, MagicURL,
     MagicUser, MagicHex]"

fun split_type :: "MagicType list \<Rightarrow> string \<Rightarrow> (MagicType \<times> string) option" where
  "split_type [] rest = None"
| "split_type (t # ts) rest =
     (if HasPrefix rest (type_name t @ ''_'') then Some (t, drop (length (type_name t) + 1) rest)
      else split_type ts rest)"

definition id_char :: "char \<Rightarrow> bool" where
  "id_char c = (is_upper c \<or> is_digit c \<or> c = CHR ''_'')"

definition parse_routed :: "string \<Rightarrow> MagicType \<Rightarrow> string \<Rightarrow> string list \<Rightarrow> (Code, MagicRef) result" where
  "parse_routed name t rest components =
     (let (i, port) =
            (if rest \<in> set components then (rest, 0)
             else case CutLast rest CHR ''_'' of
               None \<Rightarrow> (rest, 0)
             | Some (a, b) \<Rightarrow>
                 if a = [] then (rest, 0)
                 else (case Atoi b of
                         Some p \<Rightarrow> if a \<in> set components then (a, p) else (rest, 0)
                       | None \<Rightarrow> (rest, 0)))
      in if i \<notin> set components then Inl CodeMagicVariableUnknownComp
         else Inr \<lparr>mr_Name = name, mr_Type = t, mr_ID = i, mr_Length = 0, mr_Port = port, mr_Credential = False\<rparr>)"

definition parse_credential :: "string \<Rightarrow> MagicType \<Rightarrow> string \<Rightarrow> (Code, MagicRef) result" where
  "parse_credential name t rest =
     (let allowed = magicLengths t;
          explicit = (case Cut rest CHR ''_'' of
                        None \<Rightarrow> None
                      | Some (a, b) \<Rightarrow> if a = [] then None else map_option (\<lambda>n. (n, b)) (Atoi a))
      in case explicit of
           Some (n, b) \<Rightarrow> if n \<notin> set allowed then Inl CodeMagicVariableInvalidType
             else if b = [] \<or> \<not> list_all id_char b then Inl CodeMagicVariableInvalidType
             else (Inr \<lparr>mr_Name = name, mr_Type = t, mr_ID = b, mr_Length = n, mr_Port = 0, mr_Credential = True\<rparr>)
         | None \<Rightarrow>
             if rest = [] \<or> \<not> list_all id_char rest then Inl CodeMagicVariableInvalidType
             else Inr \<lparr>mr_Name = name, mr_Type = t, mr_ID = rest, mr_Length = hd allowed, mr_Port = 0, mr_Credential = True\<rparr>)"

definition ParseMagicName :: "string \<Rightarrow> string list \<Rightarrow> (Code, MagicRef) result" where
  "ParseMagicName name components =
     (let rest = TrimPrefix name ''SERVICE_'' in
      if \<not> HasPrefix name ''SERVICE_'' \<or> rest = [] then Inl CodeMagicVariableInvalidType
      else case split_type magic_types rest of
        None \<Rightarrow> Inl CodeMagicVariableInvalidType
      | Some (t, rest') \<Rightarrow>
          if t = MagicFQDN \<or> t = MagicURL then parse_routed name t rest' components
          else parse_credential name t rest')"

section \<open>The scan\<close>

text \<open>\<^verbatim>\<open>\bSERVICE_[A-Z0-9_]+\b\<close> matches whole words only: both ends are word boundaries, and every
  character of a match is a word character.\<close>

definition word_char :: "char \<Rightarrow> bool" where
  "word_char c = (is_alnum c \<or> c = CHR ''_'')"

fun word_runs :: "string \<Rightarrow> string \<Rightarrow> string list" where
  "word_runs [] w = (if w = [] then [] else [rev w])"
| "word_runs (c # cs) w =
     (if word_char c then word_runs cs (c # w)
      else (if w = [] then [] else [rev w]) @ word_runs cs [])"

definition magicName :: "string \<Rightarrow> bool" where
  "magicName w = (HasPrefix w ''SERVICE_'' \<and> length w > 8 \<and> list_all id_char (drop 8 w))"

definition ScanMagicReferences :: "string \<Rightarrow> string list \<Rightarrow> MagicRef list \<times> Code list" where
  "ScanMagicReferences content services =
     (let components = map NormalizeComponentID services;
          names = rev (remdups (rev (filter magicName (word_runs content []))));
          parsed = map (\<lambda>n. ParseMagicName n components) names
      in (sort_key mr_Name (concat (map (\<lambda>r. case r of Inr ref \<Rightarrow> [ref] | Inl _ \<Rightarrow> []) parsed)),
          concat (map (\<lambda>r. case r of Inl e \<Rightarrow> [e] | Inr _ \<Rightarrow> []) parsed)))"

section \<open>Generation\<close>

definition alphaLower :: string where
  "alphaLower = ''abcdefghijklmnopqrstuvwxyz''"

definition alphaLowerDigits :: string where
  "alphaLowerDigits = alphaLower @ ''0123456789''"

definition alphaMixedDigits :: string where
  "alphaMixedDigits = ''ABCDEFGHIJKLMNOPQRSTUVWXYZ'' @ alphaLowerDigits"

definition passwordSymbols :: string where
  "passwordSymbols = ''!@#$%^&*()-_=+[]{}<>~''"

definition alphaWithSymbols :: string where
  "alphaWithSymbols = alphaMixedDigits @ passwordSymbols"

text \<open>\<open>draw i size\<close> is the answer of \<^verbatim>\<open>rand.Int\<close> to the \<open>i\<close>-th request for an index below
  \<open>size\<close>; \<open>bytes n\<close> that of \<^verbatim>\<open>rand.Read\<close> for \<open>n\<close> bytes.\<close>

fun randomFrom :: "(nat \<Rightarrow> nat \<Rightarrow> nat option) \<Rightarrow> string \<Rightarrow> nat \<Rightarrow> nat \<Rightarrow> string option" where
  "randomFrom draw alphabet i 0 = Some []"
| "randomFrom draw alphabet i (Suc n) =
     (case draw i (length alphabet) of
        None \<Rightarrow> None
      | Some k \<Rightarrow> map_option (Cons (alphabet ! k)) (randomFrom draw alphabet (Suc i) n))"

definition hex_digit :: "nat \<Rightarrow> char" where
  "hex_digit n = ''0123456789abcdef'' ! (n mod 16)"

definition hex_encode :: "nat list \<Rightarrow> string" where
  "hex_encode bs = concat (map (\<lambda>b. [hex_digit (b div 16), hex_digit b]) bs)"

definition base64_digit :: "nat \<Rightarrow> char" where
  "base64_digit n = (''ABCDEFGHIJKLMNOPQRSTUVWXYZabcdefghijklmnopqrstuvwxyz0123456789+'' @ [CHR 0x2F]) ! (n mod 64)"

fun base64_encode :: "nat list \<Rightarrow> string" where
  "base64_encode [] = []"
| "base64_encode [a] = [base64_digit (a div 4), base64_digit (a mod 4 * 16), CHR ''='', CHR ''='']"
| "base64_encode [a, b] =
     [base64_digit (a div 4), base64_digit (a mod 4 * 16 + b div 16), base64_digit (b mod 16 * 4), CHR ''='']"
| "base64_encode (a # b # c # rest) =
     [base64_digit (a div 4), base64_digit (a mod 4 * 16 + b div 16), base64_digit (b mod 16 * 4 + c div 64),
      base64_digit c] @ base64_encode rest"

definition GenerateMagicValue ::
  "(nat \<Rightarrow> nat \<Rightarrow> nat option) \<Rightarrow> (nat \<Rightarrow> nat list option) \<Rightarrow> MagicRef \<Rightarrow> string option" where
  "GenerateMagicValue draw bytes ref =
     (let n = nat (mr_Length ref) in
      case mr_Type ref of
        MagicUser \<Rightarrow>
          (case randomFrom draw alphaLower 0 1 of
             None \<Rightarrow> None
           | Some first \<Rightarrow> map_option (\<lambda>rest. first @ rest) (randomFrom draw alphaLowerDigits 1 (n - 1)))
      | MagicPassword \<Rightarrow> randomFrom draw alphaMixedDigits 0 n
      | MagicBase64 \<Rightarrow> randomFrom draw alphaMixedDigits 0 n
      | MagicPasswordWithSymbols \<Rightarrow> randomFrom draw alphaWithSymbols 0 n
      | MagicRealBase64 \<Rightarrow> map_option base64_encode (bytes n)
      | MagicHex \<Rightarrow> map_option hex_encode (bytes (n div 2))
      | _ \<Rightarrow> None)"

section \<open>Properties\<close>

lemma randomFrom_spec:
  assumes "\<And>i k. draw i (length alphabet) = Some k \<Longrightarrow> k < length alphabet"
  shows "randomFrom draw alphabet i n = Some v \<Longrightarrow> length v = n \<and> set v \<subseteq> set alphabet"
proof (induction n arbitrary: i v)
  case (Suc n)
  then obtain k w where k: "draw i (length alphabet) = Some k" "randomFrom draw alphabet (Suc i) n = Some w" "v = alphabet ! k # w"
    by (auto split: option.splits)
  from Suc.IH [OF k(2)] assms [OF k(1)] show ?case by (simp add: k(3))
qed auto

lemma randomFrom_total:
  assumes "\<And>i. draw i (length alphabet) \<noteq> None"
  shows "\<exists>v. randomFrom draw alphabet i n = Some v"
  using assms by (induction n arbitrary: i) (auto split: option.splits)

lemma split_typeD: "split_type ts rest = Some (t, r) \<Longrightarrow> rest = type_name t @ CHR ''_'' # r \<and> t \<in> set ts"
  by (induction ts) (auto simp: HasPrefix_iff split: if_splits)

lemma parse_credential_InrD:
  assumes "parse_credential name t rest = Inr ref" "magicLengths t \<noteq> []"
  shows "mr_Name ref = name" "mr_Type ref = t" "mr_Credential ref" "mr_Length ref \<in> set (magicLengths t)"
    "mr_ID ref \<noteq> [] \<and> list_all id_char (mr_ID ref)"
  using assms
  by (auto simp: parse_credential_def Let_def dest: Cut_SomeD split: option.splits if_splits)

lemma hex_length: "length (hex_encode bs) = 2 * length bs"
  by (simp add: hex_encode_def length_concat comp_def sum_list_triv)

lemma base64_length: "length (base64_encode bs) = 4 * ((length bs + 2) div 3)"
proof (induction bs rule: base64_encode.induct)
  case (4 a b c rest)
  have "(length (a # b # c # rest) + 2) div 3 = (length rest + 2) div 3 + 1" by simp
  with 4 show ?case by simp
qed simp_all

lemma parse_routed_InrD:
  "parse_routed name t rest components = Inr ref \<Longrightarrow>
     mr_Name ref = name \<and> mr_Type ref = t \<and> \<not> mr_Credential ref \<and> mr_ID ref \<in> set components"
  by (auto simp: parse_routed_def Let_def split: option.splits if_splits prod.splits)

lemma lengths_nonempty: "t \<noteq> MagicFQDN \<Longrightarrow> t \<noteq> MagicURL \<Longrightarrow> magicLengths t \<noteq> []"
  by (cases t) auto

lemma ParseMagicName_InrE:
  assumes "ParseMagicName name components = Inr ref"
  obtains "\<not> mr_Credential ref" "mr_Type ref \<in> {MagicFQDN, MagicURL}" "mr_ID ref \<in> set components" "mr_Name ref = name"
  | "mr_Credential ref" "mr_Type ref \<notin> {MagicFQDN, MagicURL}" "mr_Length ref \<in> set (magicLengths (mr_Type ref))"
    "mr_ID ref \<noteq> []" "list_all id_char (mr_ID ref)" "mr_Name ref = name"
proof -
  obtain t rest where t: "split_type magic_types (TrimPrefix name ''SERVICE_'') = Some (t, rest)"
    using assms by (auto simp: ParseMagicName_def Let_def split: if_splits option.splits)
  then have p: "if t = MagicFQDN \<or> t = MagicURL then parse_routed name t rest components = Inr ref
      else parse_credential name t rest = Inr ref"
    using assms by (auto simp: ParseMagicName_def Let_def split: if_splits)
  show thesis
  proof (cases "t = MagicFQDN \<or> t = MagicURL")
    case True
    then show thesis using that(1) parse_routed_InrD [of name t rest components ref] p by auto
  next
    case False
    then have "parse_credential name t rest = Inr ref" "magicLengths t \<noteq> []" using p lengths_nonempty by auto
    from parse_credential_InrD [OF this] False show thesis using that(2) by auto
  qed
qed

text \<open>What the characters of a generated value are drawn from.\<close>

definition value_alphabet :: "MagicType \<Rightarrow> string" where
  "value_alphabet t = (case t of
      MagicUser \<Rightarrow> alphaLowerDigits | MagicPassword \<Rightarrow> alphaMixedDigits | MagicBase64 \<Rightarrow> alphaMixedDigits
    | MagicPasswordWithSymbols \<Rightarrow> alphaWithSymbols | MagicHex \<Rightarrow> ''0123456789abcdef''
    | _ \<Rightarrow> ''ABCDEFGHIJKLMNOPQRSTUVWXYZabcdefghijklmnopqrstuvwxyz0123456789+='' @ [CHR 0x2F])"

definition value_ok :: "MagicRef \<Rightarrow> string \<Rightarrow> bool" where
  "value_ok ref v \<longleftrightarrow> set v \<subseteq> set (value_alphabet (mr_Type ref)) \<and>
     int (length v) = (if mr_Type ref = MagicRealBase64 then 4 * ((mr_Length ref + 2) div 3) else mr_Length ref)"

text \<open>The contract of the random source.\<close>

definition rng_ok :: "(nat \<Rightarrow> nat \<Rightarrow> nat option) \<Rightarrow> (nat \<Rightarrow> nat list option) \<Rightarrow> bool" where
  "rng_ok draw bytes \<longleftrightarrow> (\<forall>i n. 0 < n \<longrightarrow> (\<exists>k<n. draw i n = Some k)) \<and> (\<forall>n. \<exists>bs. bytes n = Some bs \<and> length bs = n)"

lemma randomFrom_ok:
  assumes "rng_ok draw bytes" "alphabet \<noteq> []"
  obtains v where "randomFrom draw alphabet i n = Some v" "length v = n" "set v \<subseteq> set alphabet"
proof -
  have d: "\<exists>k<length alphabet. draw i (length alphabet) = Some k" for i using assms by (auto simp: rng_ok_def)
  obtain v where v: "randomFrom draw alphabet i n = Some v"
    using randomFrom_total [of draw alphabet i n] d by (metis option.distinct(1))
  have lt: "k < length alphabet" if "draw i (length alphabet) = Some k" for i k using d [of i] that by auto
  have "length v = n \<and> set v \<subseteq> set alphabet" by (rule randomFrom_spec [OF _ v]) (rule lt)
  then show thesis using that v by blast
qed

lemma alphabets_nonempty: "alphaLower \<noteq> []" "alphaLowerDigits \<noteq> []" "alphaMixedDigits \<noteq> []" "alphaWithSymbols \<noteq> []"
  by (simp_all add: alphaLower_def alphaLowerDigits_def alphaMixedDigits_def alphaWithSymbols_def)

lemma hex_chars: "set (hex_encode bs) \<subseteq> set ''0123456789abcdef''"
proof -
  have d: "hex_digit n \<in> set ''0123456789abcdef''" for n unfolding hex_digit_def by (rule nth_mem) simp
  show ?thesis unfolding hex_encode_def set_concat using d
    by (force simp only: set_map image_iff UN_iff list.set empty_iff insert_iff)
qed

lemma base64_chars: "set (base64_encode bs) \<subseteq> set (value_alphabet MagicRealBase64)"
proof -
  have "base64_digit n \<in> set (''ABCDEFGHIJKLMNOPQRSTUVWXYZabcdefghijklmnopqrstuvwxyz0123456789+'' @ [CHR 0x2F])" for n
    unfolding base64_digit_def by (rule nth_mem) simp
  then have d: "base64_digit n \<in> set (value_alphabet MagicRealBase64)" for n
    unfolding value_alphabet_def by fastforce
  have e: "CHR ''='' \<in> set (value_alphabet MagicRealBase64)" by (simp add: value_alphabet_def)
  show ?thesis by (induction bs rule: base64_encode.induct) (simp_all add: d e)
qed

lemma GenerateMagicValue_ok:
  assumes rng: "rng_ok draw bytes" and ref: "mr_Type ref \<notin> {MagicFQDN, MagicURL}" "mr_Length ref \<in> set (magicLengths (mr_Type ref))"
  shows "\<exists>v. GenerateMagicValue draw bytes ref = Some v \<and> value_ok ref v"
proof -
  have bytes: "\<exists>bs. bytes n = Some bs \<and> length bs = n" for n using rng by (simp add: rng_ok_def)
  show ?thesis
  proof (cases "mr_Type ref")
    case MagicUser
    obtain u where u: "randomFrom draw alphaLower 0 1 = Some u" "length u = 1" "set u \<subseteq> set alphaLower"
      using randomFrom_ok [OF rng alphabets_nonempty(1)] .
    obtain v where v: "randomFrom draw alphaLowerDigits 1 15 = Some v" "length v = 15" "set v \<subseteq> set alphaLowerDigits"
      using randomFrom_ok [OF rng alphabets_nonempty(2)] .
    show ?thesis using MagicUser ref(2) u v
      by (auto simp: GenerateMagicValue_def value_ok_def value_alphabet_def alphaLowerDigits_def)
  next
    case MagicRealBase64
    obtain bs where "bytes (nat (mr_Length ref)) = Some bs" "length bs = nat (mr_Length ref)" using bytes by blast
    then show ?thesis using MagicRealBase64 ref(2) base64_chars [of bs]
      by (auto simp: GenerateMagicValue_def value_ok_def base64_length)
  next
    case MagicHex
    obtain bs where "bytes (nat (mr_Length ref) div 2) = Some bs" "length bs = nat (mr_Length ref) div 2" using bytes by blast
    then show ?thesis using MagicHex ref(2) hex_chars [of bs]
      by (auto simp: GenerateMagicValue_def value_ok_def hex_length value_alphabet_def)
  next
    case MagicPassword
    obtain v where "randomFrom draw alphaMixedDigits 0 (nat (mr_Length ref)) = Some v" "length v = nat (mr_Length ref)"
      "set v \<subseteq> set alphaMixedDigits" using randomFrom_ok [OF rng alphabets_nonempty(3)] .
    then show ?thesis using MagicPassword ref(2) by (auto simp: GenerateMagicValue_def value_ok_def value_alphabet_def)
  next
    case MagicBase64
    obtain v where "randomFrom draw alphaMixedDigits 0 (nat (mr_Length ref)) = Some v" "length v = nat (mr_Length ref)"
      "set v \<subseteq> set alphaMixedDigits" using randomFrom_ok [OF rng alphabets_nonempty(3)] .
    then show ?thesis using MagicBase64 ref(2) by (auto simp: GenerateMagicValue_def value_ok_def value_alphabet_def)
  next
    case MagicPasswordWithSymbols
    obtain v where "randomFrom draw alphaWithSymbols 0 (nat (mr_Length ref)) = Some v" "length v = nat (mr_Length ref)"
      "set v \<subseteq> set alphaWithSymbols" using randomFrom_ok [OF rng alphabets_nonempty(4)] .
    then show ?thesis using MagicPasswordWithSymbols ref(2)
      by (auto simp: GenerateMagicValue_def value_ok_def value_alphabet_def)
  qed (use ref(1) in auto)
qed

text \<open>Magic variables are resolvable.  The references found in a file come once each, sorted by name; each is
  either an address of a component of the stack or a credential, and for a credential the generator, given
  a working random source, yields a value of the length the type and the name ask for, over the alphabet of
  its type.\<close>

theorem magic_references:
  assumes "rng_ok draw bytes"
  shows "sorted (map mr_Name (fst (ScanMagicReferences content services))) \<and>
         distinct (map mr_Name (fst (ScanMagicReferences content services))) \<and>
         (\<forall>ref \<in> set (fst (ScanMagicReferences content services)).
            if mr_Credential ref
            then mr_Length ref \<in> set (magicLengths (mr_Type ref)) \<and>
                 (\<exists>v. GenerateMagicValue draw bytes ref = Some v \<and> value_ok ref v)
            else mr_Type ref \<in> {MagicFQDN, MagicURL} \<and> mr_ID ref \<in> NormalizeComponentID ` set services)"
proof (intro conjI ballI)
  let ?comps = "map NormalizeComponentID services"
  define names where "names = rev (remdups (rev (filter magicName (word_runs content []))))"
  define refs where "refs = concat (map (\<lambda>r. case r of Inr ref \<Rightarrow> [ref] | Inl _ \<Rightarrow> []) (map (\<lambda>n. ParseMagicName n ?comps) names))"
  have scan: "fst (ScanMagicReferences content services) = sort_key mr_Name refs"
    by (simp add: ScanMagicReferences_def Let_def refs_def names_def comp_def)
  show "sorted (map mr_Name (fst (ScanMagicReferences content services)))" by (simp add: scan)
  have "\<exists>ns'. map mr_Name (concat (map (\<lambda>n. case ParseMagicName n ?comps of Inr ref \<Rightarrow> [ref] | Inl _ \<Rightarrow> []) ns)) = filter (\<lambda>n. \<not> isl (ParseMagicName n ?comps)) ns"
    for ns
    by (induction ns) (auto split: sum.splits elim: ParseMagicName_InrE)
  then have "map mr_Name refs = filter (\<lambda>n. \<not> isl (ParseMagicName n ?comps)) names"
    by (simp add: refs_def comp_def)
  moreover have "distinct names" by (simp add: names_def)
  ultimately have "distinct (map mr_Name refs)" by simp
  then show "distinct (map mr_Name (fst (ScanMagicReferences content services)))"
    unfolding scan by (metis distinct_map distinct_sort set_sort)
  fix ref assume "ref \<in> set (fst (ScanMagicReferences content services))"
  then obtain n where "ParseMagicName n ?comps = Inr ref"
    by (auto simp: scan refs_def split: sum.splits)
  then show "if mr_Credential ref
      then mr_Length ref \<in> set (magicLengths (mr_Type ref)) \<and> (\<exists>v. GenerateMagicValue draw bytes ref = Some v \<and> value_ok ref v)
      else mr_Type ref \<in> {MagicFQDN, MagicURL} \<and> mr_ID ref \<in> NormalizeComponentID ` set services"
    by (rule ParseMagicName_InrE) (use GenerateMagicValue_ok [OF assms, of ref] in auto)
qed

end
