(* ===== verification/ComposeLoad.thy ===== *)
theory ComposeLoad
  imports ComposePlan
begin

text \<open>
  The Compose pipeline (\<^verbatim>\<open>src/internal/compose/compose.go\<close>): the raw pass over the YAML document,
  the warnings on undefined variables, and \<^verbatim>\<open>Load\<close>, which puts parsing, validation and planning
  together.  The YAML parser and the loader of \<^verbatim>\<open>compose-go\<close> are parameters.
\<close>

section \<open>The raw pass\<close>

type_synonym doc = "(string \<times> any) list"

definition knownTopLevel :: "string list" where
  "knownTopLevel = [''services'', ''networks'', ''volumes'', ''configs'', ''secrets'', ''name'', ''version'', ''include'']"

definition knownServiceKeys :: "string list" where
  "knownServiceKeys =
     [''image'', ''build'', ''command'', ''entrypoint'',
      ''environment'', ''env_file'', ''ports'', ''expose'',
      ''volumes'', ''labels'', ''hostname'', ''networks'',
      ''depends_on'', ''healthcheck'', ''restart'', ''deploy'',
      ''mem_limit'', ''mem_reservation'', ''memswap_limit'',
      ''cpus'', ''cpu_shares'', ''cpuset'',
      ''stop_grace_period'', ''stop_signal'',
      ''user'', ''working_dir'', ''init'', ''tty'', ''stdin_open'',
      ''read_only'', ''tmpfs'', ''shm_size'',
      ''ulimits'', ''group_add'',
      ''dns'', ''dns_search'', ''extra_hosts'',
      ''platform'', ''pull_policy'', ''profiles'',
      ''logging'', ''extends'', ''configs'', ''secrets'',
      ''privileged'', ''cap_add'', ''cap_drop'', ''devices'',
      ''security_opt'', ''sysctls'', ''network_mode'',
      ''pid'', ''ipc'', ''userns_mode'', ''cgroup_parent'', ''cgroup'',
      ''external_links'', ''scale'', ''credential_spec'', ''isolation'']"

text \<open>What a pass does with a key: keep it, or drop it with a finding.\<close>

definition top_key :: "string \<Rightarrow> Finding option" where
  "top_key key =
     (if key = ''version'' then Some (warnf CodeVersionIgnored [] ''version'')
      else if key = ''name'' then Some (warnf CodeKeyIgnored [] ''name'')
      else if key = ''include'' then Some (errf CodeIncludeRejected [] ''include'')
      else if HasPrefix key ''x-'' then None
      else if key \<notin> set knownTopLevel then Some (warnf CodeKeyIgnored [] key)
      else None)"

definition service_key :: "string \<Rightarrow> string \<Rightarrow> Finding option" where
  "service_key name key =
     (if key = ''container_name'' then Some (warnf CodeContainerNameIgnored name (''services.'' @ name @ ''.container_name''))
      else if key = ''links'' then Some (warnf CodeKeyIgnored name (''services.'' @ name @ ''.links''))
      else if HasPrefix key ''x-'' then None
      else if key \<notin> set knownServiceKeys then Some (warnf CodeKeyIgnored name (''services.'' @ name @ ''.'' @ key))
      else None)"

definition prune :: "(string \<Rightarrow> Finding option) \<Rightarrow> doc \<Rightarrow> doc \<times> Finding list" where
  "prune f d = (filter (\<lambda>(k, _). f k = None) d,
     concat (map (\<lambda>(k, _). case f k of None \<Rightarrow> [] | Some fd \<Rightarrow> [fd]) d))"

definition prune_service :: "string \<times> any \<Rightarrow> (string \<times> any) \<times> Finding list" where
  "prune_service = (\<lambda>(name, raw).
     case raw of
       AMap svc \<Rightarrow> (let (svc', fs) = prune (service_key name) svc in ((name, AMap svc'), fs))
     | _ \<Rightarrow> ((name, raw), []))"

text \<open>\<open>unmarshal\<close> is the YAML parser: an error, no document, or a mapping.\<close>

definition rawPass :: "(string \<Rightarrow> (unit, doc option) result) \<Rightarrow> string \<Rightarrow> doc option \<times> Finding list" where
  "rawPass unmarshal content =
     (case unmarshal content of
        Inl _ \<Rightarrow> (None, [errf CodeParseError [] []])
      | Inr None \<Rightarrow> (None, [errf CodeParseError [] []])
      | Inr (Some doc) \<Rightarrow>
          let (doc1, fs) = prune top_key doc in
          (case map_of doc1 ''services'' of
             Some (AMap services) \<Rightarrow>
               if services = [] then (None, fs @ [errf CodeParseError [] ''services''])
               else
                 let pruned = map prune_service services
                 in (Some (map (\<lambda>(k, v). if k = ''services'' then (k, AMap (map fst pruned)) else (k, v)) doc1),
                     fs @ concat (map snd pruned))
           | _ \<Rightarrow> (None, fs @ [errf CodeParseError [] ''services''])))"

section \<open>Undefined variables\<close>

definition var_char :: "char \<Rightarrow> bool" where
  "var_char c = (is_alnum c \<or> c = CHR ''_'')"

definition var_name :: "string \<Rightarrow> string" where
  "var_name s = (case s of [] \<Rightarrow> [] | c # _ \<Rightarrow> if is_digit c then [] else takeWhile var_char s)"

text \<open>The match of \<^verbatim>\<open>interpolationRef\<close> after a dollar sign: the name, whether there is an operator,
  and what follows the match.\<close>

definition operator_ref :: "string \<Rightarrow> string \<Rightarrow> (string \<times> bool \<times> string) option" where
  "operator_ref name u =
     (case u of
        [] \<Rightarrow> None
      | e # u' \<Rightarrow>
          if e \<in> set ''-?+''
          then (case Cut u' CHR 0x7D of None \<Rightarrow> None | Some (_, rest) \<Rightarrow> Some (name, True, rest))
          else None)"

definition braced_ref :: "string \<Rightarrow> (string \<times> bool \<times> string) option" where
  "braced_ref s =
     (let name = var_name s in
      if name = [] then None
      else (case drop (length name) s of
              [] \<Rightarrow> None
            | d # t \<Rightarrow>
                if d = CHR 0x7D then Some (name, False, t)
                else if d = CHR '':'' then operator_ref name t
                else operator_ref name (d # t)))"

definition ref_at :: "string \<Rightarrow> (string \<times> bool \<times> string) option" where
  "ref_at s =
     (case s of
        [] \<Rightarrow> None
      | c # s' \<Rightarrow>
          if c = CHR 0x7B then braced_ref s'
          else let name = var_name s in
               if name = [] then None else Some (name, False, drop (length name) s))"

lemma operator_ref_length: "operator_ref name u = Some (n, op, rest) \<Longrightarrow> length rest \<le> length u"
  by (auto simp: operator_ref_def dest!: Cut_SomeD split: list.splits if_splits option.splits)

lemma braced_ref_length:
  assumes "braced_ref s = Some (n, op, rest)" shows "length rest \<le> length s"
proof -
  obtain d t where t: "drop (length (var_name s)) s = d # t"
    using assms by (auto simp: braced_ref_def Let_def split: if_splits list.splits)
  then have "length (d # t) \<le> length s" by (metis length_drop diff_le_self)
  moreover have "length rest \<le> length (d # t)"
    using assms t operator_ref_length [of "var_name s" t n op rest]
      operator_ref_length [of "var_name s" "d # t" n op rest]
    by (auto simp: braced_ref_def Let_def split: if_splits)
  ultimately show ?thesis by simp
qed

lemma ref_at_length: "ref_at s = Some (n, op, rest) \<Longrightarrow> length rest \<le> length s"
  by (cases s) (auto simp: ref_at_def Let_def dest!: braced_ref_length split: if_splits)

function scan_refs :: "string \<Rightarrow> (string \<times> bool) list" where
  "scan_refs [] = []"
| "scan_refs (c # s) =
     (if c = CHR ''$''
      then (case ref_at s of None \<Rightarrow> scan_refs s | Some (n, op, rest) \<Rightarrow> (n, op) # scan_refs rest)
      else scan_refs s)"
  by pat_completeness auto
termination
  by (relation "measure length") (auto dest: ref_at_length)

fun undefined_vars :: "string list \<Rightarrow> string list \<Rightarrow> (string \<times> bool) list \<Rightarrow> Finding list" where
  "undefined_vars vars seen [] = []"
| "undefined_vars vars seen ((n, op) # refs) =
     (if op \<or> n \<in> set seen \<or> n \<in> set vars then undefined_vars vars seen refs
      else warnf CodeVariableUndefined [] [] # undefined_vars vars (n # seen) refs)"

definition warnUndefinedVariables :: "string \<Rightarrow> (string \<times> string) list \<Rightarrow> Finding list" where
  "warnUndefinedVariables content vars = undefined_vars (map fst vars) [] (scan_refs content)"

section \<open>The pipeline\<close>

record Input =
  in_Content :: string
  in_StackUUID :: string
  in_Variables :: "(string \<times> string) list"
  in_Policy :: Policy
  in_Raw :: bool

record Result =
  re_Project :: "Project option"
  re_Plan :: "Plan option"
  re_Findings :: "Finding list"

datatype load_error = ErrRemarshal | ErrPlan plan_error

text \<open>\<open>marshal\<close> prints the pruned document, \<open>loader\<close> parses and interpolates it; its error tells whether a
  required variable is missing.\<close>

definition Load ::
  "(string \<Rightarrow> (unit, doc option) result) \<Rightarrow> (doc \<Rightarrow> string option) \<Rightarrow>
   (string \<Rightarrow> (string \<times> string) list \<Rightarrow> string \<Rightarrow> (bool, Project) result) \<Rightarrow> (Project \<Rightarrow> string option) \<Rightarrow>
   Input \<Rightarrow> (load_error, Result) result" where
  "Load unmarshal marshal loader marshalYAML inp =
     (case rawPass unmarshal (in_Content inp) of
        (None, fs) \<Rightarrow> Inr \<lparr>re_Project = None, re_Plan = None, re_Findings = fs\<rparr>
      | (Some sanitized, fs) \<Rightarrow>
          let fs1 = fs @ warnUndefinedVariables (in_Content inp) (in_Variables inp) in
          (case marshal sanitized of
             None \<Rightarrow> Inl ErrRemarshal
           | Some buf \<Rightarrow>
             (case loader buf (in_Variables inp) (in_StackUUID inp) of
                Inl required \<Rightarrow>
                  Inr \<lparr>re_Project = None, re_Plan = None,
                       re_Findings = fs1 @ [errf (if required then CodeRequiredVariableMissing else CodeParseError) [] []]\<rparr>
              | Inr project \<Rightarrow>
                  let fs2 = fs1 @ validate project (in_Policy inp) in
                  if HasErrors fs2 then Inr \<lparr>re_Project = Some project, re_Plan = None, re_Findings = fs2\<rparr>
                  else (case buildPlan marshalYAML project (in_StackUUID inp) (in_Raw inp) of
                          Inl e \<Rightarrow> Inl (ErrPlan e)
                        | Inr (plan, fs3) \<Rightarrow>
                            Inr \<lparr>re_Project = Some project,
                                 re_Plan = (if HasErrors (fs2 @ fs3) then None else Some plan),
                                 re_Findings = fs2 @ fs3\<rparr>))))"

section \<open>Properties\<close>

lemma map_of_filter_key: "map_of (filter (\<lambda>(k, _). P k) d) k = (if P k then map_of d k else None)"
  by (induction d) auto

lemma map_of_map_service:
  "map_of (map (\<lambda>x. fst (prune_service x)) services) n =
     map_option (\<lambda>raw. snd (fst (prune_service (n, raw)))) (map_of services n)"
  by (induction services) (auto simp: prune_service_def prune_def Let_def split: any.splits)

lemma map_of_replace:
  "map_of (map (\<lambda>(k, v). if k = x then (k, w) else (k, v)) d) k =
     (if k = x then map_option (\<lambda>_. w) (map_of d x) else map_of d k)"
  by (induction d) auto

text \<open>The raw pass never hides a key from the policy.  When the pass accepts a document, for every service that is a
  mapping exactly the supported keys, the policy-gated keys and the extensions survive, each with the value the author wrote: a rejected key such as
  \<^verbatim>\<open>privileged\<close> or \<^verbatim>\<open>network_mode\<close> reaches the typed validation.\<close>

theorem rawPass_keeps_gated_keys:
  assumes doc: "unmarshal content = Inr (Some doc)" and r: "rawPass unmarshal content = (Some out, fs)"
  shows "\<exists>services services'. map_of doc ''services'' = Some (AMap services) \<and> map_of out ''services'' = Some (AMap services') \<and>
     (\<forall>name svc. map_of services name = Some (AMap svc) \<longrightarrow>
        (\<exists>svc'. map_of services' name = Some (AMap svc') \<and>
          (\<forall>key. map_of svc' key =
             (if key = ''container_name'' \<or> key = ''links'' \<or> \<not> (HasPrefix key ''x-'' \<or> key \<in> set knownServiceKeys)
              then None else map_of svc key))))"
proof -
  have keep: "top_key ''services'' = None" by code_simp
  from r doc obtain services where s: "map_of (fst (prune top_key doc)) ''services'' = Some (AMap services)"
    and out: "out = map (\<lambda>(k, v). if k = ''services'' then (k, AMap (map (\<lambda>x. fst (prune_service x)) services)) else (k, v))
      (fst (prune top_key doc))"
    by (auto simp: rawPass_def Let_def comp_def split: prod.splits option.splits any.splits if_splits)
  have doc_s: "map_of doc ''services'' = Some (AMap services)"
    using s keep by (simp add: prune_def map_of_filter_key)
  have out_s: "map_of out ''services'' = Some (AMap (map (\<lambda>x. fst (prune_service x)) services))"
    unfolding out map_of_replace using s by simp
  have key: "service_key name key \<noteq> None \<longleftrightarrow>
      (key = ''container_name'' \<or> key = ''links'' \<or> \<not> (HasPrefix key ''x-'' \<or> key \<in> set knownServiceKeys))" for name key
    by (simp add: service_key_def)
  have "\<exists>svc'. map_of (map (\<lambda>x. fst (prune_service x)) services) name = Some (AMap svc') \<and>
      (\<forall>key. map_of svc' key = (if service_key name key \<noteq> None then None else map_of svc key))"
    if "map_of services name = Some (AMap svc)" for name svc
    unfolding map_of_map_service using that by (simp add: prune_service_def prune_def Let_def map_of_filter_key)
  then have "\<exists>svc'. map_of (map (\<lambda>x. fst (prune_service x)) services) name = Some (AMap svc') \<and>
      (\<forall>key. map_of svc' key =
         (if key = ''container_name'' \<or> key = ''links'' \<or> \<not> (HasPrefix key ''x-'' \<or> key \<in> set knownServiceKeys)
          then None else map_of svc key))"
    if "map_of services name = Some (AMap svc)" for name svc
    using that unfolding key .
  with doc_s out_s show ?thesis by blast
qed

definition gated_doc :: doc where
  "gated_doc = [(''version'', AStr ''3''), (''services'', AMap [(''web'', AMap [(''image'', AStr ''nginx''),
     (''privileged'', ABool True), (''container_name'', AStr ''w''), (''colour'', AStr ''red'')])])]"

lemma Load_planE:
  assumes "Load unmarshal marshal loader my inp = Inr res" "re_Plan res = Some plan"
  obtains project fs where "re_Project res = Some project" "\<not> HasErrors (re_Findings res)"
    "\<not> HasErrors (validate project (in_Policy inp))"
    "buildPlan my project (in_StackUUID inp) (in_Raw inp) = Inr (plan, fs)"
  using assms
  by (auto simp: Load_def Let_def split: prod.splits option.splits sum.splits if_splits)

text \<open>C33: The pipeline as a whole is safe.  Whatever the YAML parser and the Compose loader return, a plan comes out
  of \<^verbatim>\<open>Load\<close> only with no error among the findings, it is the plan of the loaded project, and every
  service of that project is confined by the server policy.  And if the loaded projects have distinct
  keys, \<^verbatim>\<open>Load\<close> never fails with the internal error for a dependency cycle.\<close>

theorem Load_safe:
  "(Load unmarshal marshal loader my inp = Inr res \<and> re_Plan res = Some plan \<longrightarrow>
     (\<exists>project fs. re_Project res = Some project \<and> \<not> HasErrors (re_Findings res) \<and>
        buildPlan my project (in_StackUUID inp) (in_Raw inp) = Inr (plan, fs) \<and>
        (\<forall>(name, svc) \<in> set (pj_Services project). serviceNamePattern name \<and> isolated (in_Policy inp) svc))) \<and>
   ((\<forall>buf vars uuid project. loader buf vars uuid = Inr project \<longrightarrow> wf_project project) \<longrightarrow>
     Load unmarshal marshal loader my inp \<noteq> Inl (ErrPlan CycleSurvived))"
proof (intro conjI impI)
  assume l: "Load unmarshal marshal loader my inp = Inr res \<and> re_Plan res = Some plan"
  then obtain project fs where p: "re_Project res = Some project" "\<not> HasErrors (re_Findings res)"
    "\<not> HasErrors (validate project (in_Policy inp))"
    "buildPlan my project (in_StackUUID inp) (in_Raw inp) = Inr (plan, fs)"
    using Load_planE [of unmarshal marshal loader my inp res plan] by blast
  then show "\<exists>project fs. re_Project res = Some project \<and> \<not> HasErrors (re_Findings res) \<and>
        buildPlan my project (in_StackUUID inp) (in_Raw inp) = Inr (plan, fs) \<and>
        (\<forall>(name, svc) \<in> set (pj_Services project). serviceNamePattern name \<and> isolated (in_Policy inp) svc)"
    using validate_services_ok [OF p(3)] by blast
next
  assume wf: "\<forall>buf vars uuid project. loader buf vars uuid = Inr project \<longrightarrow> wf_project project"
  show "Load unmarshal marshal loader my inp \<noteq> Inl (ErrPlan CycleSurvived)"
  proof
    assume "Load unmarshal marshal loader my inp = Inl (ErrPlan CycleSurvived)"
    then obtain buf project where "loader buf (in_Variables inp) (in_StackUUID inp) = Inr project"
      "\<not> HasErrors (validate project (in_Policy inp))"
      "buildPlan my project (in_StackUUID inp) (in_Raw inp) = Inl CycleSurvived"
      by (auto simp: Load_def Let_def split: prod.splits option.splits sum.splits if_splits)
    then show False
      using validated_order [of project "in_Policy inp"] wf
      by (auto simp: buildPlan_def Let_def split: prod.splits option.splits if_splits)
  qed
qed

definition sample_input :: Input where
  "sample_input = \<lparr>in_Content = [], in_StackUUID = ''u'', in_Variables = [], in_Policy = strict_policy, in_Raw = False\<rparr>"

abbreviation sample_load :: "(load_error, Result) result" where
  "sample_load \<equiv> Load (\<lambda>_. Inr (Some gated_doc)) (\<lambda>_. Some []) (\<lambda>_ _ _. Inr plain_project) (\<lambda>_. Some []) sample_input"

theorem Load_safe_witness:
  "\<exists>res plan. sample_load = Inr res \<and> re_Plan res = Some plan \<and> \<not> HasErrors (re_Findings res)"
proof -
  have "\<not> isl sample_load \<and> re_Plan (projr sample_load) \<noteq> None" by code_simp
  then obtain res plan where "sample_load = Inr res" "re_Plan res = Some plan" by (cases sample_load) auto
  then show ?thesis using Load_safe [of "\<lambda>_. Inr (Some gated_doc)" "\<lambda>_. Some []" "\<lambda>_ _ _. Inr plain_project" "\<lambda>_. Some []" sample_input res plan] by blast
qed

end
