(* ===== verification/Calendar.thy ===== *)
theory Calendar
  imports Prelude
begin

text \<open>
  The part of Go's \<^verbatim>\<open>time\<close> package that the schedules rely on.  An instant is a number of
  nanoseconds since the zero \<^verbatim>\<open>Time\<close> (January 1 of year 1, 00:00 UTC), so the zero value of the type is
  \<open>0\<close>.  A location is the offset from UTC it has at each instant, the function its time zone table is.  The
  proleptic Gregorian calendar is the closed formula for the first day of a year and the cumulated lengths of
  the months; the lemmas show that the fields of a day determine it and that a month is an interval of days.
\<close>

named_theorems calendar \<open>definitions of the calendar fields and of the clock\<close>

abbreviation minute :: int where "minute \<equiv> 60 * second"
abbreviation hour :: int where "hour \<equiv> 3600 * second"
abbreviation day :: int where "day \<equiv> 86400 * second"

type_synonym location = "int \<Rightarrow> int"

section \<open>Days\<close>

definition leap :: "int \<Rightarrow> int" where
  "leap y = (if y mod 4 = 0 \<and> (y mod 100 \<noteq> 0 \<or> y mod 400 = 0) then 1 else 0)"

definition year_start :: "int \<Rightarrow> int" where
  "year_start y = (let p = y - 1 in 365 * p + p div 4 - p div 100 + p div 400)"

definition before_month :: "int \<Rightarrow> int \<Rightarrow> int" where
  "before_month l m =
     (if m \<le> 1 then 0 else if m = 2 then 31 else if m = 3 then 59 + l else if m = 4 then 90 + l
      else if m = 5 then 120 + l else if m = 6 then 151 + l else if m = 7 then 181 + l else if m = 8 then 212 + l
      else if m = 9 then 243 + l else if m = 10 then 273 + l else if m = 11 then 304 + l else if m = 12 then 334 + l
      else 365 + l)"

text \<open>\<^verbatim>\<open>time.Date\<close> normalises the month and accepts any day.\<close>

definition day_number :: "int \<Rightarrow> int \<Rightarrow> int \<Rightarrow> int" where
  "day_number y m d =
     (let y' = y + (m - 1) div 12; m' = (m - 1) mod 12 + 1
      in year_start y' + before_month (leap y') m' + d - 1)"

definition year_of :: "int \<Rightarrow> int" where
  "year_of n =
     (let y = (400 * n) div 146097 + 1
      in if n < year_start y then y - 1 else if year_start (y + 1) \<le> n then y + 1 else y)"

definition month_of :: "int \<Rightarrow> int" where
  "month_of n =
     (let l = leap (year_of n); k = n - year_start (year_of n)
      in if k < 31 then 1 else if k < 59 + l then 2 else if k < 90 + l then 3 else if k < 120 + l then 4
         else if k < 151 + l then 5 else if k < 181 + l then 6 else if k < 212 + l then 7 else if k < 243 + l then 8
         else if k < 273 + l then 9 else if k < 304 + l then 10 else if k < 334 + l then 11 else 12)"

definition mday_of :: "int \<Rightarrow> int" where
  "mday_of n = n - year_start (year_of n) - before_month (leap (year_of n)) (month_of n) + 1"

text \<open>The first day of year 1 is a Monday; Sunday is \<open>0\<close>.\<close>

definition weekday_of :: "int \<Rightarrow> int" where
  "weekday_of n = (n + 1) mod 7"

section \<open>Instants in a location\<close>

definition wall :: "location \<Rightarrow> int \<Rightarrow> int" where
  "wall loc t = t + loc t"

definition Year :: "location \<Rightarrow> int \<Rightarrow> int" where "Year loc t = year_of (wall loc t div day)"
definition Month :: "location \<Rightarrow> int \<Rightarrow> int" where "Month loc t = month_of (wall loc t div day)"
definition Day :: "location \<Rightarrow> int \<Rightarrow> int" where "Day loc t = mday_of (wall loc t div day)"
definition Weekday :: "location \<Rightarrow> int \<Rightarrow> int" where "Weekday loc t = weekday_of (wall loc t div day)"
definition Hour :: "location \<Rightarrow> int \<Rightarrow> int" where "Hour loc t = wall loc t mod day div hour"
definition Minute :: "location \<Rightarrow> int \<Rightarrow> int" where "Minute loc t = wall loc t mod hour div minute"

text \<open>\<^verbatim>\<open>time.Date\<close>: the instant that would have these fields in UTC is looked up in the location, and
  the offset found there moves it to UTC; when that instant lies in another period of the location, the offset
  of that period is taken.  In the same period the second lookup finds the first offset again.  The last
  argument holds the seconds and nanoseconds.\<close>

definition Date :: "location \<Rightarrow> int \<Rightarrow> int \<Rightarrow> int \<Rightarrow> int \<Rightarrow> int \<Rightarrow> int \<Rightarrow> int" where
  "Date loc y m d h mi s =
     (let u = day_number y m d * day + h * hour + mi * minute + s in u - loc (u - loc u))"

definition AddDate :: "location \<Rightarrow> int \<Rightarrow> int \<Rightarrow> int \<Rightarrow> int \<Rightarrow> int" where
  "AddDate loc t years months days =
     Date loc (Year loc t + years) (Month loc t + months) (Day loc t + days)
       (Hour loc t) (Minute loc t) (wall loc t mod minute)"

definition Truncate :: "int \<Rightarrow> int \<Rightarrow> int" where
  "Truncate t d = t - t mod d"

section \<open>Years are intervals of days\<close>

lemma div_pred: "0 < k \<Longrightarrow> y div k = (y - 1) div k + (if y mod k = 0 then 1 else 0)" for y k :: int
proof -
  assume k: "0 < k"
  define r where "r = y mod k"
  have y: "y - 1 = k * (y div k) + r - 1" and r: "0 \<le> r" "r < k" using k by (simp_all add: r_def)
  have "(y - 1) div k = (if r = 0 then y div k - 1 else y div k)"
  proof (cases "r = 0")
    case True
    then have "y - 1 = k * (y div k - 1) + (k - 1)" using y by (simp add: algebra_simps)
    then have "(y - 1) div k = y div k - 1" by (rule int_div_pos_eq) (use k in simp_all)
    with True show ?thesis by simp
  next
    case False
    have "y - 1 = k * (y div k) + (r - 1)" using y by simp
    then have "(y - 1) div k = y div k" by (rule int_div_pos_eq) (use r False in simp_all)
    with False show ?thesis by simp
  qed
  then show "y div k = (y - 1) div k + (if y mod k = 0 then 1 else 0)" unfolding r_def by simp
qed

lemma div_bounds: "0 < k \<Longrightarrow> k * (p div k) \<le> p" "0 < k \<Longrightarrow> p - k < k * (p div k)" for p k :: int
  using mult_div_mod_eq [of k p] pos_mod_sign [of k p] pos_mod_bound [of k p] by linarith+

lemma year_length: "year_start (y + 1) = year_start y + 365 + leap y"
proof -
  have leap_sum: "365 * y + a - b + c = 365 * (y - 1) + a' - b' + c' + 365 + (if A \<and> (\<not> B \<or> C) then 1 else 0)"
    if "a = a' + (if A then 1 else 0)" "b = b' + (if B then 1 else 0)" "c = c' + (if C then 1 else 0)"
      and "C \<longrightarrow> B" "B \<longrightarrow> A" for a a' b b' c c' and A B C :: bool
    using that by (cases A; cases B; cases C) simp_all
  have mods: "y mod 400 = 0 \<longrightarrow> y mod 100 = 0" "y mod 100 = 0 \<longrightarrow> y mod 4 = 0"
    using mod_mod_cancel [of 100 400 y] mod_mod_cancel [of 4 100 y] by auto
  show ?thesis
    unfolding year_start_def leap_def Let_def add_diff_cancel_right'
    by (rule leap_sum) (rule div_pred mods zero_less_numeral)+
qed

lemma leap_cases: "leap y = 0 \<or> leap y = 1"
  by (simp add: leap_def)

lemma year_start_less: "year_start y < year_start (y + 1)"
  using leap_cases [of y] by (auto simp: year_length)

lemma year_start_mono: "y \<le> z \<Longrightarrow> year_start y \<le> year_start z"
proof (induction z rule: int_ge_induct)
  case (step z)
  then show ?case using year_start_less [of z] by simp
qed simp

lemma year_start_estimate:
  "146097 * (y - 1) - 400 * 2 < 400 * year_start y" "400 * year_start y < 146097 * (y - 1) + 400"
proof -
  have "146097 * p - 800 < 146000 * p + 400 * a - 400 * b + 400 * c \<and>
        146000 * p + 400 * a - 400 * b + 400 * c < 146097 * p + 400"
    if "a = p div 4" "b = p div 100" "c = p div 400" for a b c p :: int
  proof -
    have "4 * a \<le> p" "p - 4 < 4 * a" "100 * b \<le> p" "p - 100 < 100 * b" "400 * c \<le> p" "p - 400 < 400 * c"
      unfolding that by (rule div_bounds, simp)+
    then show ?thesis by (intro conjI) linarith+
  qed
  from this [OF refl refl refl, of "y - 1"]
  show "146097 * (y - 1) - 400 * 2 < 400 * year_start y" "400 * year_start y < 146097 * (y - 1) + 400"
    by (simp_all add: year_start_def Let_def distrib_left right_diff_distrib)
qed

lemma year_of_bounds: "year_start (year_of n) \<le> n" "n < year_start (year_of n + 1)"
proof -
  define y where "y = (400 * n) div 146097 + 1"
  have "146097 * (y - 1) \<le> 400 * n" "400 * n < 146097 * (y - 1) + 146097"
    unfolding y_def using div_bounds [of 146097 "400 * n", OF zero_less_numeral] by simp_all
  moreover have "400 * year_start (y - 1) < 146097 * (y - 1) - 145697" "146097 * (y - 1) + 291394 < 400 * year_start (y + 2)"
    using year_start_estimate(2) [of "y - 1"] year_start_estimate(1) [of "y + 2"] by simp_all
  ultimately have "year_start (y - 1) \<le> n \<and> n < year_start (y + 2)" by (intro conjI) linarith+
  then have "year_start (year_of n) \<le> n \<and> n < year_start (year_of n + 1)"
    unfolding year_of_def y_def [symmetric] Let_def by (auto simp: algebra_simps)
  then show "year_start (year_of n) \<le> n" "n < year_start (year_of n + 1)" by auto
qed

lemma year_of_eqI: "year_start y \<le> n \<Longrightarrow> n < year_start (y + 1) \<Longrightarrow> year_of n = y"
  using year_of_bounds [of n] year_start_mono [of "year_of n + 1" y] year_start_mono [of "y + 1" "year_of n"]
  by linarith

section \<open>Months are intervals of days\<close>

lemma month_range: "1 \<le> month_of n" "month_of n \<le> 12"
  by (auto simp: month_of_def Let_def)

lemma before_month_13: "before_month l 13 = 365 + l"
  by (simp add: before_month_def)

lemma before_month_mono: "m \<le> m' \<Longrightarrow> before_month (leap y) m \<le> before_month (leap y) m'"
proof (induction m' rule: int_ge_induct)
  case (step i)
  have "before_month (leap y) i \<le> before_month (leap y) (i + 1)"
    using leap_cases [of y] by (auto simp: before_month_def)
  with step show ?case by simp
qed simp

text \<open>The day of the year falls between the first days of its month and of the next, and no other month
  has it.\<close>

lemma month_of_bounds:
  "before_month (leap (year_of n)) (month_of n) \<le> n - year_start (year_of n)"
  "n - year_start (year_of n) < before_month (leap (year_of n)) (month_of n + 1)"
  using year_of_bounds [of n] leap_cases [of "year_of n"] unfolding year_length
  by (auto simp: month_of_def before_month_def Let_def)

lemma month_of_eqI:
  assumes "1 \<le> m" "m \<le> 12" "year_start y + before_month (leap y) m \<le> n"
    and "n < year_start y + before_month (leap y) (m + 1)"
  shows "year_of n = y \<and> month_of n = m"
proof -
  have "0 \<le> before_month (leap y) m" "before_month (leap y) (m + 1) \<le> 365 + leap y"
    using before_month_mono [of 1 m y] before_month_mono [of "m + 1" 13 y] assms(1,2)
    by (auto simp: before_month_def)
  then have y: "year_of n = y" using assms(3,4) by (intro year_of_eqI) (simp_all add: year_length)
  moreover have "month_of n = m"
    using month_of_bounds [of n] before_month_mono [of "month_of n + 1" m y]
      before_month_mono [of "m + 1" "month_of n" y] assms(3,4) unfolding y by linarith
  ultimately show ?thesis ..
qed

lemma day_number_fields: "day_number (year_of n) (month_of n) (mday_of n) = n"
  using month_range [of n] by (simp add: day_number_def mday_of_def Let_def)

lemma day_number_next: "day_number y m (d + 1) = day_number y m d + 1"
  by (simp add: day_number_def Let_def)

lemma first_of_month:
  assumes "n' = day_number (year_of n) (month_of n) 1"
  shows "n' \<le> n" "year_of n' = year_of n" "month_of n' = month_of n" "mday_of n' = 1"
proof -
  have n': "n' = year_start (year_of n) + before_month (leap (year_of n)) (month_of n)"
    using month_range [of n] by (simp add: assms day_number_def Let_def)
  then show "n' \<le> n" using month_of_bounds [of n] by simp
  have "year_of n' = year_of n \<and> month_of n' = month_of n"
    using month_of_bounds [of n] by (intro month_of_eqI) (simp_all add: month_range n')
  then show "year_of n' = year_of n" "month_of n' = month_of n" "mday_of n' = 1"
    by (auto simp: mday_of_def n')
qed

lemma next_month:
  assumes "n' = day_number (year_of n) (month_of n + 1) 1"
  shows "n < n'" "n \<le> k \<Longrightarrow> k < n' \<Longrightarrow> month_of k = month_of n"
proof -
  have n': "n' = year_start (year_of n) + before_month (leap (year_of n)) (month_of n + 1)"
  proof (cases "month_of n = 12")
    case True
    then show ?thesis by (simp add: assms day_number_def Let_def before_month_13 year_length before_month_def)
  next
    case False
    then show ?thesis using month_range [of n] by (simp add: assms day_number_def Let_def)
  qed
  then show "n < n'" using month_of_bounds [of n] by simp
  show "month_of k = month_of n" if "n \<le> k" "k < n'"
    using that month_of_bounds [of n] month_of_eqI [of "month_of n" "year_of n" k]
    by (simp add: month_range n')
qed

end
