(* ===== verification/Cron.thy ===== *)
theory Cron
  imports Calendar
begin

text \<open>
  Cron schedules (\<^verbatim>\<open>internal/cronexpr\<close>): the parser of five-field expressions and the search for the
  next occurrence.  Both contain loops whose progress depends on machine arithmetic or on the time zone, so
  they are partial functions: \<^const>\<open>None\<close> stands for a call that does not return.  Proved: the parser
  returns on every input; a printed expression parses to the values it denotes; in a location with a fixed
  offset the search returns the first occurrence of the next five years; and in a location whose clock is set
  back the search can run forever.
\<close>

section \<open>The parser\<close>

datatype cron_error =
    ErrFields nat | ErrField string cron_error
  | ErrEmptyValue string | ErrStep string | ErrInverted string | ErrNoValue string
  | ErrNotNumber string | ErrOutOfRange int int int

definition bounds :: "(string \<times> int \<times> int) list" where
  "bounds = [(''minute'', 0, 59), (''hour'', 0, 23), (''day of month'', 1, 31), (''month'', 1, 12),
             (''day of week'', 0, 6)]"

record Schedule =
  minutes :: "int list"
  hours :: "int list"
  days :: "int list"
  months :: "int list"
  weekdays :: "int list"
  dayRestricted :: bool
  weekdayRestricted :: bool

text \<open>\<^verbatim>\<open>strings.Fields\<close>: the runs between white space.\<close>

fun Fields :: "string \<Rightarrow> string list" where
  "Fields [] = []"
| "Fields (c # cs) =
     (if is_space c then Fields cs
      else case cs of
        [] \<Rightarrow> [[c]]
      | d # _ \<Rightarrow> if is_space d then [c] # Fields cs
                 else (case Fields cs of [] \<Rightarrow> [[c]] | w # ws \<Rightarrow> (c # w) # ws))"

definition boundedValue :: "string \<Rightarrow> int \<Rightarrow> int \<Rightarrow> (cron_error, int) result" where
  "boundedValue s minVal maxVal =
     (case Atoi (TrimSpace s) of
        None \<Rightarrow> Inl (ErrNotNumber s)
      | Some v \<Rightarrow> if v < minVal \<or> v > maxVal then Inl (ErrOutOfRange v minVal maxVal) else Inr v)"

text \<open>The loop that fills the set of a part.  The counter is a 64-bit \<^verbatim>\<open>int\<close> and wraps around.\<close>

definition wrap64 :: "int \<Rightarrow> int" where
  "wrap64 x = (x + 2 ^ 63) mod 2 ^ 64 - 2 ^ 63"

partial_function (option) fill :: "int \<Rightarrow> int \<Rightarrow> int \<Rightarrow> int list \<Rightarrow> int list option" where
  "fill step hi v acc = (if v \<le> hi then fill step hi (wrap64 (v + step)) (v # acc) else Some acc)"

declare fill.simps [code]

text \<open>A part: its step, and the text before it.\<close>

definition part_step :: "string \<Rightarrow> (cron_error, int \<times> string) result" where
  "part_step part =
     (case Cut part CHR ''/'' of
        None \<Rightarrow> Inr (1, part)
      | Some (base, stepStr) \<Rightarrow>
          (case Atoi stepStr of
             None \<Rightarrow> Inl (ErrStep part)
           | Some n \<Rightarrow> if n < 1 then Inl (ErrStep part) else Inr (n, base)))"

definition part_range :: "int \<Rightarrow> string \<Rightarrow> int \<Rightarrow> int \<Rightarrow> (cron_error, int \<times> int) result" where
  "part_range step part minVal maxVal =
     (if part = ''*'' then Inr (minVal, maxVal)
      else case Cut part CHR ''-'' of
        Some (loStr, hiStr) \<Rightarrow>
          (case boundedValue loStr minVal maxVal of
             Inl e \<Rightarrow> Inl e
           | Inr lo \<Rightarrow>
               (case boundedValue hiStr minVal maxVal of
                  Inl e \<Rightarrow> Inl e
                | Inr hi \<Rightarrow> if lo > hi then Inl (ErrInverted part) else Inr (lo, hi)))
      | None \<Rightarrow>
          (case boundedValue part minVal maxVal of
             Inl e \<Rightarrow> Inl e
           | Inr v \<Rightarrow> Inr (v, if step > 1 then maxVal else v)))"

fun parse_parts ::
  "string \<Rightarrow> int \<Rightarrow> int \<Rightarrow> string list \<Rightarrow> int list \<Rightarrow> (cron_error, int list) result option" where
  "parse_parts field minVal maxVal [] acc = Some (Inr acc)"
| "parse_parts field minVal maxVal (part # parts) acc =
     (if part = [] then Some (Inl (ErrEmptyValue field))
      else case part_step part of
        Inl e \<Rightarrow> Some (Inl e)
      | Inr (step, base) \<Rightarrow>
          (case part_range step base minVal maxVal of
             Inl e \<Rightarrow> Some (Inl e)
           | Inr (lo, hi) \<Rightarrow>
               (case fill step hi lo acc of
                  None \<Rightarrow> None
                | Some acc' \<Rightarrow> parse_parts field minVal maxVal parts acc')))"

definition parseField :: "string \<Rightarrow> int \<Rightarrow> int \<Rightarrow> (cron_error, int list) result option" where
  "parseField field minVal maxVal =
     (case parse_parts field minVal maxVal (Split field CHR '','') [] of
        None \<Rightarrow> None
      | Some (Inl e) \<Rightarrow> Some (Inl e)
      | Some (Inr vs) \<Rightarrow> if vs = [] then Some (Inl (ErrNoValue field)) else Some (Inr vs))"

fun parse_fields ::
  "(string \<times> (string \<times> int \<times> int)) list \<Rightarrow> (cron_error, int list list) result option" where
  "parse_fields [] = Some (Inr [])"
| "parse_fields ((f, (name, minVal, maxVal)) # rest) =
     (case parseField f minVal maxVal of
        None \<Rightarrow> None
      | Some (Inl e) \<Rightarrow> Some (Inl (ErrField name e))
      | Some (Inr vs) \<Rightarrow>
          (case parse_fields rest of
             None \<Rightarrow> None
           | Some (Inl e) \<Rightarrow> Some (Inl e)
           | Some (Inr sets) \<Rightarrow> Some (Inr (vs # sets))))"

definition Parse :: "string \<Rightarrow> (cron_error, Schedule) result option" where
  "Parse expr =
     (let fields = Fields expr in
      if length fields \<noteq> 5 then Some (Inl (ErrFields (length fields)))
      else case parse_fields (zip fields bounds) of
        None \<Rightarrow> None
      | Some (Inl e) \<Rightarrow> Some (Inl e)
      | Some (Inr sets) \<Rightarrow>
          Some (Inr \<lparr>minutes = sets ! 0, hours = sets ! 1, days = sets ! 2, months = sets ! 3, weekdays = sets ! 4,
                     dayRestricted = (fields ! 2 \<noteq> ''*''), weekdayRestricted = (fields ! 4 \<noteq> ''*'')\<rparr>))"

section \<open>The next occurrence\<close>

definition maxLookahead :: int where
  "maxLookahead = 5 * 366 * 24 * 60 * minute"

definition matchesDay :: "Schedule \<Rightarrow> location \<Rightarrow> int \<Rightarrow> bool" where
  "matchesDay s loc t =
     (let dom = Day loc t \<in> set (days s); wd = Weekday loc t \<in> set (weekdays s)
      in if dayRestricted s \<and> weekdayRestricted s then dom \<or> wd else dom \<and> wd)"

text \<open>The bodies of the three skips, each followed by the increment of the loop.\<close>

definition next_month_start :: "location \<Rightarrow> int \<Rightarrow> int" where
  "next_month_start loc t =
     AddDate loc (Date loc (Year loc t) (Month loc t) 1 0 0 0) 0 1 0 - minute + minute"

definition next_day_start :: "location \<Rightarrow> int \<Rightarrow> int" where
  "next_day_start loc t =
     AddDate loc (Date loc (Year loc t) (Month loc t) (Day loc t) 0 0 0) 0 0 1 - minute + minute"

definition next_hour_start :: "location \<Rightarrow> int \<Rightarrow> int" where
  "next_hour_start loc t =
     Date loc (Year loc t) (Month loc t) (Day loc t) (Hour loc t) 0 0 + (hour - minute) + minute"

partial_function (option) next_from :: "Schedule \<Rightarrow> location \<Rightarrow> int \<Rightarrow> int \<Rightarrow> int option" where
  "next_from s loc deadline t =
     (if \<not> t < deadline then Some 0
      else if Month loc t \<notin> set (months s) then next_from s loc deadline (next_month_start loc t)
      else if \<not> matchesDay s loc t then next_from s loc deadline (next_day_start loc t)
      else if Hour loc t \<notin> set (hours s) then next_from s loc deadline (next_hour_start loc t)
      else if Minute loc t \<in> set (minutes s) then Some t
      else next_from s loc deadline (t + minute))"

declare next_from.simps [code]

definition Next :: "Schedule \<Rightarrow> int \<Rightarrow> location option \<Rightarrow> int option" where
  "Next s after loc =
     (let l = (case loc of None \<Rightarrow> (\<lambda>_. 0) | Some l \<Rightarrow> l);
          t = Truncate after minute + minute
      in next_from s l (t + maxLookahead) t)"

section \<open>Occurrences in a location with a fixed offset\<close>

definition occurs :: "Schedule \<Rightarrow> location \<Rightarrow> int \<Rightarrow> bool" where
  "occurs s loc t \<longleftrightarrow>
     Month loc t \<in> set (months s) \<and> matchesDay s loc t \<and> Hour loc t \<in> set (hours s) \<and> Minute loc t \<in> set (minutes s)"

lemma wall_fixed [simp]: "wall (\<lambda>_. c) t = t + c"
  by (simp add: wall_def)

lemma Date_fixed: "Date (\<lambda>_. c) y m d h mi s = day_number y m d * day + h * hour + mi * minute + s - c"
  by (simp add: Date_def Let_def)

lemma div_same: "0 < q \<Longrightarrow> w \<le> u \<Longrightarrow> u < (w div q + 1) * q \<Longrightarrow> u div q = w div q" for q w u :: int
proof -
  assume q: "0 < q" and u: "w \<le> u" "u < (w div q + 1) * q"
  have "q * (u div q) < q * (w div q + 1)" using div_bounds(1) [OF q, of u] u(2) by (simp add: mult.commute)
  then show ?thesis using q u(1) zdiv_mono1 [of w u q] by simp
qed

lemma next_mult_less: "0 < q \<Longrightarrow> w < (w div q + 1) * q" for q w :: int
proof -
  assume "0 < q"
  then have "w mod q < q" by simp
  moreover have "(w div q + 1) * q = q * (w div q) + q" by (simp add: algebra_simps)
  ultimately show ?thesis using mult_div_mod_eq [of q w] by linarith
qed

lemma hour_of_day: "w mod 86400000000000 div 3600000000000 = w div 3600000000000 mod 24" for w :: int
proof -
  have "w mod (hour * 24) = hour * (w div hour mod 24) + w mod hour"
    by (rule zmod_zmult2_eq) simp
  then show ?thesis by simp
qed

lemma next_month_fixed:
  "next_month_start (\<lambda>_. c) t =
     day_number (year_of ((t + c) div day)) (month_of ((t + c) div day) + 1) 1 * day - c"
proof -
  define n where "n = (t + c) div 86400000000000"
  define n1 where "n1 = day_number (year_of n) (month_of n) 1"
  have D: "Date (\<lambda>_. c) (Year (\<lambda>_. c) t) (Month (\<lambda>_. c) t) 1 0 0 0 = n1 * day - c"
    by (simp add: Date_fixed Year_def Month_def n_def n1_def)
  show ?thesis
    unfolding next_month_start_def D AddDate_def Date_fixed
    by (simp add: Year_def Month_def Day_def Hour_def Minute_def first_of_month [OF n1_def] flip: n_def n1_def)
qed

lemma next_day_fixed: "next_day_start (\<lambda>_. c) t = ((t + c) div day + 1) * day - c"
proof -
  define n where "n = (t + c) div 86400000000000"
  have D: "Date (\<lambda>_. c) (Year (\<lambda>_. c) t) (Month (\<lambda>_. c) t) (Day (\<lambda>_. c) t) 0 0 0 = n * day - c"
    by (simp add: Date_fixed Year_def Month_def Day_def day_number_fields flip: n_def)
  show ?thesis
    unfolding next_day_start_def D AddDate_def Date_fixed
    by (simp add: Year_def Month_def Day_def Hour_def Minute_def day_number_next day_number_fields flip: n_def)
qed

lemma day_of_hour: "w div 86400000000000 = w div 3600000000000 div 24" for w :: int
  using zdiv_zmult2_eq [of 24 w 3600000000000] by simp

lemma next_hour_wall:
  "next_hour_start loc t = (let u = (wall loc t div hour) * hour in u - loc (u - loc u) + hour)"
proof -
  define k where "k = wall loc t div 3600000000000"
  have "day_number (Year loc t) (Month loc t) (Day loc t) * day + Hour loc t * hour = k * hour"
  proof -
    have "q * 86400000000000 + r * 3600000000000 = k * 3600000000000" if "24 * q + r = k" for q r :: int
      using that by auto
    from this [OF mult_div_mod_eq] show ?thesis
      by (simp add: Year_def Month_def Day_def Hour_def day_number_fields hour_of_day day_of_hour flip: k_def)
  qed
  then show ?thesis by (simp add: next_hour_start_def Date_def Let_def k_def)
qed

lemma next_hour_fixed: "next_hour_start (\<lambda>_. c) t = ((t + c) div hour + 1) * hour - c"
  by (simp add: next_hour_wall Let_def)

text \<open>Where the search stands still: no occurrence lies between an instant and the one it is moved to.\<close>

definition skips :: "Schedule \<Rightarrow> int \<Rightarrow> int \<Rightarrow> int \<Rightarrow> bool" where
  "skips s c t t' \<longleftrightarrow>
     t < t' \<and> minute dvd t' \<and> (\<forall>u. t \<le> u \<and> u < t' \<and> minute dvd u \<longrightarrow> \<not> occurs s (\<lambda>_. c) u)"

lemma skip_month:
  assumes "minute dvd c" "Month (\<lambda>_. c) t \<notin> set (months s)"
  shows "skips s c t (next_month_start (\<lambda>_. c) t)"
proof -
  define n where "n = (t + c) div day"
  define n' where "n' = day_number (year_of n) (month_of n + 1) 1"
  have t': "next_month_start (\<lambda>_. c) t = n' * day - c" by (simp only: next_month_fixed n_def n'_def)
  note nm = next_month [OF n'_def]
  have "n + 1 \<le> n'" using nm(1) by simp
  then have "(n + 1) * day \<le> n' * day" by simp
  then have "t < n' * day - c" using next_mult_less [of day "t + c"] unfolding n_def by simp
  moreover have "minute dvd n' * day - c" using assms(1) by (intro dvd_diff) simp_all
  moreover have "Month (\<lambda>_. c) u \<notin> set (months s)" if "t \<le> u" "u < n' * day - c" for u
  proof -
    have "n \<le> (u + c) div day" unfolding n_def using that(1) by (intro zdiv_mono1) simp_all
    moreover have "day * ((u + c) div day) < day * n'"
      using div_bounds(1) [of day "u + c"] that(2) by linarith
    then have "(u + c) div day < n'" by simp
    ultimately have "month_of ((u + c) div day) = month_of n" by (rule nm(2))
    then show ?thesis using assms(2) by (simp only: Month_def wall_fixed n_def not_False_eq_True)
  qed
  ultimately show ?thesis by (auto simp: skips_def occurs_def t')
qed

lemma skip_div:
  assumes "minute dvd c" "0 < q" "minute dvd q"
    and "\<And>u. (u + c) div q = (t + c) div q \<Longrightarrow> \<not> occurs s (\<lambda>_. c) u"
  shows "skips s c t (((t + c) div q + 1) * q - c)"
proof -
  have "t < ((t + c) div q + 1) * q - c" using next_mult_less [OF assms(2), of "t + c"] by simp
  moreover have "minute dvd ((t + c) div q + 1) * q - c" using assms(1,3) by (intro dvd_diff dvd_mult)
  moreover have "\<not> occurs s (\<lambda>_. c) u" if "t \<le> u" "u < ((t + c) div q + 1) * q - c" for u
    using that by (intro assms(4) div_same [OF assms(2)]) simp_all
  ultimately show ?thesis by (auto simp: skips_def)
qed

lemma skip_day:
  assumes "minute dvd c" "\<not> matchesDay s (\<lambda>_. c) t"
  shows "skips s c t (next_day_start (\<lambda>_. c) t)"
  unfolding next_day_fixed
  by (rule skip_div) (use assms in \<open>simp_all add: occurs_def matchesDay_def Day_def Weekday_def\<close>)

lemma skip_hour:
  assumes "minute dvd c" "Hour (\<lambda>_. c) t \<notin> set (hours s)"
  shows "skips s c t (next_hour_start (\<lambda>_. c) t)"
  unfolding next_hour_fixed
  by (rule skip_div) (use assms in \<open>simp_all add: occurs_def Hour_def hour_of_day\<close>)

lemma skip_minute:
  assumes "minute dvd t" "Minute (\<lambda>_. c) t \<notin> set (minutes s)"
  shows "skips s c t (t + minute)"
proof -
  have "u = t" if "t \<le> u" "u < t + minute" "minute dvd u" for u
  proof -
    have "minute dvd u - t" using that(3) assms(1) by (rule dvd_diff)
    then show ?thesis using that(1,2) zdvd_imp_le [of minute "u - t"] by force
  qed
  then show ?thesis using assms by (auto simp: skips_def occurs_def)
qed

definition first_occurrence :: "Schedule \<Rightarrow> int \<Rightarrow> int \<Rightarrow> int \<Rightarrow> int \<Rightarrow> bool" where
  "first_occurrence s c t deadline r \<longleftrightarrow>
     (if \<exists>u. t \<le> u \<and> u < deadline \<and> minute dvd u \<and> occurs s (\<lambda>_. c) u
      then t \<le> r \<and> r < deadline \<and> minute dvd r \<and> occurs s (\<lambda>_. c) r \<and>
           (\<forall>u. t \<le> u \<and> u < r \<and> minute dvd u \<longrightarrow> \<not> occurs s (\<lambda>_. c) u)
      else r = 0)"

lemma first_occurrence_skip:
  assumes "skips s c t t'" "first_occurrence s c t' deadline r"
  shows "first_occurrence s c t deadline r"
proof -
  have later: "t' \<le> u" if "t \<le> u" "minute dvd u" "occurs s (\<lambda>_. c) u" for u
    using assms(1) that leI unfolding skips_def by blast
  have "t \<le> t'" using assms(1) by (simp add: skips_def)
  show ?thesis
  proof (cases "\<exists>u. t' \<le> u \<and> u < deadline \<and> minute dvd u \<and> occurs s (\<lambda>_. c) u")
    case True
    then have "t' \<le> r \<and> r < deadline \<and> minute dvd r \<and> occurs s (\<lambda>_. c) r \<and>
        (\<forall>u. t' \<le> u \<and> u < r \<and> minute dvd u \<longrightarrow> \<not> occurs s (\<lambda>_. c) u)"
      using assms(2) unfolding first_occurrence_def by meson
    moreover have "\<exists>u. t \<le> u \<and> u < deadline \<and> minute dvd u \<and> occurs s (\<lambda>_. c) u"
      using True \<open>t \<le> t'\<close> order_trans by blast
    ultimately show ?thesis using later order_trans [OF \<open>t \<le> t'\<close>] unfolding first_occurrence_def by meson
  next
    case False
    then have "r = 0" using assms(2) unfolding first_occurrence_def by meson
    with False later show ?thesis unfolding first_occurrence_def by meson
  qed
qed

lemma next_from_fixed:
  assumes "minute dvd c"
  shows "minute dvd t \<Longrightarrow> \<exists>r. next_from s (\<lambda>_. c) deadline t = Some r \<and> first_occurrence s c t deadline r"
proof (induction "nat (deadline - t)" arbitrary: t rule: less_induct)
  case less
  let ?loc = "\<lambda>_ :: int. c"
  have step: ?case if "t < deadline" "skips s c t t'" "next_from s ?loc deadline t = next_from s ?loc deadline t'" for t'
  proof -
    have "nat (deadline - t') < nat (deadline - t)" "minute dvd t'" using that(1,2) by (auto simp: skips_def)
    then obtain r where "next_from s ?loc deadline t' = Some r" "first_occurrence s c t' deadline r"
      using less.hyps by blast
    then show ?thesis using first_occurrence_skip [OF that(2)] that(3) by auto
  qed
  note unf = next_from.simps [of s ?loc deadline t]
  show ?case
  proof (cases "t < deadline")
    case False
    then have "next_from s ?loc deadline t = Some 0" "first_occurrence s c t deadline 0"
      by (auto simp: unf first_occurrence_def)
    then show ?thesis by blast
  next
    case t: True
    consider "Month ?loc t \<notin> set (months s)"
      | "Month ?loc t \<in> set (months s)" "\<not> matchesDay s ?loc t"
      | "Month ?loc t \<in> set (months s)" "matchesDay s ?loc t" "Hour ?loc t \<notin> set (hours s)"
      | "Month ?loc t \<in> set (months s)" "matchesDay s ?loc t" "Hour ?loc t \<in> set (hours s)" "Minute ?loc t \<notin> set (minutes s)"
      | "occurs s ?loc t" by (auto simp: occurs_def)
    then show ?thesis
    proof cases
      case 1
      then show ?thesis using t skip_month [OF assms, of t s] by (intro step) (simp_all add: unf)
    next
      case 2
      then show ?thesis using t skip_day [OF assms, of s t] by (intro step) (simp_all add: unf)
    next
      case 3
      then show ?thesis using t skip_hour [OF assms, of t s] by (intro step) (simp_all add: unf)
    next
      case 4
      then show ?thesis using t skip_minute [OF less.prems, of c s] by (intro step) (simp_all add: unf)
    next
      case 5
      then have "next_from s ?loc deadline t = Some t" "first_occurrence s c t deadline t"
        using t less.prems by (auto simp: unf occurs_def first_occurrence_def)
      then show ?thesis by blast
    qed
  qed
qed

section \<open>A clock that is set back\<close>

text \<open>The search never leaves an instant whose skip leads back to it.  Where the clock is set back, the hour
  that happens twice has one wall-clock name, and \<^const>\<open>Date\<close> resolves it to its first pass when the
  location is west of Greenwich.\<close>

definition stuck :: "Schedule \<Rightarrow> location \<Rightarrow> int \<Rightarrow> int \<Rightarrow> bool" where
  "stuck s loc deadline t \<longleftrightarrow>
     t < deadline \<and> Month loc t \<in> set (months s) \<and> matchesDay s loc t \<and> Hour loc t \<notin> set (hours s) \<and>
     next_hour_start loc t = t"

lemma next_from_not_stuck: "next_from s loc deadline t = Some r \<Longrightarrow> \<not> stuck s loc deadline t"
proof (rule next_from.raw_induct [where P = "\<lambda>s loc deadline t r. \<not> stuck s loc deadline t"])
  fix f s loc deadline t r
  assume IH: "\<And>s loc deadline t r. f s loc deadline t = Some r \<Longrightarrow> \<not> stuck s loc deadline t"
    and eq: "(if \<not> t < deadline then Some 0
      else if Month loc t \<notin> set (months s) then f s loc deadline (next_month_start loc t)
      else if \<not> matchesDay s loc t then f s loc deadline (next_day_start loc t)
      else if Hour loc t \<notin> set (hours s) then f s loc deadline (next_hour_start loc t)
      else if Minute loc t \<in> set (minutes s) then Some t
      else f s loc deadline (t + minute)) = Some r"
  show "\<not> stuck s loc deadline t"
  proof
    assume "stuck s loc deadline t"
    then show False using eq IH [of s loc deadline t r] by (simp add: stuck_def)
  qed
qed

lemma stuck_diverges: "stuck s loc deadline t \<Longrightarrow> next_from s loc deadline t = None"
  using next_from_not_stuck by (cases "next_from s loc deadline t") blast+

definition set_back :: "int \<Rightarrow> int \<Rightarrow> location" where
  "set_back T a = (\<lambda>t. if t < T then a else a - hour)"

lemma repeated_hour:
  assumes "T - hour \<le> t" "t \<le> T" "hour dvd T + a"
  shows "wall (set_back T a) t div hour = (T + a) div hour - 1"
proof -
  obtain k where k: "T + a = hour * k" using assms(3) by blast
  have "0 \<le> wall (set_back T a) t - hour * (k - 1)" "wall (set_back T a) t - hour * (k - 1) < hour"
    using assms(1,2) k by (auto simp: wall_def set_back_def)
  then have "wall (set_back T a) t div hour = k - 1"
    by (intro int_div_pos_eq [of _ _ _ "wall (set_back T a) t - hour * (k - 1)"]) simp_all
  then show ?thesis by (simp add: k)
qed

lemma repeated_hour_fields:
  assumes "wall loc t div hour = wall loc t' div hour"
  shows "Month loc t = Month loc t'" "Day loc t = Day loc t'" "Weekday loc t = Weekday loc t'" "Hour loc t = Hour loc t'"
    and "next_hour_start loc t = next_hour_start loc t'"
  using assms by (simp_all add: Month_def Day_def Weekday_def Hour_def hour_of_day day_of_hour next_hour_wall)

lemma repeated_hour_again:
  assumes "a < hour" "hour dvd T + a"
  shows "next_hour_start (set_back T a) T = T"
proof -
  obtain k where "T + a = hour * k" using assms(2) by blast
  then have "((T + a) div hour - 1) * hour = T + a - hour" by simp
  then show ?thesis
    using assms(1) repeated_hour [of T T a, OF _ _ assms(2)] by (simp add: next_hour_wall Let_def set_back_def)
qed

section \<open>The parser returns\<close>

lemma wrap64_id: "- (2 ^ 63) \<le> x \<Longrightarrow> x < 2 ^ 63 \<Longrightarrow> wrap64 x = x"
  by (simp add: wrap64_def)

lemma wrap64_over: "2 ^ 63 \<le> x \<Longrightarrow> x < 2 ^ 64 \<Longrightarrow> wrap64 x = x - 2 ^ 64"
proof -
  assume "2 ^ 63 \<le> x" "x < 2 ^ 64"
  then have "(x + 2 ^ 63 - 2 ^ 64) mod 2 ^ 64 = x + 2 ^ 63 - 2 ^ 64" by (intro mod_pos_pos_trivial) simp_all
  then have "(x + 2 ^ 63) mod 2 ^ 64 = x + 2 ^ 63 - 2 ^ 64" by (simp only: minus_mod_self2)
  then show ?thesis by (simp add: wrap64_def)
qed

definition progression :: "int \<Rightarrow> int \<Rightarrow> int \<Rightarrow> int set" where
  "progression step lo hi = {x. lo \<le> x \<and> x \<le> hi \<and> step dvd x - lo}"

lemma progression_unfold:
  assumes "1 \<le> step" "lo \<le> hi"
  shows "progression step lo hi = insert lo (progression step (lo + step) hi)"
proof (intro set_eqI iffI)
  fix x assume x: "x \<in> progression step lo hi"
  then have "step dvd (x - lo) - step" using dvd_diff [of step "x - lo" step] by (simp add: progression_def)
  then have "step dvd x - (lo + step)" by (simp add: algebra_simps)
  moreover have "lo + step \<le> x" if "x \<noteq> lo" using x that zdvd_imp_le [of step "x - lo"] by (auto simp: progression_def)
  ultimately show "x \<in> insert lo (progression step (lo + step) hi)" using x by (auto simp: progression_def)
next
  fix x assume "x \<in> insert lo (progression step (lo + step) hi)"
  moreover have "step dvd x - lo" if "step dvd x - (lo + step)"
    using dvd_add [OF that dvd_refl] by simp
  ultimately show "x \<in> progression step lo hi" using assms by (auto simp: progression_def)
qed

lemma progression_empty: "hi < lo \<Longrightarrow> progression step lo hi = {}"
  by (auto simp: progression_def)

lemma fill_exact:
  assumes "1 \<le> step" "hi + step < 2 ^ 63"
  shows "- (2 ^ 62) \<le> v \<Longrightarrow> \<exists>r. fill step hi v acc = Some r \<and> set r = set acc \<union> progression step v hi"
proof (induction "nat (hi + 1 - v)" arbitrary: v acc rule: less_induct)
  case less
  show ?case
  proof (cases "v \<le> hi")
    case True
    then have "wrap64 (v + step) = v + step" using assms less.prems by (intro wrap64_id) simp_all
    moreover obtain r where "fill step hi (v + step) (v # acc) = Some r"
      "set r = set (v # acc) \<union> progression step (v + step) hi"
      using less.hyps [of "v + step" "v # acc"] less.prems True assms(1) by auto
    ultimately show ?thesis using True by (auto simp: fill.simps progression_unfold [OF assms(1)])
  qed (simp add: fill.simps progression_empty)
qed

text \<open>A step so large that the counter wraps: two rounds lead from \<open>v\<close> to \<open>v - 2 k\<close>.\<close>

lemma fill_wrapping:
  assumes "0 \<le> hi" "hi < 2 ^ 60" "step < 2 ^ 63" "2 ^ 63 \<le> hi + step"
  shows "0 \<le> v \<Longrightarrow> v \<le> hi \<Longrightarrow>
    \<exists>r. fill step hi v acc = Some r \<and> insert v (set acc) \<subseteq> set r \<and> (\<forall>x \<in> set r. x \<in> set acc \<or> x \<le> hi)"
proof (induction "nat v" arbitrary: v acc rule: less_induct)
  case less
  have halt: "fill step hi w acc' = Some (w # acc')" if "hi - 2 ^ 62 < w" "w \<le> hi" "w + step < 2 ^ 63" for w acc'
  proof -
    have "wrap64 (w + step) = w + step" "hi < w + step" using that assms by (auto intro!: wrap64_id)
    then show ?thesis using that(2) by (simp add: fill.simps [of _ _ w] fill.simps [of _ _ "w + step"])
  qed
  show ?case
  proof (cases "v + step < 2 ^ 63")
    case True
    then show ?thesis using halt [of v acc] less.prems assms(1,2) by auto
  next
    case False
    define u where "u = v + step - 2 ^ 64"
    define w where "w = u + step"
    have "wrap64 (v + step) = u" unfolding u_def using False less.prems assms by (intro wrap64_over) simp_all
    moreover have "wrap64 (u + step) = w"
      unfolding w_def using False less.prems assms by (intro wrap64_id) (simp_all add: u_def)
    moreover have u: "u \<le> hi" "w < v" "w \<le> hi" using less.prems assms by (simp_all add: u_def w_def)
    ultimately have fill: "fill step hi v acc = fill step hi w (u # v # acc)"
      using less.prems by (simp add: fill.simps [of _ _ v] fill.simps [of _ _ u])
    show ?thesis
    proof (cases "0 \<le> w")
      case True
      then obtain r where "fill step hi w (u # v # acc) = Some r" "insert w (set (u # v # acc)) \<subseteq> set r"
        "\<forall>x \<in> set r. x \<in> set (u # v # acc) \<or> x \<le> hi"
        using less.hyps [of w "u # v # acc"] u less.prems by auto
      then show ?thesis using fill less.prems u by auto
    next
      case w: False
      then have "fill step hi w (u # v # acc) = Some (w # u # v # acc)"
        using False less.prems assms by (intro halt) (simp_all add: u_def w_def)
      then show ?thesis using fill u less.prems by auto
    qed
  qed
qed

lemma fill_total:
  assumes "0 \<le> v" "v \<le> hi" "hi \<le> 59" "1 \<le> step" "step < 2 ^ 63"
  shows "\<exists>r. fill step hi v acc = Some r \<and> insert v (set acc) \<subseteq> set r \<and> (\<forall>x \<in> set r. x \<in> set acc \<or> x \<le> hi)"
proof (cases "hi + step < 2 ^ 63")
  case True
  then obtain r where "fill step hi v acc = Some r" "set r = set acc \<union> progression step v hi"
    using fill_exact [of step hi v acc] assms by auto
  then show ?thesis using assms by (auto simp: progression_def)
next
  case False
  then show ?thesis using assms by (intro fill_wrapping) simp_all
qed

lemma Atoi_range: "Atoi s = Some n \<Longrightarrow> n < 2 ^ 63"
  by (auto simp: Atoi_def Let_def split: prod.splits if_splits)

lemma part_step_InrD: "part_step part = Inr (step, base) \<Longrightarrow> 1 \<le> step \<and> step < 2 ^ 63"
  by (auto simp: part_step_def dest: Atoi_range [simplified] split: option.splits if_splits)

lemma boundedValue_InrD: "boundedValue s lo hi = Inr v \<Longrightarrow> lo \<le> v \<and> v \<le> hi"
  by (auto simp: boundedValue_def split: option.splits if_splits)

lemma part_range_InrD:
  "part_range step part minVal maxVal = Inr (lo, hi) \<Longrightarrow> minVal \<le> maxVal \<Longrightarrow> minVal \<le> lo \<and> lo \<le> hi \<and> hi \<le> maxVal"
  by (auto simp: part_range_def dest!: boundedValue_InrD split: option.splits if_splits sum.splits)

definition field_ok :: "int \<Rightarrow> int \<Rightarrow> int list \<Rightarrow> bool" where
  "field_ok minVal maxVal vs \<longleftrightarrow>
     (\<exists>x \<in> set vs. minVal \<le> x \<and> x \<le> maxVal) \<and> (\<forall>x \<in> set vs. x \<le> maxVal)"

lemma parse_parts_total:
  assumes "0 \<le> minVal" "minVal \<le> maxVal" "maxVal \<le> 59"
  shows "\<forall>x \<in> set acc. x \<le> maxVal \<Longrightarrow>
    \<exists>r. parse_parts field minVal maxVal parts acc = Some r \<and>
      (\<forall>vs. r = Inr vs \<longrightarrow> set acc \<subseteq> set vs \<and> (\<forall>x \<in> set vs. x \<le> maxVal) \<and>
         (parts = [] \<or> field_ok minVal maxVal vs))"
proof (induction parts arbitrary: acc)
  case (Cons part parts)
  show ?case
  proof (cases "part = []")
    case False
    show ?thesis
    proof (cases "part_step part")
      case (Inr sb)
      obtain step base where sb: "sb = (step, base)" by (cases sb)
      show ?thesis
      proof (cases "part_range step base minVal maxVal")
        case r: (Inr lohi)
        obtain lo hi where lohi: "lohi = (lo, hi)" by (cases lohi)
        have b: "minVal \<le> lo" "lo \<le> hi" "hi \<le> maxVal" "1 \<le> step" "step < 2 ^ 63"
          using part_range_InrD [of step base minVal maxVal lo hi] r part_step_InrD Inr assms(2) by (auto simp: sb lohi)
        obtain acc' where acc': "fill step hi lo acc = Some acc'" "insert lo (set acc) \<subseteq> set acc'"
          "\<forall>x \<in> set acc'. x \<in> set acc \<or> x \<le> hi"
          using fill_total [of lo hi step acc] b assms by auto
        have "\<forall>x \<in> set acc'. x \<le> maxVal" using acc'(3) Cons.prems b(3) by fastforce
        from Cons.IH [OF this] obtain r where r': "parse_parts field minVal maxVal parts acc' = Some r"
          "\<forall>vs. r = Inr vs \<longrightarrow> set acc' \<subseteq> set vs \<and> (\<forall>x \<in> set vs. x \<le> maxVal)" by blast
        moreover have "parse_parts field minVal maxVal (part # parts) acc = Some r"
          using False Inr r acc'(1) r'(1) by (simp add: sb lohi)
        moreover have "lo \<le> maxVal" using b by simp
        ultimately show ?thesis using acc'(2) b(1) by (auto simp: field_ok_def)
      qed (use False Inr in \<open>auto simp: sb\<close>)
    qed (use False in auto)
  qed simp
qed simp

lemma parseField_total:
  assumes "0 \<le> minVal" "minVal \<le> maxVal" "maxVal \<le> 59"
  shows "\<exists>r. parseField field minVal maxVal = Some r \<and> (\<forall>vs. r = Inr vs \<longrightarrow> field_ok minVal maxVal vs)"
proof -
  obtain r where "parse_parts field minVal maxVal (Split field CHR '','') [] = Some r"
    "\<forall>vs. r = Inr vs \<longrightarrow> field_ok minVal maxVal vs"
    using parse_parts_total [OF assms, of "[]" field "Split field CHR '',''"] by auto
  then show ?thesis by (cases r) (auto simp: parseField_def)
qed

lemma parse_fields_total:
  "\<forall>(f, n, lo, hi) \<in> set fs. 0 \<le> lo \<and> lo \<le> hi \<and> hi \<le> 59 \<Longrightarrow>
   \<exists>r. parse_fields fs = Some r \<and>
     (\<forall>sets. r = Inr sets \<longrightarrow> list_all2 (\<lambda>(f, n, lo, hi) vs. field_ok lo hi vs) fs sets)"
proof (induction fs rule: parse_fields.induct)
  case (2 f name lo hi rest)
  obtain r where r: "parseField f lo hi = Some r" "\<forall>vs. r = Inr vs \<longrightarrow> field_ok lo hi vs"
    using parseField_total [of lo hi f] "2.prems" by auto
  show ?case
  proof (cases r)
    case (Inr vs)
    then obtain q where q: "parse_fields rest = Some q"
      "\<forall>sets. q = Inr sets \<longrightarrow> list_all2 (\<lambda>(f, n, lo, hi) vs. field_ok lo hi vs) rest sets"
      using "2.IH" [of "Inr vs" vs] "2.prems" r by auto
    then show ?thesis using r Inr by (cases q) auto
  qed (use r in simp)
qed simp

definition wf_schedule :: "Schedule \<Rightarrow> bool" where
  "wf_schedule s \<longleftrightarrow> field_ok 0 59 (minutes s) \<and> field_ok 0 23 (hours s) \<and> field_ok 1 31 (days s) \<and>
     field_ok 1 12 (months s) \<and> field_ok 0 6 (weekdays s)"

lemma Parse_returns: "\<exists>r. Parse expr = Some r \<and> (\<forall>s. r = Inr s \<longrightarrow> wf_schedule s)"
proof (cases "length (Fields expr) = 5")
  case True
  then obtain a b c d e where f: "Fields expr = [a, b, c, d, e]"
    by (auto simp: length_Suc_conv numeral_eq_Suc)
  obtain r where "parse_fields (zip (Fields expr) bounds) = Some r"
    "\<forall>sets. r = Inr sets \<longrightarrow> list_all2 (\<lambda>(f, n, lo, hi) vs. field_ok lo hi vs) (zip (Fields expr) bounds) sets"
    using parse_fields_total [of "zip (Fields expr) bounds"] by (auto simp: f bounds_def)
  then show ?thesis
    by (cases r) (auto simp: Parse_def Let_def f bounds_def wf_schedule_def list_all2_Cons1)
qed (simp add: Parse_def Let_def)

section \<open>Printed expressions\<close>

text \<open>The grammar as a type, and its text.\<close>

datatype cron_base = Any | Val nat | Range nat nat

type_synonym cron_item = "cron_base \<times> nat option"

fun print_base :: "cron_base \<Rightarrow> string" where
  "print_base Any = ''*''"
| "print_base (Val v) = show_nat v"
| "print_base (Range a b) = show_nat a @ ''-'' @ show_nat b"

fun print_item :: "cron_item \<Rightarrow> string" where
  "print_item (b, None) = print_base b"
| "print_item (b, Some n) = print_base b @ ''/'' @ show_nat n"

definition print_field :: "cron_item list \<Rightarrow> string" where
  "print_field items = Join (map print_item items) '',''"

definition print_cron :: "cron_item list list \<Rightarrow> string" where
  "print_cron fs = Join (map print_field fs) '' ''"

text \<open>The values of an item in a field with values \<open>lo\<close> to \<open>hi\<close>: those of its range that a step reaches
  from the start of the range.  A single value with a step above one runs to the end of the field.\<close>

fun item_values :: "int \<Rightarrow> int \<Rightarrow> cron_item \<Rightarrow> int set" where
  "item_values lo hi (Any, st) = progression (int (case st of None \<Rightarrow> 1 | Some n \<Rightarrow> n)) lo hi"
| "item_values lo hi (Range a b, st) = progression (int (case st of None \<Rightarrow> 1 | Some n \<Rightarrow> n)) (int a) (int b)"
| "item_values lo hi (Val v, st) =
     (case st of None \<Rightarrow> {int v} | Some n \<Rightarrow> if n = 1 then {int v} else progression (int n) (int v) hi)"

definition in_field :: "int \<Rightarrow> int \<Rightarrow> nat \<Rightarrow> bool" where
  "in_field lo hi v \<longleftrightarrow> lo \<le> int v \<and> int v \<le> hi"

fun base_ok :: "int \<Rightarrow> int \<Rightarrow> cron_base \<Rightarrow> bool" where
  "base_ok lo hi Any = True"
| "base_ok lo hi (Val v) = in_field lo hi v"
| "base_ok lo hi (Range a b) = (in_field lo hi a \<and> in_field lo hi b \<and> a \<le> b)"

definition item_ok :: "int \<Rightarrow> int \<Rightarrow> cron_item \<Rightarrow> bool" where
  "item_ok lo hi it \<longleftrightarrow>
     base_ok lo hi (fst it) \<and> (case snd it of None \<Rightarrow> True | Some n \<Rightarrow> 1 \<le> n \<and> n < 2 ^ 62)"

lemma show_nat_chars [simp]:
  "CHR ''/'' \<notin> set (show_nat n)" "CHR ''-'' \<notin> set (show_nat n)" "CHR '','' \<notin> set (show_nat n)"
  "CHR ''*'' \<notin> set (show_nat n)"
  using show_nat_digits [of _ n] digit_chars by metis+

lemma show_nat_space: "c \<in> set (show_nat n) \<Longrightarrow> \<not> is_space c"
  using show_nat_digits digit_chars(1) by blast

lemma print_item_chars:
  "CHR '','' \<notin> set (print_item it)" "c \<in> set (print_item it) \<Longrightarrow> \<not> is_space c" "print_item it \<noteq> []"
proof -
  have "CHR '','' \<notin> set (print_base b)" "\<forall>c \<in> set (print_base b). \<not> is_space c" "print_base b \<noteq> []" for b
    by (cases b; auto dest: show_nat_space simp: is_space_def)+
  then show "CHR '','' \<notin> set (print_item it)" "c \<in> set (print_item it) \<Longrightarrow> \<not> is_space c" "print_item it \<noteq> []"
    by (cases it; cases "snd it"; auto dest: show_nat_space simp: is_space_def)+
qed

lemma boundedValue_show: "in_field lo hi v \<Longrightarrow> hi \<le> 59 \<Longrightarrow> boundedValue (show_nat v) lo hi = Inr (int v)"
proof -
  assume "in_field lo hi v" "hi \<le> 59"
  moreover have "TrimSpace (show_nat v) = show_nat v" using show_nat_space by (rule TrimSpace_id)
  ultimately show ?thesis by (simp add: boundedValue_def in_field_def)
qed

lemma part_step_print:
  "item_ok lo hi (b, st) \<Longrightarrow> part_step (print_item (b, st)) = Inr (int (case st of None \<Rightarrow> 1 | Some n \<Rightarrow> n), print_base b)"
proof -
  assume ok: "item_ok lo hi (b, st)"
  have b: "CHR ''/'' \<notin> set (print_base b)" by (cases b) simp_all
  show ?thesis
  proof (cases st)
    case None
    then show ?thesis using b by (simp add: part_step_def Cut_none)
  next
    case (Some n)
    then show ?thesis using b ok by (simp add: part_step_def item_ok_def)
  qed
qed

lemma part_range_print:
  assumes "base_ok lo hi b" "hi \<le> 59"
  shows "part_range step (print_base b) lo hi =
    Inr (case b of Any \<Rightarrow> (lo, hi) | Val v \<Rightarrow> (int v, if step > 1 then hi else int v) | Range a c \<Rightarrow> (int a, int c))"
proof (cases b)
  case (Val v)
  have "show_nat v \<noteq> ''*''" using show_nat_chars(4) [of v] by (metis list.set_intros(1))
  then show ?thesis using assms Val by (simp add: part_range_def boundedValue_show Cut_none)
next
  case (Range a c)
  then have "print_base b \<noteq> ''*''" using show_nat_chars(2) by (auto simp: append_eq_Cons_conv)
  then show ?thesis using assms Range by (simp add: part_range_def boundedValue_show)
qed (simp add: part_range_def)

lemma parse_parts_print:
  assumes "0 \<le> lo" "hi \<le> 59"
  shows "\<forall>it \<in> set items. item_ok lo hi it \<Longrightarrow>
    \<exists>vs. parse_parts field lo hi (map print_item items) acc = Some (Inr vs) \<and>
      set vs = set acc \<union> (\<Union>it \<in> set items. item_values lo hi it)"
proof (induction items arbitrary: acc)
  case (Cons it items)
  obtain b st where it: "it = (b, st)" by (cases it)
  define n where "n = int (case st of None \<Rightarrow> 1 | Some n \<Rightarrow> n)"
  obtain l h where lh: "part_range n (print_base b) lo hi = Inr (l, h)"
    "(l, h) = (case b of Any \<Rightarrow> (lo, hi) | Val v \<Rightarrow> (int v, if n > 1 then hi else int v) | Range a c \<Rightarrow> (int a, int c))"
    using part_range_print [of lo hi b n] Cons.prems assms(2) by (cases b) (auto simp: it item_ok_def)
  have n: "1 \<le> n" "n < 2 ^ 62" using Cons.prems by (auto simp: n_def it item_ok_def split: option.splits)
  have "- (2 ^ 62) \<le> l" "h + n < 2 ^ 63" using lh(2) n assms Cons.prems
    by (auto simp: it item_ok_def in_field_def split: cron_base.splits if_splits)
  then obtain acc' where acc': "fill n h l acc = Some acc'" "set acc' = set acc \<union> progression n l h"
    using fill_exact [OF n(1)] by blast
  have "progression n l h = item_values lo hi it"
    using lh(2) n(1) by (cases b; cases st) (auto simp: it n_def progression_def split: if_splits)
  moreover obtain vs where "parse_parts field lo hi (map print_item items) acc' = Some (Inr vs)"
    "set vs = set acc' \<union> (\<Union>it \<in> set items. item_values lo hi it)"
    using Cons.IH [of acc'] Cons.prems by auto
  moreover have "part_step (print_item it) = Inr (n, print_base b)"
    using part_step_print [of lo hi b st] Cons.prems by (simp add: it n_def)
  ultimately show ?case using acc' lh(1) print_item_chars(3) [of it] by auto
qed simp

lemma parseField_print:
  assumes "0 \<le> lo" "lo \<le> hi" "hi \<le> 59" "items \<noteq> []" "\<forall>it \<in> set items. item_ok lo hi it"
  shows "\<exists>vs. parseField (print_field items) lo hi = Some (Inr vs) \<and> set vs = (\<Union>it \<in> set items. item_values lo hi it)"
proof -
  have "Split (print_field items) CHR '','' = map print_item items"
    using assms(4) print_item_chars(1) by (simp add: print_field_def)
  moreover obtain vs where "parse_parts (print_field items) lo hi (map print_item items) [] = Some (Inr vs)"
    "set vs = (\<Union>it \<in> set items. item_values lo hi it)"
    using parse_parts_print [OF assms(1,3,5), of "print_field items" "[]"] by auto
  ultimately have p: "parse_parts (print_field items) lo hi (Split (print_field items) CHR '','') [] = Some (Inr vs)"
    and vs: "set vs = (\<Union>it \<in> set items. item_values lo hi it)" by simp_all
  have "vs \<noteq> []" using parse_parts_total [OF assms(1-3), of "[]" "print_field items" "Split (print_field items) CHR '',''"] p
    by (auto simp: field_ok_def)
  then show ?thesis using p vs by (simp add: parseField_def)
qed

lemma Fields_word: "w \<noteq> [] \<Longrightarrow> \<forall>c \<in> set w. \<not> is_space c \<Longrightarrow> is_space sp \<Longrightarrow> Fields (w @ sp # s) = w # Fields s"
  by (induction w rule: induct_list012) auto

lemma Fields_last: "w \<noteq> [] \<Longrightarrow> \<forall>c \<in> set w. \<not> is_space c \<Longrightarrow> Fields w = [w]"
  by (induction w rule: induct_list012) auto

lemma Fields_Join: "\<forall>w \<in> set ws. w \<noteq> [] \<and> (\<forall>c \<in> set w. \<not> is_space c) \<Longrightarrow> Fields (Join ws '' '') = ws"
  by (induction ws "'' ''" rule: Join.induct) (simp_all add: Fields_last Fields_word is_space_def)

lemma print_base_star: "print_base b = ''*'' \<longleftrightarrow> b = Any"
proof (cases b)
  case (Val v)
  then show ?thesis using show_nat_chars(4) [of v] by (metis cron_base.distinct(1) list.set_intros(1) print_base.simps(2))
next
  case (Range a c)
  then show ?thesis by (auto simp: append_eq_Cons_conv)
qed simp

lemma print_item_star: "print_item it = ''*'' \<longleftrightarrow> it = (Any, None)"
proof (cases it)
  case (Pair b st)
  show ?thesis
  proof (cases st)
    case None
    then show ?thesis by (simp add: Pair print_base_star)
  next
    case (Some n)
    have "CHR ''/'' \<in> set (print_item it)" by (simp add: Pair Some)
    then have "print_item it \<noteq> ''*''" by auto
    then show ?thesis by (simp add: Pair Some)
  qed
qed

lemma print_field_star: "print_field f = ''*'' \<longleftrightarrow> f = [(Any, None)]"
proof (cases f)
  case (Cons it f')
  show ?thesis
  proof (cases f')
    case Nil
    then show ?thesis by (simp add: Cons print_field_def print_item_star)
  next
    case (Cons it' f'')
    have "CHR '','' \<in> set (print_field f)" by (simp add: \<open>f = it # f'\<close> Cons print_field_def)
    then have "print_field f \<noteq> ''*''" by auto
    then show ?thesis using \<open>f = it # f'\<close> Cons by simp
  qed
qed (simp add: print_field_def)

lemma Join_set: "c \<in> set (Join ws sep) \<Longrightarrow> c \<in> set sep \<or> (\<exists>w \<in> set ws. c \<in> set w)"
  by (induction ws sep rule: Join.induct) auto

lemma print_field_word: "f \<noteq> [] \<Longrightarrow> print_field f \<noteq> [] \<and> (\<forall>c \<in> set (print_field f). \<not> is_space c)"
  using Join_empty_iff [of "map print_item f" "'',''"] print_item_chars(2,3)
  by (auto simp: print_field_def is_space_def dest!: Join_set)

definition well_typed :: "cron_item list list \<Rightarrow> bool" where
  "well_typed fs = list_all2 (\<lambda>f (_, lo, hi). f \<noteq> [] \<and> (\<forall>it \<in> set f. item_ok lo hi it)) fs bounds"

definition denotes :: "cron_item list \<Rightarrow> int \<Rightarrow> int \<Rightarrow> int list \<Rightarrow> bool" where
  "denotes f lo hi vs \<longleftrightarrow> set vs = (\<Union>it \<in> set f. item_values lo hi it)"

text \<open>\<^verbatim>\<open>*/15 3,5-7 * * 1-5\<close>\<close>

definition sample_fields :: "cron_item list list" where
  "sample_fields = [[(Any, Some 15)], [(Val 3, None), (Range 5 7, None)], [(Any, None)], [(Any, None)], [(Range 1 5, None)]]"

section \<open>Properties\<close>

text \<open>C34.  The parser returns on every text, although its loop counter may wrap around; an accepted schedule
  allows in every field some value of the field and none above it.\<close>

theorem Parse_total: "\<exists>r. Parse expr = Some r \<and> (\<forall>s. r = Inr s \<longrightarrow> wf_schedule s)"
  by (rule Parse_returns)

theorem Parse_total_witness:
  "\<exists>s. Parse ''5/9223372036854775807 3 * * *'' = Some (Inr s) \<and> wf_schedule s \<and> set (minutes s) \<inter> {0..} = {1, 3, 5}"
proof -
  have "case Parse ''5/9223372036854775807 3 * * *'' of
      Some (Inr s) \<Rightarrow> minutes s = [- 1, - 9223372036854775808, 1, - 9223372036854775806, 3, - 9223372036854775804, 5]
    | _ \<Rightarrow> False" by code_simp
  then show ?thesis
    using Parse_total [of "''5/9223372036854775807 3 * * *''"] by (auto split: option.splits sum.splits)
qed



text \<open>C36.  In a location with a fixed offset of whole minutes the search returns, and what it returns is the
  first minute after the given instant at which the schedule occurs, within the next 1830 days; it is the zero
  time exactly when there is none.\<close>

theorem Next_first:
  assumes "minute dvd c"
  shows "\<exists>r. Next s after (Some (\<lambda>_. c)) = Some r \<and>
    first_occurrence s c (Truncate after minute + minute) (Truncate after minute + minute + maxLookahead) r"
proof -
  have "minute dvd Truncate after minute + minute"
    unfolding Truncate_def by (intro dvd_add dvd_minus_mod dvd_refl)
  from next_from_fixed [OF assms this] show ?thesis by (simp add: Next_def Let_def)
qed

text \<open>Three in the morning, every day, in a location one hour east of Greenwich.\<close>

definition nightly :: Schedule where
  "nightly = \<lparr>minutes = [30], hours = [3], days = [1..31], months = [1..12], weekdays = [0..6],
              dayRestricted = False, weekdayRestricted = False\<rparr>"

theorem Next_first_witness:
  "minute dvd hour \<and>
   (\<exists>r. Next nightly (day_number 2026 7 11 * day) (Some (\<lambda>_. hour)) = Some r \<and>
      r = day_number 2026 7 11 * day + 2 * hour + 30 * minute \<and>
      first_occurrence nightly hour (Truncate (day_number 2026 7 11 * day) minute + minute)
        (Truncate (day_number 2026 7 11 * day) minute + minute + maxLookahead) r)"
proof (intro conjI)
  show d: "minute dvd hour" by simp
  have "Next nightly (day_number 2026 7 11 * day) (Some (\<lambda>_. hour)) =
      Some (day_number 2026 7 11 * day + 2 * hour + 30 * minute)" by code_simp
  then show "\<exists>r. Next nightly (day_number 2026 7 11 * day) (Some (\<lambda>_. hour)) = Some r \<and>
      r = day_number 2026 7 11 * day + 2 * hour + 30 * minute \<and>
      first_occurrence nightly hour (Truncate (day_number 2026 7 11 * day) minute + minute)
        (Truncate (day_number 2026 7 11 * day) minute + minute + maxLookahead) r"
    using Next_first [OF d, of nightly "day_number 2026 7 11 * day"] by auto
qed

text \<open>C37.  The search does not always return.  In a location whose offset falls by one hour at \<open>T\<close>, with a
  summer offset below one hour, a schedule that includes that day but not the repeated hour sends the search
  into an endless loop from every instant of the hour before \<open>T\<close>.\<close>

theorem Next_never_returns:
  assumes "a < hour" "hour dvd T + a"
    and "Month (set_back T a) T \<in> set (months s)" "matchesDay s (set_back T a) T"
    and "Hour (set_back T a) T \<notin> set (hours s)"
    and "T - hour \<le> Truncate after minute + minute" "Truncate after minute + minute \<le> T"
  shows "Next s after (Some (set_back T a)) = None"
proof -
  let ?loc = "set_back T a"
  define t where "t = Truncate after minute + minute"
  note t = assms(6,7) [folded t_def]
  have wall: "wall ?loc t div hour = wall ?loc T div hour"
    using repeated_hour [OF t assms(2)] repeated_hour [of T T a, OF _ _ assms(2)] by simp
  note f = repeated_hour_fields [OF wall]
  have dl: "t < t + maxLookahead" "T < t + maxLookahead" using t(1) by (simp_all add: maxLookahead_def)
  have "stuck s ?loc (t + maxLookahead) T"
    using assms(3-5) dl repeated_hour_again [OF assms(1,2)] by (simp add: stuck_def)
  then have "next_from s ?loc (t + maxLookahead) T = None" by (rule stuck_diverges)
  moreover have "next_from s ?loc (t + maxLookahead) t = next_from s ?loc (t + maxLookahead) T"
    using assms(3-5) dl f repeated_hour_again [OF assms(1,2)]
    by (subst next_from.simps) (simp add: matchesDay_def)
  ultimately show ?thesis by (simp only: Next_def Let_def option.case t_def)
qed

text \<open>New York on November 2, 2025: at 06:00 UTC the clock goes from 02:00 back to 01:00, five hours behind
  Greenwich.  The nightly schedule, asked at 01:00 for its next occurrence, never answers.\<close>

theorem Next_never_returns_witness:
  "Next nightly (day_number 2025 11 2 * day + 5 * hour)
     (Some (set_back (day_number 2025 11 2 * day + 6 * hour) (- 4 * hour))) = None"
proof (rule Next_never_returns)
  let ?T = "day_number 2025 11 2 * day + 6 * hour"
  have T: "?T = 63897660000000000000" by code_simp
  show "- 4 * hour < hour" "hour dvd ?T + - 4 * hour" by (simp_all add: T)
  show "Month (set_back ?T (- 4 * hour)) ?T \<in> set (months nightly)"
    "matchesDay nightly (set_back ?T (- 4 * hour)) ?T" "Hour (set_back ?T (- 4 * hour)) ?T \<notin> set (hours nightly)"
    by code_simp+
  show "?T - hour \<le> Truncate (day_number 2025 11 2 * day + 5 * hour) minute + minute"
    "Truncate (day_number 2025 11 2 * day + 5 * hour) minute + minute \<le> ?T" by code_simp+
qed

text \<open>The lookahead of five leap years does not reach every occurrence: 2100 is not a leap year, so a schedule for
  February 29 asked in March 2096 is told that it never occurs, although it does in 2104.\<close>

definition leap_day :: Schedule where
  "leap_day = \<lparr>minutes = [0], hours = [0], days = [29], months = [2], weekdays = [0..6],
               dayRestricted = True, weekdayRestricted = False\<rparr>"

lemma leap_day_is_59: "month_of n = 2 \<Longrightarrow> mday_of n = 29 \<Longrightarrow> leap (year_of n) = 1 \<and> n = year_start (year_of n) + 59"
  using month_of_bounds [of n] leap_cases [of "year_of n"] by (auto simp: mday_of_def before_month_def)

lemma no_leap_day_until_2101:
  assumes "day_number 2096 3 1 \<le> n" "n \<le> day_number 2096 3 1 + 1830"
  shows "\<not> (month_of n = 2 \<and> mday_of n = 29)"
proof
  assume "month_of n = 2 \<and> mday_of n = 29"
  then have l: "leap (year_of n) = 1" "n = year_start (year_of n) + 59" using leap_day_is_59 by blast+
  have start: "day_number 2096 3 1 = year_start 2096 + 60" "day_number 2096 3 1 + 1830 < year_start 2102"
    by code_simp+
  have "2096 \<le> year_of n" "year_of n \<le> 2101"
    using year_of_bounds [of n] assms start year_start_mono [of "year_of n + 1" 2096] year_start_mono [of 2102 "year_of n"]
    by linarith+
  then have "year_of n \<in> {2096, 2097, 2098, 2099, 2100, 2101}" by auto
  then have "year_of n = 2096" using l(1) by (auto simp: leap_def)
  then show False using l(2) assms(1) start(1) by simp
qed

lemma lookahead_misses_2104:
  "Next leap_day (day_number 2096 3 1 * day) None = Some 0 \<and> occurs leap_day (\<lambda>_. 0) (day_number 2104 2 29 * day)"
proof
  let ?t = "day_number 2096 3 1 * day"
  have t: "?t = 66116995200000000000 \<and> day_number 2096 3 1 = 765243" by code_simp
  have "\<not> occurs leap_day (\<lambda>_. 0) u" if "Truncate ?t minute + minute \<le> u" "u < Truncate ?t minute + minute + maxLookahead" for u
  proof -
    have "765243 \<le> u div day" "u div day \<le> 765243 + 1830"
      using that by (simp_all add: t Truncate_def maxLookahead_def)
    then show ?thesis
      using no_leap_day_until_2101 [of "u div day"] by (auto simp: t occurs_def matchesDay_def Month_def Day_def leap_day_def)
  qed
  then have "first_occurrence leap_day 0 (Truncate ?t minute + minute) (Truncate ?t minute + minute + maxLookahead) r \<Longrightarrow> r = 0" for r
    unfolding first_occurrence_def by meson
  moreover have "minute dvd Truncate ?t minute + minute" by (simp add: t Truncate_def)
  then obtain r where "next_from leap_day (\<lambda>_. 0) (Truncate ?t minute + minute + maxLookahead) (Truncate ?t minute + minute) = Some r"
    "first_occurrence leap_day 0 (Truncate ?t minute + minute) (Truncate ?t minute + minute + maxLookahead) r"
    using next_from_fixed [of 0] by (metis dvd_0_right)
  ultimately show "Next leap_day ?t None = Some 0" by (simp add: Next_def Let_def)
  show "occurs leap_day (\<lambda>_. 0) (day_number 2104 2 29 * day)" by code_simp
qed

end
