(* ===== verification/CronPass.thy ===== *)
theory CronPass
  imports Cron JobQueue
begin

text \<open>
  What the cron passes of the scheduler (\<^verbatim>\<open>src/internal/scheduler/backups.go\<close>,
  \<^verbatim>\<open>scheduledtasks.go\<close>) have in common: the surroundings of a pass, the loop over the listed rows, and the
  window computed from \<^const>\<open>Next\<close>.  The surroundings are the clock, the cancellation of the context, the time
  zone database, fresh uuids, and what becomes of each statement: it is answered, it never reaches the database, or
  it is carried out and its answer is lost.  The locale \<open>row_pass\<close> is the contract of the loop: a step that
  leaves what the other rows see as it was.  Then the effect of the whole pass on a row is the effect of its one step.
\<close>

section \<open>The surroundings of a pass\<close>

datatype reply = Answered | NotSent | Unanswered

datatype db_call = CallCount | CallExecution | CallEnqueue | CallAdvance

datatype sched_error = ErrCron cron_error | ErrLocation | ErrStore | ErrQueue queue_error

text \<open>\<open>e_listed\<close> tells whether the listing query succeeds.  The clock inside a step, the cancellation, the replies and
  the uuids are given for the id of the row.\<close>

record sched_env =
  e_now :: int
  e_listed :: bool
  e_clock :: "int \<Rightarrow> int"
  e_cancelled :: "int \<Rightarrow> bool"
  e_reply :: "int \<Rightarrow> db_call \<Rightarrow> reply"
  e_uuid :: "int \<Rightarrow> string option"
  e_location :: "string \<Rightarrow> location option"

text \<open>Of the resources the listings read these columns.\<close>

record resource_row =
  rs_ID :: int
  rs_Uuid :: string
  rs_TeamID :: int
  rs_DeletedAt :: "int option"

definition coalesce :: "'a option \<Rightarrow> 'a option \<Rightarrow> 'a option" where
  "coalesce a b = (case a of None \<Rightarrow> b | Some x \<Rightarrow> Some x)"

text \<open>A statement without a result.\<close>

definition exec_stmt :: "reply \<Rightarrow> ('db \<Rightarrow> 'db) \<Rightarrow> 'db \<Rightarrow> sched_error option \<times> 'db" where
  "exec_stmt r f db =
     (case r of Answered \<Rightarrow> (None, f db) | NotSent \<Rightarrow> (Some ErrStore, db) | Unanswered \<Rightarrow> (Some ErrStore, f db))"

text \<open>\<^const>\<open>Enqueue\<close> on the jobs table, its insert subject to the reply.\<close>

definition enqueue_job ::
  "sched_env \<Rightarrow> int \<Rightarrow> ('p \<Rightarrow> string option) \<Rightarrow> 'p EnqueueOptions \<Rightarrow> jobs_table
     \<Rightarrow> (sched_error, Job) result \<times> jobs_table" where
  "enqueue_job env i marshal opts db =
     (case e_reply env i CallEnqueue of
        NotSent \<Rightarrow> (Inl ErrStore, db)
      | r \<Rightarrow>
          (case Enqueue (EnqueueJob (e_clock env i)) GetJobByIdempotencyKey marshal (e_uuid env i) (e_clock env i) opts db of
             (Inl e, db') \<Rightarrow> (Inl (ErrQueue e), db')
           | (Inr job, db') \<Rightarrow> (if r = Answered then Inr job else Inl ErrStore, db')))"

text \<open>The window after an instant: \<^const>\<open>None\<close> inside when the next occurrence is the zero time, outside when the
  search does not return.\<close>

definition next_window :: "Schedule \<Rightarrow> int \<Rightarrow> location \<Rightarrow> int option option" where
  "next_window schedule now loc =
     (case Next schedule now (Some loc) of None \<Rightarrow> None | Some next \<Rightarrow> Some (if next = 0 then None else Some next))"

text \<open>\<^verbatim>\<open>json.Marshal\<close> of an \<^verbatim>\<open>int64\<close>.\<close>

definition show_int :: "int \<Rightarrow> string" where
  "show_int i = (if i < 0 then ''-'' @ show_nat (nat (- i)) else show_nat (nat i))"

text \<open>The loop: it ends early when the context is cancelled; the error of a step is logged and the loop goes on.\<close>

fun run_pass :: "('row \<Rightarrow> bool) \<Rightarrow> ('row \<Rightarrow> 'db \<Rightarrow> (sched_error option \<times> 'db) option) \<Rightarrow> 'row list \<Rightarrow> 'db \<Rightarrow> 'db option" where
  "run_pass cancelled step [] db = Some db"
| "run_pass cancelled step (r # rs) db =
     (if cancelled r then Some db
      else case step r db of None \<Rightarrow> None | Some (_, db') \<Rightarrow> run_pass cancelled step rs db')"

section \<open>The contract of the loop\<close>

locale row_pass =
  fixes step :: "'row \<Rightarrow> 'db \<Rightarrow> (sched_error option \<times> 'db) option"
    and apart :: "'row \<Rightarrow> 'row \<Rightarrow> bool"
    and view :: "'row \<Rightarrow> 'db \<Rightarrow> 'v"
    and inv :: "'row list \<Rightarrow> 'db \<Rightarrow> bool"
  assumes frame: "step r db = Some (e, db') \<Longrightarrow> apart r r' \<Longrightarrow> view r' db' = view r' db"
    and keeps: "inv rs db \<Longrightarrow> step r db = Some (e, db') \<Longrightarrow> inv (rs @ [r]) db'"
begin

lemma others_unchanged:
  "run_pass c step rs db = Some db' \<Longrightarrow> \<forall>r \<in> set rs. apart r r' \<Longrightarrow> view r' db' = view r' db"
  by (induction rs arbitrary: db) (auto simp: frame split: if_splits option.splits)

text \<open>A row of the pass is left alone, the loop having ended before it, or changed by its own step only, taken in a
  state in which it still sees what it saw at the start.\<close>

lemma own_step:
  assumes "run_pass c step rs db = Some db'" "inv seen db" "distinct rs" "r \<in> set rs"
    and "pairwise apart (set rs)"
  shows "view r db' = view r db \<and> (\<exists>x \<in> set rs. c x) \<or>
    (\<exists>before after d e d'. rs = before @ r # after \<and> inv (seen @ before) d \<and> view r d = view r db \<and>
       \<not> c r \<and> step r d = Some (e, d') \<and> view r db' = view r d')"
  using assms
proof (induction rs arbitrary: db seen)
  case (Cons x rs)
  show ?case
  proof (cases "c x")
    case True
    then show ?thesis using Cons.prems(1) by auto
  next
    case False
    then obtain e d where d: "step x db = Some (e, d)" "run_pass c step rs d = Some db'"
      using Cons.prems(1) by (auto split: option.splits)
    show ?thesis
    proof (cases "r = x")
      case True
      then have "\<forall>y \<in> set rs. apart y r" using Cons.prems(3,5) by (auto simp: pairwise_def)
      from others_unchanged [OF d(2) this] d(1) False Cons.prems(2) True
      have "x # rs = [] @ r # rs \<and> inv (seen @ []) db \<and> view r db = view r db \<and> \<not> c r \<and>
          step r db = Some (e, d) \<and> view r db' = view r d" by simp
      then show ?thesis by blast
    next
      case ne: False
      then have r: "r \<in> set rs" "apart x r" using Cons.prems(4,5) by (auto simp: pairwise_def)
      have pw: "pairwise apart (set rs)" using Cons.prems(5) by (auto simp: pairwise_def)
      have v: "view r d = view r db" using frame [OF d(1) r(2)] .
      from Cons.IH [OF d(2) keeps [OF Cons.prems(2) d(1)] _ r(1) pw] Cons.prems(3)
      consider "view r db' = view r d" "\<exists>x \<in> set rs. c x"
        | before after d2 e2 d' where "rs = before @ r # after" "inv ((seen @ [x]) @ before) d2"
          "view r d2 = view r d" "\<not> c r" "step r d2 = Some (e2, d')" "view r db' = view r d'"
        by auto
      then show ?thesis
      proof cases
        case 1
        then show ?thesis using v by auto
      next
        case 2
        then have "x # rs = (x # before) @ r # after \<and> inv (seen @ (x # before)) d2 \<and> view r d2 = view r db \<and> \<not> c r \<and>
            step r d2 = Some (e2, d') \<and> view r db' = view r d'" using v by simp
        then show ?thesis by blast
      qed
    qed
  qed
qed simp

lemma pass_returns: "\<forall>r \<in> set rs. \<forall>d. step r d \<noteq> None \<Longrightarrow> \<exists>db'. run_pass c step rs db = Some db'"
  by (induction rs arbitrary: db) (auto simp del: not_None_eq split: option.splits)

end

section \<open>Windows and jobs\<close>

text \<open>In a location with a fixed offset the window is the first occurrence after the instant.\<close>

definition window_of :: "Schedule \<Rightarrow> int \<Rightarrow> int \<Rightarrow> int option \<Rightarrow> bool" where
  "window_of s c now w \<longleftrightarrow>
     (case w of
        None \<Rightarrow> \<not> (\<exists>u. now < u \<and> u < Truncate now minute + minute + maxLookahead \<and> minute dvd u \<and> occurs s (\<lambda>_. c) u)
      | Some u \<Rightarrow> now < u \<and> u < Truncate now minute + minute + maxLookahead \<and> minute dvd u \<and> occurs s (\<lambda>_. c) u \<and>
          (\<forall>v. now < v \<and> v < u \<and> minute dvd v \<longrightarrow> \<not> occurs s (\<lambda>_. c) v))"

lemma minute_after: "minute dvd u \<Longrightarrow> now < u \<longleftrightarrow> Truncate now minute + minute \<le> u"
proof -
  assume "minute dvd u"
  then obtain k where k: "u = minute * k" by blast
  define d m where "d = now div minute" and "m = now mod minute"
  have "now = minute * d + m" "0 \<le> m" "m < minute" by (simp_all add: d_def m_def)
  moreover from this have "now < minute * k \<longleftrightarrow> d < k" by (cases "d < k") auto
  ultimately have "now - m = minute * d" "now < minute * k \<longleftrightarrow> d < k" by simp_all
  then show ?thesis unfolding Truncate_def k m_def [symmetric] by (cases "d < k") auto
qed

lemma next_window_fixed:
  assumes "minute dvd c" "0 \<le> now"
  shows "\<exists>w. next_window s now (\<lambda>_. c) = Some w \<and> window_of s c now w"
proof -
  let ?t = "Truncate now minute + minute"
  have t: "minute dvd ?t" unfolding Truncate_def by (intro dvd_add dvd_minus_mod dvd_refl)
  with minute_after [OF t, of now] have "now < ?t" by blast
  from next_from_fixed [OF assms(1) t] obtain r where r: "Next s now (Some (\<lambda>_. c)) = Some r"
    "first_occurrence s c ?t (?t + maxLookahead) r" by (auto simp: Next_def Let_def)
  show ?thesis
  proof (cases "\<exists>u. ?t \<le> u \<and> u < ?t + maxLookahead \<and> minute dvd u \<and> occurs s (\<lambda>_. c) u")
    case True
    with r(2) have "?t \<le> r" "r < ?t + maxLookahead" "minute dvd r" "occurs s (\<lambda>_. c) r"
      "\<forall>u. ?t \<le> u \<and> u < r \<and> minute dvd u \<longrightarrow> \<not> occurs s (\<lambda>_. c) u" unfolding first_occurrence_def by meson+
    then have "window_of s c now (Some r)" "r \<noteq> 0"
      using minute_after \<open>now < ?t\<close> assms(2) unfolding window_of_def option.case by (auto simp del: )
    then show ?thesis using r(1) by (auto simp: next_window_def)
  next
    case False
    with r(2) have "r = 0" unfolding first_occurrence_def by meson
    moreover have "window_of s c now None" using False minute_after unfolding window_of_def option.case by blast
    ultimately show ?thesis using r(1) by (auto simp: next_window_def)
  qed
qed

text \<open>The time zone database knows locations with fixed offsets of whole minutes only.\<close>

definition fixed_zones :: "sched_env \<Rightarrow> bool" where
  "fixed_zones env \<longleftrightarrow> (\<forall>tz loc. e_location env tz = Some loc \<longrightarrow> (\<exists>c. minute dvd c \<and> loc = (\<lambda>_. c)))"

lemma fixed_zonesD: "fixed_zones env \<Longrightarrow> e_location env tz = Some loc \<Longrightarrow> \<exists>c. minute dvd c \<and> loc = (\<lambda>_. c)"
  unfolding fixed_zones_def by blast

lemma window_returns:
  "fixed_zones env \<Longrightarrow> 0 \<le> now \<Longrightarrow> e_location env tz = Some loc \<Longrightarrow> \<exists>w. next_window s now loc = Some w"
  using fixed_zonesD next_window_fixed by metis

text \<open>The jobs of a lock key, and the effect of an enqueue on them.\<close>

definition jobs_of :: "string \<Rightarrow> jobs_table \<Rightarrow> Job list" where
  "jobs_of k db = filter (\<lambda>j. LockKey j = Some k) (rows db)"

lemma count_jobs_of: "CountActiveJobsByLockKey (Some k) db = length (filter (\<lambda>j. waiting j \<or> active j) (jobs_of k db))"
  by (simp add: CountActiveJobsByLockKey_def affected_def jobs_of_def filter_filter conj_commute)

definition job_uuids :: "jobs_table \<Rightarrow> string set" where
  "job_uuids db = Uuid ` set (rows db)"

lemma job_uuids_added: "rows js = rows db @ [job] \<Longrightarrow> job_uuids js = insert (Uuid job) (job_uuids db)"
  by (simp add: job_uuids_def)

lemma enqueue_job_cases:
  assumes "enqueue_job env i marshal opts db = (res, db')" "o_IdempotencyKey opts = None" "o_LockKey opts = Some k"
  obtains (unchanged) e where "res = Inl e" "db' = db"
  | (added) job where "rows db' = rows db @ [job]" "LockKey job = Some k" "waiting job" "JobType job = o_Type opts"
      "Some (Uuid job) = e_uuid env i" "Uuid job \<notin> job_uuids db" "res = Inr job \<or> res = Inl ErrStore"
      "e_reply env i CallEnqueue = Answered \<longrightarrow> res = Inr job"
proof -
  obtain res2 db2 where e: "Enqueue (EnqueueJob (e_clock env i)) GetJobByIdempotencyKey marshal (e_uuid env i) (e_clock env i) opts db
      = (res2, db2)" by (metis surj_pair)
  show thesis
  proof (cases "e_reply env i CallEnqueue = NotSent \<or> (\<exists>x. res2 = Inl x)")
    case True
    moreover have "db2 = db" if "res2 = Inl x" for x
      using that e assms(2) by (auto simp: Enqueue_def insert_or_replay_def Let_def split: option.splits sum.splits if_splits)
    ultimately have "db' = db \<and> (\<exists>e. res = Inl e)" using assms(1) e
      by (cases "e_reply env i CallEnqueue") (auto simp: enqueue_job_def)
    then show thesis using unchanged by blast
  next
    case False
    then obtain job where job: "res2 = Inr job" by (cases res2) auto
    with e assms(2) obtain pl u q where ins: "EnqueueJob (e_clock env i) (enqueue_params q u (e_clock env i) opts pl) db = Inr (job, db2)"
      "e_uuid env i = Some u"
      by (auto simp: Enqueue_def insert_or_replay_def Let_def split: option.splits sum.splits if_splits)
    note d = EnqueueJob_InrD [OF ins(1)]
    have res: "res = (if e_reply env i CallEnqueue = Answered then Inr job else Inl ErrStore)" "db' = db2"
      using assms(1) e False job by (auto simp: enqueue_job_def split: reply.splits)
    have "Status job \<in> {JobStatusQueued, JobStatusScheduled}" using d(4) by (metis enqueue_params_simps(5))
    moreover have "Uuid job = u" "u \<notin> job_uuids db" "JobType job = o_Type opts"
      using ins(1) by (auto simp: EnqueueJob_def enqueue_params_def job_uuids_def Let_def list_ex_iff split: if_splits prod.splits)
    ultimately show thesis
      using d(1,10) res ins(2) assms(3) by (intro added [of job]) (auto simp: waiting_def)
  qed
qed

lemma enqueue_job_Answered:
  assumes "e_reply env i CallEnqueue = Answered" "o_IdempotencyKey opts = None" "o_RetryOfID opts = None"
    and "admissible marshal (e_uuid env i) opts" "the (e_uuid env i) \<notin> job_uuids db"
  shows "\<exists>job db'. enqueue_job env i marshal opts db = (Inr job, db')"
proof -
  obtain a where a: "0 < p_MaxAttempts a" "p_IdempotencyKey a = o_IdempotencyKey opts" "Some (p_Uuid a) = e_uuid env i"
    "p_RetryOfID a = o_RetryOfID opts"
    "Enqueue (EnqueueJob (e_clock env i)) GetJobByIdempotencyKey marshal (e_uuid env i) (e_clock env i) opts db =
       insert_or_replay (EnqueueJob (e_clock env i)) GetJobByIdempotencyKey opts a db"
    using assms(4) by (rule Enqueue_admissible)
  have "p_Uuid a \<notin> job_uuids db" using a(3) assms(5) by (metis option.sel)
  then have "\<not> list_ex (\<lambda>j. Uuid j = p_Uuid a) (rows db)" by (force simp: job_uuids_def list_ex_iff image_iff)
  then obtain job db2 where "EnqueueJob (e_clock env i) a db = Inr (job, db2)"
    using a(1,2,4) assms(2,3) by (simp add: EnqueueJob_def Let_def)
  then show ?thesis using a(5) assms(1) by (simp add: enqueue_job_def insert_or_replay_def)
qed

lemma filter_key_unique: "distinct (map f xs) \<Longrightarrow> x \<in> set xs \<Longrightarrow> filter (\<lambda>y. f y = f x) xs = [x]"
  by (induction xs) (auto simp: filter_empty_conv rev_image_eqI)

lemma jobs_of_added:
  "rows js = rows db @ [job] \<Longrightarrow> LockKey job = Some k \<Longrightarrow> jobs_of k js = jobs_of k db @ [job]"
  by (simp add: jobs_of_def)

text \<open>The uuids in the jobs table are those at the start and those drawn for the rows already visited.\<close>

definition uuids_from :: "('row \<Rightarrow> int) \<Rightarrow> ('db \<Rightarrow> jobs_table) \<Rightarrow> sched_env \<Rightarrow> string set \<Rightarrow> 'row list \<Rightarrow> 'db \<Rightarrow> bool" where
  "uuids_from ident jobs env U rs db \<longleftrightarrow> job_uuids (jobs db) \<subseteq> U \<union> {u. \<exists>r \<in> set rs. e_uuid env (ident r) = Some u}"

lemma uuids_from_step:
  assumes "uuids_from ident jobs env U rs db" "job_uuids (jobs db') \<subseteq> job_uuids (jobs db) \<union> {u. e_uuid env (ident r) = Some u}"
  shows "uuids_from ident jobs env U (rs @ [r]) db'"
  using assms unfolding uuids_from_def set_append by simp blast

lemma uuids_from_fresh:
  assumes "uuids_from ident jobs env U rs db" "e_uuid env i = Some u" "u \<notin> U" "inj_on (e_uuid env) I"
    and "i \<in> I" "\<And>r. r \<in> set rs \<Longrightarrow> ident r \<in> I \<and> ident r \<noteq> i"
  shows "u \<notin> job_uuids (jobs db)"
proof -
  have "e_uuid env (ident r) \<noteq> Some u" if "r \<in> set rs" for r
    using assms(2,5) assms(6) [OF that] inj_onD [OF assms(4), of "ident r" i] by auto
  then show ?thesis using assms(1,3) unfolding uuids_from_def by auto
qed

text \<open>Quiet surroundings for the examples: four in the morning, every statement answered, one time zone.\<close>

definition sample_env :: sched_env where
  "sample_env =
     \<lparr>e_now = day_number 2026 7 11 * day + 4 * hour, e_listed = True, e_clock = (\<lambda>_. day_number 2026 7 11 * day + 4 * hour),
      e_cancelled = (\<lambda>_. False), e_reply = (\<lambda>_ _. Answered), e_uuid = (\<lambda>i. Some (show_int i)),
      e_location = (\<lambda>tz. if tz = ''UTC'' then Some (\<lambda>_. 0) else None)\<rparr>"

lemma sample_fixed: "fixed_zones sample_env" "0 \<le> e_now sample_env"
  by (auto simp: fixed_zones_def sample_env_def split: if_splits) code_simp

end
