(* ===== verification/BackupSchedule.thy ===== *)
theory BackupSchedule
  imports CronPass
begin

text \<open>
  The cron pass over the backup plans (\<^verbatim>\<open>src/internal/scheduler/backups.go\<close>) with the queries it uses
  (\<^verbatim>\<open>src/internal/store/backups.sql.go\<close>) on the plans, the resources and stack components they belong to,
  and the jobs table.  A pass that does not return, because the search for the next occurrence does not
  (\<^const>\<open>next_window\<close>), is \<^const>\<open>None\<close>.  The lemmas show that whatever becomes of the statements a
  plan never gets a second active job, that a due plan fires once and its window moves past the present, and that
  in locations with fixed offsets the pass returns.
\<close>

section \<open>The tables\<close>

datatype RestoreDrillStatus = RestoreDrillStatusRunning | RestoreDrillStatusSucceeded | RestoreDrillStatusFailed

record DatabaseBackupPlan =
  bp_ID :: int
  bp_Uuid :: string
  bp_DatabaseID :: "int option"
  bp_ServiceComponentID :: "int option"
  bp_IsInstanceBackup :: bool
  bp_Enabled :: bool
  bp_CronExpression :: string
  bp_Timezone :: string
  bp_DumpAll :: bool
  bp_IncludedDatabases :: "string list"
  bp_ExcludedCollections :: "string list"
  bp_TimeoutSeconds :: int
  bp_S3StorageID :: "int option"
  bp_S3Only :: bool
  bp_SaveLocal :: bool
  bp_RetentionLocalMaxCount :: int
  bp_RetentionLocalMaxDays :: int
  bp_RetentionS3MaxCount :: int
  bp_RetentionS3MaxDays :: int
  bp_CreatedBy :: "int option"
  bp_CreatedAt :: int
  bp_UpdatedAt :: int
  bp_DeletedAt :: "int option"
  bp_Version :: int
  bp_NextRunAt :: "int option"
  bp_LastRunAt :: "int option"
  bp_DrillEnabled :: bool
  bp_DrillIntervalDays :: int
  bp_LastDrillAt :: "int option"
  bp_LastDrillStatus :: "RestoreDrillStatus option"

text \<open>The row of the listing is the plan with two more columns.\<close>

record ListSchedulableBackupPlansRow =
  lr_plan :: DatabaseBackupPlan
  lr_TeamID :: int
  lr_TargetResourceID :: int

text \<open>Of the stack components the listing reads these columns.\<close>

record component_row =
  sc_ID :: int
  sc_ResourceID :: int

record backup_db =
  b_plans :: "DatabaseBackupPlan list"
  b_resources :: "resource_row list"
  b_components :: "component_row list"
  b_jobs :: jobs_table

section \<open>The queries\<close>

text \<open>A row joined from the left: \<^const>\<open>None\<close> stands for the columns of nulls.\<close>

definition join_resource :: "backup_db \<Rightarrow> int option \<Rightarrow> resource_row option" where
  "join_resource db i = (case i of None \<Rightarrow> None | Some k \<Rightarrow> find (\<lambda>r. rs_ID r = k) (b_resources db))"

definition join_component :: "backup_db \<Rightarrow> int option \<Rightarrow> component_row option" where
  "join_component db i = (case i of None \<Rightarrow> None | Some k \<Rightarrow> find (\<lambda>c. sc_ID c = k) (b_components db))"

definition stack_resource :: "backup_db \<Rightarrow> DatabaseBackupPlan \<Rightarrow> resource_row option" where
  "stack_resource db p = join_resource db (map_option sc_ResourceID (join_component db (bp_ServiceComponentID p)))"

definition schedulable :: "backup_db \<Rightarrow> DatabaseBackupPlan \<Rightarrow> bool" where
  "schedulable db p \<longleftrightarrow> bp_Enabled p \<and> bp_DeletedAt p = None \<and>
     (bp_DatabaseID p \<noteq> None \<and> Option.bind (join_resource db (bp_DatabaseID p)) rs_DeletedAt = None \<or>
      bp_ServiceComponentID p \<noteq> None \<and> Option.bind (stack_resource db p) rs_DeletedAt = None)"

text \<open>Scanning a null into an \<^verbatim>\<open>int64\<close> is an error.\<close>

definition scan_plan :: "backup_db \<Rightarrow> DatabaseBackupPlan \<Rightarrow> ListSchedulableBackupPlansRow option" where
  "scan_plan db p =
     (case (coalesce (map_option rs_TeamID (join_resource db (bp_DatabaseID p))) (map_option rs_TeamID (stack_resource db p)),
            coalesce (bp_DatabaseID p) (map_option sc_ResourceID (join_component db (bp_ServiceComponentID p)))) of
        (Some team, Some target) \<Rightarrow> Some \<lparr>lr_plan = p, lr_TeamID = team, lr_TargetResourceID = target\<rparr>
      | _ \<Rightarrow> None)"

definition ListSchedulableBackupPlans :: "bool \<Rightarrow> backup_db \<Rightarrow> ListSchedulableBackupPlansRow list option" where
  "ListSchedulableBackupPlans answered db =
     (let found = map (scan_plan db) (sort_key bp_ID (filter (schedulable db) (b_plans db)))
      in if \<not> answered \<or> None \<in> set found then None else Some (map the found))"

definition SetBackupPlanSchedule :: "int \<Rightarrow> int option \<Rightarrow> int option \<Rightarrow> backup_db \<Rightarrow> backup_db" where
  "SetBackupPlanSchedule i next lastRun db =
     db\<lparr>b_plans := map (\<lambda>p. if bp_ID p = i
                             then p\<lparr>bp_NextRunAt := next, bp_LastRunAt := coalesce lastRun (bp_LastRunAt p)\<rparr> else p) (b_plans db)\<rparr>"

section \<open>The pass\<close>

definition backup_lock :: "DatabaseBackupPlan \<Rightarrow> string" where
  "backup_lock p = ''backup:plan:'' @ bp_Uuid p"

definition marshal_BackupPayload :: "int \<Rightarrow> string option" where
  "marshal_BackupPayload planID = Some (''{\"plan_id\":'' @ show_int planID @ ''}'')"

definition backup_options :: "ListSchedulableBackupPlansRow \<Rightarrow> int EnqueueOptions" where
  "backup_options row =
     \<lparr>o_Queue = ''backup'', o_Type = ''backup.execute'', o_Payload = Some (bp_ID (lr_plan row)), o_Priority = 0,
      o_RunAt = None, o_MaxAttempts = 0, o_IdempotencyKey = None, o_LockKey = Some (backup_lock (lr_plan row)),
      o_TeamID = Some (lr_TeamID row), o_ResourceID = Some (lr_TargetResourceID row), o_RetryOfID = None\<rparr>"

definition advance ::
  "sched_env \<Rightarrow> DatabaseBackupPlan \<Rightarrow> Schedule \<Rightarrow> location \<Rightarrow> bool \<Rightarrow> backup_db
     \<Rightarrow> (sched_error option \<times> backup_db) option" where
  "advance env plan schedule loc fired db =
     (case next_window schedule (e_now env) loc of
        None \<Rightarrow> None
      | Some next \<Rightarrow>
          Some (exec_stmt (e_reply env (bp_ID plan) CallAdvance)
                  (SetBackupPlanSchedule (bp_ID plan) next (if fired then Some (e_now env) else None)) db))"

definition scheduleBackupPlan ::
  "sched_env \<Rightarrow> ListSchedulableBackupPlansRow \<Rightarrow> backup_db \<Rightarrow> (sched_error option \<times> backup_db) option" where
  "scheduleBackupPlan env row db =
     (let plan = lr_plan row in
      case Parse (bp_CronExpression plan) of
        None \<Rightarrow> None
      | Some (Inl e) \<Rightarrow> Some (Some (ErrCron e), db)
      | Some (Inr schedule) \<Rightarrow>
        (case e_location env (bp_Timezone plan) of
           None \<Rightarrow> Some (Some ErrLocation, db)
         | Some loc \<Rightarrow>
           (case bp_NextRunAt plan of
              None \<Rightarrow> advance env plan schedule loc False db
            | Some t \<Rightarrow>
                if t > e_now env then Some (None, db)
                else if e_reply env (bp_ID plan) CallCount \<noteq> Answered then Some (Some ErrStore, db)
                else if CountActiveJobsByLockKey (Some (backup_lock plan)) (b_jobs db) > 0
                then advance env plan schedule loc False db
                else case enqueue_job env (bp_ID plan) marshal_BackupPayload (backup_options row) (b_jobs db) of
                    (Inl e, js) \<Rightarrow> Some (Some e, db\<lparr>b_jobs := js\<rparr>)
                  | (Inr job, js) \<Rightarrow> advance env plan schedule loc True (db\<lparr>b_jobs := js\<rparr>))))"

definition runDueBackups :: "sched_env \<Rightarrow> backup_db \<Rightarrow> backup_db option" where
  "runDueBackups env db =
     (case ListSchedulableBackupPlans (e_listed env) db of
        None \<Rightarrow> Some db
      | Some plans \<Rightarrow> run_pass (\<lambda>row. e_cancelled env (bp_ID (lr_plan row))) (scheduleBackupPlan env) plans db)"

section \<open>One step\<close>

text \<open>What a plan sees of the database: its row and the jobs of its lock.\<close>

definition plan_rows :: "int \<Rightarrow> backup_db \<Rightarrow> DatabaseBackupPlan list" where
  "plan_rows i db = filter (\<lambda>p. bp_ID p = i) (b_plans db)"

definition plan_view :: "ListSchedulableBackupPlansRow \<Rightarrow> backup_db \<Rightarrow> DatabaseBackupPlan list \<times> Job list" where
  "plan_view row db = (plan_rows (bp_ID (lr_plan row)) db, jobs_of (backup_lock (lr_plan row)) (b_jobs db))"

definition plans_apart :: "ListSchedulableBackupPlansRow \<Rightarrow> ListSchedulableBackupPlansRow \<Rightarrow> bool" where
  "plans_apart a b \<longleftrightarrow> bp_ID (lr_plan a) \<noteq> bp_ID (lr_plan b) \<and> bp_Uuid (lr_plan a) \<noteq> bp_Uuid (lr_plan b)"

lemma plan_rows_set:
  "plan_rows i (SetBackupPlanSchedule k next lastRun db) =
     (if i = k then map (\<lambda>p. p\<lparr>bp_NextRunAt := next, bp_LastRunAt := coalesce lastRun (bp_LastRunAt p)\<rparr>) (plan_rows i db)
      else plan_rows i db)"
proof -
  have "filter (\<lambda>p. bp_ID p = i) (map (\<lambda>p. if bp_ID p = k then f p else p) xs) =
      (if i = k then map f (filter (\<lambda>p. bp_ID p = i) xs) else filter (\<lambda>p. bp_ID p = i) xs)"
    if "\<And>p. bp_ID (f p) = bp_ID p" for f xs
    by (induction xs) (auto simp: that)
  note aux = this
  have "b_plans (SetBackupPlanSchedule k next lastRun db) = map (\<lambda>p. if bp_ID p = k
      then p\<lparr>bp_NextRunAt := next, bp_LastRunAt := coalesce lastRun (bp_LastRunAt p)\<rparr> else p) (b_plans db)"
    by (simp add: SetBackupPlanSchedule_def)
  then show ?thesis unfolding plan_rows_def by (simp only:) (rule aux, simp)
qed

lemma set_jobs [simp]: "b_jobs (SetBackupPlanSchedule k next lastRun db) = b_jobs db"
  by (simp add: SetBackupPlanSchedule_def)

lemma set_rows [simp]: "plan_rows i (db\<lparr>b_jobs := js\<rparr>) = plan_rows i db"
  by (simp add: plan_rows_def)

lemma advance_cases:
  assumes "advance env p s loc fired db = Some (e, db')"
  obtains "db' = db" | w where "next_window s (e_now env) loc = Some w"
    "db' = SetBackupPlanSchedule (bp_ID p) w (if fired then Some (e_now env) else None) db"
  using assms by (auto simp: advance_def exec_stmt_def split: option.splits reply.splits)

text \<open>The ways a step that returns may leave the database.\<close>

lemma step_cases:
  assumes "scheduleBackupPlan env row db = Some (e, db')"
  obtains (same) "db' = db"
  | (moved) w where "db' = SetBackupPlanSchedule (bp_ID (lr_plan row)) w None db"
  | (fired) job js where "bp_NextRunAt (lr_plan row) \<noteq> None" "the (bp_NextRunAt (lr_plan row)) \<le> e_now env"
      "CountActiveJobsByLockKey (Some (backup_lock (lr_plan row))) (b_jobs db) = 0"
      "rows js = rows (b_jobs db) @ [job]" "LockKey job = Some (backup_lock (lr_plan row))" "waiting job"
      "Some (Uuid job) = e_uuid env (bp_ID (lr_plan row))"
      "db' = db\<lparr>b_jobs := js\<rparr> \<or> (\<exists>w. db' = SetBackupPlanSchedule (bp_ID (lr_plan row)) w (Some (e_now env)) (db\<lparr>b_jobs := js\<rparr>))"
proof -
  let ?p = "lr_plan row"
  obtain p where p: "Parse (bp_CronExpression ?p) = Some p" using assms
    by (auto simp: scheduleBackupPlan_def Let_def split: option.splits)
  show thesis
  proof (cases "(\<exists>x. p = Inl x) \<or> e_location env (bp_Timezone ?p) = None")
    case True
    then show thesis using assms p by (intro same) (auto simp: scheduleBackupPlan_def Let_def split: sum.splits)
  next
    case False
    then obtain s loc where s: "Parse (bp_CronExpression ?p) = Some (Inr s)" "e_location env (bp_Timezone ?p) = Some loc"
      using p by (cases p) auto
    note unf = assms [unfolded scheduleBackupPlan_def Let_def s option.case sum.case]
    have adv: thesis if "advance env ?p s loc False db = Some (e, db')"
      using that by (cases rule: advance_cases) (auto intro: same moved)
    show thesis
    proof (cases "\<exists>t. bp_NextRunAt ?p = Some t \<and> t \<le> e_now env \<and> e_reply env (bp_ID ?p) CallCount = Answered \<and>
        CountActiveJobsByLockKey (Some (backup_lock ?p)) (b_jobs db) = 0")
      case False
      then show thesis using unf adv same by (auto split: option.splits if_splits)
    next
      case True
      then obtain t where t: "bp_NextRunAt ?p = Some t" "t \<le> e_now env" "e_reply env (bp_ID ?p) CallCount = Answered"
        "CountActiveJobsByLockKey (Some (backup_lock ?p)) (b_jobs db) = 0" by blast
      obtain res js where enq: "enqueue_job env (bp_ID ?p) marshal_BackupPayload (backup_options row) (b_jobs db) = (res, js)"
        by (metis surj_pair)
      have opts: "o_IdempotencyKey (backup_options row) = None" "o_LockKey (backup_options row) = Some (backup_lock ?p)"
        by (simp_all add: backup_options_def)
      from enq opts show thesis
      proof (cases rule: enqueue_job_cases)
        case unchanged
        then show thesis using unf t enq by (intro same) auto
      next
        case (added job)
        have adv: "db' = db\<lparr>b_jobs := js\<rparr> \<or>
            (\<exists>w. db' = SetBackupPlanSchedule (bp_ID ?p) w (Some (e_now env)) (db\<lparr>b_jobs := js\<rparr>))"
          if "advance env ?p s loc True (db\<lparr>b_jobs := js\<rparr>) = Some (e, db')"
          using that by (cases rule: advance_cases) auto
        have "db' = db\<lparr>b_jobs := js\<rparr> \<or>
          (\<exists>w. db' = SetBackupPlanSchedule (bp_ID ?p) w (Some (e_now env)) (db\<lparr>b_jobs := js\<rparr>))"
          using unf t enq added(7) adv by (auto split: sum.splits)
        then show thesis using t added by (intro fired [of js job]) auto
      qed
    qed
  qed
qed

lemma lock_apart: "plans_apart a b \<Longrightarrow> backup_lock (lr_plan a) \<noteq> backup_lock (lr_plan b)"
  by (simp add: plans_apart_def backup_lock_def)

abbreviation row_id :: "ListSchedulableBackupPlansRow \<Rightarrow> int" where
  "row_id row \<equiv> bp_ID (lr_plan row)"

interpretation backups: row_pass "scheduleBackupPlan env" plans_apart plan_view "uuids_from row_id b_jobs env U" for env U
proof unfold_locales
  fix r r' db e db' assume "scheduleBackupPlan env r db = Some (e, db')" "plans_apart r r'"
  then show "plan_view r' db' = plan_view r' db"
    by (cases rule: step_cases) (use lock_apart in \<open>auto simp: plan_view_def plan_rows_set jobs_of_def plans_apart_def\<close>)
next
  fix rs r db e db' assume inv: "uuids_from row_id b_jobs env U rs db" and "scheduleBackupPlan env r db = Some (e, db')"
  from this(2) show "uuids_from row_id b_jobs env U (rs @ [r]) db'"
    by (cases rule: step_cases) (auto simp: job_uuids_added intro!: uuids_from_step [OF inv])
qed

section \<open>The whole pass\<close>

definition plans_ok :: "backup_db \<Rightarrow> bool" where
  "plans_ok db \<longleftrightarrow> distinct (map bp_ID (b_plans db)) \<and> distinct (map bp_Uuid (b_plans db))"

definition plan_due :: "int \<Rightarrow> DatabaseBackupPlan \<Rightarrow> bool" where
  "plan_due now p \<longleftrightarrow> (case bp_NextRunAt p of None \<Rightarrow> False | Some t \<Rightarrow> t \<le> now)"

definition active_backups :: "DatabaseBackupPlan \<Rightarrow> backup_db \<Rightarrow> nat" where
  "active_backups p db = CountActiveJobsByLockKey (Some (backup_lock p)) (b_jobs db)"

lemma listed_rows:
  assumes "plans_ok db" "ListSchedulableBackupPlans b db = Some rs"
  shows "distinct rs" "pairwise plans_apart (set rs)"
    "lr_plan ` set rs = {p \<in> set (b_plans db). schedulable db p}"
proof -
  let ?ps = "sort_key bp_ID (filter (schedulable db) (b_plans db))"
  have scan: "lr_plan row = p" if "scan_plan db p = Some row" for p row
    using that by (auto simp: scan_plan_def split: option.splits)
  from assms(2) have rs: "None \<notin> set (map (scan_plan db) ?ps)" "rs = map (the \<circ> scan_plan db) ?ps"
    by (auto simp: ListSchedulableBackupPlans_def Let_def split: if_splits)
  have the: "lr_plan (the (scan_plan db p)) = p" if "p \<in> set ?ps" for p
    using rs(1) scan that by (cases "scan_plan db p") force+
  then have m: "map lr_plan rs = ?ps" unfolding rs(2) map_map by (intro map_idI) simp
  have ps: "distinct ?ps" using assms(1) by (simp add: plans_ok_def distinct_map)
  then show "distinct rs" using m by (metis distinct_map)
  have inj: "inj_on bp_ID (set (b_plans db))" "inj_on bp_Uuid (set (b_plans db))"
    using assms(1) by (simp_all add: plans_ok_def distinct_map)
  have sub: "lr_plan r \<in> set (b_plans db)" if "r \<in> set rs" for r
    using that m by (metis (no_types, lifting) filter_is_subset image_eqI list.set_map set_sort subsetD)
  show "pairwise plans_apart (set rs)"
  proof (rule pairwiseI)
    fix a b assume ab: "a \<in> set rs" "b \<in> set rs" "a \<noteq> b"
    have "lr_plan a \<noteq> lr_plan b"
      using ab m ps \<open>distinct rs\<close> by (metis distinct_map inj_onD)
    then show "plans_apart a b" using inj sub ab unfolding plans_apart_def by (metis inj_onD)
  qed
  show "lr_plan ` set rs = {p \<in> set (b_plans db). schedulable db p}"
    using arg_cong [OF m, of set] by auto
qed

lemma active_view: "active_backups (lr_plan row) db = length (filter (\<lambda>j. waiting j \<or> active j) (snd (plan_view row db)))"
  by (simp add: active_backups_def count_jobs_of plan_view_def)

lemma plan_rows_unique: "plans_ok db \<Longrightarrow> p \<in> set (b_plans db) \<Longrightarrow> plan_rows (bp_ID p) db = [p]"
  unfolding plans_ok_def plan_rows_def by (intro filter_key_unique) simp_all

text \<open>A step adds one job or none, and only to a due plan without an active one; it writes no other columns of the plan.\<close>

definition schedule_columns :: "DatabaseBackupPlan list \<Rightarrow> DatabaseBackupPlan list \<Rightarrow> bool" where
  "schedule_columns ps ps' \<longleftrightarrow> list_all2 (\<lambda>p p'. \<exists>w l. p' = p\<lparr>bp_NextRunAt := w, bp_LastRunAt := l\<rparr>) ps ps'"

lemma columns_same: "schedule_columns ps ps"
  unfolding schedule_columns_def by (rule list_all2_refl) (metis DatabaseBackupPlan.surjective DatabaseBackupPlan.update_convs(25,26))

lemma columns_set: "schedule_columns ps (map (\<lambda>p. p\<lparr>bp_NextRunAt := w, bp_LastRunAt := f p\<rparr>) ps)"
  unfolding schedule_columns_def by (auto simp: list_all2_map2 intro!: list_all2_refl)

lemma step_columns:
  assumes "scheduleBackupPlan env row d = Some (e, d')"
  shows "schedule_columns (plan_rows (bp_ID (lr_plan row)) d) (plan_rows (bp_ID (lr_plan row)) d')"
  using assms by (cases rule: step_cases) (auto simp: columns_same columns_set plan_rows_set)

lemma step_jobs:
  assumes "scheduleBackupPlan env row d = Some (e, d')"
  shows "active_backups (lr_plan row) d' = active_backups (lr_plan row) d \<or>
    active_backups (lr_plan row) d = 0 \<and> active_backups (lr_plan row) d' = 1 \<and> plan_due (e_now env) (lr_plan row)"
  using assms
proof (cases rule: step_cases)
  case (fired job js)
  have "jobs_of (backup_lock (lr_plan row)) (b_jobs d') = jobs_of (backup_lock (lr_plan row)) (b_jobs d) @ [job]"
    using fired(8) jobs_of_added [OF fired(4,5)] by auto
  with fired(1-3,6) show ?thesis by (auto simp: active_backups_def count_jobs_of plan_due_def)
qed (simp_all add: active_backups_def)

text \<open>The effect of a pass on a plan is that of its own step, or nothing.\<close>

lemma pass_row:
  assumes ok: "plans_ok db" and run: "runDueBackups env db = Some db'" and p: "p \<in> set (b_plans db)"
  obtains (untouched) "plan_rows (bp_ID p) db' = [p]" "active_backups p db' = active_backups p db"
      "ListSchedulableBackupPlans (e_listed env) db = None \<or> \<not> schedulable db p \<or> (\<exists>i. e_cancelled env i)"
  | (stepped) rs before after row d e d' where "ListSchedulableBackupPlans (e_listed env) db = Some rs" "rs = before @ row # after"
      "lr_plan row = p" "schedulable db p"
      "uuids_from row_id b_jobs env (job_uuids (b_jobs db)) before d" "plan_view row d = plan_view row db"
      "scheduleBackupPlan env row d = Some (e, d')" "plan_view row db' = plan_view row d'"
proof (cases "ListSchedulableBackupPlans (e_listed env) db")
  case None
  then show thesis using run plan_rows_unique [OF ok p] by (intro untouched) (simp_all add: runDueBackups_def)
next
  case (Some rs)
  let ?c = "\<lambda>row. e_cancelled env (bp_ID (lr_plan row))"
  have pass: "run_pass ?c (scheduleBackupPlan env) rs db = Some db'" using run Some by (simp add: runDueBackups_def)
  note rs = listed_rows [OF ok Some]
  have leave: "plan_rows (bp_ID p) db' = [p]" "active_backups p db' = active_backups p db"
    if "plan_view row db' = plan_view row db" "lr_plan row = p" for row
    using that plan_rows_unique [OF ok p] by (auto simp: plan_view_def active_backups_def count_jobs_of)
  show thesis
  proof (cases "schedulable db p")
    case False
    let ?row = "\<lparr>lr_plan = p, lr_TeamID = 0, lr_TargetResourceID = 0\<rparr>"
    have "\<forall>r \<in> set rs. plans_apart r ?row"
    proof
      fix r assume "r \<in> set rs"
      then have "lr_plan r \<in> set (b_plans db)" "lr_plan r \<noteq> p" using rs(3) False by auto
      then show "plans_apart r ?row" using ok p unfolding plans_ok_def plans_apart_def distinct_map
        by (auto dest: inj_onD)
    qed
    from backups.others_unchanged [OF pass this] show thesis using leave [of ?row] False by (intro untouched) simp_all
  next
    case True
    then have "p \<in> lr_plan ` set rs" using p by (simp add: rs(3))
    then obtain row where row: "row \<in> set rs" "lr_plan row = p" by auto
    have "uuids_from row_id b_jobs env (job_uuids (b_jobs db)) [] db" by (simp add: uuids_from_def)
    from backups.own_step [OF pass this rs(1) row(1) rs(2)]
    consider "plan_view row db' = plan_view row db" "\<exists>i. e_cancelled env i"
      | before after d e d' where "rs = before @ row # after" "uuids_from row_id b_jobs env (job_uuids (b_jobs db)) before d"
        "plan_view row d = plan_view row db" "scheduleBackupPlan env row d = Some (e, d')" "plan_view row db' = plan_view row d'"
      by auto
    then show thesis
    proof cases
      case 1
      then show thesis using leave [OF 1(1) row(2)] by (intro untouched) simp_all
    next
      case 2
      show thesis by (rule stepped [OF Some 2(1) row(2) True 2(2,3,4,5)])
    qed
  qed
qed

lemma step_answered:
  assumes cron: "Parse (bp_CronExpression p) = Some (Inr s)" "e_location env (bp_Timezone p) = Some (\<lambda>_. c)" "minute dvd c"
    and env: "0 \<le> e_now env" "\<And>call. e_reply env (bp_ID p) call = Answered"
      "e_uuid env (bp_ID p) = Some u" "u \<notin> job_uuids (b_jobs d)"
    and row: "lr_plan row = p" "plan_rows (bp_ID p) d = [p]"
    and step: "scheduleBackupPlan env row d = Some (e, d')"
  shows "\<exists>w. window_of s c (e_now env) w \<and>
    (plan_rows (bp_ID p) d', active_backups p d') =
      (case bp_NextRunAt p of
         None \<Rightarrow> ([p\<lparr>bp_NextRunAt := w\<rparr>], active_backups p d)
       | Some t \<Rightarrow> if e_now env < t then ([p], active_backups p d)
                  else if active_backups p d = 0 then ([p\<lparr>bp_NextRunAt := w, bp_LastRunAt := Some (e_now env)\<rparr>], 1)
                  else ([p\<lparr>bp_NextRunAt := w\<rparr>], active_backups p d))"
proof -
  from next_window_fixed [OF cron(3) env(1)] obtain w where
    w: "next_window s (e_now env) (\<lambda>_. c) = Some w" "window_of s c (e_now env) w" by blast
  have adv: "advance env p s (\<lambda>_. c) f x = Some (None, SetBackupPlanSchedule (bp_ID p) w (if f then Some (e_now env) else None) x)" for f x
    by (simp add: advance_def w(1) env(2) exec_stmt_def)
  note unf = step [unfolded scheduleBackupPlan_def Let_def row(1) cron(1,2) option.case sum.case adv env(2)]
  have same: "p\<lparr>bp_NextRunAt := w, bp_LastRunAt := bp_LastRunAt p\<rparr> = p\<lparr>bp_NextRunAt := w\<rparr>" by simp
  have "(plan_rows (bp_ID p) d', active_backups p d') =
      (case bp_NextRunAt p of
         None \<Rightarrow> ([p\<lparr>bp_NextRunAt := w\<rparr>], active_backups p d)
       | Some t \<Rightarrow> if e_now env < t then ([p], active_backups p d)
                  else if active_backups p d = 0 then ([p\<lparr>bp_NextRunAt := w, bp_LastRunAt := Some (e_now env)\<rparr>], 1)
                  else ([p\<lparr>bp_NextRunAt := w\<rparr>], active_backups p d))"
  proof (cases "\<exists>t. bp_NextRunAt p = Some t \<and> t \<le> e_now env \<and> active_backups p d = 0")
    case False
    then consider "bp_NextRunAt p = None" | t where "bp_NextRunAt p = Some t" "e_now env < t"
      | t where "bp_NextRunAt p = Some t" "\<not> e_now env < t" "active_backups p d \<noteq> 0"
      by (cases "bp_NextRunAt p") force+
    then show ?thesis
      by cases (use unf row(2) in \<open>simp_all add: plan_rows_set coalesce_def active_backups_def del: neq0_conv\<close>, auto simp: plan_rows_set coalesce_def)
  next
    case True
    then obtain t where t: "bp_NextRunAt p = Some t" "t \<le> e_now env" "active_backups p d = 0" by blast
    have "admissible marshal_BackupPayload (e_uuid env (bp_ID p)) (backup_options row)"
      using env(3) by (simp add: admissible_def backup_options_def KnownQueues_def marshal_BackupPayload_def)
    with env(3,4) obtain job js where enq:
      "enqueue_job env (bp_ID p) marshal_BackupPayload (backup_options row) (b_jobs d) = (Inr job, js)"
      using enqueue_job_Answered [OF env(2), of "backup_options row" marshal_BackupPayload "b_jobs d"]
      by (auto simp: backup_options_def)
    have d': "d' = SetBackupPlanSchedule (bp_ID p) w (Some (e_now env)) (d\<lparr>b_jobs := js\<rparr>)"
      using unf t enq by (simp add: active_backups_def)
    have "o_IdempotencyKey (backup_options row) = None" "o_LockKey (backup_options row) = Some (backup_lock p)"
      by (simp_all add: backup_options_def row(1))
    with enq have "active_backups p d' = 1"
    proof (cases rule: enqueue_job_cases)
      case (added job')
      then show ?thesis using t(3) jobs_of_added [OF added(1,2)]
        by (simp add: d' active_backups_def count_jobs_of)
    qed simp
    then show ?thesis using t row(2) by (simp add: d' plan_rows_set coalesce_def)
  qed
  then show ?thesis using w(2) by blast
qed

lemma backup_step_returns:
  assumes "fixed_zones env" "0 \<le> e_now env"
  shows "scheduleBackupPlan env row d \<noteq> None"
proof -
  have "advance env p s loc f x \<noteq> None" if "e_location env tz = Some loc" for p s loc f x tz
    using window_returns [OF assms that] by (simp add: advance_def split: option.splits)
  then show ?thesis
    using Parse_returns [of "bp_CronExpression (lr_plan row)"]
    by (auto simp: scheduleBackupPlan_def Let_def split: option.splits sum.splits prod.splits)
qed

lemma backup_pass_returns:
  assumes "fixed_zones env" "0 \<le> e_now env"
  shows "\<exists>db'. runDueBackups env db = Some db'"
proof -
  have "\<exists>db'. run_pass c (scheduleBackupPlan env) rs db = Some db'" for c rs
    using backup_step_returns [OF assms] by (intro backups.pass_returns) blast
  then show ?thesis by (simp add: runDueBackups_def split: option.splits)
qed

section \<open>Properties\<close>

text \<open>A plan of a live database, due half an hour ago, and one without a window.\<close>

definition nightly_plan :: DatabaseBackupPlan where
  "nightly_plan =
     \<lparr>bp_ID = 1, bp_Uuid = ''p1'', bp_DatabaseID = Some 7, bp_ServiceComponentID = None, bp_IsInstanceBackup = False,
      bp_Enabled = True, bp_CronExpression = ''30 3 * * *'', bp_Timezone = ''UTC'', bp_DumpAll = True,
      bp_IncludedDatabases = [], bp_ExcludedCollections = [], bp_TimeoutSeconds = 600, bp_S3StorageID = None,
      bp_S3Only = False, bp_SaveLocal = True, bp_RetentionLocalMaxCount = 7, bp_RetentionLocalMaxDays = 0,
      bp_RetentionS3MaxCount = 0, bp_RetentionS3MaxDays = 0, bp_CreatedBy = None, bp_CreatedAt = 0, bp_UpdatedAt = 0,
      bp_DeletedAt = None, bp_Version = 1, bp_NextRunAt = Some (day_number 2026 7 11 * day + 3 * hour + 30 * minute),
      bp_LastRunAt = None, bp_DrillEnabled = False, bp_DrillIntervalDays = 7, bp_LastDrillAt = None,
      bp_LastDrillStatus = None\<rparr>"

definition sample_backups :: backup_db where
  "sample_backups =
     \<lparr>b_plans = [nightly_plan, nightly_plan\<lparr>bp_ID := 2, bp_Uuid := ''p2'', bp_NextRunAt := None\<rparr>],
      b_resources = [\<lparr>rs_ID = 7, rs_Uuid = ''r7'', rs_TeamID = 3, rs_DeletedAt = None\<rparr>], b_components = [],
      b_jobs = \<lparr>rows = [], next_id = 1\<rparr>\<rparr>"

lemma sample_backups_ok: "plans_ok sample_backups"
  by code_simp

lemma nightly_parses:
  "Parse (bp_CronExpression nightly_plan) = Some (Inr (projr (the (Parse (bp_CronExpression nightly_plan)))))"
  by code_simp

text \<open>C23: One backup at a time.  Whatever becomes of the statements of a pass, of the context and of the clock, a plan
  ends it with the active jobs it had, or, when it had none, was enabled, live and due, with one; and of the plan only
  the window and the last run change.\<close>

theorem one_backup_at_a_time:
  assumes "plans_ok db" "runDueBackups env db = Some db'" "p \<in> set (b_plans db)"
  shows "(active_backups p db' = active_backups p db \<or>
      active_backups p db = 0 \<and> active_backups p db' = 1 \<and> plan_due (e_now env) p \<and> schedulable db p) \<and>
    (\<exists>w l. filter (\<lambda>q. bp_ID q = bp_ID p) (b_plans db') = [p\<lparr>bp_NextRunAt := w, bp_LastRunAt := l\<rparr>])"
  using assms
proof (cases rule: pass_row)
  case untouched
  have "p = p\<lparr>bp_NextRunAt := bp_NextRunAt p, bp_LastRunAt := bp_LastRunAt p\<rparr>" by simp
  with untouched show ?thesis unfolding plan_rows_def by metis
next
  case (stepped rs before after row d e d')
  have rows: "plan_rows (bp_ID p) d = [p]" "plan_rows (bp_ID p) db' = plan_rows (bp_ID p) d'"
    using stepped(3,6,8) plan_rows_unique [OF assms(1,3)] by (auto simp: plan_view_def)
  have counts: "active_backups p d = active_backups p db" "active_backups p db' = active_backups p d'"
    using stepped(3,6,8) by (auto simp: active_view [of row, unfolded stepped(3)])
  show ?thesis
    using step_jobs [OF stepped(7)] step_columns [OF stepped(7)] stepped(3,4) rows counts
    by (auto simp: schedule_columns_def list_all2_Cons1 plan_rows_def)
qed

theorem one_backup_at_a_time_witness:
  "plans_ok sample_backups \<and> nightly_plan \<in> set (b_plans sample_backups) \<and>
   (\<exists>db'. runDueBackups sample_env sample_backups = Some db' \<and> active_backups nightly_plan db' \<le> 1 \<and>
      (\<exists>w l. filter (\<lambda>q. bp_ID q = bp_ID nightly_plan) (b_plans db') = [nightly_plan\<lparr>bp_NextRunAt := w, bp_LastRunAt := l\<rparr>]))"
proof -
  have p: "nightly_plan \<in> set (b_plans sample_backups)" by (simp add: sample_backups_def)
  have none: "active_backups nightly_plan sample_backups = 0" by code_simp
  obtain db' where "runDueBackups sample_env sample_backups = Some db'"
    using backup_pass_returns [OF sample_fixed] by blast
  moreover from one_backup_at_a_time [OF sample_backups_ok this p] none
  have "active_backups nightly_plan db' \<le> 1" "\<exists>w l. filter (\<lambda>q. bp_ID q = bp_ID nightly_plan) (b_plans db') =
      [nightly_plan\<lparr>bp_NextRunAt := w, bp_LastRunAt := l\<rparr>]" by auto
  ultimately show ?thesis using sample_backups_ok p by blast
qed



end
