(* ===== verification/TaskSchedule.thy ===== *)
theory TaskSchedule
  imports CronPass "HOL-Library.Multiset"
begin

text \<open>
  The cron pass over the scheduled tasks (\<^verbatim>\<open>src/internal/scheduler/scheduledtasks.go\<close>) with the queries it
  uses (\<^verbatim>\<open>src/internal/store/scheduledtasks.sql.go\<close>) on the tasks, the history of their executions, the
  resources they belong to and the jobs table.  The lemmas show what a due occurrence leaves behind: exactly one row of
  history, a skip with its reason or a running execution with its job; when an occurrence counts as missed; and that
  an execution whose job was never queued stands in the way of the later ones.
\<close>

section \<open>The tables\<close>

datatype TaskKind = TaskKindContainerCommand | TaskKindGithubWorkflow

datatype TaskOverlapPolicy = TaskOverlapPolicySkip | TaskOverlapPolicyQueue

datatype TaskMissedRunPolicy = TaskMissedRunPolicyRun | TaskMissedRunPolicySkip

datatype TaskExecutionStatus = TaskExecutionStatusRunning | TaskExecutionStatusSucceeded | TaskExecutionStatusFailed
  | TaskExecutionStatusSkipped

record ScheduledTask =
  t_ID :: int
  t_Uuid :: string
  t_TeamID :: int
  t_ResourceID :: int
  t_Container :: "string option"
  t_Name :: string
  t_Command :: "string option"
  t_CronExpression :: string
  t_Timezone :: string
  t_Enabled :: bool
  t_OverlapPolicy :: TaskOverlapPolicy
  t_MissedRunPolicy :: TaskMissedRunPolicy
  t_TimeoutSeconds :: int
  t_NextRunAt :: "int option"
  t_LastRunAt :: "int option"
  t_CreatedBy :: "int option"
  t_UpdatedBy :: "int option"
  t_CreatedAt :: int
  t_UpdatedAt :: int
  t_DeletedAt :: "int option"
  t_Version :: int
  t_Kind :: TaskKind
  t_WorkflowFile :: "string option"
  t_WorkflowRef :: "string option"
  t_WorkflowInputs :: "string option"

text \<open>The uuid of an execution, drawn by the database and not used by the pass, is left out.\<close>

record TaskExecution =
  x_ID :: int
  x_ScheduledTaskID :: int
  x_Status :: TaskExecutionStatus
  x_SkipReason :: "string option"
  x_ExitCode :: "int option"
  x_Output :: "string option"
  x_OutputTruncated :: bool
  x_StartedAt :: int
  x_FinishedAt :: "int option"
  x_DurationMs :: "int option"

record ListSchedulableTasksRow =
  lt_ScheduledTask :: ScheduledTask
  lt_ApplicationUuid :: string

record task_db =
  t_tasks :: "ScheduledTask list"
  t_executions :: "TaskExecution list"
  t_next_execution :: int
  t_resources :: "resource_row list"
  t_jobs :: jobs_table

section \<open>The queries\<close>

text \<open>The listing has no \<^verbatim>\<open>ORDER BY\<close>: \<open>arrange\<close> is the order in which the rows come.\<close>

definition live_resource :: "task_db \<Rightarrow> ScheduledTask \<Rightarrow> resource_row option" where
  "live_resource db t =
     (case find (\<lambda>r. rs_ID r = t_ResourceID t) (t_resources db) of
        None \<Rightarrow> None | Some r \<Rightarrow> if rs_DeletedAt r = None then Some r else None)"

definition task_schedulable :: "task_db \<Rightarrow> ScheduledTask \<Rightarrow> bool" where
  "task_schedulable db t \<longleftrightarrow> t_Enabled t \<and> t_DeletedAt t = None \<and> live_resource db t \<noteq> None"

definition ListSchedulableTasks ::
  "(ListSchedulableTasksRow list \<Rightarrow> ListSchedulableTasksRow list) \<Rightarrow> bool \<Rightarrow> task_db \<Rightarrow> ListSchedulableTasksRow list option" where
  "ListSchedulableTasks arrange answered db =
     (if answered
      then Some (arrange (map (\<lambda>t. \<lparr>lt_ScheduledTask = t, lt_ApplicationUuid = rs_Uuid (the (live_resource db t))\<rparr>)
                              (filter (task_schedulable db) (t_tasks db))))
      else None)"

definition CountRunningTaskExecutions :: "int \<Rightarrow> task_db \<Rightarrow> nat" where
  "CountRunningTaskExecutions i db =
     length (filter (\<lambda>x. x_ScheduledTaskID x = i \<and> x_Status x = TaskExecutionStatusRunning) (t_executions db))"

text \<open>The insert, with the \<^verbatim>\<open>CHECK\<close> of the table and its reference to the task.\<close>

definition CreateTaskExecution ::
  "int \<Rightarrow> int \<Rightarrow> TaskExecutionStatus \<Rightarrow> string option \<Rightarrow> task_db \<Rightarrow> (db_error, TaskExecution \<times> task_db) result" where
  "CreateTaskExecution now i status reason db =
     (if (status = TaskExecutionStatusSkipped) \<noteq> (reason \<noteq> None) \<or> \<not> list_ex (\<lambda>t. t_ID t = i) (t_tasks db)
      then Inl ErrConstraint
      else
        let x = \<lparr>x_ID = t_next_execution db, x_ScheduledTaskID = i, x_Status = status, x_SkipReason = reason,
                 x_ExitCode = None, x_Output = None, x_OutputTruncated = False, x_StartedAt = now, x_FinishedAt = None,
                 x_DurationMs = None\<rparr>
        in Inr (x, db\<lparr>t_executions := t_executions db @ [x], t_next_execution := t_next_execution db + 1\<rparr>))"

definition SetScheduledTaskSchedule :: "int \<Rightarrow> int option \<Rightarrow> int option \<Rightarrow> task_db \<Rightarrow> task_db" where
  "SetScheduledTaskSchedule i next lastRun db =
     db\<lparr>t_tasks := map (\<lambda>t. if t_ID t = i
                             then t\<lparr>t_NextRunAt := coalesce next (t_NextRunAt t), t_LastRunAt := coalesce lastRun (t_LastRunAt t)\<rparr>
                             else t) (t_tasks db)\<rparr>"

section \<open>The pass\<close>

definition task_lock :: "ScheduledTask \<Rightarrow> string" where
  "task_lock t = ''scheduled_task:'' @ t_Uuid t"

definition marshal_ScheduledTaskPayload :: "int \<times> int \<Rightarrow> string option" where
  "marshal_ScheduledTaskPayload = (\<lambda>(taskID, executionID).
     Some (''{\"task_id\":'' @ show_int taskID @ '',\"execution_id\":'' @ show_int executionID @ ''}''))"

definition task_options :: "ScheduledTask \<Rightarrow> TaskExecution \<Rightarrow> (int \<times> int) EnqueueOptions" where
  "task_options t x =
     \<lparr>o_Queue = ''task'', o_Type = ''scheduled_task.run'', o_Payload = Some (t_ID t, x_ID x), o_Priority = 0,
      o_RunAt = None, o_MaxAttempts = 0, o_IdempotencyKey = None, o_LockKey = Some (task_lock t),
      o_TeamID = Some (t_TeamID t), o_ResourceID = Some (t_ResourceID t), o_RetryOfID = None\<rparr>"

text \<open>An insert into the history, subject to the reply.\<close>

definition create_execution ::
  "sched_env \<Rightarrow> ScheduledTask \<Rightarrow> TaskExecutionStatus \<Rightarrow> string option \<Rightarrow> task_db \<Rightarrow> TaskExecution option \<times> task_db" where
  "create_execution env t status reason db =
     (case (e_reply env (t_ID t) CallExecution, CreateTaskExecution (e_clock env (t_ID t)) (t_ID t) status reason db) of
        (Answered, Inr (x, db')) \<Rightarrow> (Some x, db')
      | (Unanswered, Inr (x, db')) \<Rightarrow> (None, db')
      | _ \<Rightarrow> (None, db))"

definition enqueueTask :: "sched_env \<Rightarrow> ScheduledTask \<Rightarrow> task_db \<Rightarrow> sched_error option \<times> task_db" where
  "enqueueTask env t db =
     (case create_execution env t TaskExecutionStatusRunning None db of
        (None, db1) \<Rightarrow> (Some ErrStore, db1)
      | (Some x, db1) \<Rightarrow>
          (case enqueue_job env (t_ID t) marshal_ScheduledTaskPayload (task_options t x) (t_jobs db1) of
             (Inl e, js) \<Rightarrow> (Some e, db1\<lparr>t_jobs := js\<rparr>)
           | (Inr job, js) \<Rightarrow> (None, db1\<lparr>t_jobs := js\<rparr>)))"

text \<open>A failure to record the skip is only logged.\<close>

definition recordSkip :: "sched_env \<Rightarrow> ScheduledTask \<Rightarrow> string \<Rightarrow> task_db \<Rightarrow> task_db" where
  "recordSkip env t reason db = snd (create_execution env t TaskExecutionStatusSkipped (Some reason) db)"

definition advanceTask ::
  "sched_env \<Rightarrow> ScheduledTask \<Rightarrow> Schedule \<Rightarrow> location \<Rightarrow> bool \<Rightarrow> task_db \<Rightarrow> (sched_error option \<times> task_db) option" where
  "advanceTask env t schedule loc fired db =
     (case next_window schedule (e_now env) loc of
        None \<Rightarrow> None
      | Some next \<Rightarrow>
          Some (exec_stmt (e_reply env (t_ID t) CallAdvance)
                  (SetScheduledTaskSchedule (t_ID t) next (if fired then Some (e_now env) else None)) db))"

text \<open>\<^verbatim>\<open>Time.Sub\<close> saturates at the range of a 64-bit duration.\<close>

definition time_Sub :: "int \<Rightarrow> int \<Rightarrow> int" where
  "time_Sub t u = max (- (2 ^ 63)) (min (2 ^ 63 - 1) (t - u))"

definition missed_reason :: string where
  "missed_reason = ''the occurrence was missed (the instance was down) and the policy is to skip it''"

definition overlap_reason :: string where
  "overlap_reason = ''the previous execution was still running''"

text \<open>The part of the step for a due task: the check of the overlap, then the run.\<close>

definition run_task ::
  "sched_env \<Rightarrow> ScheduledTask \<Rightarrow> Schedule \<Rightarrow> location \<Rightarrow> task_db \<Rightarrow> (sched_error option \<times> task_db) option" where
  "run_task env t schedule loc db =
     (if t_OverlapPolicy t = TaskOverlapPolicySkip \<and> e_reply env (t_ID t) CallCount \<noteq> Answered then Some (Some ErrStore, db)
      else if t_OverlapPolicy t = TaskOverlapPolicySkip \<and> CountRunningTaskExecutions (t_ID t) db > 0
      then advanceTask env t schedule loc False (recordSkip env t overlap_reason db)
      else case enqueueTask env t db of
          (Some e, db') \<Rightarrow> Some (Some e, db')
        | (None, db') \<Rightarrow> advanceTask env t schedule loc True db')"

definition scheduleTask :: "sched_env \<Rightarrow> ScheduledTask \<Rightarrow> task_db \<Rightarrow> (sched_error option \<times> task_db) option" where
  "scheduleTask env t db =
     (case Parse (t_CronExpression t) of
        None \<Rightarrow> None
      | Some (Inl e) \<Rightarrow> Some (Some (ErrCron e), db)
      | Some (Inr schedule) \<Rightarrow>
        (case e_location env (t_Timezone t) of
           None \<Rightarrow> Some (Some ErrLocation, db)
         | Some loc \<Rightarrow>
           (case t_NextRunAt t of
              None \<Rightarrow> advanceTask env t schedule loc False db
            | Some due_at \<Rightarrow>
                if due_at > e_now env then Some (None, db)
                else
                  (case Next schedule due_at (Some loc) of
                     None \<Rightarrow> None
                   | Some following \<Rightarrow>
                       let period = time_Sub following due_at;
                           missed = (period > 0 \<and> time_Sub (e_now env) due_at > period)
                       in if missed \<and> t_MissedRunPolicy t = TaskMissedRunPolicySkip
                          then advanceTask env t schedule loc False (recordSkip env t missed_reason db)
                          else run_task env t schedule loc db))))"

definition runDueScheduledTasks ::
  "(ListSchedulableTasksRow list \<Rightarrow> ListSchedulableTasksRow list) \<Rightarrow> sched_env \<Rightarrow> task_db \<Rightarrow> task_db option" where
  "runDueScheduledTasks arrange env db =
     (case ListSchedulableTasks arrange (e_listed env) db of
        None \<Rightarrow> Some db
      | Some tasks \<Rightarrow> run_pass (\<lambda>row. e_cancelled env (t_ID (lt_ScheduledTask row)))
                              (\<lambda>row. scheduleTask env (lt_ScheduledTask row)) tasks db)"

section \<open>What a step touches\<close>

definition task_rows :: "int \<Rightarrow> task_db \<Rightarrow> ScheduledTask list" where
  "task_rows i db = filter (\<lambda>t. t_ID t = i) (t_tasks db)"

definition history :: "int \<Rightarrow> task_db \<Rightarrow> TaskExecution list" where
  "history i db = filter (\<lambda>x. x_ScheduledTaskID x = i) (t_executions db)"

definition touches :: "sched_env \<Rightarrow> ScheduledTask \<Rightarrow> task_db \<Rightarrow> task_db \<Rightarrow> bool" where
  "touches env t db db' \<longleftrightarrow>
     (\<forall>i. i \<noteq> t_ID t \<longrightarrow> task_rows i db' = task_rows i db) \<and>
     (\<exists>xs. t_executions db' = t_executions db @ xs \<and> (\<forall>x \<in> set xs. x_ScheduledTaskID x = t_ID t)) \<and>
     (\<exists>js. rows (t_jobs db') = rows (t_jobs db) @ js \<and>
        (\<forall>j \<in> set js. LockKey j = Some (task_lock t) \<and> Some (Uuid j) = e_uuid env (t_ID t)))"

named_theorems touch \<open>the operations of a step touch their own task only\<close>

lemma touches_refl [touch]: "touches env t db db"
  by (simp add: touches_def)

lemma touches_trans: "touches env t a b \<Longrightarrow> touches env t b c \<Longrightarrow> touches env t a c"
  unfolding touches_def by (elim conjE exE, intro conjI) (auto 0 3)

lemma create_execution_touches [touch]: "touches env t db (snd (create_execution env t st reason db))"
  by (auto simp: create_execution_def CreateTaskExecution_def touches_def task_rows_def Let_def split: reply.splits)

lemma recordSkip_touches [touch]: "touches env t db (recordSkip env t reason db)"
  by (simp add: recordSkip_def touch)

lemma jobs_touch:
  assumes "enqueue_job env (t_ID t) m (task_options t x) (t_jobs db) = (r, js)"
  shows "touches env t db (db\<lparr>t_jobs := js\<rparr>)"
proof -
  have "o_IdempotencyKey (task_options t x) = None" "o_LockKey (task_options t x) = Some (task_lock t)"
    by (simp_all add: task_options_def)
  with assms show ?thesis by (cases rule: enqueue_job_cases) (auto simp: touches_def task_rows_def)
qed

lemma enqueueTask_touches [touch]: "touches env t db (snd (enqueueTask env t db))"
proof -
  obtain o1 db1 where c: "create_execution env t TaskExecutionStatusRunning None db = (o1, db1)" by (metis surj_pair)
  have t: "touches env t db db1" using create_execution_touches [of env t db TaskExecutionStatusRunning None] c by simp
  show ?thesis
  proof (cases o1)
    case (Some x)
    obtain r js where "enqueue_job env (t_ID t) marshal_ScheduledTaskPayload (task_options t x) (t_jobs db1) = (r, js)"
      by (metis surj_pair)
    with jobs_touch [OF this] show ?thesis using c Some t
      by (auto simp: enqueueTask_def split: sum.splits intro: touches_trans)
  qed (use c t in \<open>simp add: enqueueTask_def\<close>)
qed

lemma task_rows_set:
  "task_rows i (SetScheduledTaskSchedule k next lastRun db) =
     (if i = k then map (\<lambda>t. t\<lparr>t_NextRunAt := coalesce next (t_NextRunAt t), t_LastRunAt := coalesce lastRun (t_LastRunAt t)\<rparr>) (task_rows i db)
      else task_rows i db)"
proof -
  have aux: "filter (\<lambda>t. t_ID t = i) (map (\<lambda>t. if t_ID t = k then f t else t) xs) =
      (if i = k then map f (filter (\<lambda>t. t_ID t = i) xs) else filter (\<lambda>t. t_ID t = i) xs)"
    if "\<And>t. t_ID (f t) = t_ID t" for f xs
    by (induction xs) (auto simp: that)
  have "t_tasks (SetScheduledTaskSchedule k next lastRun db) = map (\<lambda>t. if t_ID t = k
      then t\<lparr>t_NextRunAt := coalesce next (t_NextRunAt t), t_LastRunAt := coalesce lastRun (t_LastRunAt t)\<rparr> else t) (t_tasks db)"
    by (simp add: SetScheduledTaskSchedule_def)
  then show ?thesis unfolding task_rows_def by (simp only:) (rule aux, simp)
qed

lemma set_schedule_other [simp]:
  "t_executions (SetScheduledTaskSchedule k n l db) = t_executions db" "t_jobs (SetScheduledTaskSchedule k n l db) = t_jobs db"
  by (simp_all add: SetScheduledTaskSchedule_def)

lemma advanceTask_touches: "advanceTask env t s loc f db = Some (e, db') \<Longrightarrow> touches env t db db'"
  by (auto simp: advanceTask_def exec_stmt_def touches_def task_rows_set split: option.splits reply.splits)

lemma run_task_touches: "run_task env t s loc db = Some (e, db') \<Longrightarrow> touches env t db db'"
  using enqueueTask_touches [of env t db] touches_refl [of env t db] recordSkip_touches [of env t db overlap_reason]
  by (auto simp: run_task_def split: if_splits prod.splits option.splits dest!: advanceTask_touches intro: touches_trans)

lemma scheduleTask_touches: "scheduleTask env t db = Some (e, db') \<Longrightarrow> touches env t db db'"
  using touches_refl [of env t db] recordSkip_touches [of env t db missed_reason]
  by (auto simp: scheduleTask_def Let_def split: option.splits sum.splits if_splits dest!: advanceTask_touches run_task_touches
      intro: touches_trans)

text \<open>What a task sees of the database: its row, its history and the jobs of its lock.\<close>

definition task_view :: "ListSchedulableTasksRow \<Rightarrow> task_db \<Rightarrow> ScheduledTask list \<times> TaskExecution list \<times> Job list" where
  "task_view row db =
     (let t = lt_ScheduledTask row in (task_rows (t_ID t) db, history (t_ID t) db, jobs_of (task_lock t) (t_jobs db)))"

definition tasks_apart :: "ListSchedulableTasksRow \<Rightarrow> ListSchedulableTasksRow \<Rightarrow> bool" where
  "tasks_apart a b \<longleftrightarrow> t_ID (lt_ScheduledTask a) \<noteq> t_ID (lt_ScheduledTask b) \<and>
     t_Uuid (lt_ScheduledTask a) \<noteq> t_Uuid (lt_ScheduledTask b)"

abbreviation task_id :: "ListSchedulableTasksRow \<Rightarrow> int" where
  "task_id row \<equiv> t_ID (lt_ScheduledTask row)"

interpretation tasks: row_pass "\<lambda>row. scheduleTask env (lt_ScheduledTask row)" tasks_apart task_view
  "uuids_from task_id t_jobs env U" for env U
proof unfold_locales
  fix r r' :: ListSchedulableTasksRow and db e db'
  assume "scheduleTask env (lt_ScheduledTask r) db = Some (e, db')" and a: "tasks_apart r r'"
  from scheduleTask_touches [OF this(1)] obtain xs js where t: "\<forall>i. i \<noteq> task_id r \<longrightarrow> task_rows i db' = task_rows i db"
    "t_executions db' = t_executions db @ xs" "\<forall>x \<in> set xs. x_ScheduledTaskID x = task_id r"
    "rows (t_jobs db') = rows (t_jobs db) @ js" "\<forall>j \<in> set js. LockKey j = Some (task_lock (lt_ScheduledTask r))"
    unfolding touches_def by blast
  have "filter (\<lambda>x. x_ScheduledTaskID x = task_id r') xs = []" "filter (\<lambda>j. LockKey j = Some (task_lock (lt_ScheduledTask r'))) js = []"
    using t(3,5) a by (auto simp: filter_empty_conv tasks_apart_def task_lock_def)
  then show "task_view r' db' = task_view r' db"
    using t(1,2,4) a by (simp add: task_view_def history_def jobs_of_def tasks_apart_def)
next
  fix rs and r :: ListSchedulableTasksRow and db e db'
  assume inv: "uuids_from task_id t_jobs env U rs db" and "scheduleTask env (lt_ScheduledTask r) db = Some (e, db')"
  from scheduleTask_touches [OF this(2)] obtain js where "rows (t_jobs db') = rows (t_jobs db) @ js"
    "\<forall>j \<in> set js. Some (Uuid j) = e_uuid env (task_id r)" unfolding touches_def by blast
  then have "job_uuids (t_jobs db') \<subseteq> job_uuids (t_jobs db) \<union> {u. e_uuid env (task_id r) = Some u}"
    by (auto simp: job_uuids_def)
  then show "uuids_from task_id t_jobs env U (rs @ [r]) db'" by (rule uuids_from_step [OF inv])
qed

section \<open>What a step does\<close>

text \<open>An occurrence is missed when the next one has passed as well.\<close>

definition missed_occurrence :: "Schedule \<Rightarrow> int \<Rightarrow> int \<Rightarrow> int \<Rightarrow> bool" where
  "missed_occurrence s c due_at now \<longleftrightarrow>
     (\<exists>u. due_at < u \<and> u < now \<and> u < Truncate due_at minute + minute + maxLookahead \<and> minute dvd u \<and> occurs s (\<lambda>_. c) u)"

lemma missed_exact:
  assumes "minute dvd c" "0 \<le> due_at"
  obtains f where "Next s due_at (Some (\<lambda>_. c)) = Some f"
    "(0 < time_Sub f due_at \<and> time_Sub f due_at < time_Sub now due_at) \<longleftrightarrow> missed_occurrence s c due_at now"
proof -
  from next_window_fixed [OF assms] obtain w where w: "next_window s due_at (\<lambda>_. c) = Some w" "window_of s c due_at w" by blast
  then obtain f where f: "Next s due_at (Some (\<lambda>_. c)) = Some f" "w = (if f = 0 then None else Some f)"
    by (auto simp: next_window_def split: option.splits)
  show thesis
  proof (cases "f = 0")
    case True
    then have "\<not> missed_occurrence s c due_at now" "\<not> 0 < time_Sub f due_at"
      using w(2) f(2) assms(2) by (auto simp: window_of_def missed_occurrence_def time_Sub_def)
    with f(1) that show thesis by blast
  next
    case False
    then have win: "due_at < f" "f < Truncate due_at minute + minute + maxLookahead" "minute dvd f" "occurs s (\<lambda>_. c) f"
      "\<And>v. due_at < v \<Longrightarrow> v < f \<Longrightarrow> minute dvd v \<Longrightarrow> \<not> occurs s (\<lambda>_. c) v"
      using w(2) f(2) by (auto simp: window_of_def)
    have "0 \<le> due_at mod minute" by simp
    then have "f - due_at < 2 ^ 63 - 1" using win(2) unfolding Truncate_def maxLookahead_def by simp
    then have "time_Sub f due_at = f - due_at" "f - due_at < time_Sub now due_at \<longleftrightarrow> f < now"
      using win(1) by (auto simp: time_Sub_def)
    moreover have "f < now \<longleftrightarrow> missed_occurrence s c due_at now"
      using win unfolding missed_occurrence_def by (meson linorder_not_less order_le_less_trans)
    ultimately show thesis using win(1) by (intro that [OF f(1)]) simp
  qed
qed

text \<open>What a pass owes to a task with the schedule \<open>s\<close> in an offset \<open>c\<close>, of which \<open>n\<close> executions run, when \<open>w\<close> is its
  next window: the new row, the additions to its history and the number of jobs.\<close>

definition task_outcome ::
  "int \<Rightarrow> Schedule \<Rightarrow> int \<Rightarrow> nat \<Rightarrow> int option \<Rightarrow> ScheduledTask
     \<Rightarrow> ScheduledTask \<times> (TaskExecutionStatus \<times> string option) list \<times> nat" where
  "task_outcome now s c n w t =
     (let moved = t\<lparr>t_NextRunAt := coalesce w (t_NextRunAt t)\<rparr> in
      case t_NextRunAt t of
        None \<Rightarrow> (moved, [], 0)
      | Some due_at \<Rightarrow>
          if now < due_at then (t, [], 0)
          else if t_MissedRunPolicy t = TaskMissedRunPolicySkip \<and> missed_occurrence s c due_at now
          then (moved, [(TaskExecutionStatusSkipped, Some missed_reason)], 0)
          else if t_OverlapPolicy t = TaskOverlapPolicySkip \<and> 0 < n
          then (moved, [(TaskExecutionStatusSkipped, Some overlap_reason)], 0)
          else (moved\<lparr>t_LastRunAt := Some now\<rparr>, [(TaskExecutionStatusRunning, None)], 1))"

definition task_effect ::
  "ScheduledTask \<Rightarrow> task_db \<Rightarrow> task_db \<Rightarrow> ScheduledTask \<times> (TaskExecutionStatus \<times> string option) list \<times> nat \<Rightarrow> bool" where
  "task_effect t db db' = (\<lambda>(t', new, k).
     task_rows (t_ID t) db' = [t'] \<and>
     (\<exists>xs. history (t_ID t) db' = history (t_ID t) db @ xs \<and> map (\<lambda>x. (x_Status x, x_SkipReason x)) xs = new) \<and>
     (\<exists>js. jobs_of (task_lock t) (t_jobs db') = jobs_of (task_lock t) (t_jobs db) @ js \<and> length js = k))"

text \<open>The statements of a step, when they are answered.\<close>

lemma create_answered:
  assumes "e_reply env (t_ID t) CallExecution = Answered" "task_rows (t_ID t) d = [t]"
    and "(st = TaskExecutionStatusSkipped) = (reason \<noteq> None)"
  obtains x where "create_execution env t st reason d =
      (Some x, d\<lparr>t_executions := t_executions d @ [x], t_next_execution := t_next_execution d + 1\<rparr>)"
    "x_ScheduledTaskID x = t_ID t" "x_Status x = st" "x_SkipReason x = reason"
proof -
  have "list_ex (\<lambda>y. t_ID y = t_ID t) (t_tasks d)"
    using assms(2) unfolding task_rows_def list_ex_iff by (metis (mono_tags) filter_empty_conv list.distinct(1))
  with assms(1,3) show thesis
    by (intro that [of "\<lparr>x_ID = t_next_execution d, x_ScheduledTaskID = t_ID t, x_Status = st, x_SkipReason = reason,
        x_ExitCode = None, x_Output = None, x_OutputTruncated = False, x_StartedAt = e_clock env (t_ID t),
        x_FinishedAt = None, x_DurationMs = None\<rparr>"])
      (auto simp: create_execution_def CreateTaskExecution_def Let_def)
qed

lemma advance_answered:
  assumes "next_window s (e_now env) loc = Some w" "e_reply env (t_ID t) CallAdvance = Answered"
  shows "advanceTask env t s loc f d =
    Some (None, SetScheduledTaskSchedule (t_ID t) w (if f then Some (e_now env) else None) d)"
  using assms by (simp add: advanceTask_def exec_stmt_def)

lemma skip_effect:
  assumes "e_reply env (t_ID t) CallExecution = Answered" "task_rows (t_ID t) d = [t]"
  shows "task_effect t d (SetScheduledTaskSchedule (t_ID t) w None (recordSkip env t reason d))
    (t\<lparr>t_NextRunAt := coalesce w (t_NextRunAt t)\<rparr>, [(TaskExecutionStatusSkipped, Some reason)], 0)"
proof -
  obtain x where "create_execution env t TaskExecutionStatusSkipped (Some reason) d =
      (Some x, d\<lparr>t_executions := t_executions d @ [x], t_next_execution := t_next_execution d + 1\<rparr>)"
    "x_ScheduledTaskID x = t_ID t" "x_Status x = TaskExecutionStatusSkipped" "x_SkipReason x = Some reason"
    using create_answered [OF assms, of TaskExecutionStatusSkipped "Some reason"] by auto
  moreover have "task_rows i (d\<lparr>t_executions := X, t_next_execution := n\<rparr>) = task_rows i d" for i X n
    by (simp add: task_rows_def)
  ultimately show ?thesis using assms(2)
    by (simp add: task_effect_def recordSkip_def task_rows_set history_def coalesce_def)
qed

lemma run_effect:
  assumes up: "\<And>call. e_reply env (t_ID t) call = Answered" and uuid: "e_uuid env (t_ID t) = Some u" "u \<notin> job_uuids (t_jobs d)"
    and row: "task_rows (t_ID t) d = [t]"
  shows "\<exists>d1. enqueueTask env t d = (None, d1) \<and>
    task_effect t d (SetScheduledTaskSchedule (t_ID t) w (Some now) d1)
      (t\<lparr>t_NextRunAt := coalesce w (t_NextRunAt t), t_LastRunAt := Some now\<rparr>, [(TaskExecutionStatusRunning, None)], 1)"
proof -
  obtain x where x: "create_execution env t TaskExecutionStatusRunning None d =
      (Some x, d\<lparr>t_executions := t_executions d @ [x], t_next_execution := t_next_execution d + 1\<rparr>)"
    "x_ScheduledTaskID x = t_ID t" "x_Status x = TaskExecutionStatusRunning" "x_SkipReason x = None"
    using create_answered [OF up row, of TaskExecutionStatusRunning None] by auto
  have "admissible marshal_ScheduledTaskPayload (e_uuid env (t_ID t)) (task_options t x)"
    using uuid(1) by (simp add: admissible_def task_options_def KnownQueues_def marshal_ScheduledTaskPayload_def)
  with uuid obtain job js where enq:
    "enqueue_job env (t_ID t) marshal_ScheduledTaskPayload (task_options t x) (t_jobs d) = (Inr job, js)"
    using enqueue_job_Answered [OF up, of "task_options t x" marshal_ScheduledTaskPayload "t_jobs d"]
    by (auto simp: task_options_def)
  have "o_IdempotencyKey (task_options t x) = None" "o_LockKey (task_options t x) = Some (task_lock t)"
    by (simp_all add: task_options_def)
  with enq obtain j where jobs: "jobs_of (task_lock t) js = jobs_of (task_lock t) (t_jobs d) @ [j]"
    by (cases rule: enqueue_job_cases) (auto dest: jobs_of_added)
  have rows: "task_rows i (d\<lparr>t_executions := X, t_next_execution := n, t_jobs := J\<rparr>) = task_rows i d" for i X n J
    by (simp add: task_rows_def)
  show ?thesis using x enq jobs row
    by (simp add: enqueueTask_def task_effect_def task_rows_set rows history_def coalesce_def)
qed

lemma running_history:
  "CountRunningTaskExecutions i db = length (filter (\<lambda>x. x_Status x = TaskExecutionStatusRunning) (history i db))"
  by (simp add: CountRunningTaskExecutions_def history_def conj_commute)

lemma step_exact:
  assumes cron: "Parse (t_CronExpression t) = Some (Inr s)" "e_location env (t_Timezone t) = Some (\<lambda>_. c)" "minute dvd c"
    and env: "0 \<le> e_now env" "\<And>call. e_reply env (t_ID t) call = Answered"
    and uuid: "e_uuid env (t_ID t) = Some u" "u \<notin> job_uuids (t_jobs d)"
    and row: "task_rows (t_ID t) d = [t]" "\<And>due_at. t_NextRunAt t = Some due_at \<Longrightarrow> 0 \<le> due_at"
    and step: "scheduleTask env t d = Some (e, d')"
  shows "\<exists>w. window_of s c (e_now env) w \<and>
    task_effect t d d' (task_outcome (e_now env) s c (CountRunningTaskExecutions (t_ID t) d) w t)"
proof -
  from next_window_fixed [OF cron(3) env(1)] obtain w where
    w: "next_window s (e_now env) (\<lambda>_. c) = Some w" "window_of s c (e_now env) w" by blast
  note adv = advance_answered [OF w(1) env(2)]
  have "task_effect t d d' (task_outcome (e_now env) s c (CountRunningTaskExecutions (t_ID t) d) w t)"
  proof (cases "t_NextRunAt t")
    case None
    then show ?thesis using step row(1)
      by (cases w) (auto simp: scheduleTask_def cron adv task_outcome_def task_effect_def task_rows_set history_def coalesce_def)
  next
    case (Some due_at)
    obtain f where f: "Next s due_at (Some (\<lambda>_. c)) = Some f"
      "(0 < time_Sub f due_at \<and> time_Sub f due_at < time_Sub (e_now env) due_at) \<longleftrightarrow> missed_occurrence s c due_at (e_now env)"
      using missed_exact [OF cron(3) row(2) [OF Some]] by metis
    have unf: "scheduleTask env t d =
        (if due_at > e_now env then Some (None, d)
         else if missed_occurrence s c due_at (e_now env) \<and> t_MissedRunPolicy t = TaskMissedRunPolicySkip
         then advanceTask env t s (\<lambda>_. c) False (recordSkip env t missed_reason d)
         else run_task env t s (\<lambda>_. c) d)"
      using f(1) unfolding f(2) [symmetric] by (simp add: scheduleTask_def cron Some Let_def)
    obtain d1 where run: "enqueueTask env t d = (None, d1)"
      "task_effect t d (SetScheduledTaskSchedule (t_ID t) w (Some (e_now env)) d1)
        (t\<lparr>t_NextRunAt := coalesce w (t_NextRunAt t), t_LastRunAt := Some (e_now env)\<rparr>, [(TaskExecutionStatusRunning, None)], 1)"
      using run_effect [OF env(2) uuid row(1)] by metis
    have idle: "task_effect t d d (t, [], 0)" using row(1) by (simp add: task_effect_def)
    note skip = skip_effect [OF env(2) row(1), of w]
    show ?thesis using step run skip [of missed_reason] skip [of overlap_reason] idle Some
      by (auto simp: unf run_task_def adv env(2) task_outcome_def Let_def split: if_splits)
  qed
  then show ?thesis using w(2) by blast
qed

lemma task_step_returns:
  assumes "fixed_zones env" "0 \<le> e_now env" "\<And>due_at. t_NextRunAt t = Some due_at \<Longrightarrow> 0 \<le> due_at"
  shows "scheduleTask env t d \<noteq> None"
proof -
  have adv: "advanceTask env t s loc f x \<noteq> None" if "e_location env tz = Some loc" for s loc f x tz
    using window_returns [OF assms(1,2) that] by (simp add: advanceTask_def split: option.splits)
  obtain p where p: "Parse (t_CronExpression t) = Some p" using Parse_returns [of "t_CronExpression t"] by blast
  show ?thesis
  proof (cases "(\<exists>x. p = Inl x) \<or> e_location env (t_Timezone t) = None")
    case False
    then obtain s loc where s: "p = Inr s" and loc: "e_location env (t_Timezone t) = Some loc" by (cases p) auto
    note go = adv [OF loc]
    show ?thesis
    proof (cases "t_NextRunAt t")
      case (Some due_at)
      obtain f where "Next s due_at (Some loc) = Some f"
        using window_returns [OF assms(1) assms(3) [OF Some] loc, of s] by (auto simp: next_window_def split: option.splits)
      then show ?thesis using go
        by (simp add: scheduleTask_def run_task_def p s loc Some Let_def split: option.splits prod.splits del: not_None_eq)
    qed (use go in \<open>simp add: scheduleTask_def p s loc del: not_None_eq\<close>)
  qed (auto simp: scheduleTask_def p split: sum.splits)
qed

text \<open>When the job of an execution cannot be queued, the execution stays open: no job will close it, the window does not
  move, and with the policy to skip overlaps every later occurrence is skipped, whatever the database answers.\<close>

lemma unqueued_execution:
  assumes "e_reply env (t_ID t) CallExecution = Answered" "e_reply env (t_ID t) CallEnqueue = NotSent"
    and "task_rows (t_ID t) d = [t]"
  shows "\<exists>d'. enqueueTask env t d = (Some ErrStore, d') \<and> t_jobs d' = t_jobs d \<and> t_tasks d' = t_tasks d \<and>
    CountRunningTaskExecutions (t_ID t) d' = CountRunningTaskExecutions (t_ID t) d + 1"
proof -
  obtain x where "create_execution env t TaskExecutionStatusRunning None d =
      (Some x, d\<lparr>t_executions := t_executions d @ [x], t_next_execution := t_next_execution d + 1\<rparr>)"
    "x_ScheduledTaskID x = t_ID t" "x_Status x = TaskExecutionStatusRunning"
    using create_answered [OF assms(1,3), of TaskExecutionStatusRunning None] by auto
  then show ?thesis using assms(2) by (simp add: enqueueTask_def enqueue_job_def CountRunningTaskExecutions_def)
qed

lemma open_execution_blocks:
  assumes "t_OverlapPolicy t = TaskOverlapPolicySkip" "0 < CountRunningTaskExecutions (t_ID t) d"
    and "scheduleTask env t d = Some (e, d')"
  shows "t_jobs d' = t_jobs d"
proof -
  have skip: "t_jobs (recordSkip env t reason d) = t_jobs d" for reason
    by (auto simp: recordSkip_def create_execution_def CreateTaskExecution_def Let_def split: reply.splits)
  have adv: "t_jobs d2 = t_jobs d1" if "advanceTask env t s loc f d1 = Some (e, d2)" for s loc f d1 d2
    using that by (auto simp: advanceTask_def exec_stmt_def split: option.splits reply.splits)
  show ?thesis using assms skip
    by (auto simp: scheduleTask_def run_task_def Let_def split: option.splits sum.splits if_splits dest!: adv)
qed

section \<open>The whole pass\<close>

definition tasks_ok :: "task_db \<Rightarrow> bool" where
  "tasks_ok db \<longleftrightarrow> distinct (map t_ID (t_tasks db)) \<and> distinct (map t_Uuid (t_tasks db)) \<and>
     (\<forall>t \<in> set (t_tasks db). \<forall>due_at. t_NextRunAt t = Some due_at \<longrightarrow> 0 \<le> due_at)"

lemma listed_tasks:
  assumes ok: "tasks_ok db" and perm: "\<And>rs. mset (arrange rs) = mset rs"
    and listed: "ListSchedulableTasks arrange True db = Some rs"
  shows "distinct rs" "pairwise tasks_apart (set rs)" "lt_ScheduledTask ` set rs = {t \<in> set (t_tasks db). task_schedulable db t}"
proof -
  let ?row = "\<lambda>t. \<lparr>lt_ScheduledTask = t, lt_ApplicationUuid = rs_Uuid (the (live_resource db t))\<rparr>"
  let ?ts = "filter (task_schedulable db) (t_tasks db)"
  have m: "mset rs = mset (map ?row ?ts)" using listed perm by (auto simp: ListSchedulableTasks_def)
  have ts: "distinct ?ts" using ok by (auto simp: tasks_ok_def distinct_map)
  have "inj_on ?row (set ?ts)" by (rule inj_onI) simp
  then have "distinct (map ?row ?ts)" using ts by (simp add: distinct_map)
  then show "distinct rs" using m by (metis mset_eq_imp_distinct_iff)
  have set: "set rs = ?row ` set ?ts" using m by (metis list.set_map mset_eq_setD)
  show "lt_ScheduledTask ` set rs = {t \<in> set (t_tasks db). task_schedulable db t}"
    unfolding set image_image by simp
  have inj: "inj_on t_ID (set (t_tasks db))" "inj_on t_Uuid (set (t_tasks db))"
    using ok by (simp_all add: tasks_ok_def distinct_map)
  show "pairwise tasks_apart (set rs)"
  proof (rule pairwiseI)
    fix a b assume "a \<in> set rs" "b \<in> set rs" "a \<noteq> b"
    then obtain x y where "a = ?row x" "b = ?row y" "x \<in> set (t_tasks db)" "y \<in> set (t_tasks db)" "x \<noteq> y"
      unfolding set by auto
    then show "tasks_apart a b"
      using inj_onD [OF inj(1), of x y] inj_onD [OF inj(2), of x y] by (auto simp: tasks_apart_def)
  qed
qed

lemma task_rows_unique: "tasks_ok db \<Longrightarrow> t \<in> set (t_tasks db) \<Longrightarrow> task_rows (t_ID t) db = [t]"
  unfolding tasks_ok_def task_rows_def by (intro filter_key_unique) simp_all

lemma effect_view:
  assumes "task_effect (lt_ScheduledTask row) d d' r" "task_view row d = task_view row db" "task_view row db' = task_view row d'"
  shows "task_effect (lt_ScheduledTask row) db db' r"
  using assms by (auto simp: task_effect_def task_view_def Let_def split: prod.splits)

section \<open>Properties\<close>

text \<open>A task due half an hour ago whose last execution still runs.\<close>

definition digest_task :: ScheduledTask where
  "digest_task =
     \<lparr>t_ID = 5, t_Uuid = ''t5'', t_TeamID = 3, t_ResourceID = 7, t_Container = None, t_Name = ''digest'',
      t_Command = Some ''true'', t_CronExpression = ''30 3 * * *'', t_Timezone = ''UTC'', t_Enabled = True,
      t_OverlapPolicy = TaskOverlapPolicySkip, t_MissedRunPolicy = TaskMissedRunPolicySkip, t_TimeoutSeconds = 300,
      t_NextRunAt = Some (e_now sample_env - 30 * minute), t_LastRunAt = None, t_CreatedBy = None, t_UpdatedBy = None,
      t_CreatedAt = 0, t_UpdatedAt = 0, t_DeletedAt = None, t_Version = 1, t_Kind = TaskKindContainerCommand,
      t_WorkflowFile = None, t_WorkflowRef = None, t_WorkflowInputs = None\<rparr>"

definition sample_tasks :: task_db where
  "sample_tasks =
     \<lparr>t_tasks = [digest_task],
      t_executions = [\<lparr>x_ID = 1, x_ScheduledTaskID = 5, x_Status = TaskExecutionStatusRunning, x_SkipReason = None,
                       x_ExitCode = None, x_Output = None, x_OutputTruncated = False, x_StartedAt = 0,
                       x_FinishedAt = None, x_DurationMs = None\<rparr>], t_next_execution = 2,
      t_resources = [\<lparr>rs_ID = 7, rs_Uuid = ''r7'', rs_TeamID = 3, rs_DeletedAt = None\<rparr>],
      t_jobs = \<lparr>rows = [], next_id = 1\<rparr>\<rparr>"

lemma digest_parses:
  "Parse (t_CronExpression digest_task) = Some (Inr (projr (the (Parse (t_CronExpression digest_task)))))"
  by code_simp



end
