(* ===== verification/Idempotency.thy ===== *)
theory Idempotency
  imports Prelude
begin

text \<open>
  Idempotent requests (\<^verbatim>\<open>internal/httpapi/idempotency.go\<close>) over the table of keys
  (\<^verbatim>\<open>internal/store/idempotency.sql.go\<close>).  The middleware claims the key of a mutating request; the first
  request with a key runs, the others are answered from the table.  Its two halves, before and after the wrapped
  handler, are separate definitions, so that requests interleave: the step relation at the end has one step per
  half.  The laws the middleware relies on form a locale, interpreted on the queries.  Proved: while a key is
  kept, at most one request with it runs, and a completed one is replayed verbatim; but a failed one blocks its
  key.
\<close>

section \<open>The table of keys\<close>

record idem_row =
  ir_ID :: int
  ir_TeamID :: int
  ir_Key :: string
  ir_Endpoint :: string
  ir_RequestHash :: string
  ir_StatusCode :: "int option"
  ir_ResponseBody :: string
  ir_CompletedAt :: "int option"
  ir_CreatedAt :: int

record idem_table =
  ik_rows :: "idem_row list"
  ik_next_id :: int

record ClaimParams =
  cp_TeamID :: int
  cp_Key :: string
  cp_Endpoint :: string
  cp_RequestHash :: string

type_synonym idem_key = "int \<times> string \<times> string"

definition row_key :: "idem_row \<Rightarrow> idem_key" where
  "row_key r = (ir_TeamID r, ir_Key r, ir_Endpoint r)"

definition params_key :: "ClaimParams \<Rightarrow> idem_key" where
  "params_key a = (cp_TeamID a, cp_Key a, cp_Endpoint a)"

text \<open>The unique index on team, key and endpoint turns the insert of a known key into an update that changes
  nothing, told by \<open>is_new\<close>.\<close>

definition ClaimIdempotencyKey ::
  "int \<Rightarrow> ClaimParams \<Rightarrow> idem_table \<Rightarrow> (idem_row \<times> bool) \<times> idem_table" where
  "ClaimIdempotencyKey now a db =
     (case find (\<lambda>r. row_key r = params_key a) (ik_rows db) of
        Some r \<Rightarrow> ((r, False), db)
      | None \<Rightarrow>
          let r = \<lparr>ir_ID = ik_next_id db, ir_TeamID = cp_TeamID a, ir_Key = cp_Key a, ir_Endpoint = cp_Endpoint a,
                   ir_RequestHash = cp_RequestHash a, ir_StatusCode = None, ir_ResponseBody = [],
                   ir_CompletedAt = None, ir_CreatedAt = now\<rparr>
          in ((r, True), \<lparr>ik_rows = ik_rows db @ [r], ik_next_id = ik_next_id db + 1\<rparr>))"

definition CompleteIdempotencyKey :: "int \<Rightarrow> int \<Rightarrow> int \<Rightarrow> string \<Rightarrow> idem_table \<Rightarrow> idem_table" where
  "CompleteIdempotencyKey now i status body db =
     db\<lparr>ik_rows := map (\<lambda>r. if ir_ID r = i
         then r\<lparr>ir_StatusCode := Some status, ir_ResponseBody := body, ir_CompletedAt := Some now\<rparr> else r)
       (ik_rows db)\<rparr>"

definition PurgeIdempotencyKeys :: "int \<Rightarrow> idem_table \<Rightarrow> idem_table" where
  "PurgeIdempotencyKeys now db =
     db\<lparr>ik_rows := filter (\<lambda>r. \<not> ir_CreatedAt r < now - 24 * 3600 * second) (ik_rows db)\<rparr>"

section \<open>The middleware\<close>

definition maxBodyBytes :: nat where
  "maxBodyBytes = 2 ^ 20"

record http_request =
  rq_Method :: string
  rq_Path :: string
  rq_RawQuery :: string
  rq_IdempotencyKey :: string
  rq_Body :: "string option"

datatype idem_answer =
    Answer int string
  | Replayed int string
  | Refused int string

text \<open>What the first half decides: pass the request through, answer it, or run it for the claimed row.\<close>

datatype decision = PassThrough | Reply idem_answer | RunFor int

text \<open>What is decided before the table is asked; \<open>hash\<close> is the hex digest of SHA-256.\<close>

definition intercept ::
  "(http_request \<Rightarrow> int option) \<Rightarrow> (string \<Rightarrow> string) \<Rightarrow> http_request \<Rightarrow> (decision, ClaimParams) result" where
  "intercept teamID hash r =
     (if rq_IdempotencyKey r = [] \<or> rq_Method r \<notin> {''POST'', ''PUT'', ''PATCH''} then Inl PassThrough
      else case teamID r of
        None \<Rightarrow> Inl PassThrough
      | Some team \<Rightarrow>
          (case rq_Body r of
             None \<Rightarrow> Inl (Reply (Refused 400 ''bad_request''))
           | Some stream \<Rightarrow>
               let body = take (maxBodyBytes + 1) stream in
               if length body > maxBodyBytes then Inl (Reply (Refused 413 ''bad_request''))
               else Inr \<lparr>cp_TeamID = team, cp_Key = rq_IdempotencyKey r, cp_Endpoint = rq_Method r @ '' '' @ rq_Path r,
                         cp_RequestHash = hash (rq_RawQuery r @ [CHR 0x0A] @ body)\<rparr>))"

text \<open>The answer for a key that is already in the table.\<close>

definition answer_from :: "idem_row \<Rightarrow> string \<Rightarrow> idem_answer" where
  "answer_from row h =
     (if ir_RequestHash row \<noteq> h then Refused 409 ''idempotency_conflict''
      else case (ir_CompletedAt row, ir_StatusCode row) of
        (Some _, Some st) \<Rightarrow> Replayed st (ir_ResponseBody row)
      | _ \<Rightarrow> Refused 409 ''operation_in_progress'')"

text \<open>\<open>claim\<close> is the query, which may fail.\<close>

definition decide ::
  "(http_request \<Rightarrow> int option) \<Rightarrow> (string \<Rightarrow> string) \<Rightarrow>
   (ClaimParams \<Rightarrow> 'db \<Rightarrow> (idem_row \<times> bool) option \<times> 'db) \<Rightarrow> http_request \<Rightarrow> 'db \<Rightarrow> decision \<times> 'db" where
  "decide teamID hash claim r db =
     (case intercept teamID hash r of
        Inl d \<Rightarrow> (d, db)
      | Inr a \<Rightarrow>
          (case claim a db of
             (None, db') \<Rightarrow> (Reply (Refused 500 ''internal''), db')
           | (Some (row, isNew), db') \<Rightarrow>
               if isNew then (RunFor (ir_ID row), db') else (Reply (answer_from row (cp_RequestHash a)), db')))"

definition complete :: "(string \<Rightarrow> bool) \<Rightarrow> (int \<Rightarrow> int \<Rightarrow> string \<Rightarrow> 'db \<Rightarrow> 'db) \<Rightarrow> int \<Rightarrow> int \<Rightarrow> string \<Rightarrow> 'db \<Rightarrow> 'db" where
  "complete json_valid finish i status body db = finish i status (if json_valid body then body else ''{}'') db"

text \<open>The second half: only a successful response is stored.\<close>

definition conclude :: "(string \<Rightarrow> bool) \<Rightarrow> (int \<Rightarrow> int \<Rightarrow> string \<Rightarrow> 'db \<Rightarrow> 'db) \<Rightarrow> int \<Rightarrow> int \<Rightarrow> string \<Rightarrow> 'db \<Rightarrow> 'db" where
  "conclude json_valid finish i status body db =
     (if 200 \<le> status \<and> status < 300 then complete json_valid finish i status body db else db)"

text \<open>The whole middleware around a handler \<open>next\<close>, during which other requests may change the table.\<close>

definition IdempotencyHandler ::
  "(http_request \<Rightarrow> int option) \<Rightarrow> (string \<Rightarrow> string) \<Rightarrow> (string \<Rightarrow> bool) \<Rightarrow>
   (ClaimParams \<Rightarrow> 'db \<Rightarrow> (idem_row \<times> bool) option \<times> 'db) \<Rightarrow> (int \<Rightarrow> int \<Rightarrow> string \<Rightarrow> 'db \<Rightarrow> 'db) \<Rightarrow>
   (http_request \<Rightarrow> 'w \<times> 'db \<Rightarrow> (int \<times> string) \<times> 'w \<times> 'db) \<Rightarrow> http_request \<Rightarrow> 'w \<times> 'db \<Rightarrow> idem_answer \<times> 'w \<times> 'db" where
  "IdempotencyHandler teamID hash json_valid claim finish next r = (\<lambda>(w, db).
     case decide teamID hash claim r db of
       (PassThrough, db1) \<Rightarrow> (let ((st, b), w', db2) = next r (w, db1) in (Answer st b, w', db2))
     | (Reply ans, db1) \<Rightarrow> (ans, w, db1)
     | (RunFor i, db1) \<Rightarrow>
         (let ((st, b), w', db2) = next r (w, db1)
          in (Answer st b, w', conclude json_valid finish i st b db2)))"

section \<open>What the middleware relies on\<close>

locale idempotency_store =
  fixes lookup :: "'db \<Rightarrow> idem_key \<Rightarrow> idem_row option"
    and claim :: "ClaimParams \<Rightarrow> 'db \<Rightarrow> (idem_row \<times> bool) option \<times> 'db"
    and finish :: "int \<Rightarrow> int \<Rightarrow> string \<Rightarrow> 'db \<Rightarrow> 'db"
    and inv :: "'db \<Rightarrow> bool"
  assumes claim_failed: "claim a db = (None, db') \<Longrightarrow> db' = db"
    and claim_known: "claim a db = (Some (row, False), db') \<Longrightarrow> db' = db \<and> lookup db (params_key a) = Some row"
    and claim_fresh: "inv db \<Longrightarrow> claim a db = (Some (row, True), db') \<Longrightarrow>
      inv db' \<and> lookup db (params_key a) = None \<and> lookup db' = (lookup db)(params_key a \<mapsto> row) \<and>
      ir_CompletedAt row = None \<and> ir_RequestHash row = cp_RequestHash a"
    and finish_row: "inv db \<Longrightarrow> inv (finish i status body db)"
    and finish_lookup: "inv db \<Longrightarrow> lookup db k = Some row \<Longrightarrow>
      \<exists>t. lookup (finish i status body db) k = Some (if ir_ID row = i
        then row\<lparr>ir_StatusCode := Some status, ir_ResponseBody := body, ir_CompletedAt := Some t\<rparr> else row)"
begin

text \<open>A key in the table is never run for again: the request is answered and the table stays as it is.\<close>

lemma known_not_run:
  assumes "intercept teamID hash r = Inr a" "lookup db (params_key a) = Some row" "inv db"
  shows "decide teamID hash claim r db =
    (Reply (if fst (claim a db) = None then Refused 500 ''internal'' else answer_from row (cp_RequestHash a)), db)"
proof -
  obtain x db' where c: "claim a db = (x, db')" by fastforce
  show ?thesis
  proof (cases x)
    case None
    then show ?thesis using claim_failed c assms(1) by (auto simp: decide_def)
  next
    case (Some rn)
    obtain row' n where rn: "rn = (row', n)" by (cases rn)
    have "\<not> n" using claim_fresh [OF assms(3), of a row' db'] c Some rn assms(2) by auto
    then show ?thesis using claim_known [of a db row' db'] c Some rn assms(1,2) by (auto simp: decide_def)
  qed
qed

text \<open>A concluded success is replayed to the same request and refused to another with its key.\<close>

lemma concluded_replays:
  assumes "inv db" "lookup db k = Some row" "ir_ID row = i" "200 \<le> status" "status < 300" "json_valid body"
  shows "\<exists>row'. lookup (conclude json_valid finish i status body db) k = Some row' \<and>
    answer_from row' (ir_RequestHash row) = Replayed status body \<and>
    (h \<noteq> ir_RequestHash row \<longrightarrow> answer_from row' h = Refused 409 ''idempotency_conflict'')"
proof -
  obtain t where "lookup (finish i status body db) k =
      Some (row\<lparr>ir_StatusCode := Some status, ir_ResponseBody := body, ir_CompletedAt := Some t\<rparr>)"
    using finish_lookup [OF assms(1,2), of i status body] assms(3) by auto
  then show ?thesis
    using assms(4-6)
    by (intro exI [of _ "row\<lparr>ir_StatusCode := Some status, ir_ResponseBody := body, ir_CompletedAt := Some t\<rparr>"])
       (simp add: conclude_def complete_def answer_from_def)
qed

end

section \<open>The queries provide it\<close>

definition row_of :: "idem_table \<Rightarrow> idem_key \<Rightarrow> idem_row option" where
  "row_of db k = find (\<lambda>r. row_key r = k) (ik_rows db)"

definition idem_ok :: "idem_table \<Rightarrow> bool" where
  "idem_ok db \<longleftrightarrow> distinct (map row_key (ik_rows db)) \<and> distinct (map ir_ID (ik_rows db)) \<and>
     (\<forall>r \<in> set (ik_rows db). ir_ID r < ik_next_id db)"

text \<open>The query, when the database answers.\<close>

definition claim_query :: "bool \<Rightarrow> int \<Rightarrow> ClaimParams \<Rightarrow> idem_table \<Rightarrow> (idem_row \<times> bool) option \<times> idem_table" where
  "claim_query up now a db = (if up then (let (x, db') = ClaimIdempotencyKey now a db in (Some x, db')) else (None, db))"

lemma row_ofD: "row_of db k = Some r \<Longrightarrow> r \<in> set (ik_rows db) \<and> row_key r = k"
  by (auto simp: row_of_def find_Some_iff)

lemma row_of_None: "row_of db k = None \<longleftrightarrow> k \<notin> row_key ` set (ik_rows db)"
  by (auto simp: row_of_def find_None_iff)

lemma row_of_unique: "idem_ok db \<Longrightarrow> r \<in> set (ik_rows db) \<Longrightarrow> row_of db (row_key r) = Some r"
proof -
  assume "idem_ok db" "r \<in> set (ik_rows db)"
  moreover from this obtain r' where "row_of db (row_key r) = Some r'"
    using row_of_None [of db "row_key r"] by (cases "row_of db (row_key r)") auto
  ultimately show ?thesis using row_ofD [of db "row_key r" r'] by (auto simp: idem_ok_def distinct_map inj_on_def)
qed

lemma Claim_known: "row_of db (params_key a) = Some r \<Longrightarrow> ClaimIdempotencyKey now a db = ((r, False), db)"
  by (simp add: ClaimIdempotencyKey_def row_of_def)

lemma Claim_freshD:
  assumes "ClaimIdempotencyKey now a db = ((row, True), db')"
  shows "row_of db (params_key a) = None" "ik_rows db' = ik_rows db @ [row]" "ik_next_id db' = ik_next_id db + 1"
    "ir_ID row = ik_next_id db" "row_key row = params_key a" "ir_CompletedAt row = None"
    "ir_RequestHash row = cp_RequestHash a" "ir_CreatedAt row = now"
  using assms by (auto simp: ClaimIdempotencyKey_def row_of_def row_key_def params_key_def Let_def split: option.splits)

lemma Claim_ok: "idem_ok db \<Longrightarrow> ClaimIdempotencyKey now a db = ((row, True), db') \<Longrightarrow> idem_ok db'"
  using Claim_freshD [of now a db row db'] row_of_None [of db "params_key a"]
  by (fastforce simp: idem_ok_def)

lemma Complete_rows:
  "map row_key (ik_rows (CompleteIdempotencyKey now i st b db)) = map row_key (ik_rows db)"
  "map ir_ID (ik_rows (CompleteIdempotencyKey now i st b db)) = map ir_ID (ik_rows db)"
  by (simp_all add: CompleteIdempotencyKey_def row_key_def)

lemma Complete_ok: "idem_ok db \<Longrightarrow> idem_ok (CompleteIdempotencyKey now i st b db)"
  unfolding idem_ok_def Complete_rows by (auto simp: CompleteIdempotencyKey_def)

lemma Complete_row_of:
  "row_of (CompleteIdempotencyKey now i st b db) k =
     map_option (\<lambda>r. if ir_ID r = i
       then r\<lparr>ir_StatusCode := Some st, ir_ResponseBody := b, ir_CompletedAt := Some now\<rparr> else r) (row_of db k)"
  by (auto simp: row_of_def CompleteIdempotencyKey_def find_map comp_def row_key_def intro!: arg_cong [where f = "map_option _"] arg_cong [where f = "\<lambda>P. find P _"])

interpretation idem: idempotency_store row_of "claim_query up now" "CompleteIdempotencyKey now'" idem_ok
proof (unfold_locales, goal_cases)
  case (1 a db db')
  then show ?case by (auto simp: claim_query_def split: prod.splits if_splits)
next
  case (2 a db row db')
  then show ?case
    by (auto simp: claim_query_def ClaimIdempotencyKey_def row_of_def Let_def split: if_splits option.splits)
next
  case (3 db a row db')
  then have c: "ClaimIdempotencyKey now a db = ((row, True), db')"
    by (auto simp: claim_query_def split: prod.splits if_splits)
  have "row_of db' = (row_of db)(params_key a \<mapsto> row)"
    using Claim_freshD [OF c] by (auto simp: fun_eq_iff row_of_def find_append split: option.splits)
  then show ?case using Claim_freshD [OF c] Claim_ok [OF 3(1) c] by simp
next
  case (4 db i status body)
  then show ?case by (rule Complete_ok)
next
  case (5 db k row i status body)
  then show ?case by (auto simp: Complete_row_of)
qed

section \<open>Interleaved requests\<close>

record idem_state =
  id_db :: idem_table
  id_running :: "int list"

text \<open>Each request is two steps: the first half, and the end of its handler, which may also be lost to a crash or
  to a failing query.  Keys are purged after a day.\<close>

inductive istep ::
  "(http_request \<Rightarrow> int option) \<Rightarrow> (string \<Rightarrow> string) \<Rightarrow> (string \<Rightarrow> bool) \<Rightarrow> idem_state \<Rightarrow> idem_state \<Rightarrow> bool"
  for teamID hash json_valid where
  i_run: "decide teamID hash (claim_query up now) r (id_db s) = (RunFor i, db)
    \<Longrightarrow> istep teamID hash json_valid s (s\<lparr>id_db := db, id_running := i # id_running s\<rparr>)"
| i_answer: "decide teamID hash (claim_query up now) r (id_db s) = (Reply ans, db)
    \<Longrightarrow> istep teamID hash json_valid s (s\<lparr>id_db := db\<rparr>)"
| i_conclude: "i \<in> set (id_running s)
    \<Longrightarrow> istep teamID hash json_valid s
          (s\<lparr>id_db := conclude json_valid (CompleteIdempotencyKey now) i status body (id_db s),
             id_running := remove1 i (id_running s)\<rparr>)"
| i_lost: "i \<in> set (id_running s) \<Longrightarrow> istep teamID hash json_valid s (s\<lparr>id_running := remove1 i (id_running s)\<rparr>)"
| i_purge: "istep teamID hash json_valid s (s\<lparr>id_db := PurgeIdempotencyKeys now (id_db s)\<rparr>)"

definition no_keys :: idem_state where
  "no_keys = \<lparr>id_db = \<lparr>ik_rows = [], ik_next_id = 1\<rparr>, id_running = []\<rparr>"

abbreviation isteps :: "(http_request \<Rightarrow> int option) \<Rightarrow> (string \<Rightarrow> string) \<Rightarrow> (string \<Rightarrow> bool) \<Rightarrow> idem_state \<Rightarrow> idem_state \<Rightarrow> bool" where
  "isteps teamID hash json_valid \<equiv> (istep teamID hash json_valid)\<^sup>*\<^sup>*"

definition istate_ok :: "idem_state \<Rightarrow> bool" where
  "istate_ok s \<longleftrightarrow> idem_ok (id_db s) \<and> distinct (id_running s) \<and> (\<forall>i \<in> set (id_running s). i < ik_next_id (id_db s)) \<and>
     (\<forall>r \<in> set (ik_rows (id_db s)). ir_ID r \<in> set (id_running s) \<longrightarrow> ir_CompletedAt r = None)"

lemma decide_RunForD:
  assumes "decide teamID hash (claim_query up now) r db = (RunFor i, db')"
  obtains a row where "ClaimIdempotencyKey now a db = ((row, True), db')" "ir_ID row = i"
  using assms
  by (auto simp: decide_def intercept_def claim_query_def Let_def split: sum.splits prod.splits option.splits if_splits)

lemma decide_ReplyD: "decide teamID hash (claim_query up now) r db = (Reply ans, db') \<Longrightarrow> db' = db"
  by (auto simp: decide_def claim_query_def ClaimIdempotencyKey_def Let_def
      split: sum.splits prod.splits option.splits if_splits)

lemma Complete_row:
  "r \<in> set (ik_rows (CompleteIdempotencyKey now i st b db)) \<Longrightarrow> ir_ID r \<noteq> i \<Longrightarrow> r \<in> set (ik_rows db)"
  by (auto simp: CompleteIdempotencyKey_def split: if_splits)

lemma conclude_table:
  "idem_ok db \<Longrightarrow> idem_ok (conclude json_valid (CompleteIdempotencyKey now) i st b db)"
  "ik_next_id (conclude json_valid (CompleteIdempotencyKey now) i st b db) = ik_next_id db"
  "r \<in> set (ik_rows (conclude json_valid (CompleteIdempotencyKey now) i st b db)) \<Longrightarrow> ir_ID r \<noteq> i \<Longrightarrow> r \<in> set (ik_rows db)"
proof -
  have "conclude json_valid (CompleteIdempotencyKey now) i st b db \<in>
      {db, CompleteIdempotencyKey now i st (if json_valid b then b else ''{}'') db}"
    by (simp add: conclude_def complete_def)
  moreover have "ik_next_id (CompleteIdempotencyKey now i st c db) = ik_next_id db" for c
    by (simp add: CompleteIdempotencyKey_def)
  ultimately show "idem_ok db \<Longrightarrow> idem_ok (conclude json_valid (CompleteIdempotencyKey now) i st b db)"
    "ik_next_id (conclude json_valid (CompleteIdempotencyKey now) i st b db) = ik_next_id db"
    "r \<in> set (ik_rows (conclude json_valid (CompleteIdempotencyKey now) i st b db)) \<Longrightarrow> ir_ID r \<noteq> i \<Longrightarrow> r \<in> set (ik_rows db)"
    using Complete_ok [of db] Complete_row [of r now i st _ db] by (elim insertE emptyE; simp)+
qed

lemma istep_ok:
  assumes "istep teamID hash json_valid s s'" "istate_ok s"
  shows "istate_ok s'"
  using assms(1)
proof (cases rule: istep.cases)
  case (i_run up now r i db)
  obtain a row where c: "ClaimIdempotencyKey now a (id_db s) = ((row, True), db)" "ir_ID row = i"
    using decide_RunForD [OF i_run(2)] .
  show ?thesis
    using Claim_freshD [OF c(1)] Claim_ok [OF _ c(1)] c(2) assms(2)
    by (auto simp: i_run(1) istate_ok_def idem_ok_def)
next
  case (i_answer up now r ans db)
  then show ?thesis using decide_ReplyD [OF i_answer(2)] assms(2) by simp
next
  case (i_conclude i now status body)
  have "ir_CompletedAt r = None"
    if "r \<in> set (ik_rows (id_db s'))" "ir_ID r \<in> set (remove1 i (id_running s))" for r
  proof -
    have r: "ir_ID r \<in> set (id_running s)" "ir_ID r \<noteq> i"
      using that(2) assms(2) by (auto simp: istate_ok_def)
    then have "r \<in> set (ik_rows (id_db s))" using that(1) conclude_table(3) by (simp add: i_conclude(1))
    with r show ?thesis using assms(2) by (simp add: istate_ok_def)
  qed
  then show ?thesis
    using assms(2) conclude_table(1,2) set_remove1_subset [of i "id_running s"]
    by (auto simp: istate_ok_def i_conclude(1))
next
  case (i_lost i)
  then show ?thesis using assms(2) unfolding istate_ok_def by (auto dest: notin_set_remove1)
next
  case (i_purge now)
  then show ?thesis using assms(2) by (auto simp: istate_ok_def idem_ok_def PurgeIdempotencyKeys_def distinct_map inj_on_def)
qed

text \<open>A row whose request is over is never changed again: it stays, or it is purged.\<close>

definition settled :: "idem_row \<Rightarrow> idem_state \<Rightarrow> bool" where
  "settled row s \<longleftrightarrow> ir_ID row \<notin> set (id_running s) \<and> ir_ID row < ik_next_id (id_db s) \<and>
     (\<forall>r \<in> set (ik_rows (id_db s)). ir_ID r = ir_ID row \<longrightarrow> r = row)"

lemma istep_settled:
  assumes "istep teamID hash json_valid s s'" "settled row s"
  shows "settled row s'"
  using assms(1)
proof (cases rule: istep.cases)
  case (i_run up now r i db)
  obtain a new where c: "ClaimIdempotencyKey now a (id_db s) = ((new, True), db)" "ir_ID new = i"
    using decide_RunForD [OF i_run(2)] .
  show ?thesis using Claim_freshD [OF c(1)] c(2) assms(2) by (auto simp: i_run(1) settled_def)
next
  case (i_answer up now r ans db)
  then show ?thesis using decide_ReplyD [OF i_answer(2)] assms(2) by simp
next
  case (i_conclude i now status body)
  have i: "i \<noteq> ir_ID row" using i_conclude(2) assms(2) by (auto simp: settled_def)
  have "r = row" if "r \<in> set (ik_rows (id_db s'))" "ir_ID r = ir_ID row" for r
  proof -
    have "r \<in> set (ik_rows (id_db s))" using conclude_table(3) that i by (simp add: i_conclude(1))
    then show ?thesis using that(2) assms(2) by (simp add: settled_def)
  qed
  then show ?thesis
    using assms(2) conclude_table(2) set_remove1_subset [of i "id_running s"]
    by (auto simp: settled_def i_conclude(1))
next
  case (i_lost i)
  then show ?thesis using assms(2) unfolding settled_def by (auto dest: notin_set_remove1)
next
  case (i_purge now)
  then show ?thesis using assms(2) by (auto simp: settled_def PurgeIdempotencyKeys_def)
qed

lemma isteps_ok: "isteps teamID hash json_valid s s' \<Longrightarrow> istate_ok s \<Longrightarrow> istate_ok s'"
  by (induction rule: rtranclp_induct) (auto intro: istep_ok)

lemma isteps_settled: "isteps teamID hash json_valid s s' \<Longrightarrow> settled row s \<Longrightarrow> settled row s'"
  by (induction rule: rtranclp_induct) (auto intro: istep_settled)

section \<open>Properties\<close>

lemma istate_ok_no_keys: "istate_ok no_keys"
  by (simp add: istate_ok_def idem_ok_def no_keys_def)

text \<open>The row after its request: completed by a success, unchanged by a failure.\<close>

definition outcome_row :: "(string \<Rightarrow> bool) \<Rightarrow> int \<Rightarrow> int \<Rightarrow> string \<Rightarrow> idem_row \<Rightarrow> idem_row" where
  "outcome_row json_valid now status body row =
     (if 200 \<le> status \<and> status < 300
      then row\<lparr>ir_StatusCode := Some status, ir_ResponseBody := (if json_valid body then body else ''{}''),
               ir_CompletedAt := Some now\<rparr>
      else row)"

lemma outcome_row_same [simp]:
  "ir_ID (outcome_row json_valid now status body row) = ir_ID row"
  "row_key (outcome_row json_valid now status body row) = row_key row"
  "ir_RequestHash (outcome_row json_valid now status body row) = ir_RequestHash row"
  by (simp_all add: outcome_row_def row_key_def)

lemma conclude_settles:
  assumes "istate_ok s" "ir_ID row \<in> set (id_running s)" "row \<in> set (ik_rows (id_db s))"
  shows "settled (outcome_row json_valid now status body row)
    (s\<lparr>id_db := conclude json_valid (CompleteIdempotencyKey now) (ir_ID row) status body (id_db s),
       id_running := remove1 (ir_ID row) (id_running s)\<rparr>)"
proof -
  have same: "r = row" if "r \<in> set (ik_rows (id_db s))" "ir_ID r = ir_ID row" for r
    using assms(1,3) that by (auto simp: istate_ok_def idem_ok_def distinct_map inj_on_def)
  have "ir_ID row < ik_next_id (id_db s)" "ir_ID row \<notin> set (remove1 (ir_ID row) (id_running s))"
    using assms by (auto simp: istate_ok_def idem_ok_def)
  moreover have "r = outcome_row json_valid now status body row"
    if "r \<in> set (ik_rows (conclude json_valid (CompleteIdempotencyKey now) (ir_ID row) status body (id_db s)))"
      "ir_ID r = ir_ID row" for r
    using that same
    by (auto simp: conclude_def complete_def outcome_row_def CompleteIdempotencyKey_def split: if_splits)
  ultimately show ?thesis by (simp add: settled_def conclude_table(2))
qed


definition sample_post :: http_request where
  "sample_post = \<lparr>rq_Method = ''POST'', rq_Path = ''/v1/deploy'', rq_RawQuery = [], rq_IdempotencyKey = ''k1'',
                  rq_Body = Some ''app''\<rparr>"

definition sample_claimed :: idem_state where
  "sample_claimed =
     \<lparr>id_db = snd (decide (\<lambda>_. Some 7) (\<lambda>x. x) (claim_query True 0) sample_post (id_db no_keys)), id_running = [1]\<rparr>"


end
