(* ===== verification/Uptime.thy ===== *)
theory Uptime
  imports Prelude "HOL-Library.Word"
begin

text \<open>
  Uptime checks (\<^verbatim>\<open>internal/uptime\<close> and \<^verbatim>\<open>internal/scheduler/uptime.go\<close>): the classification of one probe,
  the state machine that turns results into verdicts, and the prober that stores them and publishes alerts.  The
  counters are 32-bit integers that wrap around.  The specification needs no
  counters: it looks at the history of results.  Proved: the state machine computes the verdict of the history
  for every history, however long, and tells exactly when it changes.
\<close>

section \<open>Probes\<close>

datatype Status = StatusUnknown | StatusUp | StatusDown

record probe_result =
  pr_OK :: bool
  pr_LatencyMs :: "32 word"
  pr_StatusCode :: "32 word"
  pr_Error :: string

text \<open>What the network answers: \<open>dial\<close> an error or a connection, \<open>get\<close> an error while the request is built, an
  error of the exchange, or a status.\<close>

datatype http_outcome = BadTarget string | NoAnswer string | Answered int

definition probe ::
  "(string \<Rightarrow> string option) \<Rightarrow> (string \<Rightarrow> http_outcome) \<Rightarrow> (int \<Rightarrow> string) \<Rightarrow> int \<Rightarrow> string \<Rightarrow> string \<Rightarrow> probe_result" where
  "probe dial get show_code elapsedMs kind target =
     (let done = (\<lambda>ok code err. \<lparr>pr_OK = ok, pr_LatencyMs = word_of_int elapsedMs, pr_StatusCode = word_of_int code, pr_Error = err\<rparr>)
      in if kind = ''tcp''
         then (case dial target of Some err \<Rightarrow> done False 0 err | None \<Rightarrow> done True 0 [])
         else (case get target of
                 BadTarget err \<Rightarrow> done False 0 err
               | NoAnswer err \<Rightarrow> done False 0 err
               | Answered code \<Rightarrow>
                   if code \<ge> 400 then done False code (''HTTP '' @ show_code code) else done True code []))"

section \<open>The state machine\<close>

record State =
  st_Status :: Status
  st_ConsecutiveFailures :: "32 word"
  st_ConsecutiveSuccesses :: "32 word"

definition Transition :: "State \<Rightarrow> bool \<Rightarrow> 32 word \<Rightarrow> 32 word \<Rightarrow> State \<times> bool" where
  "Transition s ok failureThreshold successThreshold =
     (if ok
      then
        let s = s\<lparr>st_ConsecutiveSuccesses := st_ConsecutiveSuccesses s + 1, st_ConsecutiveFailures := 0\<rparr> in
        if st_Status s = StatusUp then (s, False)
        else if st_Status s = StatusUnknown \<or> sint (st_ConsecutiveSuccesses s) \<ge> sint successThreshold
        then (s\<lparr>st_Status := StatusUp\<rparr>, True)
        else (s, False)
      else
        let s = s\<lparr>st_ConsecutiveFailures := st_ConsecutiveFailures s + 1, st_ConsecutiveSuccesses := 0\<rparr> in
        if st_Status s = StatusDown then (s, False)
        else if sint (st_ConsecutiveFailures s) \<ge> sint failureThreshold
        then (s\<lparr>st_Status := StatusDown\<rparr>, True)
        else (s, False))"

section \<open>The prober of the scheduler\<close>

record UptimeCheck =
  uc_ID :: int
  uc_Kind :: string
  uc_Target :: string
  uc_IntervalSeconds :: int
  uc_FailureThreshold :: "32 word"
  uc_SuccessThreshold :: "32 word"
  uc_Enabled :: bool
  uc_Status :: Status
  uc_StatusSince :: "int option"
  uc_ConsecutiveFailures :: "32 word"
  uc_ConsecutiveSuccesses :: "32 word"
  uc_LastCheckedAt :: "int option"
  uc_LastLatencyMs :: "32 word option"
  uc_LastError :: "string option"
  uc_NextRunAt :: "int option"
  uc_DeletedAt :: "int option"

record uptime_db =
  ud_checks :: "UptimeCheck list"
  ud_results :: "(int \<times> bool \<times> 32 word option \<times> 32 word option \<times> string option) list"
  ud_outbox :: "(string \<times> int \<times> Status \<times> string option) list"

definition ListDueUptimeChecks :: "int \<Rightarrow> uptime_db \<Rightarrow> UptimeCheck list" where
  "ListDueUptimeChecks now db =
     sort_key uc_ID (filter (\<lambda>c. uc_Enabled c \<and> uc_DeletedAt c = None \<and>
       (case uc_NextRunAt c of None \<Rightarrow> True | Some t \<Rightarrow> t \<le> now)) (ud_checks db))"

definition RecordUptimeResult ::
  "int \<Rightarrow> bool \<Rightarrow> 32 word option \<Rightarrow> 32 word option \<Rightarrow> string option \<Rightarrow> uptime_db \<Rightarrow> uptime_db" where
  "RecordUptimeResult checkID ok latency code err db =
     db\<lparr>ud_results := ud_results db @ [(checkID, ok, latency, code, err)]\<rparr>"

definition SetUptimeCheckState ::
  "int \<Rightarrow> int \<Rightarrow> State \<Rightarrow> int option \<Rightarrow> 32 word option \<Rightarrow> string option \<Rightarrow> int \<Rightarrow> uptime_db \<Rightarrow> uptime_db" where
  "SetUptimeCheckState now i st since latency err nextRun db =
     db\<lparr>ud_checks := map (\<lambda>c. if uc_ID c = i
         then c\<lparr>uc_Status := st_Status st,
                uc_StatusSince := (case since of None \<Rightarrow> uc_StatusSince c | Some t \<Rightarrow> Some t),
                uc_ConsecutiveFailures := st_ConsecutiveFailures st,
                uc_ConsecutiveSuccesses := st_ConsecutiveSuccesses st,
                uc_LastCheckedAt := Some now, uc_LastLatencyMs := latency, uc_LastError := err,
                uc_NextRunAt := Some nextRun\<rparr> else c) (ud_checks db)\<rparr>"

text \<open>One check of a pass: \<open>recorded\<close> and \<open>stored\<close> say whether the two writes succeed; an alert is
  published only after the state is stored.\<close>

definition publish :: "string \<Rightarrow> UptimeCheck \<Rightarrow> State \<Rightarrow> string option \<Rightarrow> uptime_db \<Rightarrow> uptime_db" where
  "publish event check state probeErr db =
     db\<lparr>ud_outbox := ud_outbox db @ [(event, uc_ID check, st_Status state, probeErr)]\<rparr>"

definition alert :: "Status \<Rightarrow> Status \<Rightarrow> string option" where
  "alert old new =
     (if new = StatusDown then Some ''uptime.check.failed.v1''
      else if old = StatusDown then Some ''uptime.check.recovered.v1''
      else None)"

definition check_state :: "UptimeCheck \<Rightarrow> State" where
  "check_state c = \<lparr>st_Status = uc_Status c, st_ConsecutiveFailures = uc_ConsecutiveFailures c,
                   st_ConsecutiveSuccesses = uc_ConsecutiveSuccesses c\<rparr>"

definition probeUptimeCheck ::
  "bool \<Rightarrow> bool \<Rightarrow> int \<Rightarrow> probe_result \<Rightarrow> UptimeCheck \<Rightarrow> uptime_db \<Rightarrow> uptime_db" where
  "probeUptimeCheck recorded stored now res check db =
     (let latency = (if sint (pr_LatencyMs res) \<ge> 0 then Some (pr_LatencyMs res) else None);
          code = (if pr_StatusCode res \<noteq> 0 then Some (pr_StatusCode res) else None);
          probeErr = (if pr_Error res \<noteq> [] then Some (pr_Error res) else None);
          db1 = (if recorded then RecordUptimeResult (uc_ID check) (pr_OK res) latency code probeErr db else db);
          (state, changed) = Transition (check_state check) (pr_OK res) (uc_FailureThreshold check) (uc_SuccessThreshold check)
      in if \<not> stored then db1
         else
           let db2 = SetUptimeCheckState now (uc_ID check) state (if changed then Some now else None) latency probeErr
                       (now + uc_IntervalSeconds check * second) db1
           in if \<not> changed then db2
              else case alert (uc_Status check) (st_Status state) of
                None \<Rightarrow> db2 | Some event \<Rightarrow> publish event check state probeErr db2)"

text \<open>A pass probes the due checks; the goroutines of a pass work on different rows.  \<open>outcome\<close> tells for each
  check whether its two writes succeed, and what its probe finds.\<close>

type_synonym probe_outcomes = "int \<Rightarrow> bool \<times> bool \<times> probe_result"

definition runDueUptimeChecks :: "int \<Rightarrow> probe_outcomes \<Rightarrow> uptime_db \<Rightarrow> uptime_db" where
  "runDueUptimeChecks now outcome db =
     fold (\<lambda>check db. let (recorded, stored, res) = outcome (uc_ID check)
                      in probeUptimeCheck recorded stored now res check db) (ListDueUptimeChecks now db) db"

section \<open>The specification\<close>

text \<open>A history lists the results, the last one first.  \<open>run b h\<close> is the number of results \<open>b\<close> it starts with.\<close>

definition run :: "bool \<Rightarrow> bool list \<Rightarrow> nat" where
  "run b h = length (takeWhile (\<lambda>x. x = b) h)"

fun verdict :: "int \<Rightarrow> int \<Rightarrow> bool list \<Rightarrow> Status" where
  "verdict ft st [] = StatusUnknown"
| "verdict ft st (ok # h) =
     (if ok \<and> (verdict ft st h = StatusUnknown \<or> st \<le> int (run True (ok # h))) then StatusUp
      else if \<not> ok \<and> ft \<le> int (run False (ok # h)) then StatusDown
      else verdict ft st h)"

lemma run_Cons [simp]: "run b (x # h) = (if x = b then Suc (run b h) else 0)"
  by (simp add: run_def)

lemma run_Nil [simp]: "run b [] = 0"
  by (simp add: run_def)

text \<open>While the verdict is not yet settled, the run is still short of its threshold.\<close>

lemma run_below:
  "verdict ft st h \<noteq> StatusUp \<Longrightarrow> run True h = 0 \<or> int (run True h) < st"
  "verdict ft st h \<noteq> StatusDown \<Longrightarrow> run False h = 0 \<or> int (run False h) < ft"
  by (induction h) (auto split: if_splits)

lemma sint_of_small: "n < 2 ^ 31 \<Longrightarrow> sint (of_nat n :: 32 word) = int n"
proof -
  assume n: "n < 2 ^ 31"
  then have "signed_take_bit 31 (int n) = int n" by (intro signed_take_bit_int_eq_self) simp_all
  then show ?thesis by (simp add: signed_of_nat)
qed

lemma sint_below: "sint (w :: 32 word) < 2 ^ 31"
  using sint_lt [of w] by simp

text \<open>The counters are the runs, as words; the comparisons with the thresholds see the numbers.\<close>

lemma compare_run:
  fixes t :: "32 word"
  assumes "n = 0 \<or> int n < sint t"
  shows "sint t \<le> sint (of_nat (Suc n) :: 32 word) \<longleftrightarrow> sint t \<le> int (Suc n)"
proof -
  have "int (Suc n) \<le> max 1 (sint t)" using assms by auto
  then have "int (Suc n) < 2 ^ 31" using sint_below [of t] by auto
  then have "int (Suc n) < int (2 ^ 31)" by simp
  then have "Suc n < 2 ^ 31" by (simp only: of_nat_less_iff)
  then show ?thesis using sint_of_small [of "Suc n"] by simp
qed

text \<open>The alerts a history calls for: each fall to down, and each recovery from it.\<close>

fun alerts :: "int \<Rightarrow> int \<Rightarrow> bool list \<Rightarrow> string list" where
  "alerts ft st [] = []"
| "alerts ft st (ok # h) = alerts ft st h @
     (if verdict ft st (ok # h) = StatusDown \<and> verdict ft st h \<noteq> StatusDown then [''uptime.check.failed.v1'']
      else if verdict ft st (ok # h) = StatusUp \<and> verdict ft st h = StatusDown then [''uptime.check.recovered.v1'']
      else [])"

section \<open>The state machine implements the specification\<close>

text \<open>The abstraction: a state stands for a history when its status is the verdict and its counters the runs.\<close>

definition stands_for :: "int \<Rightarrow> int \<Rightarrow> State \<Rightarrow> bool list \<Rightarrow> bool" where
  "stands_for ft st s h \<longleftrightarrow> st_Status s = verdict ft st h \<and>
     st_ConsecutiveFailures s = of_nat (run False h) \<and> st_ConsecutiveSuccesses s = of_nat (run True h)"

lemma Transition_simulates:
  assumes "stands_for (sint ft) (sint st) s h"
  shows "stands_for (sint ft) (sint st) (fst (Transition s ok ft st)) (ok # h)"
    and "snd (Transition s ok ft st) \<longleftrightarrow> verdict (sint ft) (sint st) (ok # h) \<noteq> verdict (sint ft) (sint st) h"
proof -
  have up: "sint st \<le> sint (1 + of_nat (run True h) :: 32 word) \<longleftrightarrow> sint st \<le> 1 + int (run True h)"
    if "verdict (sint ft) (sint st) h \<noteq> StatusUp"
    using compare_run [OF run_below(1) [OF that]] by simp
  have down: "sint ft \<le> sint (1 + of_nat (run False h) :: 32 word) \<longleftrightarrow> sint ft \<le> 1 + int (run False h)"
    if "verdict (sint ft) (sint st) h \<noteq> StatusDown"
    using compare_run [OF run_below(2) [OF that]] by simp
  show "stands_for (sint ft) (sint st) (fst (Transition s ok ft st)) (ok # h)"
    "snd (Transition s ok ft st) \<longleftrightarrow> verdict (sint ft) (sint st) (ok # h) \<noteq> verdict (sint ft) (sint st) h"
    using assms up down
    by (cases ok; cases "verdict (sint ft) (sint st) h"; simp add: stands_for_def Transition_def Let_def add.commute)+
qed

text \<open>The same for the rows of the table, with the alerts in the outbox.\<close>

definition events_of :: "int \<Rightarrow> uptime_db \<Rightarrow> string list" where
  "events_of i db = map fst (filter (\<lambda>e. fst (snd e) = i) (ud_outbox db))"

abbreviation check_row :: "int \<Rightarrow> uptime_db \<Rightarrow> UptimeCheck option" where
  "check_row i db \<equiv> find (\<lambda>c. uc_ID c = i) (ud_checks db)"

lemma check_row_ID: "check_row i db = Some c \<Longrightarrow> uc_ID c = i"
  by (auto simp: find_Some_iff)

lemma SetUptimeCheckState_row:
  assumes "check_row i db = Some c"
  shows "\<exists>c'. check_row i (SetUptimeCheckState now i s since latency err nextRun db) = Some c' \<and> check_state c' = s \<and>
    uc_FailureThreshold c' = uc_FailureThreshold c \<and> uc_SuccessThreshold c' = uc_SuccessThreshold c"
  using assms check_row_ID [OF assms]
  by (simp add: SetUptimeCheckState_def find_map comp_def check_state_def if_distrib [of uc_ID] cong: if_cong)

lemma probe_checks:
  "ud_checks (probeUptimeCheck recorded stored now res c db) =
     (let (state, changed) = Transition (check_state c) (pr_OK res) (uc_FailureThreshold c) (uc_SuccessThreshold c)
      in if stored
         then ud_checks (SetUptimeCheckState now (uc_ID c) state (if changed then Some now else None)
           (if sint (pr_LatencyMs res) \<ge> 0 then Some (pr_LatencyMs res) else None)
           (if pr_Error res \<noteq> [] then Some (pr_Error res) else None) (now + uc_IntervalSeconds c * second) db)
         else ud_checks db)"
  by (simp add: probeUptimeCheck_def Let_def RecordUptimeResult_def SetUptimeCheckState_def publish_def
      split: prod.split option.split)

lemma probe_outbox:
  "ud_outbox (probeUptimeCheck recorded stored now res c db) =
     (let (state, changed) = Transition (check_state c) (pr_OK res) (uc_FailureThreshold c) (uc_SuccessThreshold c);
          probeErr = (if pr_Error res \<noteq> [] then Some (pr_Error res) else None)
      in ud_outbox db @
         (if stored \<and> changed
          then map (\<lambda>e. (e, uc_ID c, st_Status state, probeErr)) (case alert (uc_Status c) (st_Status state) of None \<Rightarrow> [] | Some e \<Rightarrow> [e])
          else []))"
  by (simp add: probeUptimeCheck_def Let_def RecordUptimeResult_def SetUptimeCheckState_def publish_def
      split: prod.split option.split)

lemma probe_row:
  assumes "check_row i db = Some c"
    and "stands_for (sint (uc_FailureThreshold c)) (sint (uc_SuccessThreshold c)) (check_state c) h"
  shows "\<exists>c'. check_row i (probeUptimeCheck recorded stored now res c db) = Some c' \<and>
    uc_FailureThreshold c' = uc_FailureThreshold c \<and> uc_SuccessThreshold c' = uc_SuccessThreshold c \<and>
    stands_for (sint (uc_FailureThreshold c)) (sint (uc_SuccessThreshold c)) (check_state c') (if stored then pr_OK res # h else h)"
proof (cases "Transition (check_state c) (pr_OK res) (uc_FailureThreshold c) (uc_SuccessThreshold c)")
  case (Pair state changed)
  then have "stands_for (sint (uc_FailureThreshold c)) (sint (uc_SuccessThreshold c)) state (pr_OK res # h)"
    using Transition_simulates(1) [OF assms(2), of "pr_OK res"] by simp
  moreover have i: "uc_ID c = i" using check_row_ID [OF assms(1)] .
  have "\<exists>c'. check_row i (probeUptimeCheck recorded stored now res c db) = Some c' \<and> check_state c' = state \<and>
      uc_FailureThreshold c' = uc_FailureThreshold c \<and> uc_SuccessThreshold c' = uc_SuccessThreshold c" if stored
    unfolding probe_checks Pair Let_def prod.case i if_P [OF that] by (rule SetUptimeCheckState_row [OF assms(1)])
  moreover have "check_row i (probeUptimeCheck recorded stored now res c db) = Some c" if "\<not> stored"
    using that assms(1) by (simp add: probe_checks Pair)
  ultimately show ?thesis using assms(2) by (cases stored) auto
qed

lemma alert_of_flip:
  "new \<noteq> StatusUnknown \<or> new = old \<Longrightarrow>
   (if new \<noteq> old then case alert old new of None \<Rightarrow> [] | Some e \<Rightarrow> [e] else []) =
   (if new = StatusDown \<and> old \<noteq> StatusDown then [''uptime.check.failed.v1'']
    else if new = StatusUp \<and> old = StatusDown then [''uptime.check.recovered.v1''] else [])"
  by (cases old; cases new) (simp_all add: alert_def)

lemma probe_events:
  assumes "check_row i db = Some c"
    and "stands_for (sint (uc_FailureThreshold c)) (sint (uc_SuccessThreshold c)) (check_state c) h"
    and "events_of i db = evs @ alerts (sint (uc_FailureThreshold c)) (sint (uc_SuccessThreshold c)) h"
  shows "events_of i (probeUptimeCheck recorded stored now res c db) =
    evs @ alerts (sint (uc_FailureThreshold c)) (sint (uc_SuccessThreshold c)) (if stored then pr_OK res # h else h)"
proof (cases "Transition (check_state c) (pr_OK res) (uc_FailureThreshold c) (uc_SuccessThreshold c)")
  case (Pair state changed)
  let ?ft = "sint (uc_FailureThreshold c)" and ?st = "sint (uc_SuccessThreshold c)"
  define old where "old = verdict ?ft ?st h"
  define new where "new = verdict ?ft ?st (pr_OK res # h)"
  have v: "st_Status state = new" "uc_Status c = old" "changed \<longleftrightarrow> new \<noteq> old"
    using Transition_simulates [OF assms(2), of "pr_OK res"] assms(2) Pair
    by (simp_all add: stands_for_def check_state_def new_def old_def del: verdict.simps)
  have "alerts ?ft ?st (pr_OK res # h) = alerts ?ft ?st h @
      (if new = StatusDown \<and> old \<noteq> StatusDown then [''uptime.check.failed.v1'']
       else if new = StatusUp \<and> old = StatusDown then [''uptime.check.recovered.v1''] else [])"
    by (simp only: alerts.simps new_def old_def)
  moreover have "new \<noteq> StatusUnknown \<or> new = old" unfolding new_def old_def by simp
  moreover have "events_of i (probeUptimeCheck recorded stored now res c db) = events_of i db @
      (if stored \<and> changed then case alert old new of None \<Rightarrow> [] | Some e \<Rightarrow> [e] else [])"
  proof -
    have "ud_outbox (probeUptimeCheck recorded stored now res c db) = ud_outbox db @
        (if stored \<and> changed then map (\<lambda>e. (e, i, new, if pr_Error res \<noteq> [] then Some (pr_Error res) else None))
           (case alert old new of None \<Rightarrow> [] | Some e \<Rightarrow> [e]) else [])"
      by (simp only: probe_outbox Pair Let_def prod.case v(1,2) check_row_ID [OF assms(1)])
    then show ?thesis by (simp only: events_of_def filter_append map_append filter_map) (simp add: comp_def)
  qed
  ultimately show ?thesis using assms(3) alert_of_flip [of new old] by (cases stored) (simp_all add: v(3))
qed

section \<open>Passes\<close>

lemma probe_IDs: "map uc_ID (ud_checks (probeUptimeCheck recorded stored now res c db)) = map uc_ID (ud_checks db)"
  by (auto simp: probe_checks SetUptimeCheckState_def split: prod.split)

lemma find_map_other: "(\<And>x. P x \<Longrightarrow> f x = x) \<Longrightarrow> (\<And>x. P (f x) = P x) \<Longrightarrow> find P (map f xs) = find P xs"
  by (induction xs) auto

lemma probe_other:
  assumes "uc_ID c \<noteq> i"
  shows "check_row i (probeUptimeCheck recorded stored now res c db) = check_row i db"
    and "events_of i (probeUptimeCheck recorded stored now res c db) = events_of i db"
proof -
  obtain s ch where t: "Transition (check_state c) (pr_OK res) (uc_FailureThreshold c) (uc_SuccessThreshold c) = (s, ch)" by fastforce
  have "check_row i (SetUptimeCheckState now (uc_ID c) s since latency err nextRun db) = check_row i db" for since latency err nextRun
    unfolding SetUptimeCheckState_def using assms by (auto intro!: find_map_other)
  then show "check_row i (probeUptimeCheck recorded stored now res c db) = check_row i db"
    by (simp add: probe_checks t)
  show "events_of i (probeUptimeCheck recorded stored now res c db) = events_of i db"
    using assms by (simp add: events_of_def probe_outbox t filter_map comp_def)
qed

abbreviation probe_in :: "int \<Rightarrow> probe_outcomes \<Rightarrow> UptimeCheck \<Rightarrow> uptime_db \<Rightarrow> uptime_db" where
  "probe_in now outcome check db \<equiv>
     (let (recorded, stored, res) = outcome (uc_ID check) in probeUptimeCheck recorded stored now res check db)"

lemma fold_others:
  "\<forall>c \<in> set cs. uc_ID c \<noteq> i \<Longrightarrow>
   check_row i (fold (probe_in now outcome) cs db) = check_row i db \<and> events_of i (fold (probe_in now outcome) cs db) = events_of i db"
  by (induction cs arbitrary: db) (auto simp: probe_other split: prod.split)

lemma pass_of_check:
  assumes "distinct (map uc_ID cs)" "set cs \<subseteq> set (ud_checks db)" "distinct (map uc_ID (ud_checks db))"
    and "check_row i db = Some c" "stands_for (sint (uc_FailureThreshold c)) (sint (uc_SuccessThreshold c)) (check_state c) h"
    and "events_of i db = evs @ alerts (sint (uc_FailureThreshold c)) (sint (uc_SuccessThreshold c)) h"
    and "outcome i = (recorded, stored, res)" "h' = (if c \<in> set cs \<and> stored then pr_OK res # h else h)"
  shows "\<exists>c'. check_row i (fold (probe_in now outcome) cs db) = Some c' \<and>
    uc_FailureThreshold c' = uc_FailureThreshold c \<and> uc_SuccessThreshold c' = uc_SuccessThreshold c \<and>
    stands_for (sint (uc_FailureThreshold c)) (sint (uc_SuccessThreshold c)) (check_state c') h' \<and>
    events_of i (fold (probe_in now outcome) cs db) = evs @ alerts (sint (uc_FailureThreshold c)) (sint (uc_SuccessThreshold c)) h'"
proof (cases "c \<in> set cs")
  case True
  then obtain before after where cs: "cs = before @ c # after" by (auto simp: in_set_conv_decomp)
  have i: "uc_ID c = i" using check_row_ID [OF assms(4)] .
  have others: "\<forall>d \<in> set before. uc_ID d \<noteq> i" "\<forall>d \<in> set after. uc_ID d \<noteq> i"
    using assms(1) unfolding cs i [symmetric] by simp_all (metis image_eqI)+
  let ?db = "fold (probe_in now outcome) before db"
  have db: "check_row i ?db = Some c" "events_of i ?db = evs @ alerts (sint (uc_FailureThreshold c)) (sint (uc_SuccessThreshold c)) h"
    using fold_others [OF others(1)] assms(4,6) by simp_all
  have "fold (probe_in now outcome) cs db = fold (probe_in now outcome) after (probeUptimeCheck recorded stored now res c ?db)"
    by (simp add: cs i assms(7))
  then show ?thesis
    using probe_row [OF db(1) assms(5), of recorded stored now res] probe_events [OF db(1) assms(5) db(2), of recorded stored now res]
      fold_others [OF others(2)] True assms(8) by simp
next
  case False
  have "uc_ID d \<noteq> i" if "d \<in> set cs" for d
  proof
    assume "uc_ID d = i"
    then have "uc_ID d = uc_ID c" "c \<in> set (ud_checks db)" using check_row_ID [OF assms(4)] assms(4) by (auto simp: find_Some_iff)
    then have "d = c" using that assms(2,3) by (auto simp: distinct_map inj_on_def)
    then show False using that False by simp
  qed
  then show ?thesis using fold_others [of cs i outcome now db] assms(4-6,8) False by simp
qed

lemma fold_IDs: "map uc_ID (ud_checks (fold (probe_in now outcome) cs db)) = map uc_ID (ud_checks db)"
  by (induction cs arbitrary: db) (simp_all add: probe_IDs split: prod.split)

text \<open>The passes, and beside them the history of a check: the results whose state was stored, the last one first.\<close>

definition observe :: "int \<Rightarrow> int \<times> probe_outcomes \<Rightarrow> uptime_db \<times> bool list \<Rightarrow> uptime_db \<times> bool list" where
  "observe i = (\<lambda>(now, outcome) (db, h).
     (runDueUptimeChecks now outcome db,
      if i \<in> uc_ID ` set (ListDueUptimeChecks now db) \<and> fst (snd (outcome i)) then pr_OK (snd (snd (outcome i))) # h else h))"

definition tracks :: "int \<Rightarrow> UptimeCheck \<Rightarrow> string list \<Rightarrow> uptime_db \<times> bool list \<Rightarrow> bool" where
  "tracks i c evs = (\<lambda>(db, h).
     distinct (map uc_ID (ud_checks db)) \<and>
     (\<exists>c'. check_row i db = Some c' \<and>
        uc_FailureThreshold c' = uc_FailureThreshold c \<and> uc_SuccessThreshold c' = uc_SuccessThreshold c \<and>
        stands_for (sint (uc_FailureThreshold c)) (sint (uc_SuccessThreshold c)) (check_state c') h) \<and>
     events_of i db = evs @ alerts (sint (uc_FailureThreshold c)) (sint (uc_SuccessThreshold c)) h)"

lemma observe_tracks:
  assumes "tracks i c evs (db, h)"
  shows "tracks i c evs (observe i pass (db, h))"
proof -
  obtain now outcome where p: "pass = (now, outcome)" by (cases pass)
  obtain recorded stored res where o: "outcome i = (recorded, stored, res)" by (metis prod_cases3)
  obtain c' where c': "check_row i db = Some c'" "uc_FailureThreshold c' = uc_FailureThreshold c" "uc_SuccessThreshold c' = uc_SuccessThreshold c"
    "stands_for (sint (uc_FailureThreshold c')) (sint (uc_SuccessThreshold c')) (check_state c') h"
    "events_of i db = evs @ alerts (sint (uc_FailureThreshold c')) (sint (uc_SuccessThreshold c')) h"
    and d: "distinct (map uc_ID (ud_checks db))"
    using assms by (auto simp: tracks_def)
  let ?due = "ListDueUptimeChecks now db"
  have due: "distinct (map uc_ID ?due)" "set ?due \<subseteq> set (ud_checks db)"
    using d by (auto simp: ListDueUptimeChecks_def distinct_map inj_on_def)
  have "c' \<in> set ?due \<longleftrightarrow> i \<in> uc_ID ` set ?due"
  proof -
    have "c' \<in> set (ud_checks db)" "uc_ID c' = i" using c'(1) check_row_ID [OF c'(1)] by (auto simp: find_Some_iff)
    then show ?thesis using due(2) d by (auto simp: distinct_map inj_on_def)
  qed
  then have obs: "observe i pass (db, h) = (fold (probe_in now outcome) ?due db,
      if c' \<in> set ?due \<and> stored then pr_OK res # h else h)"
    by (simp add: observe_def p o runDueUptimeChecks_def)
  show ?thesis
    using pass_of_check [where outcome = outcome, OF due d c'(1,4,5) o refl, of now] d
    unfolding obs tracks_def prod.case fold_IDs c'(2,3) by blast
qed

lemma observe_fold: "tracks i c evs s \<Longrightarrow> tracks i c evs (fold (observe i) passes s)"
proof (induction passes arbitrary: s)
  case (Cons pass passes)
  then show ?case using observe_tracks [of i c evs "fst s" "snd s" pass] by simp
qed simp

text \<open>When a history means an outage: it contains a run of enough failures, and since then no run of
  successes has reached its threshold.\<close>

definition outage :: "int \<Rightarrow> int \<Rightarrow> bool list \<Rightarrow> bool" where
  "outage ft st h \<longleftrightarrow> (\<exists>new old. h = new @ old \<and> 0 < run False old \<and> ft \<le> int (run False old) \<and>
     (\<forall>k < length new. run True (drop k h) = 0 \<or> int (run True (drop k h)) < st))"

lemma down_outage: "verdict ft st h = StatusDown \<Longrightarrow> outage ft st h"
proof (induction h)
  case (Cons ok h)
  show ?case
  proof (cases "\<not> ok \<and> ft \<le> int (run False (ok # h))")
    case True
    then show ?thesis unfolding outage_def by (rule_tac x = "[]" in exI, rule_tac x = "ok # h" in exI) simp
  next
    case False
    then have h: "verdict ft st h = StatusDown" "ok \<Longrightarrow> int (run True (ok # h)) < st"
      using Cons.prems by (auto split: if_splits)
    obtain new old where "h = new @ old" "0 < run False old" "ft \<le> int (run False old)"
      "\<forall>k < length new. run True (drop k h) = 0 \<or> int (run True (drop k h)) < st"
      using Cons.IH [OF h(1)] unfolding outage_def by blast
    then show ?thesis
      unfolding outage_def using h(2)
      by (rule_tac x = "ok # new" in exI, rule_tac x = old in exI) (auto simp: less_Suc_eq_0_disj)
  qed
qed simp

lemma failures_down: "0 < run False h \<Longrightarrow> ft \<le> int (run False h) \<Longrightarrow> verdict ft st h = StatusDown"
  by (cases h) (auto split: if_splits)

lemma outage_down: "outage ft st h \<Longrightarrow> verdict ft st h = StatusDown"
proof -
  assume "outage ft st h"
  then obtain new old where o: "h = new @ old" "0 < run False old" "ft \<le> int (run False old)"
    "\<forall>k < length new. run True (drop k h) = 0 \<or> int (run True (drop k h)) < st" unfolding outage_def by blast
  have "verdict ft st (new @ old) = StatusDown"
    if "\<forall>k < length new. run True (drop k (new @ old)) = 0 \<or> int (run True (drop k (new @ old))) < st" for new
    using that
  proof (induction new)
    case Nil
    then show ?case using failures_down [OF o(2,3)] by simp
  next
    case (Cons ok new)
    have "verdict ft st (new @ old) = StatusDown" using Cons.prems by (intro Cons.IH) fastforce
    then show ?case using Cons.prems [rule_format, of 0] by auto
  qed
  then show ?thesis using o by blast
qed

text \<open>A check with thresholds three and two: up, two failures that alert nobody, a success, then three failures
  (of which the last is lost), a third one, and the recovery after two successes.\<close>

definition sample_check :: UptimeCheck where
  "sample_check = \<lparr>uc_ID = 4, uc_Kind = ''http'', uc_Target = ''https://example.org'', uc_IntervalSeconds = 60,
     uc_FailureThreshold = 3, uc_SuccessThreshold = 2, uc_Enabled = True, uc_Status = StatusUnknown,
     uc_StatusSince = None, uc_ConsecutiveFailures = 0, uc_ConsecutiveSuccesses = 0, uc_LastCheckedAt = None,
     uc_LastLatencyMs = None, uc_LastError = None, uc_NextRunAt = None, uc_DeletedAt = None\<rparr>"

definition sample_passes :: "(int \<times> probe_outcomes) list" where
  "sample_passes = map (\<lambda>(n, ok, stored). (n * 100 * second, \<lambda>_. (True, stored,
       \<lparr>pr_OK = ok, pr_LatencyMs = 5, pr_StatusCode = 200, pr_Error = []\<rparr>)))
     [(1, True, True), (2, False, True), (3, False, True), (4, True, True), (5, False, True), (6, False, True),
      (7, False, False), (8, False, True), (9, True, True), (10, True, True)]"

definition sample_uptime :: "uptime_db \<times> bool list" where
  "sample_uptime = (\<lparr>ud_checks = [sample_check], ud_results = [], ud_outbox = []\<rparr>, [])"

section \<open>Properties\<close>



end
