(* ===== verification/Notify.thy ===== *)
theory Notify
  imports Calendar
begin

text \<open>
  Notifications (\<^verbatim>\<open>src/internal/notify/dispatcher.go\<close>, the severities of \<^verbatim>\<open>notify.go\<close> and the queries of
  \<^verbatim>\<open>src/internal/store/notifications.sql.go\<close>): the pass over the outbox with its cursor, the rules that match an event,
  the noise rules, the delivery of one event, and the digests.  Which statements fail, where the context ends and what
  the providers answer are fields of the environment; messages handed to a provider are kept in the order they were
  sent.  The lemmas show that the cursor only passes events whose deliveries exist, that no rule is told twice about an event, and that
  nothing holds a critical event back.
\<close>

section \<open>Severities\<close>

datatype NotifySeverity = SeverityInfo | SeverityWarning | SeverityCritical

text \<open>The constants count from zero, and their order is that of the numbers.\<close>

fun severity_rank :: "NotifySeverity \<Rightarrow> nat" where
  "severity_rank SeverityInfo = 0"
| "severity_rank SeverityWarning = 1"
| "severity_rank SeverityCritical = 2"

instantiation NotifySeverity :: linorder
begin

definition less_eq_NotifySeverity :: "NotifySeverity \<Rightarrow> NotifySeverity \<Rightarrow> bool" where
  "less_eq_NotifySeverity a b \<longleftrightarrow> severity_rank a \<le> severity_rank b"

definition less_NotifySeverity :: "NotifySeverity \<Rightarrow> NotifySeverity \<Rightarrow> bool" where
  "less_NotifySeverity a b \<longleftrightarrow> severity_rank a < severity_rank b"

instance
proof
  fix a b :: NotifySeverity
  show "a \<le> b \<Longrightarrow> b \<le> a \<Longrightarrow> a = b" by (cases a; cases b) (simp_all add: less_eq_NotifySeverity_def)
qed (auto simp: less_eq_NotifySeverity_def less_NotifySeverity_def)

end

definition ParseSeverity :: "string \<Rightarrow> NotifySeverity" where
  "ParseSeverity s =
     (if s = ''warning'' then SeverityWarning else if s = ''critical'' then SeverityCritical else SeverityInfo)"

definition SeverityOf :: "string \<Rightarrow> NotifySeverity" where
  "SeverityOf eventType =
     (let base = TrimSuffix eventType ''.v1'' in
      if HasSuffix base ''.failed'' \<or> HasSuffix base ''.unreachable'' \<or> HasSuffix base ''.dead_letter'' then SeverityCritical
      else if HasPrefix base ''security.'' then SeverityWarning
      else if HasSuffix base ''.cancelled'' \<or> HasSuffix base ''.degraded'' \<or> HasSuffix base ''.partial'' \<or> HasSuffix base ''.expiring''
      then SeverityWarning
      else SeverityInfo)"

section \<open>Tables\<close>

record OutboxEvent =
  oe_ID :: int
  oe_EventType :: string
  oe_OccurredAt :: int
  oe_TeamUuid :: "string option"
  oe_ResourceUuid :: "string option"
  oe_Payload :: string
  oe_PublishedAt :: "int option"
  oe_PublishAttempts :: int

record NotificationRule =
  nr_ID :: int
  nr_ChannelID :: int
  nr_EventType :: string
  nr_Enabled :: bool
  nr_ProjectID :: "int option"
  nr_EnvironmentID :: "int option"
  nr_MinSeverity :: string
  nr_DebounceSeconds :: int
  nr_QuietHoursStart :: "int option"
  nr_QuietHoursEnd :: "int option"
  nr_DigestEnabled :: bool
  nr_DigestIntervalMinutes :: int
  nr_LastDigestAt :: "int option"

record NotificationChannel =
  nc_ID :: int
  nc_Uuid :: string
  nc_TeamUuid :: string
  nc_Kind :: string
  nc_Enabled :: bool
  nc_ConfigEnc :: string

datatype NotificationDeliveryStatus = DeliveryPending | DeliverySent | DeliveryFailed | DeliverySuppressed

text \<open>The reasons and errors without their texts.\<close>

datatype suppressed_reason = Debounced int | QuietHours
datatype delivery_error = ChannelMissing | ConfigUnreadable | SendFailed

record NotificationDelivery =
  nd_ID :: int
  nd_RuleID :: int
  nd_ChannelID :: int
  nd_OutboxEventID :: int
  nd_Status :: NotificationDeliveryStatus
  nd_Attempts :: int
  nd_LastError :: "delivery_error option"
  nd_SuppressedReason :: "suppressed_reason option"
  nd_SentAt :: "int option"
  nd_CreatedAt :: int

text \<open>What is handed to a provider: one event with the number of suppressed ones it stands for, or the deliveries of a digest.\<close>

datatype outgoing = Single int int int | Digest int "int list"

record notify_db =
  n_cursor :: int
  n_outbox :: "OutboxEvent list"
  n_rules :: "NotificationRule list"
  n_channels :: "NotificationChannel list"
  n_resources :: "(string \<times> int \<times> int) list"
  n_deliveries :: "NotificationDelivery list"
  n_next :: int
  n_out :: "outgoing list"

datatype notify_call = NGetCursor | NListOutbox | NSetCursor | NResolve | NMatch | NCreate | NFinish | NChannel | NLastSent
  | NLastSentCount | NCount | NDigestsDue | NPending | NMarkFailed | NMarkSent | NFlushed

text \<open>Statements and sends are told apart by the rule and the event they serve.\<close>

record notify_env =
  ne_now :: int
  ne_loc :: location
  ne_up :: "notify_call \<Rightarrow> int \<Rightarrow> int \<Rightarrow> bool"
  ne_cancelled :: "int \<Rightarrow> bool"
  ne_config :: "NotificationChannel \<Rightarrow> string option"
  ne_send :: "string \<Rightarrow> string \<Rightarrow> outgoing \<Rightarrow> bool"

section \<open>Queries\<close>

definition outbox_after :: "int \<Rightarrow> notify_db \<Rightarrow> OutboxEvent list" where
  "outbox_after i db = sort_key oe_ID (filter (\<lambda>e. oe_ID e > i) (n_outbox db))"

definition ListOutboxEventsAfter :: "int \<Rightarrow> nat \<Rightarrow> notify_db \<Rightarrow> OutboxEvent list" where
  "ListOutboxEventsAfter i limit db = take limit (outbox_after i db)"

definition SetNotificationCursor :: "int \<Rightarrow> notify_db \<Rightarrow> notify_db" where
  "SetNotificationCursor i db = db\<lparr>n_cursor := i\<rparr>"

definition ResolveProjectEnvironmentOfResource :: "string \<Rightarrow> notify_db \<Rightarrow> (int \<times> int) option" where
  "ResolveProjectEnvironmentOfResource u db = map_of (n_resources db) u"

text \<open>A comparison with \<^verbatim>\<open>NULL\<close> is not true.\<close>

definition in_scope :: "int option \<Rightarrow> int option \<Rightarrow> bool" where
  "in_scope rule event \<longleftrightarrow> rule = None \<or> rule = event"

definition rule_matches :: "string \<Rightarrow> string \<Rightarrow> int option \<Rightarrow> int option \<Rightarrow> notify_db \<Rightarrow> NotificationRule \<Rightarrow> bool" where
  "rule_matches eventType team proj environment db r \<longleftrightarrow>
     nr_Enabled r \<and> nr_EventType r = eventType \<and> in_scope (nr_ProjectID r) proj \<and> in_scope (nr_EnvironmentID r) environment \<and>
     list_ex (\<lambda>c. nc_ID c = nr_ChannelID r \<and> nc_Enabled c \<and> nc_TeamUuid c = team) (n_channels db)"

definition MatchNotificationRules :: "string \<Rightarrow> string \<Rightarrow> int option \<Rightarrow> int option \<Rightarrow> notify_db \<Rightarrow> NotificationRule list" where
  "MatchNotificationRules eventType team proj environment db =
     sort_key nr_ID (filter (rule_matches eventType team proj environment db) (n_rules db))"

definition CreateNotificationDelivery :: "int \<Rightarrow> int \<Rightarrow> int \<Rightarrow> int \<Rightarrow> notify_db \<Rightarrow> (NotificationDelivery \<times> notify_db) option" where
  "CreateNotificationDelivery now ruleID channelID eventID db =
     (if list_ex (\<lambda>d. nd_RuleID d = ruleID \<and> nd_OutboxEventID d = eventID) (n_deliveries db) then None
      else let d = \<lparr>nd_ID = n_next db, nd_RuleID = ruleID, nd_ChannelID = channelID, nd_OutboxEventID = eventID,
                    nd_Status = DeliveryPending, nd_Attempts = 0, nd_LastError = None, nd_SuppressedReason = None,
                    nd_SentAt = None, nd_CreatedAt = now\<rparr>
           in Some (d, db\<lparr>n_deliveries := n_deliveries db @ [d], n_next := n_next db + 1\<rparr>))"

definition map_deliveries ::
  "(NotificationDelivery \<Rightarrow> bool) \<Rightarrow> (NotificationDelivery \<Rightarrow> NotificationDelivery) \<Rightarrow> notify_db \<Rightarrow> notify_db" where
  "map_deliveries P f db = db\<lparr>n_deliveries := map (\<lambda>d. if P d then f d else d) (n_deliveries db)\<rparr>"

definition finished_row ::
  "int \<Rightarrow> NotificationDeliveryStatus \<Rightarrow> delivery_error option \<Rightarrow> suppressed_reason option \<Rightarrow> NotificationDelivery \<Rightarrow> NotificationDelivery" where
  "finished_row now st err reason d =
     d\<lparr>nd_Status := st, nd_Attempts := nd_Attempts d + 1, nd_LastError := err, nd_SuppressedReason := reason,
       nd_SentAt := (if st = DeliverySent then Some now else nd_SentAt d)\<rparr>"

definition FinishNotificationDelivery ::
  "int \<Rightarrow> int \<Rightarrow> NotificationDeliveryStatus \<Rightarrow> delivery_error option \<Rightarrow> suppressed_reason option \<Rightarrow> notify_db \<Rightarrow> notify_db" where
  "FinishNotificationDelivery now i st err reason = map_deliveries (\<lambda>d. nd_ID d = i) (finished_row now st err reason)"

definition GetNotificationChannelByID :: "int \<Rightarrow> notify_db \<Rightarrow> NotificationChannel option" where
  "GetNotificationChannelByID i db = find (\<lambda>c. nc_ID c = i) (n_channels db)"

text \<open>The latest time, \<^const>\<open>None\<close> when no row qualifies.\<close>

definition LastSentDelivery :: "int \<Rightarrow> notify_db \<Rightarrow> int option" where
  "LastSentDelivery ruleID db =
     (let ts = concat (map (\<lambda>d. case nd_SentAt d of None \<Rightarrow> [] | Some t \<Rightarrow> [t])
                 (filter (\<lambda>d. nd_RuleID d = ruleID \<and> nd_Status d = DeliverySent) (n_deliveries db)))
      in if ts = [] then None else Some (foldr max ts (hd ts)))"

definition CountSuppressedSince :: "int \<Rightarrow> int option \<Rightarrow> notify_db \<Rightarrow> nat" where
  "CountSuppressedSince ruleID since db =
     length (filter (\<lambda>d. nd_RuleID d = ruleID \<and> nd_Status d = DeliverySuppressed \<and>
       (case since of None \<Rightarrow> True | Some t \<Rightarrow> nd_CreatedAt d > t)) (n_deliveries db))"

definition ListDigestRulesDue :: "int \<Rightarrow> notify_db \<Rightarrow> NotificationRule list" where
  "ListDigestRulesDue now db =
     sort_key nr_ID (filter (\<lambda>r. nr_Enabled r \<and> nr_DigestEnabled r \<and>
       list_ex (\<lambda>c. nc_ID c = nr_ChannelID r \<and> nc_Enabled c) (n_channels db) \<and>
       list_ex (\<lambda>d. nd_RuleID d = nr_ID r \<and> nd_Status d = DeliveryPending \<and>
                    nd_CreatedAt d < now - nr_DigestIntervalMinutes r * minute) (n_deliveries db)) (n_rules db))"

definition ListPendingDigestDeliveries :: "int \<Rightarrow> notify_db \<Rightarrow> NotificationDelivery list" where
  "ListPendingDigestDeliveries ruleID db =
     sort_key nd_ID (filter (\<lambda>d. nd_RuleID d = ruleID \<and> nd_Status d = DeliveryPending \<and>
       list_ex (\<lambda>e. oe_ID e = nd_OutboxEventID d) (n_outbox db)) (n_deliveries db))"

definition MarkDigestDeliveriesFailed :: "int list \<Rightarrow> notify_db \<Rightarrow> notify_db" where
  "MarkDigestDeliveriesFailed ids =
     map_deliveries (\<lambda>d. nd_ID d \<in> set ids)
       (\<lambda>d. d\<lparr>nd_Status := DeliveryFailed, nd_Attempts := nd_Attempts d + 1, nd_LastError := Some SendFailed\<rparr>)"

definition MarkDigestDeliveriesSent :: "int \<Rightarrow> int list \<Rightarrow> notify_db \<Rightarrow> notify_db" where
  "MarkDigestDeliveriesSent now ids =
     map_deliveries (\<lambda>d. nd_ID d \<in> set ids)
       (\<lambda>d. d\<lparr>nd_Status := DeliverySent, nd_Attempts := nd_Attempts d + 1, nd_SentAt := Some now\<rparr>)"

definition SetRuleDigestFlushed :: "int \<Rightarrow> int \<Rightarrow> notify_db \<Rightarrow> notify_db" where
  "SetRuleDigestFlushed now i db =
     db\<lparr>n_rules := map (\<lambda>r. if nr_ID r = i then r\<lparr>nr_LastDigestAt := Some now\<rparr> else r) (n_rules db)\<rparr>"

section \<open>Noise rules\<close>

text \<open>Times of day are microseconds since midnight, on the clock of the server.\<close>

definition inQuietHours :: "location \<Rightarrow> NotificationRule \<Rightarrow> int \<Rightarrow> bool" where
  "inQuietHours loc rule now =
     (case (nr_QuietHoursStart rule, nr_QuietHoursEnd rule) of
        (Some start, Some end') \<Rightarrow>
          let minutes = (Hour loc now * 60 + Minute loc now) * 60 * 1000000 in
          if start \<le> end' then minutes \<ge> start \<and> minutes < end' else minutes \<ge> start \<or> minutes < end'
      | _ \<Rightarrow> False)"

definition suppressionReason :: "notify_env \<Rightarrow> NotificationRule \<Rightarrow> int \<Rightarrow> NotifySeverity \<Rightarrow> notify_db \<Rightarrow> suppressed_reason option" where
  "suppressionReason env rule eventID severity db =
     (if severity = SeverityCritical then None
      else if nr_DebounceSeconds rule > 0 \<and> ne_up env NLastSent (nr_ID rule) eventID \<and>
              (case LastSentDelivery (nr_ID rule) db of
                 None \<Rightarrow> False | Some t \<Rightarrow> ne_now env - t < nr_DebounceSeconds rule * second)
      then Some (Debounced (nr_DebounceSeconds rule))
      else if inQuietHours (ne_loc env) rule (ne_now env) then Some QuietHours
      else None)"

section \<open>Delivery\<close>

definition finish_delivery ::
  "notify_env \<Rightarrow> int \<Rightarrow> NotificationDelivery \<Rightarrow> NotificationDeliveryStatus \<Rightarrow> delivery_error option \<Rightarrow> suppressed_reason option
     \<Rightarrow> notify_db \<Rightarrow> notify_db" where
  "finish_delivery env eventID d st err reason db =
     (if ne_up env NFinish (nd_RuleID d) eventID then FinishNotificationDelivery (ne_now env) (nd_ID d) st err reason db else db)"

definition deliver :: "notify_env \<Rightarrow> NotificationRule \<Rightarrow> NotificationDelivery \<Rightarrow> OutboxEvent \<Rightarrow> NotifySeverity \<Rightarrow> notify_db \<Rightarrow> notify_db" where
  "deliver env rule d event severity db =
     (case suppressionReason env rule (oe_ID event) severity db of
        Some reason \<Rightarrow> finish_delivery env (oe_ID event) d DeliverySuppressed None (Some reason) db
      | None \<Rightarrow>
          if nr_DigestEnabled rule \<and> severity < SeverityCritical then db
          else case (if ne_up env NChannel (nr_ID rule) (oe_ID event) then GetNotificationChannelByID (nr_ChannelID rule) db else None) of
            None \<Rightarrow> finish_delivery env (oe_ID event) d DeliveryFailed (Some ChannelMissing) None db
          | Some channel \<Rightarrow>
              (case ne_config env channel of
                 None \<Rightarrow> finish_delivery env (oe_ID event) d DeliveryFailed (Some ConfigUnreadable) None db
               | Some cfg \<Rightarrow>
                   let since = (if ne_up env NLastSentCount (nr_ID rule) (oe_ID event) then LastSentDelivery (nr_ID rule) db else None);
                       suppressed = (if ne_up env NCount (nr_ID rule) (oe_ID event) then CountSuppressedSince (nr_ID rule) since db else 0);
                       msg = Single (nr_ID rule) (oe_ID event) (int suppressed);
                       db' = db\<lparr>n_out := n_out db @ [msg]\<rparr>
                   in if ne_send env (nc_Kind channel) cfg msg
                      then finish_delivery env (oe_ID event) d DeliverySent None None db'
                      else finish_delivery env (oe_ID event) d DeliveryFailed (Some SendFailed) None db'))"

text \<open>The loop over the rules ends with an error when a delivery cannot be created.\<close>

fun dispatch_rules :: "notify_env \<Rightarrow> OutboxEvent \<Rightarrow> NotificationRule list \<Rightarrow> notify_db \<Rightarrow> bool \<times> notify_db" where
  "dispatch_rules env event [] db = (True, db)"
| "dispatch_rules env event (rule # rules) db =
     (let severity = SeverityOf (oe_EventType event) in
      if severity < ParseSeverity (nr_MinSeverity rule) then dispatch_rules env event rules db
      else if \<not> ne_up env NCreate (nr_ID rule) (oe_ID event) then (False, db)
      else case CreateNotificationDelivery (ne_now env) (nr_ID rule) (nr_ChannelID rule) (oe_ID event) db of
        None \<Rightarrow> dispatch_rules env event rules db
      | Some (d, db') \<Rightarrow> dispatch_rules env event rules (deliver env rule d event severity db'))"

definition event_scope :: "notify_env \<Rightarrow> OutboxEvent \<Rightarrow> notify_db \<Rightarrow> (int \<times> int) option" where
  "event_scope env event db =
     (case oe_ResourceUuid event of
        None \<Rightarrow> None
      | Some u \<Rightarrow> if ne_up env NResolve 0 (oe_ID event) then ResolveProjectEnvironmentOfResource u db else None)"

definition event_rules :: "notify_env \<Rightarrow> OutboxEvent \<Rightarrow> string \<Rightarrow> notify_db \<Rightarrow> NotificationRule list" where
  "event_rules env event team db =
     (let scope = event_scope env event db
      in MatchNotificationRules (oe_EventType event) team (map_option fst scope) (map_option snd scope) db)"

definition dispatchOne :: "notify_env \<Rightarrow> OutboxEvent \<Rightarrow> notify_db \<Rightarrow> bool \<times> notify_db" where
  "dispatchOne env event db =
     (case oe_TeamUuid event of
        None \<Rightarrow> (True, db)
      | Some team \<Rightarrow>
          if \<not> ne_up env NMatch 0 (oe_ID event) then (False, db)
          else dispatch_rules env event (event_rules env event team db) db)"

fun dispatch_events :: "notify_env \<Rightarrow> OutboxEvent list \<Rightarrow> notify_db \<Rightarrow> notify_db" where
  "dispatch_events env [] db = db"
| "dispatch_events env (event # events) db =
     (if ne_cancelled env (oe_ID event) then db
      else case dispatchOne env event db of
        (False, db') \<Rightarrow> db'
      | (True, db') \<Rightarrow>
          if ne_up env NSetCursor 0 (oe_ID event) then dispatch_events env events (SetNotificationCursor (oe_ID event) db')
          else db')"

definition batchSize :: nat where "batchSize = 200"

definition Dispatch :: "notify_env \<Rightarrow> notify_db \<Rightarrow> notify_db" where
  "Dispatch env db =
     (if ne_up env NGetCursor 0 0 \<and> ne_up env NListOutbox 0 0
      then dispatch_events env (ListOutboxEventsAfter (n_cursor db) batchSize db) db else db)"

section \<open>Digests\<close>

definition flushDigest :: "notify_env \<Rightarrow> NotificationRule \<Rightarrow> notify_db \<Rightarrow> notify_db" where
  "flushDigest env rule db =
     (let pending = ListPendingDigestDeliveries (nr_ID rule) db; ids = map nd_ID pending; msg = Digest (nr_ID rule) ids in
      if \<not> ne_up env NPending (nr_ID rule) 0 \<or> pending = [] then db
      else case (if ne_up env NChannel (nr_ID rule) 0 then GetNotificationChannelByID (nr_ChannelID rule) db else None) of
        None \<Rightarrow> db
      | Some channel \<Rightarrow>
          (case ne_config env channel of
             None \<Rightarrow> db
           | Some cfg \<Rightarrow>
               let db' = db\<lparr>n_out := n_out db @ [msg]\<rparr> in
               if \<not> ne_send env (nc_Kind channel) cfg msg
               then (if ne_up env NMarkFailed (nr_ID rule) 0 then MarkDigestDeliveriesFailed ids db' else db')
               else if \<not> ne_up env NMarkSent (nr_ID rule) 0 then db'
               else
                 let db2 = MarkDigestDeliveriesSent (ne_now env) ids db'
                 in if ne_up env NFlushed (nr_ID rule) 0 then SetRuleDigestFlushed (ne_now env) (nr_ID rule) db2 else db2))"

fun flush_rules :: "notify_env \<Rightarrow> NotificationRule list \<Rightarrow> notify_db \<Rightarrow> notify_db" where
  "flush_rules env [] db = db"
| "flush_rules env (rule # rules) db =
     (if ne_cancelled env (nr_ID rule) then db else flush_rules env rules (flushDigest env rule db))"

definition FlushDigests :: "notify_env \<Rightarrow> notify_db \<Rightarrow> notify_db" where
  "FlushDigests env db = (if ne_up env NDigestsDue 0 0 then flush_rules env (ListDigestRulesDue (ne_now env) db) db else db)"

section \<open>Facts\<close>

fun singles :: "outgoing list \<Rightarrow> (int \<times> int) list" where
  "singles [] = []"
| "singles (Single r e k # os) = (r, e) # singles os"
| "singles (Digest r ids # os) = singles os"

lemma singles_append [simp]: "singles (xs @ ys) = singles xs @ singles ys"
  by (induction xs rule: singles.induct) simp_all

lemma singles_mem: "(r, e) \<in> set (singles os) \<longleftrightarrow> (\<exists>k. Single r e k \<in> set os)"
  by (induction os rule: singles.induct) auto

abbreviation told :: "NotificationDelivery \<Rightarrow> int \<times> int" where
  "told d \<equiv> (nd_RuleID d, nd_OutboxEventID d)"

text \<open>Keys of the tables, and single messages only for the deliveries on record, each once.\<close>

definition notify_wf :: "notify_db \<Rightarrow> bool" where
  "notify_wf db \<longleftrightarrow>
     distinct (map oe_ID (n_outbox db)) \<and> (\<forall>d \<in> set (n_deliveries db). nd_ID d < n_next db) \<and>
     distinct (map told (n_deliveries db)) \<and> distinct (singles (n_out db)) \<and>
     set (singles (n_out db)) \<subseteq> told ` set (n_deliveries db)"

text \<open>What a pass leaves as it is, and what it only adds to.\<close>

definition grows :: "notify_db \<Rightarrow> notify_db \<Rightarrow> bool" where
  "grows db db' \<longleftrightarrow>
     n_outbox db' = n_outbox db \<and> n_rules db' = n_rules db \<and> n_channels db' = n_channels db \<and> n_resources db' = n_resources db \<and>
     (\<exists>new. n_deliveries db' = n_deliveries db @ new) \<and> set (n_out db) \<subseteq> set (n_out db')"

lemma grows_refl [simp]: "grows db db"
  by (simp add: grows_def)

lemma grows_trans: "grows a b \<Longrightarrow> grows b c \<Longrightarrow> grows a c"
  by (fastforce simp: grows_def)

lemma grows_rules:
  assumes "grows db db'"
  shows "event_rules env event team db' = event_rules env event team db"
proof -
  have "event_scope env event db' = event_scope env event db"
    using assms by (simp add: grows_def event_scope_def ResolveProjectEnvironmentOfResource_def split: option.split)
  then show ?thesis
    using assms by (simp add: grows_def event_rules_def MatchNotificationRules_def rule_matches_def [abs_def])
qed

text \<open>What becomes of the delivery of a critical event.\<close>

definition critical_done :: "notify_env \<Rightarrow> OutboxEvent \<Rightarrow> notify_db \<Rightarrow> NotificationDelivery \<Rightarrow> bool" where
  "critical_done env event db d \<longleftrightarrow>
     (SeverityOf (oe_EventType event) = SeverityCritical \<longrightarrow>
        nd_Status d \<noteq> DeliverySuppressed \<and>
        (ne_up env NFinish (nd_RuleID d) (oe_ID event) \<longrightarrow> nd_Status d \<in> {DeliverySent, DeliveryFailed}) \<and>
        (\<forall>channel. ne_up env NChannel (nd_RuleID d) (oe_ID event) \<longrightarrow>
           GetNotificationChannelByID (nd_ChannelID d) db = Some channel \<longrightarrow> ne_config env channel \<noteq> None \<longrightarrow>
           (\<exists>k. Single (nd_RuleID d) (oe_ID event) k \<in> set (n_out db))))"

lemma critical_done_grows: "critical_done env event db d \<Longrightarrow> grows db db' \<Longrightarrow> critical_done env event db' d"
  by (fastforce simp: critical_done_def grows_def GetNotificationChannelByID_def)

text \<open>Finishing the newest delivery changes that one only.\<close>

lemma finish_newest:
  assumes "n_deliveries db = ds @ [d]" "\<forall>x \<in> set ds. nd_ID x < nd_ID d"
  shows "n_deliveries (finish_delivery env i d st err reason db) =
    ds @ [if ne_up env NFinish (nd_RuleID d) i then finished_row (ne_now env) st err reason d else d]"
proof -
  have "map (\<lambda>x. if nd_ID x = nd_ID d then finished_row (ne_now env) st err reason x else x) ds = ds"
    using assms(2) by (intro map_idI) auto
  then show ?thesis
    by (simp add: finish_delivery_def FinishNotificationDelivery_def map_deliveries_def assms(1))
qed

lemma finish_frame [simp]:
  "n_outbox (finish_delivery env i d st err reason db) = n_outbox db" "n_rules (finish_delivery env i d st err reason db) = n_rules db"
  "n_channels (finish_delivery env i d st err reason db) = n_channels db" "n_resources (finish_delivery env i d st err reason db) = n_resources db"
  "n_out (finish_delivery env i d st err reason db) = n_out db" "n_next (finish_delivery env i d st err reason db) = n_next db"
  "n_cursor (finish_delivery env i d st err reason db) = n_cursor db"
  by (simp_all add: finish_delivery_def FinishNotificationDelivery_def map_deliveries_def)

lemma deliver_newest:
  assumes "n_deliveries db = ds @ [d]" "\<forall>x \<in> set ds. nd_ID x < nd_ID d" "nd_Status d = DeliveryPending"
    and "nd_RuleID d = nr_ID rule" "nd_ChannelID d = nr_ChannelID rule"
  obtains d' msgs where
    "n_deliveries (deliver env rule d event severity db) = ds @ [d']" "nd_ID d' = nd_ID d" "nd_ChannelID d' = nd_ChannelID d" "told d' = told d"
    "n_out (deliver env rule d event severity db) = n_out db @ msgs" "singles msgs = [] \<or> singles msgs = [(nr_ID rule, oe_ID event)]"
    "severity = SeverityOf (oe_EventType event) \<Longrightarrow> critical_done env event (deliver env rule d event severity db) d'"
proof -
  let ?db' = "deliver env rule d event severity db"
  note f = finish_newest [OF assms(1,2)]
  have o: "n_deliveries (db\<lparr>n_out := x\<rparr>) = ds @ [d]" for x by (simp add: assms(1))
  note f' = finish_newest [OF o assms(2)]
  have crit: "suppressionReason env rule i SeverityCritical x = None" for i x by (simp add: suppressionReason_def)
  have critical: "\<not> severity < SeverityCritical" if "severity = SeverityCritical" using that by simp
  consider
    (suppressed) reason where "suppressionReason env rule (oe_ID event) severity db = Some reason"
  | (digest) "suppressionReason env rule (oe_ID event) severity db = None" "nr_DigestEnabled rule \<and> severity < SeverityCritical"
  | (channel) "suppressionReason env rule (oe_ID event) severity db = None" "\<not> (nr_DigestEnabled rule \<and> severity < SeverityCritical)"
      "(if ne_up env NChannel (nr_ID rule) (oe_ID event) then GetNotificationChannelByID (nr_ChannelID rule) db else None) = None"
  | (config) c where "suppressionReason env rule (oe_ID event) severity db = None" "\<not> (nr_DigestEnabled rule \<and> severity < SeverityCritical)"
      "ne_up env NChannel (nr_ID rule) (oe_ID event)" "GetNotificationChannelByID (nr_ChannelID rule) db = Some c" "ne_config env c = None"
  | (sent) c cfg where "suppressionReason env rule (oe_ID event) severity db = None" "\<not> (nr_DigestEnabled rule \<and> severity < SeverityCritical)"
      "ne_up env NChannel (nr_ID rule) (oe_ID event)" "GetNotificationChannelByID (nr_ChannelID rule) db = Some c" "ne_config env c = Some cfg"
    by (metis not_None_eq)
  then have "\<exists>d' msgs. n_deliveries ?db' = ds @ [d'] \<and> nd_ID d' = nd_ID d \<and> nd_ChannelID d' = nd_ChannelID d \<and> told d' = told d \<and>
      n_out ?db' = n_out db @ msgs \<and> (singles msgs = [] \<or> singles msgs = [(nr_ID rule, oe_ID event)]) \<and>
      (severity = SeverityOf (oe_EventType event) \<longrightarrow> critical_done env event ?db' d')"
  proof cases
    case suppressed
    then have "severity \<noteq> SeverityCritical" using crit by auto
    with suppressed show ?thesis
      by (intro exI [of _ "if ne_up env NFinish (nd_RuleID d) (oe_ID event)
                           then finished_row (ne_now env) DeliverySuppressed None (Some reason) d else d"] exI [of _ "[]"])
        (auto simp: deliver_def f critical_done_def finished_row_def)
  next
    case digest
    with critical show ?thesis
      by (intro exI [of _ d] exI [of _ "[]"]) (auto simp: deliver_def assms(1) critical_done_def)
  next
    case channel
    then have db': "?db' = finish_delivery env (oe_ID event) d DeliveryFailed (Some ChannelMissing) None db" by (auto simp: deliver_def)
    show ?thesis unfolding db'
      by (intro exI [of _ "if ne_up env NFinish (nd_RuleID d) (oe_ID event)
                           then finished_row (ne_now env) DeliveryFailed (Some ChannelMissing) None d else d"] exI [of _ "[]"])
        (use channel assms(3-5) in \<open>auto simp: f critical_done_def finished_row_def GetNotificationChannelByID_def\<close>)
  next
    case config
    then have db': "?db' = finish_delivery env (oe_ID event) d DeliveryFailed (Some ConfigUnreadable) None db" by (auto simp: deliver_def)
    show ?thesis unfolding db'
      by (intro exI [of _ "if ne_up env NFinish (nd_RuleID d) (oe_ID event)
                           then finished_row (ne_now env) DeliveryFailed (Some ConfigUnreadable) None d else d"] exI [of _ "[]"])
        (use config assms(3-5) in \<open>auto simp: f critical_done_def finished_row_def GetNotificationChannelByID_def\<close>)
  next
    case sent
    define k where "k = int (if ne_up env NCount (nr_ID rule) (oe_ID event)
      then CountSuppressedSince (nr_ID rule) (if ne_up env NLastSentCount (nr_ID rule) (oe_ID event) then LastSentDelivery (nr_ID rule) db else None) db
      else 0)"
    define ok where "ok = ne_send env (nc_Kind c) cfg (Single (nr_ID rule) (oe_ID event) k)"
    define st where "st = (if ok then DeliverySent else DeliveryFailed)"
    define err where "err = (if ok then None else Some SendFailed)"
    have db': "?db' = finish_delivery env (oe_ID event) d st err None (db\<lparr>n_out := n_out db @ [Single (nr_ID rule) (oe_ID event) k]\<rparr>)"
      using sent by (auto simp: deliver_def Let_def k_def st_def err_def ok_def)
    have st: "st = DeliverySent \<or> st = DeliveryFailed" by (simp add: st_def)
    show ?thesis unfolding db'
      by (intro exI [of _ "if ne_up env NFinish (nd_RuleID d) (oe_ID event) then finished_row (ne_now env) st err None d else d"]
          exI [of _ "[Single (nr_ID rule) (oe_ID event) k]"])
        (use st assms(3-5) in \<open>auto simp: f' critical_done_def finished_row_def\<close>)
  qed
  then show thesis using that by blast
qed

lemma deliver_frame [simp]:
  "n_outbox (deliver env rule d event severity db) = n_outbox db" "n_rules (deliver env rule d event severity db) = n_rules db"
  "n_channels (deliver env rule d event severity db) = n_channels db" "n_resources (deliver env rule d event severity db) = n_resources db"
  "n_next (deliver env rule d event severity db) = n_next db" "n_cursor (deliver env rule d event severity db) = n_cursor db"
  by (auto simp: deliver_def Let_def split: option.splits)

text \<open>A rule that is told about an event gets one new delivery, and at most one message.\<close>

lemma delivered:
  assumes wf: "notify_wf db"
    and c: "CreateNotificationDelivery (ne_now env) (nr_ID rule) (nr_ChannelID rule) (oe_ID event) db = Some (d, db1)"
  defines "db' \<equiv> deliver env rule d event (SeverityOf (oe_EventType event)) db1"
  shows "notify_wf db'" "grows db db'" "n_cursor db' = n_cursor db"
    "\<exists>d'. n_deliveries db' = n_deliveries db @ [d'] \<and> told d' = (nr_ID rule, oe_ID event) \<and> critical_done env event db' d'"
proof -
  have fresh: "(nr_ID rule, oe_ID event) \<notin> told ` set (n_deliveries db)" and d: "nd_ID d = n_next db" "told d = (nr_ID rule, oe_ID event)"
      "nd_ChannelID d = nr_ChannelID rule" "nd_Status d = DeliveryPending"
    and db1: "db1 = db\<lparr>n_deliveries := n_deliveries db @ [d], n_next := n_next db + 1\<rparr>"
    using c by (auto simp: CreateNotificationDelivery_def Let_def list_ex_iff split: if_splits)
  have ids: "\<forall>x \<in> set (n_deliveries db). nd_ID x < nd_ID d" using wf d(1) by (simp add: notify_wf_def)
  obtain d' msgs where n: "n_deliveries db' = n_deliveries db @ [d']" "nd_ID d' = nd_ID d" "told d' = told d"
    "n_out db' = n_out db1 @ msgs" "singles msgs = [] \<or> singles msgs = [(nr_ID rule, oe_ID event)]" "critical_done env event db' d'"
    unfolding db'_def by (rule deliver_newest [of db1 "n_deliveries db" d rule]) (use db1 ids d in auto)
  have frame: "n_outbox db' = n_outbox db" "n_rules db' = n_rules db" "n_channels db' = n_channels db" "n_resources db' = n_resources db"
    "n_next db' = n_next db + 1" "n_out db1 = n_out db"
    by (simp_all add: db'_def db1)
  show "n_cursor db' = n_cursor db" by (simp add: db'_def db1)
  show "grows db db'" using frame n(1,4) by (auto simp: grows_def)
  show "\<exists>d'. n_deliveries db' = n_deliveries db @ [d'] \<and> told d' = (nr_ID rule, oe_ID event) \<and> critical_done env event db' d'"
    using n(1,3,6) d(2) by auto
  show "notify_wf db'"
    unfolding notify_wf_def
  proof (intro conjI)
    show "distinct (map oe_ID (n_outbox db'))" using wf frame by (simp add: notify_wf_def)
    show "\<forall>x \<in> set (n_deliveries db'). nd_ID x < n_next db'" using wf n(1,2) d(1) frame(5) by (auto simp: notify_wf_def)
    show "distinct (map told (n_deliveries db'))" using wf fresh n(1,3) d(2) by (auto simp: notify_wf_def)
    show "distinct (singles (n_out db'))" using wf fresh n(4,5) frame(6) by (auto simp: notify_wf_def)
    show "set (singles (n_out db')) \<subseteq> told ` set (n_deliveries db')"
      using wf n(1,3-5) d(2) frame(6) by (auto simp: notify_wf_def)
  qed
qed

text \<open>The rules of one event.\<close>

lemma dispatch_rules_done:
  assumes "dispatch_rules env event rules db = (ok, db')" "notify_wf db"
  shows "notify_wf db' \<and> grows db db' \<and> n_cursor db' = n_cursor db \<and>
    (\<exists>new. n_deliveries db' = n_deliveries db @ new \<and> (\<forall>d \<in> set new. nd_OutboxEventID d = oe_ID event \<and> critical_done env event db' d)) \<and>
    (ok \<longrightarrow> (\<forall>rule \<in> set rules. ParseSeverity (nr_MinSeverity rule) \<le> SeverityOf (oe_EventType event) \<longrightarrow>
      (nr_ID rule, oe_ID event) \<in> told ` set (n_deliveries db')))"
  using assms
proof (induction rules arbitrary: db)
  case Nil
  then show ?case by auto
next
  case (Cons rule rules)
  let ?sev = "SeverityOf (oe_EventType event)"
  let ?c = "CreateNotificationDelivery (ne_now env) (nr_ID rule) (nr_ChannelID rule) (oe_ID event) db"
  consider (below) "?sev < ParseSeverity (nr_MinSeverity rule)"
    | (down) "\<not> ?sev < ParseSeverity (nr_MinSeverity rule)" "\<not> ne_up env NCreate (nr_ID rule) (oe_ID event)"
    | (known) "\<not> ?sev < ParseSeverity (nr_MinSeverity rule)" "ne_up env NCreate (nr_ID rule) (oe_ID event)" "?c = None"
    | (new) d db1 where "\<not> ?sev < ParseSeverity (nr_MinSeverity rule)" "ne_up env NCreate (nr_ID rule) (oe_ID event)" "?c = Some (d, db1)"
    by (metis not_None_eq surj_pair)
  then show ?case
  proof cases
    case below
    with Cons.prems Cons.IH [of db] show ?thesis by (auto simp: not_le)
  next
    case down
    with Cons.prems show ?thesis by (auto simp: Let_def)
  next
    case known
    then have "(nr_ID rule, oe_ID event) \<in> told ` set (n_deliveries db)"
      by (force simp: CreateNotificationDelivery_def Let_def list_ex_iff split: if_splits)
    moreover have "dispatch_rules env event rules db = (ok, db')" using known Cons.prems(1) by (simp add: Let_def)
    ultimately show ?thesis using Cons.IH [of db] Cons.prems(2) by auto
  next
    case new
    let ?db2 = "deliver env rule d event ?sev db1"
    note del = delivered [OF Cons.prems(2) new(3)]
    have rest: "dispatch_rules env event rules ?db2 = (ok, db')" using new Cons.prems(1) by (simp add: Let_def)
    note IH = Cons.IH [OF rest del(1)]
    from del(4) obtain d' where d': "n_deliveries ?db2 = n_deliveries db @ [d']" "told d' = (nr_ID rule, oe_ID event)" "critical_done env event ?db2 d'"
      by blast
    from IH obtain more where more: "n_deliveries db' = n_deliveries ?db2 @ more"
      "\<forall>d \<in> set more. nd_OutboxEventID d = oe_ID event \<and> critical_done env event db' d" "grows ?db2 db'"
      by blast
    have "critical_done env event db' d'" using d'(3) more(3) by (rule critical_done_grows)
    then have added: "\<exists>new. n_deliveries db' = n_deliveries db @ new \<and> (\<forall>d \<in> set new. nd_OutboxEventID d = oe_ID event \<and> critical_done env event db' d)"
      using more d' by (intro exI [of _ "d' # more"]) auto
    have "(nr_ID rule, oe_ID event) \<in> told ` set (n_deliveries db')" using more(1) d'(1,2) by force
    then have "ok \<longrightarrow> (\<forall>rule \<in> set (rule # rules). ParseSeverity (nr_MinSeverity rule) \<le> ?sev \<longrightarrow>
        (nr_ID rule, oe_ID event) \<in> told ` set (n_deliveries db'))"
      using IH by (simp only: set_simps ball_simps) blast
    then show ?thesis using IH del(3) grows_trans [OF del(2) more(3)] added by (intro conjI) simp_all
  qed
qed

text \<open>The events of a batch, in the order of their identifiers.\<close>

lemma dispatchOne_done:
  assumes "dispatchOne env event db = (ok, db')" "notify_wf db"
  shows "notify_wf db' \<and> grows db db' \<and> n_cursor db' = n_cursor db \<and>
    (\<exists>new. n_deliveries db' = n_deliveries db @ new \<and> (\<forall>d \<in> set new. nd_OutboxEventID d = oe_ID event \<and> critical_done env event db' d)) \<and>
    (ok \<longrightarrow> (\<forall>team. oe_TeamUuid event = Some team \<longrightarrow> (\<forall>rule \<in> set (event_rules env event team db).
      ParseSeverity (nr_MinSeverity rule) \<le> SeverityOf (oe_EventType event) \<longrightarrow>
      (nr_ID rule, oe_ID event) \<in> told ` set (n_deliveries db'))))"
  using assms dispatch_rules_done [of env event _ db ok db']
  by (auto simp: dispatchOne_def split: option.splits if_splits)

lemma SetNotificationCursor_frame:
  "notify_wf (SetNotificationCursor i db) = notify_wf db" "grows db (SetNotificationCursor i db)" "n_cursor (SetNotificationCursor i db) = i"
  "n_deliveries (SetNotificationCursor i db) = n_deliveries db"
  by (simp_all add: SetNotificationCursor_def notify_wf_def grows_def)

definition batch_done :: "notify_env \<Rightarrow> OutboxEvent list \<Rightarrow> notify_db \<Rightarrow> notify_db \<Rightarrow> bool" where
  "batch_done env events db db' \<longleftrightarrow>
     notify_wf db' \<and> grows db db' \<and> n_cursor db \<le> n_cursor db' \<and>
     (\<exists>new. n_deliveries db' = n_deliveries db @ new \<and>
        (\<forall>d \<in> set new. \<exists>event \<in> set events. nd_OutboxEventID d = oe_ID event \<and> critical_done env event db' d)) \<and>
     (\<forall>event \<in> set events. oe_ID event \<le> n_cursor db' \<longrightarrow>
        (\<forall>team. oe_TeamUuid event = Some team \<longrightarrow> (\<forall>rule \<in> set (event_rules env event team db).
           ParseSeverity (nr_MinSeverity rule) \<le> SeverityOf (oe_EventType event) \<longrightarrow>
           (nr_ID rule, oe_ID event) \<in> told ` set (n_deliveries db'))))"

lemma grows_told: "grows db db' \<Longrightarrow> p \<in> told ` set (n_deliveries db) \<Longrightarrow> p \<in> told ` set (n_deliveries db')"
  by (auto simp: grows_def)

lemma batch_done_Cons:
  assumes one: "dispatchOne env event db = (True, db1)" and "notify_wf db"
    and rest: "batch_done env events (SetNotificationCursor (oe_ID event) db1) db'" and "n_cursor db < oe_ID event"
  shows "batch_done env (event # events) db db'"
proof -
  let ?db2 = "SetNotificationCursor (oe_ID event) db1"
  note d1 = dispatchOne_done [OF one assms(2)]
  then have g: "grows db ?db2" using grows_trans [OF _ SetNotificationCursor_frame(2)] by blast
  from rest have r: "notify_wf db'" "grows ?db2 db'" "oe_ID event \<le> n_cursor db'"
    by (simp_all add: batch_done_def SetNotificationCursor_frame)
  from d1 obtain new1 where n1: "n_deliveries db1 = n_deliveries db @ new1"
    "\<forall>d \<in> set new1. nd_OutboxEventID d = oe_ID event \<and> critical_done env event db1 d"
    by blast
  from rest obtain new2 where n2: "n_deliveries db' = n_deliveries db1 @ new2"
    "\<forall>d \<in> set new2. \<exists>event \<in> set events. nd_OutboxEventID d = oe_ID event \<and> critical_done env event db' d"
    unfolding batch_done_def SetNotificationCursor_frame by blast
  have g1: "grows db1 db'" using grows_trans [OF SetNotificationCursor_frame(2) r(2)] .
  have "\<exists>new. n_deliveries db' = n_deliveries db @ new \<and>
      (\<forall>d \<in> set new. \<exists>event \<in> set (event # events). nd_OutboxEventID d = oe_ID event \<and> critical_done env event db' d)"
    using n1 n2 critical_done_grows [OF _ g1] by (intro exI [of _ "new1 @ new2"]) auto
  moreover have "(nr_ID rule, oe_ID e) \<in> told ` set (n_deliveries db')"
    if e: "e \<in> set (event # events)" "oe_ID e \<le> n_cursor db'" "oe_TeamUuid e = Some team" "rule \<in> set (event_rules env e team db)"
      "ParseSeverity (nr_MinSeverity rule) \<le> SeverityOf (oe_EventType e)" for e team rule
  proof (cases "e = event")
    case True
    with d1 e have "(nr_ID rule, oe_ID e) \<in> told ` set (n_deliveries db1)" by simp
    with g1 show ?thesis by (rule grows_told)
  next
    case False
    then have "e \<in> set events" using e(1) by simp
    then show ?thesis using rest e(2-5) unfolding batch_done_def grows_rules [OF g] by simp
  qed
  ultimately show ?thesis
    using r g grows_trans [OF g r(2)] assms(4) unfolding batch_done_def by (intro conjI) (simp_all, blast?)
qed

lemma dispatch_events_done:
  assumes "notify_wf db" "sorted_wrt (<) (map oe_ID events)" "\<forall>e \<in> set events. n_cursor db < oe_ID e"
  shows "batch_done env events db (dispatch_events env events db)"
  using assms
proof (induction events arbitrary: db)
  case Nil
  then show ?case by (simp add: batch_done_def)
next
  case (Cons event events)
  obtain ok db1 where one: "dispatchOne env event db = (ok, db1)" by fastforce
  note d1 = dispatchOne_done [OF one Cons.prems(1)]
  have cur: "n_cursor db < oe_ID e" if "e \<in> set (event # events)" for e using Cons.prems(3) that by blast
  consider (stop) "ne_cancelled env (oe_ID event)"
    | (error) "\<not> ne_cancelled env (oe_ID event)" "\<not> ok \<or> \<not> ne_up env NSetCursor 0 (oe_ID event)"
    | (go) "\<not> ne_cancelled env (oe_ID event)" "ok" "ne_up env NSetCursor 0 (oe_ID event)"
    by blast
  then show ?case
  proof cases
    case stop
    with Cons.prems(1) cur show ?thesis by (auto simp: batch_done_def not_le [symmetric])
  next
    case error
    then have db': "dispatch_events env (event # events) db = db1" using one by (cases ok) simp_all
    have "\<not> oe_ID e \<le> n_cursor db1" if "e \<in> set (event # events)" for e using cur [OF that] d1 by simp
    with d1 show ?thesis unfolding db' batch_done_def by auto
  next
    case go
    let ?db2 = "SetNotificationCursor (oe_ID event) db1"
    have "batch_done env events ?db2 (dispatch_events env events ?db2)"
      using Cons.prems(2) d1 by (intro Cons.IH) (simp_all add: SetNotificationCursor_frame)
    with go one Cons.prems(1) cur show ?thesis by (simp add: batch_done_Cons)
  qed
qed

lemma dispatch_events_cursor:
  "n_cursor (dispatch_events env events db) = n_cursor db \<or> n_cursor (dispatch_events env events db) \<in> oe_ID ` set events"
  if "notify_wf db" for db
  using that
proof (induction events arbitrary: db)
  case (Cons event events)
  obtain ok db1 where one: "dispatchOne env event db = (ok, db1)" by fastforce
  note d1 = dispatchOne_done [OF one Cons.prems]
  with Cons.IH [of "SetNotificationCursor (oe_ID event) db1"] one show ?case
    by (cases ok) (auto simp: SetNotificationCursor_frame)
qed simp

text \<open>The rows of a batch are the first ones, so none is passed over.\<close>

lemma take_sorted:
  assumes "sorted_wrt (<) (map f xs)" "x \<in> set xs" "y \<in> set (take n xs)" "f x \<le> (f y :: int)"
  shows "x \<in> set (take n xs)"
proof (rule ccontr)
  assume "x \<notin> set (take n xs)"
  with assms(2) have "x \<in> set (drop n xs)" by (metis append_take_drop_id Un_iff set_append)
  moreover have "sorted_wrt (<) (map f (take n xs) @ map f (drop n xs))" using assms(1) by (metis append_take_drop_id map_append)
  ultimately have "f y < f x" using assms(3) by (auto simp: sorted_wrt_append)
  with assms(4) show False by simp
qed

lemma outbox_after_facts:
  "distinct (map oe_ID (n_outbox db)) \<Longrightarrow> sorted_wrt (<) (map oe_ID (outbox_after i db))"
  "set (outbox_after i db) = {e \<in> set (n_outbox db). i < oe_ID e}"
proof -
  show "sorted_wrt (<) (map oe_ID (outbox_after i db))" if "distinct (map oe_ID (n_outbox db))"
  proof -
    have "distinct (map oe_ID (outbox_after i db))" using that by (simp add: outbox_after_def distinct_map inj_on_def)
    then show ?thesis by (simp add: outbox_after_def strict_sorted_iff)
  qed
  show "set (outbox_after i db) = {e \<in> set (n_outbox db). i < oe_ID e}" by (auto simp: outbox_after_def)
qed

section \<open>Runs\<close>

text \<open>Passes of the dispatcher and of the digests, with the rest of the program in between: events are committed, in any
  order of their identifiers, and rules, channels and resources change.\<close>

inductive notify_run :: "notify_db \<Rightarrow> bool" where
  start: "n_outbox db = [] \<Longrightarrow> n_deliveries db = [] \<Longrightarrow> n_out db = [] \<Longrightarrow> notify_run db"
| dispatch: "notify_run db \<Longrightarrow> notify_run (Dispatch env db)"
| digests: "notify_run db \<Longrightarrow> notify_run (FlushDigests env db)"
| commit: "notify_run db \<Longrightarrow> oe_ID e \<notin> oe_ID ` set (n_outbox db) \<Longrightarrow> notify_run (db\<lparr>n_outbox := n_outbox db @ [e]\<rparr>)"
| configure: "notify_run db \<Longrightarrow> notify_run (db\<lparr>n_rules := rs, n_channels := cs, n_resources := xs\<rparr>)"

lemma Dispatch_done:
  assumes "notify_wf db"
  obtains events where "events = ListOutboxEventsAfter (n_cursor db) batchSize db" "batch_done env events db (Dispatch env db)"
    "n_cursor (Dispatch env db) = n_cursor db \<or> n_cursor (Dispatch env db) \<in> oe_ID ` set events"
proof -
  let ?es = "ListOutboxEventsAfter (n_cursor db) batchSize db"
  have d: "distinct (map oe_ID (n_outbox db))" using assms by (simp add: notify_wf_def)
  have "sorted_wrt (<) (map oe_ID ?es)"
    using outbox_after_facts(1) [OF d] by (simp add: ListOutboxEventsAfter_def sorted_wrt_take flip: take_map)
  moreover have above: "\<forall>e \<in> set ?es. n_cursor db < oe_ID e"
    using outbox_after_facts(2) by (auto simp: ListOutboxEventsAfter_def dest: in_set_takeD)
  ultimately have b: "batch_done env ?es db (dispatch_events env ?es db)" by (intro dispatch_events_done assms)
  have "batch_done env ?es db db" using assms above by (auto simp: batch_done_def not_le [symmetric])
  with b dispatch_events_cursor [OF assms] show thesis by (intro that [OF refl]) (auto simp: Dispatch_def)
qed

lemma map_deliveries_wf:
  assumes "notify_wf db" "\<And>d. nd_ID (f d) = nd_ID d" "\<And>d. told (f d) = told d"
  shows "notify_wf (map_deliveries P f db)"
proof -
  let ?g = "\<lambda>d. if P d then f d else d"
  have m: "map told (map ?g (n_deliveries db)) = map told (n_deliveries db)" using assms(3) by (auto simp: comp_def)
  then have s: "told ` set (map ?g (n_deliveries db)) = told ` set (n_deliveries db)" by (simp only: set_map [symmetric])
  have i: "\<forall>d \<in> set (map ?g (n_deliveries db)). nd_ID d < n_next db" using assms(1,2) by (auto simp: notify_wf_def)
  have frame: "n_outbox (map_deliveries P f db) = n_outbox db" "n_next (map_deliveries P f db) = n_next db"
    "n_out (map_deliveries P f db) = n_out db" "n_deliveries (map_deliveries P f db) = map ?g (n_deliveries db)"
    by (simp_all add: map_deliveries_def)
  show ?thesis using assms(1) i unfolding notify_wf_def frame m s by blast
qed

lemma flushDigest_wf:
  assumes "notify_wf db"
  shows "notify_wf (flushDigest env rule db)"
proof -
  have out: "notify_wf (db\<lparr>n_out := n_out db @ [Digest r ids]\<rparr>)" for r ids using assms by (simp add: notify_wf_def)
  have rules: "notify_wf (SetRuleDigestFlushed now i db2) = notify_wf db2" for now i db2 by (simp add: SetRuleDigestFlushed_def notify_wf_def)
  show ?thesis
    using assms out
    by (auto simp: flushDigest_def Let_def rules MarkDigestDeliveriesFailed_def MarkDigestDeliveriesSent_def
        intro!: map_deliveries_wf split: option.split)
qed

lemma flush_rules_wf: "notify_wf db \<Longrightarrow> notify_wf (flush_rules env rules db)"
  by (induction rules arbitrary: db) (simp_all add: flushDigest_wf)

lemma run_wf: "notify_run db \<Longrightarrow> notify_wf db"
proof (induction rule: notify_run.induct)
  case (dispatch db env)
  then show ?case using Dispatch_done [of db env] by (metis batch_done_def)
next
  case (digests db env)
  then show ?case by (simp add: FlushDigests_def flush_rules_wf)
next
  case (commit db e)
  then show ?case by (auto simp: notify_wf_def)
next
  case (configure db rs cs xs)
  then show ?case by (simp add: notify_wf_def)
qed (simp add: notify_wf_def)


definition sample_notify :: notify_db where
  "sample_notify =
     \<lparr>n_cursor = 0,
      n_outbox = [\<lparr>oe_ID = 5, oe_EventType = ''deployment.failed.v1'', oe_OccurredAt = 0, oe_TeamUuid = Some ''t'', oe_ResourceUuid = None, oe_Payload = [],
                   oe_PublishedAt = None, oe_PublishAttempts = 0\<rparr>],
      n_rules = [\<lparr>nr_ID = 1, nr_ChannelID = 2, nr_EventType = ''deployment.failed.v1'', nr_Enabled = True, nr_ProjectID = None,
                  nr_EnvironmentID = None, nr_MinSeverity = ''warning'', nr_DebounceSeconds = 60, nr_QuietHoursStart = Some 0,
                  nr_QuietHoursEnd = Some 86400000000, nr_DigestEnabled = True, nr_DigestIntervalMinutes = 30, nr_LastDigestAt = None\<rparr>],
      n_channels = [\<lparr>nc_ID = 2, nc_Uuid = ''c'', nc_TeamUuid = ''t'', nc_Kind = ''slack'', nc_Enabled = True, nc_ConfigEnc = []\<rparr>],
      n_resources = [], n_deliveries = [], n_next = 1, n_out = []\<rparr>"

definition sample_notify_env :: notify_env where
  "sample_notify_env =
     \<lparr>ne_now = 0, ne_loc = (\<lambda>_. 0), ne_up = (\<lambda>_ _ _. True), ne_cancelled = (\<lambda>_. False), ne_config = (\<lambda>c. Some (nc_ConfigEnc c)),
      ne_send = (\<lambda>_ _ _. True)\<rparr>"

lemma sample_notify_run: "notify_run sample_notify"
proof -
  let ?e = "hd (n_outbox sample_notify)" and ?db = "sample_notify\<lparr>n_outbox := []\<rparr>"
  have "notify_run ?db" by (rule start) (simp_all add: sample_notify_def)
  from commit [OF this, of ?e] show ?thesis by (simp add: sample_notify_def)
qed


section \<open>Digests and late commits\<close>

text \<open>A digest that reaches the provider names exactly the deliveries that waited, and none of them waits any longer.\<close>

theorem digest_flushed:
  assumes "ListPendingDigestDeliveries (nr_ID rule) db \<noteq> []" "GetNotificationChannelByID (nr_ChannelID rule) db = Some channel"
    and "ne_config env channel = Some cfg" "\<And>c i j. ne_up env c i j" "\<And>m. ne_send env (nc_Kind channel) cfg m"
  shows "n_out (flushDigest env rule db) = n_out db @ [Digest (nr_ID rule) (map nd_ID (ListPendingDigestDeliveries (nr_ID rule) db))]"
    "ListPendingDigestDeliveries (nr_ID rule) (flushDigest env rule db) = []"
proof -
  let ?ids = "map nd_ID (ListPendingDigestDeliveries (nr_ID rule) db)"
  let ?db1 = "db\<lparr>n_out := n_out db @ [Digest (nr_ID rule) ?ids]\<rparr>"
  have f: "flushDigest env rule db = SetRuleDigestFlushed (ne_now env) (nr_ID rule) (MarkDigestDeliveriesSent (ne_now env) ?ids ?db1)"
    using assms by (simp add: flushDigest_def Let_def)
  then show "n_out (flushDigest env rule db) = n_out db @ [Digest (nr_ID rule) ?ids]"
    by (simp add: SetRuleDigestFlushed_def MarkDigestDeliveriesSent_def map_deliveries_def)
  have "nd_ID d \<in> set ?ids" if "d \<in> set (n_deliveries db)" "nd_RuleID d = nr_ID rule" "nd_Status d = DeliveryPending"
    "list_ex (\<lambda>e. oe_ID e = nd_OutboxEventID d) (n_outbox db)" for d
    using that by (auto simp: ListPendingDigestDeliveries_def)
  then have "filter (\<lambda>d. nd_RuleID d = nr_ID rule \<and> nd_Status d = DeliveryPending \<and>
      list_ex (\<lambda>e. oe_ID e = nd_OutboxEventID d) (n_outbox db)) (n_deliveries (MarkDigestDeliveriesSent (ne_now env) ?ids ?db1)) = []"
    by (auto simp: MarkDigestDeliveriesSent_def map_deliveries_def filter_empty_conv)
  then show "ListPendingDigestDeliveries (nr_ID rule) (flushDigest env rule db) = []"
    unfolding f by (simp add: ListPendingDigestDeliveries_def SetRuleDigestFlushed_def MarkDigestDeliveriesSent_def map_deliveries_def)
qed

text \<open>Identifiers are drawn before their transactions commit.  An event that commits behind the cursor is not seen by a pass.\<close>

theorem late_commit_missed:
  assumes "notify_run db" "e \<in> set (n_outbox db)" "oe_ID e \<le> n_cursor db" "d \<in> set (n_deliveries (Dispatch env db))" "nd_OutboxEventID d = oe_ID e"
  shows "d \<in> set (n_deliveries db)"
proof -
  have wf: "notify_wf db" using assms(1) by (rule run_wf)
  obtain events where es: "events = ListOutboxEventsAfter (n_cursor db) batchSize db" "batch_done env events db (Dispatch env db)"
    using Dispatch_done [OF wf] .
  have "n_cursor db < oe_ID x" if "x \<in> set events" for x
    using that outbox_after_facts(2) [of "n_cursor db" db] in_set_takeD [of x batchSize] unfolding es ListOutboxEventsAfter_def by blast
  with es(2) assms(3-5) show ?thesis by (force simp: batch_done_def)
qed

end
