(* ===== verification/Events.thy ===== *)
theory Events
  imports Notify
begin

text \<open>
  The event stream (\<^verbatim>\<open>src/internal/events/events.go\<close>, \<^verbatim>\<open>src/internal/handlers/events.go\<close>, the two outbox queries of
  \<^verbatim>\<open>src/internal/store/audit.sql.go\<close>): the publisher claims committed events and hands them to the broker of its process, which
  appends them to the bounded channels of the subscribers; a stream replays what its client missed and then writes what
  its channel receives.  The order in which the update returns its rows and the rows that other
  processes hold are arguments.  The lemmas show what a stream writes in every run, and what it takes for it to write everything.
\<close>

section \<open>The broker\<close>

record Event =
  ev_Sequence :: int
  ev_EventType :: string
  ev_OccurredAt :: int
  ev_ResourceUUID :: string
  ev_Payload :: string

text \<open>A uuid that is absent prints as the empty string.\<close>

definition uuid_string :: "string option \<Rightarrow> string" where
  "uuid_string u = (case u of None \<Rightarrow> [] | Some s \<Rightarrow> s)"

definition toEvent :: "OutboxEvent \<Rightarrow> Event" where
  "toEvent row =
     \<lparr>ev_Sequence = oe_ID row, ev_EventType = oe_EventType row, ev_OccurredAt = oe_OccurredAt row,
      ev_ResourceUUID = uuid_string (oe_ResourceUuid row), ev_Payload = oe_Payload row\<rparr>"

text \<open>A subscriber is its channel, the uuid of its team and what waits in the channel.\<close>

type_synonym Broker = "(nat \<times> string \<times> Event list) list"

definition channel_size :: nat where "channel_size = 32"

definition Subscribe :: "nat \<Rightarrow> string \<Rightarrow> Broker \<Rightarrow> Broker" where
  "Subscribe c team b = b @ [(c, team, [])]"

definition Unsubscribe :: "nat \<Rightarrow> Broker \<Rightarrow> Broker" where
  "Unsubscribe c b = filter (\<lambda>(c', _). c' \<noteq> c) b"

definition publish_event :: "string \<Rightarrow> Event \<Rightarrow> Broker \<Rightarrow> Broker" where
  "publish_event team ev b =
     map (\<lambda>(c, t, buf). if t = team \<and> length buf < channel_size then (c, t, buf @ [ev]) else (c, t, buf)) b"

section \<open>The publisher\<close>

definition publishBatch :: nat where "publishBatch = 100"

definition claimed_ids :: "nat \<Rightarrow> (int \<Rightarrow> bool) \<Rightarrow> OutboxEvent list \<Rightarrow> int list" where
  "claimed_ids limit held outbox =
     take limit (filter (\<lambda>i. \<not> held i) (sort (map oe_ID (filter (\<lambda>e. oe_PublishedAt e = None) outbox))))"

definition mark_published :: "int \<Rightarrow> int list \<Rightarrow> OutboxEvent \<Rightarrow> OutboxEvent" where
  "mark_published now ids e =
     (if oe_ID e \<in> set ids then e\<lparr>oe_PublishedAt := Some now, oe_PublishAttempts := oe_PublishAttempts e + 1\<rparr> else e)"

text \<open>The update returns the rows it changed in the order it visits them, which the statement does not fix.\<close>

definition ClaimUnpublishedOutboxEvents ::
  "int \<Rightarrow> nat \<Rightarrow> (int \<Rightarrow> bool) \<Rightarrow> (OutboxEvent list \<Rightarrow> OutboxEvent list) \<Rightarrow> OutboxEvent list \<Rightarrow> OutboxEvent list \<times> OutboxEvent list" where
  "ClaimUnpublishedOutboxEvents now limit held visit outbox =
     (let ids = claimed_ids limit held outbox; outbox' = map (mark_published now ids) outbox
      in (visit (filter (\<lambda>e. oe_ID e \<in> set ids) outbox'), outbox'))"

definition publish_rows :: "OutboxEvent list \<Rightarrow> Broker \<Rightarrow> Broker" where
  "publish_rows rows b = foldl (\<lambda>b row. publish_event (uuid_string (oe_TeamUuid row)) (toEvent row) b) b rows"

definition drain ::
  "bool \<Rightarrow> int \<Rightarrow> (int \<Rightarrow> bool) \<Rightarrow> (OutboxEvent list \<Rightarrow> OutboxEvent list) \<Rightarrow> OutboxEvent list \<Rightarrow> Broker \<Rightarrow> OutboxEvent list \<times> Broker" where
  "drain up now held visit outbox b =
     (if \<not> up then (outbox, b)
      else case ClaimUnpublishedOutboxEvents now publishBatch held visit outbox of
        (rows, outbox') \<Rightarrow> (outbox', publish_rows rows b))"

section \<open>The stream\<close>

definition missed_rows :: "string \<Rightarrow> int \<Rightarrow> OutboxEvent list \<Rightarrow> OutboxEvent list" where
  "missed_rows team after outbox =
     sort_key oe_ID (filter (\<lambda>e. oe_TeamUuid e = Some team \<and> oe_ID e > after \<and> oe_PublishedAt e \<noteq> None) outbox)"

definition ListOutboxEventsForTeamAfter :: "string \<Rightarrow> int \<Rightarrow> nat \<Rightarrow> OutboxEvent list \<Rightarrow> OutboxEvent list" where
  "ListOutboxEventsForTeamAfter team after limit outbox = take limit (missed_rows team after outbox)"

definition Replay :: "bool \<Rightarrow> string \<Rightarrow> int \<Rightarrow> nat \<Rightarrow> OutboxEvent list \<Rightarrow> Event list option" where
  "Replay up team after limit outbox =
     (if up then Some (map toEvent (ListOutboxEventsForTeamAfter team after limit outbox)) else None)"

text \<open>A stream after it has subscribed: the team of its identity, its channel, the last identifier it knows of, the
  one its client sent, what it has written, and whether it has replayed.\<close>

record stream =
  sm_team :: string
  sm_chan :: nat
  sm_last :: int
  sm_from :: int
  sm_written :: "Event list"
  sm_live :: bool

definition replayLimit :: nat where "replayLimit = 500"

definition stream_opens :: "string \<Rightarrow> nat \<Rightarrow> string option \<Rightarrow> stream" where
  "stream_opens team c lastEventID =
     (let n = (case Option.bind lastEventID Atoi of None \<Rightarrow> 0 | Some n \<Rightarrow> n)
      in \<lparr>sm_team = team, sm_chan = c, sm_last = n, sm_from = n, sm_written = [], sm_live = False\<rparr>)"

text \<open>The event goes out and its identifier becomes the last one known; the frame it is written in is left out.\<close>

definition write_event :: "Event \<Rightarrow> stream \<Rightarrow> stream" where
  "write_event ev s = s\<lparr>sm_written := sm_written s @ [ev], sm_last := ev_Sequence ev\<rparr>"

definition stream_replays :: "bool \<Rightarrow> OutboxEvent list \<Rightarrow> stream \<Rightarrow> stream" where
  "stream_replays up outbox s =
     (let missed = (if sm_last s > 0 then Replay up (sm_team s) (sm_last s) replayLimit outbox else None)
      in (case missed of None \<Rightarrow> s | Some evs \<Rightarrow> foldl (\<lambda>s ev. write_event ev s) s evs)\<lparr>sm_live := True\<rparr>)"

text \<open>One turn of the loop that takes an event from the channel.\<close>

definition take_event :: "nat \<Rightarrow> Broker \<Rightarrow> (Event \<times> Broker) option" where
  "take_event c b =
     (case find (\<lambda>(c', _). c' = c) b of
        Some (_, _, ev # _) \<Rightarrow> Some (ev, map (\<lambda>(c', t, buf). if c' = c then (c', t, tl buf) else (c', t, buf)) b)
      | _ \<Rightarrow> None)"

definition stream_receives :: "Event \<Rightarrow> stream \<Rightarrow> stream" where
  "stream_receives ev s = (if ev_Sequence ev \<le> sm_last s then s else write_event ev s)"

section \<open>Runs of a stream\<close>

record stream_state =
  ss_outbox :: "OutboxEvent list"
  ss_broker :: Broker
  ss_stream :: stream
  ss_before :: "int list"

definition published_ids :: "OutboxEvent list \<Rightarrow> int list" where
  "published_ids outbox = map oe_ID (filter (\<lambda>e. oe_PublishedAt e \<noteq> None) outbox)"

definition entry :: "nat \<Rightarrow> Broker \<Rightarrow> (nat \<times> string \<times> Event list) option" where
  "entry c b = find (\<lambda>(c', _). c' = c) b"

definition waiting :: "nat \<Rightarrow> Broker \<Rightarrow> Event list" where
  "waiting c b = (case entry c b of Some (_, _, buf) \<Rightarrow> buf | None \<Rightarrow> [])"

definition published_first :: "OutboxEvent list \<Rightarrow> bool" where
  "published_first outbox \<longleftrightarrow>
     (\<forall>p \<in> set outbox. \<forall>u \<in> set outbox. oe_PublishedAt p \<noteq> None \<longrightarrow> oe_PublishedAt u = None \<longrightarrow> oe_ID p < oe_ID u)"

text \<open>The steps around one stream: transactions commit events, the publisher of its process and those of others drain the
  outbox, other subscribers come, go and read, and the stream itself replays and receives.  A run is orderly when events
  commit in the order of their identifiers, one process publishes them in that order, the channel has room, and the
  replay succeeds within its limit.\<close>

inductive stream_run :: "bool \<Rightarrow> stream_state \<Rightarrow> bool" for orderly where
  opens: "distinct (map oe_ID outbox) \<Longrightarrow> entry c b = None \<Longrightarrow> (orderly \<Longrightarrow> published_first outbox) \<Longrightarrow>
    stream_run orderly \<lparr>ss_outbox = outbox, ss_broker = Subscribe c team b, ss_stream = stream_opens team c lastEventID,
      ss_before = published_ids outbox\<rparr>"
| commits: "stream_run orderly s \<Longrightarrow> oe_ID e \<notin> oe_ID ` set (ss_outbox s) \<Longrightarrow> oe_PublishedAt e = None \<Longrightarrow>
    (orderly \<Longrightarrow> \<forall>x \<in> set (ss_outbox s). oe_ID x < oe_ID e) \<Longrightarrow> stream_run orderly (s\<lparr>ss_outbox := ss_outbox s @ [e]\<rparr>)"
| publishes: "stream_run orderly s \<Longrightarrow> drain up now held visit (ss_outbox s) (ss_broker s) = (outbox, b) \<Longrightarrow>
    (\<And>rows. set (visit rows) = set rows) \<Longrightarrow>
    (orderly \<Longrightarrow> (\<forall>i. \<not> held i) \<and> visit = sort_key oe_ID \<and>
       length (waiting (sm_chan (ss_stream s)) (ss_broker s)) + length (claimed_ids publishBatch held (ss_outbox s)) \<le> channel_size) \<Longrightarrow>
    stream_run orderly (s\<lparr>ss_outbox := outbox, ss_broker := b\<rparr>)"
| elsewhere: "stream_run orderly s \<Longrightarrow> \<not> orderly \<Longrightarrow> ClaimUnpublishedOutboxEvents now limit held visit (ss_outbox s) = (rows, outbox) \<Longrightarrow>
    stream_run orderly (s\<lparr>ss_outbox := outbox\<rparr>)"
| comes: "stream_run orderly s \<Longrightarrow> stream_run orderly (s\<lparr>ss_broker := Subscribe c team (ss_broker s)\<rparr>)"
| goes: "stream_run orderly s \<Longrightarrow> c \<noteq> sm_chan (ss_stream s) \<Longrightarrow> stream_run orderly (s\<lparr>ss_broker := Unsubscribe c (ss_broker s)\<rparr>)"
| reads: "stream_run orderly s \<Longrightarrow> c \<noteq> sm_chan (ss_stream s) \<Longrightarrow> take_event c (ss_broker s) = Some (ev, b) \<Longrightarrow>
    stream_run orderly (s\<lparr>ss_broker := b\<rparr>)"
| replays: "stream_run orderly s \<Longrightarrow> \<not> sm_live (ss_stream s) \<Longrightarrow>
    (orderly \<Longrightarrow> up \<and> length (missed_rows (sm_team (ss_stream s)) (sm_last (ss_stream s)) (ss_outbox s)) \<le> replayLimit) \<Longrightarrow>
    stream_run orderly (s\<lparr>ss_stream := stream_replays up (ss_outbox s) (ss_stream s)\<rparr>)"
| receives: "stream_run orderly s \<Longrightarrow> sm_live (ss_stream s) \<Longrightarrow> take_event (sm_chan (ss_stream s)) (ss_broker s) = Some (ev, b) \<Longrightarrow>
    stream_run orderly (s\<lparr>ss_broker := b, ss_stream := stream_receives ev (ss_stream s)\<rparr>)"

section \<open>Facts\<close>

text \<open>The channel of the stream under the operations of the broker.\<close>

lemma entry_map:
  assumes "\<And>c t buf. fst (f (c, t, buf)) = c"
  shows "entry c (map f b) = map_option f (entry c b)"
proof -
  have "(\<lambda>(c', _). c' = c) \<circ> f = (\<lambda>(c', _). c' = c)" using assms by (auto simp: fun_eq_iff split: prod.splits) (metis fst_conv)+
  then show ?thesis by (simp add: entry_def find_map)
qed

lemma entry_chan: "entry c b = Some (c', t, buf) \<Longrightarrow> c' = c"
  unfolding entry_def by (induction b) (auto split: if_splits)

lemma entry_Subscribe: "entry c b = Some x \<Longrightarrow> entry c (Subscribe c' team b) = Some x"
  by (simp add: entry_def Subscribe_def find_append)

lemma entry_subscribed: "entry c b = None \<Longrightarrow> entry c (Subscribe c team b) = Some (c, team, [])"
  by (simp add: entry_def Subscribe_def find_append)

lemma entry_Unsubscribe: "c \<noteq> c' \<Longrightarrow> entry c (Unsubscribe c' b) = entry c b"
  unfolding entry_def Unsubscribe_def by (induction b) (auto split: if_splits)

lemma entry_take:
  assumes "take_event c' b = Some (ev, b')"
  shows "c \<noteq> c' \<Longrightarrow> entry c b = Some (c, t, buf) \<Longrightarrow> entry c b' = Some (c, t, buf)"
    "entry c' b = Some (c', t, buf) \<Longrightarrow> buf = ev # tl buf \<and> entry c' b' = Some (c', t, tl buf)"
proof -
  let ?f = "\<lambda>(c'', t, buf). if c'' = c' then (c'', t, tl buf) else (c'', t, buf)"
  have b': "b' = map ?f b" and e: "\<exists>t rest. entry c' b = Some (c', t, ev # rest)"
    using assms entry_chan [of c' b] by (auto simp: take_event_def entry_def [symmetric] split: option.splits list.splits)
  have m: "entry d b' = map_option ?f (entry d b)" for d
    unfolding b' by (rule entry_map) simp
  show "c \<noteq> c' \<Longrightarrow> entry c b = Some (c, t, buf) \<Longrightarrow> entry c b' = Some (c, t, buf)" by (simp add: m)
  show "entry c' b = Some (c', t, buf) \<Longrightarrow> buf = ev # tl buf \<and> entry c' b' = Some (c', t, tl buf)" using e by (auto simp: m)
qed

text \<open>What a batch adds to a channel.\<close>

definition belongs :: "string \<Rightarrow> OutboxEvent \<Rightarrow> bool" where
  "belongs team row \<longleftrightarrow> uuid_string (oe_TeamUuid row) = team"

definition channel_after :: "string \<Rightarrow> OutboxEvent list \<Rightarrow> Event list \<Rightarrow> Event list" where
  "channel_after t rows buf =
     foldl (\<lambda>buf row. if belongs t row \<and> length buf < channel_size then buf @ [toEvent row] else buf) buf rows"

lemma entry_publish_rows:
  "entry c b = Some (c, t, buf) \<Longrightarrow> entry c (publish_rows rows b) = Some (c, t, channel_after t rows buf)"
proof (induction rows arbitrary: b buf)
  case Nil
  then show ?case by (simp add: publish_rows_def channel_after_def)
next
  case (Cons row rows)
  let ?b = "publish_event (uuid_string (oe_TeamUuid row)) (toEvent row) b"
  have "entry c ?b = Some (c, t, if belongs t row \<and> length buf < channel_size then buf @ [toEvent row] else buf)"
    unfolding publish_event_def using Cons.prems by (subst entry_map) (auto simp: belongs_def)
  from Cons.IH [OF this] show ?case by (simp add: publish_rows_def channel_after_def)
qed

lemma channel_after_mem: "ev \<in> set (channel_after t rows buf) \<Longrightarrow> ev \<in> set buf \<or> (\<exists>row \<in> set rows. belongs t row \<and> ev = toEvent row)"
proof (induction rows arbitrary: buf)
  case Nil
  then show ?case by (simp add: channel_after_def)
next
  case (Cons row rows)
  from Cons.prems have "ev \<in> set (channel_after t rows (if belongs t row \<and> length buf < channel_size then buf @ [toEvent row] else buf))"
    by (simp add: channel_after_def)
  from Cons.IH [OF this] show ?case by (auto split: if_splits)
qed

lemma channel_after_room:
  "length buf + length rows \<le> channel_size \<Longrightarrow> channel_after t rows buf = buf @ map toEvent (filter (belongs t) rows)"
proof (induction rows arbitrary: buf)
  case Nil
  then show ?case by (simp add: channel_after_def)
next
  case (Cons row rows)
  let ?buf = "if belongs t row then buf @ [toEvent row] else buf"
  have "channel_after t (row # rows) buf = channel_after t rows ?buf" using Cons.prems by (simp add: channel_after_def)
  also have "\<dots> = ?buf @ map toEvent (filter (belongs t) rows)" using Cons.prems by (intro Cons.IH) simp
  finally show ?case by simp
qed

lemma toEvent_seq [simp]: "ev_Sequence (toEvent row) = oe_ID row"
  by (simp add: toEvent_def)

lemma mark_published_facts [simp]:
  "oe_ID (mark_published now ids e) = oe_ID e" "toEvent (mark_published now ids e) = toEvent e"
  "oe_TeamUuid (mark_published now ids e) = oe_TeamUuid e" "belongs t (mark_published now ids e) = belongs t e"
  "oe_PublishedAt (mark_published now ids e) = None \<longleftrightarrow> oe_PublishedAt e = None \<and> oe_ID e \<notin> set ids"
  by (simp_all add: mark_published_def toEvent_def belongs_def)

text \<open>A row of the team that has been published.\<close>

definition real_event :: "string \<Rightarrow> OutboxEvent list \<Rightarrow> Event \<Rightarrow> bool" where
  "real_event team outbox ev \<longleftrightarrow> (\<exists>row \<in> set outbox. ev = toEvent row \<and> belongs team row \<and> oe_PublishedAt row \<noteq> None)"

definition written_in_order :: "stream \<Rightarrow> bool" where
  "written_in_order st \<longleftrightarrow>
     sorted_wrt (<) (sm_from st # map ev_Sequence (sm_written st)) \<and> sm_last st = last (sm_from st # map ev_Sequence (sm_written st))"

lemma last_greatest: "sorted_wrt (<) xs \<Longrightarrow> x \<in> set xs \<Longrightarrow> x \<le> last xs" for x :: int
  by (induction xs rule: rev_induct) (auto simp: sorted_wrt_append)

lemma written_in_order_write:
  assumes "written_in_order st" "sm_last st < ev_Sequence ev"
  shows "written_in_order (write_event ev st)"
proof -
  let ?xs = "sm_from st # map ev_Sequence (sm_written st)"
  have xs: "sorted_wrt (<) ?xs" "last ?xs < ev_Sequence ev" using assms by (simp_all add: written_in_order_def)
  then have "\<forall>x \<in> set ?xs. x < ev_Sequence ev" using last_greatest [OF xs(1)] by (meson le_less_trans)
  then have "sorted_wrt (<) (?xs @ [ev_Sequence ev])" using xs(1) by (simp only: sorted_wrt_append sorted_wrt1 list.set) blast
  then show ?thesis by (simp add: written_in_order_def write_event_def)
qed

lemma write_frame [simp]:
  "sm_from (write_event ev st) = sm_from st" "sm_team (write_event ev st) = sm_team st" "sm_chan (write_event ev st) = sm_chan st"
  "sm_live (write_event ev st) = sm_live st" "sm_written (write_event ev st) = sm_written st @ [ev]" "sm_last (write_event ev st) = ev_Sequence ev"
  by (simp_all add: write_event_def)

text \<open>Writing a list of events that go up from the last one.\<close>

lemma write_all:
  fixes evs st
  assumes "written_in_order st" "sorted_wrt (<) (sm_last st # map ev_Sequence evs)"
  shows "written_in_order (foldl (\<lambda>s ev. write_event ev s) st evs)"
    "sm_written (foldl (\<lambda>s ev. write_event ev s) st evs) = sm_written st @ evs"
    "sm_from (foldl (\<lambda>s ev. write_event ev s) st evs) = sm_from st"
    "sm_team (foldl (\<lambda>s ev. write_event ev s) st evs) = sm_team st"
    "sm_chan (foldl (\<lambda>s ev. write_event ev s) st evs) = sm_chan st"
  using assms
proof (induction evs arbitrary: st)
  case (Cons ev evs)
  {
    case 1
    then show ?case by (simp add: Cons.IH(1) written_in_order_write)
  next
    case 2
    then show ?case by (simp add: Cons.IH(2) written_in_order_write)
  next
    case 3
    then show ?case by (simp add: Cons.IH(3) written_in_order_write)
  next
    case 4
    then show ?case by (simp add: Cons.IH(4) written_in_order_write)
  next
    case 5
    then show ?case by (simp add: Cons.IH(5) written_in_order_write)
  }
qed simp_all

definition stream_sound :: "stream_state \<Rightarrow> bool" where
  "stream_sound s \<longleftrightarrow>
     (let st = ss_stream s; outbox = ss_outbox s in
      distinct (map oe_ID outbox) \<and> written_in_order st \<and> (\<not> sm_live st \<longrightarrow> sm_written st = []) \<and>
      (\<exists>buf. entry (sm_chan st) (ss_broker s) = Some (sm_chan st, sm_team st, buf) \<and>
         (\<forall>ev \<in> set (sm_written st) \<union> set buf. real_event (sm_team st) outbox ev)))"

lemma missed_rows_facts:
  assumes "distinct (map oe_ID outbox)"
  shows "sorted_wrt (<) (after # map oe_ID (missed_rows team after outbox))"
    "set (missed_rows team after outbox) = {e \<in> set outbox. oe_TeamUuid e = Some team \<and> oe_ID e > after \<and> oe_PublishedAt e \<noteq> None}"
proof -
  have "distinct (map oe_ID (missed_rows team after outbox))" using assms by (simp add: missed_rows_def distinct_map inj_on_def)
  then have "sorted_wrt (<) (map oe_ID (missed_rows team after outbox))" by (simp add: missed_rows_def strict_sorted_iff)
  then show "sorted_wrt (<) (after # map oe_ID (missed_rows team after outbox))" by (auto simp: missed_rows_def)
qed (auto simp: missed_rows_def)

text \<open>The replay writes rows of the team behind the identifier of the client, in order.\<close>

lemma replayed:
  assumes "written_in_order st" "sm_written st = []" "distinct (map oe_ID outbox)"
  obtains rows where "set rows \<subseteq> set (missed_rows (sm_team st) (sm_from st) outbox)" "written_in_order (stream_replays up outbox st)"
    "sm_written (stream_replays up outbox st) = map toEvent rows" "sm_from (stream_replays up outbox st) = sm_from st"
    "sm_team (stream_replays up outbox st) = sm_team st" "sm_chan (stream_replays up outbox st) = sm_chan st" "sm_live (stream_replays up outbox st)"
    "up \<Longrightarrow> sm_from st > 0 \<Longrightarrow> length (missed_rows (sm_team st) (sm_from st) outbox) \<le> replayLimit \<Longrightarrow> rows = missed_rows (sm_team st) (sm_from st) outbox"
proof -
  have lst: "sm_last st = sm_from st" using assms(1,2) by (simp add: written_in_order_def)
  let ?rows = "if sm_from st > 0 \<and> up then take replayLimit (missed_rows (sm_team st) (sm_from st) outbox) else []"
  let ?st = "foldl (\<lambda>s ev. write_event ev s) st (map toEvent ?rows)"
  have st: "stream_replays up outbox st = ?st\<lparr>sm_live := True\<rparr>"
    by (simp add: stream_replays_def Replay_def ListOutboxEventsForTeamAfter_def lst Let_def)
  have "sorted_wrt (<) (sm_last st # map ev_Sequence (map toEvent ?rows))"
    using missed_rows_facts(1) [OF assms(3), of "sm_from st" "sm_team st"]
    by (auto simp: lst comp_def sorted_wrt_take simp flip: take_map dest: in_set_takeD)
  note w = write_all [OF assms(1) this]
  show thesis
    by (rule that [of ?rows]) (use w assms(2) in \<open>auto simp: st written_in_order_def dest: in_set_takeD\<close>)
qed

lemma real_event_mono:
  assumes "real_event team outbox ev"
  shows "real_event team (outbox @ [e]) ev" "real_event team (map (mark_published now ids) outbox) ev"
proof -
  show "real_event team (outbox @ [e]) ev" using assms by (auto simp: real_event_def)
  from assms obtain row where row: "row \<in> set outbox" "ev = toEvent row" "belongs team row" "oe_PublishedAt row \<noteq> None"
    by (auto simp: real_event_def)
  then have "mark_published now ids row \<in> set (map (mark_published now ids) outbox)" "ev = toEvent (mark_published now ids row)"
    "belongs team (mark_published now ids row)" "oe_PublishedAt (mark_published now ids row) \<noteq> None"
    by (simp_all only: mark_published_facts set_map imageI not_False_eq_True de_Morgan_conj simp_thms)
  then show "real_event team (map (mark_published now ids) outbox) ev" unfolding real_event_def by blast
qed

lemma drained:
  assumes "drain up now held visit outbox b = (outbox', b')" "\<And>rows. set (visit rows) = set rows" "entry c b = Some (c, t, buf)"
  obtains ids rows where "outbox' = map (mark_published now ids) outbox" "set rows = {e \<in> set outbox'. oe_ID e \<in> set ids}"
    "entry c b' = Some (c, t, channel_after t rows buf)" "up \<longrightarrow> ids = claimed_ids publishBatch held outbox" "\<not> up \<longrightarrow> ids = []"
    "up \<longrightarrow> rows = visit (filter (\<lambda>e. oe_ID e \<in> set ids) outbox')"
proof (cases up)
  case True
  let ?ids = "claimed_ids publishBatch held outbox"
  let ?rows = "visit (filter (\<lambda>e. oe_ID e \<in> set ?ids) (map (mark_published now ?ids) outbox))"
  have o: "outbox' = map (mark_published now ?ids) outbox" "b' = publish_rows ?rows b"
    using assms(1) True by (auto simp: drain_def ClaimUnpublishedOutboxEvents_def Let_def)
  show thesis
    by (rule that [of ?ids ?rows]) (use True o entry_publish_rows [OF assms(3)] assms(2) in auto)
next
  case False
  then have "outbox' = outbox" "b' = b" using assms(1) by (simp_all add: drain_def)
  moreover have "map (mark_published now []) outbox = outbox" by (rule map_idI) (simp add: mark_published_def)
  ultimately show thesis using False assms(3) by (intro that [of "[]" "[]"]) (auto simp: channel_after_def)
qed

lemma stream_soundI:
  assumes "distinct (map oe_ID (ss_outbox s))" "written_in_order (ss_stream s)" "\<not> sm_live (ss_stream s) \<Longrightarrow> sm_written (ss_stream s) = []"
    and "entry (sm_chan (ss_stream s)) (ss_broker s) = Some (sm_chan (ss_stream s), sm_team (ss_stream s), buf)"
    and "\<And>ev. ev \<in> set (sm_written (ss_stream s)) \<or> ev \<in> set buf \<Longrightarrow> real_event (sm_team (ss_stream s)) (ss_outbox s) ev"
  shows "stream_sound s"
  unfolding stream_sound_def Let_def using assms by auto

lemma stream_soundE:
  assumes "stream_sound s"
  obtains buf where "distinct (map oe_ID (ss_outbox s))" "written_in_order (ss_stream s)" "\<not> sm_live (ss_stream s) \<longrightarrow> sm_written (ss_stream s) = []"
    "entry (sm_chan (ss_stream s)) (ss_broker s) = Some (sm_chan (ss_stream s), sm_team (ss_stream s), buf)"
    "\<forall>ev. ev \<in> set (sm_written (ss_stream s)) \<or> ev \<in> set buf \<longrightarrow> real_event (sm_team (ss_stream s)) (ss_outbox s) ev"
  using assms unfolding stream_sound_def Let_def by auto

lemma stream_run_sound: "stream_run orderly s \<Longrightarrow> stream_sound s"
proof (induction rule: stream_run.induct)
  case (opens outbox c b team lastEventID)
  then show ?case
    by (intro stream_soundI [where buf = "[]"]) (simp_all add: stream_opens_def Let_def written_in_order_def entry_subscribed)
next
  case (commits s e)
  from commits.IH show ?case
    by (rule stream_soundE) (rule stream_soundI, use commits.hyps in \<open>auto intro: real_event_mono\<close>)
next
  case (publishes s up now held visit outbox b)
  from publishes.IH show ?case
  proof (rule stream_soundE)
    fix buf
    let ?st = "ss_stream s"
    assume s: "distinct (map oe_ID (ss_outbox s))" "written_in_order ?st" "\<not> sm_live ?st \<longrightarrow> sm_written ?st = []"
      "entry (sm_chan ?st) (ss_broker s) = Some (sm_chan ?st, sm_team ?st, buf)"
      "\<forall>ev. ev \<in> set (sm_written ?st) \<or> ev \<in> set buf \<longrightarrow> real_event (sm_team ?st) (ss_outbox s) ev"
    obtain ids rows where d: "outbox = map (mark_published now ids) (ss_outbox s)" "set rows = {e \<in> set outbox. oe_ID e \<in> set ids}"
      "entry (sm_chan ?st) b = Some (sm_chan ?st, sm_team ?st, channel_after (sm_team ?st) rows buf)"
      by (rule drained [OF publishes.hyps(2,3) s(4)])
    have fresh: "real_event (sm_team ?st) outbox (toEvent row)" if "row \<in> set rows" "belongs (sm_team ?st) row" for row
    proof -
      from that(1) d(1,2) obtain x where x: "row = mark_published now ids x" "oe_ID row \<in> set ids" "row \<in> set outbox" by auto
      then have "oe_PublishedAt row \<noteq> None" by simp
      with that(2) x(3) show ?thesis unfolding real_event_def by blast
    qed
    have "real_event (sm_team ?st) outbox ev" if "ev \<in> set (sm_written ?st) \<or> ev \<in> set (channel_after (sm_team ?st) rows buf)" for ev
      using that channel_after_mem [of ev "sm_team ?st" rows buf] fresh real_event_mono(2) [OF s(5) [rule_format]] unfolding d(1) by blast
    then show ?thesis using s(1-3) d(1,3) by (intro stream_soundI [where buf = "channel_after (sm_team ?st) rows buf"]) (auto simp: comp_def)
  qed
next
  case (elsewhere s now limit held visit rows outbox)
  then have o: "outbox = map (mark_published now (claimed_ids limit held (ss_outbox s))) (ss_outbox s)"
    by (simp add: ClaimUnpublishedOutboxEvents_def Let_def)
  from elsewhere.IH show ?case
    by (rule stream_soundE) (rule stream_soundI, auto simp: o comp_def intro: real_event_mono)
next
  case (comes s c team)
  from comes.IH show ?case by (rule stream_soundE) (rule stream_soundI, auto intro: entry_Subscribe)
next
  case (goes s c)
  from goes.IH goes.hyps(2) show ?case
    by (elim stream_soundE) (rule stream_soundI, auto simp: entry_Unsubscribe)
next
  case (reads s c ev b)
  from reads.IH reads.hyps(2,3) show ?case
    by (elim stream_soundE) (rule stream_soundI, auto simp: entry_take(1) [OF reads.hyps(3)])
next
  case (replays s up)
  let ?st = "ss_stream s"
  from replays.IH show ?case
  proof (rule stream_soundE)
    fix buf
    assume s: "distinct (map oe_ID (ss_outbox s))" "written_in_order ?st" "\<not> sm_live ?st \<longrightarrow> sm_written ?st = []"
      "entry (sm_chan ?st) (ss_broker s) = Some (sm_chan ?st, sm_team ?st, buf)"
      "\<forall>ev. ev \<in> set (sm_written ?st) \<or> ev \<in> set buf \<longrightarrow> real_event (sm_team ?st) (ss_outbox s) ev"
    from s(2) s(3) [rule_format, OF replays.hyps(2)] s(1) obtain rows where r: "set rows \<subseteq> set (missed_rows (sm_team ?st) (sm_from ?st) (ss_outbox s))"
      "written_in_order (stream_replays up (ss_outbox s) ?st)" "sm_written (stream_replays up (ss_outbox s) ?st) = map toEvent rows"
      "sm_team (stream_replays up (ss_outbox s) ?st) = sm_team ?st" "sm_chan (stream_replays up (ss_outbox s) ?st) = sm_chan ?st"
      "sm_live (stream_replays up (ss_outbox s) ?st)"
      by (rule replayed) blast
    have "real_event (sm_team ?st) (ss_outbox s) (toEvent row)" if "row \<in> set rows" for row
      using that r(1) missed_rows_facts(2) [OF s(1), of "sm_team ?st" "sm_from ?st"]
      by (auto simp: real_event_def belongs_def uuid_string_def intro!: bexI [of _ row])
    then show ?thesis using s r by (intro stream_soundI [where buf = buf]) auto
  qed
next
  case (receives s ev b)
  let ?st = "ss_stream s"
  from receives.IH show ?case
  proof (rule stream_soundE)
    fix buf
    assume s: "distinct (map oe_ID (ss_outbox s))" "written_in_order ?st" "\<not> sm_live ?st \<longrightarrow> sm_written ?st = []"
      "entry (sm_chan ?st) (ss_broker s) = Some (sm_chan ?st, sm_team ?st, buf)"
      "\<forall>ev. ev \<in> set (sm_written ?st) \<or> ev \<in> set buf \<longrightarrow> real_event (sm_team ?st) (ss_outbox s) ev"
    note t = entry_take(2) [OF receives.hyps(3) s(4)]
    have ev: "ev \<in> set buf" "set (tl buf) \<subseteq> set buf" using t by (metis list.set_intros(1), metis list.set_sel(2) subsetI list.discI tl_Nil)
    show ?thesis using s receives.hyps(2) t ev written_in_order_write [OF s(2)]
      by (intro stream_soundI [where buf = "tl buf"]) (auto simp: stream_receives_def split: if_splits)
  qed
qed

text \<open>In an orderly run nothing is lost: an event of the team that the stream has to write has been written or waits.\<close>

definition due_event :: "stream_state \<Rightarrow> OutboxEvent \<Rightarrow> bool" where
  "due_event s row \<longleftrightarrow>
     row \<in> set (ss_outbox s) \<and> oe_TeamUuid row = Some (sm_team (ss_stream s)) \<and> oe_PublishedAt row \<noteq> None \<and>
     sm_from (ss_stream s) < oe_ID row \<and> (sm_from (ss_stream s) > 0 \<or> oe_ID row \<notin> set (ss_before s))"

definition accounted :: "stream \<Rightarrow> Event list \<Rightarrow> Event \<Rightarrow> bool" where
  "accounted st buf ev \<longleftrightarrow>
     (if sm_live st then ev \<in> set (sm_written st) \<or> (ev \<in> set buf \<and> sm_last st < ev_Sequence ev)
      else sm_from st \<le> 0 \<longrightarrow> ev \<in> set buf)"

definition stream_complete :: "stream_state \<Rightarrow> bool" where
  "stream_complete s \<longleftrightarrow>
     published_first (ss_outbox s) \<and>
     (\<exists>buf. entry (sm_chan (ss_stream s)) (ss_broker s) = Some (sm_chan (ss_stream s), sm_team (ss_stream s), buf) \<and>
        sorted_wrt (<) (map ev_Sequence buf) \<and> (\<forall>row. due_event s row \<longrightarrow> accounted (ss_stream s) buf (toEvent row)))"

lemma claimed_first:
  assumes "distinct (map oe_ID outbox)" "x \<in> set (claimed_ids n (\<lambda>_. False) outbox)" "u \<in> set outbox" "oe_PublishedAt u = None"
    and "oe_ID u \<notin> set (claimed_ids n (\<lambda>_. False) outbox)"
  shows "x < oe_ID u"
proof -
  let ?ids = "sort (map oe_ID (filter (\<lambda>e. oe_PublishedAt e = None) outbox))"
  have c: "claimed_ids n (\<lambda>_. False) outbox = take n ?ids" by (simp add: claimed_ids_def)
  have "distinct (map oe_ID (filter (\<lambda>e. oe_PublishedAt e = None) outbox))" using assms(1) by (rule distinct_map_filter)
  then have "sorted_wrt (<) (map id ?ids)" by (simp add: strict_sorted_iff)
  from take_sorted [OF this, of "oe_ID u" x n] show ?thesis
    using assms(2-5) unfolding c by (force simp: not_le)
qed

lemma claimed_unpublished: "i \<in> set (claimed_ids n held outbox) \<Longrightarrow> \<exists>e \<in> set outbox. oe_ID e = i \<and> oe_PublishedAt e = None"
  by (auto simp: claimed_ids_def dest!: in_set_takeD)

lemma written_last:
  "written_in_order st \<Longrightarrow> sm_last st = sm_from st \<or> (\<exists>ev \<in> set (sm_written st). sm_last st = ev_Sequence ev)"
proof -
  assume "written_in_order st"
  then have "sm_last st = last (sm_from st # map ev_Sequence (sm_written st))" by (simp add: written_in_order_def)
  then have "sm_last st \<in> set (sm_from st # map ev_Sequence (sm_written st))" by (metis last_in_set list.discI)
  then show ?thesis by auto
qed

lemma real_event_published: "real_event team outbox ev \<Longrightarrow> \<exists>row \<in> set outbox. oe_ID row = ev_Sequence ev \<and> oe_PublishedAt row \<noteq> None"
  by (auto simp: real_event_def)

text \<open>A batch of an orderly publisher.\<close>

lemma orderly_batch:
  assumes out: "distinct (map oe_ID outbox)" "published_first outbox"
    and ids: "ids = claimed_ids publishBatch (\<lambda>_. False) outbox" and out': "outbox' = map (mark_published now ids) outbox"
    and rows: "rows = sort_key oe_ID (filter (\<lambda>e. oe_ID e \<in> set ids) outbox')"
  shows "published_first outbox'" "sorted_wrt (<) (map oe_ID rows)" "length rows \<le> length ids"
    "\<And>row p. row \<in> set rows \<Longrightarrow> p \<in> set outbox \<Longrightarrow> oe_PublishedAt p \<noteq> None \<Longrightarrow> oe_ID p < oe_ID row"
proof -
  have dist: "distinct (map oe_ID outbox')" using out(1) by (simp add: out' comp_def)
  then have "distinct (map oe_ID rows)" by (simp add: rows distinct_map inj_on_def)
  then show sorted: "sorted_wrt (<) (map oe_ID rows)" by (simp add: rows strict_sorted_iff)
  have "length rows = card (set (map oe_ID rows))" using \<open>distinct (map oe_ID rows)\<close> by (metis distinct_card length_map)
  also have "\<dots> \<le> card (set ids)" by (rule card_mono) (auto simp: rows)
  also have "\<dots> \<le> length ids" by (rule card_length)
  finally show "length rows \<le> length ids" .
  have new: "oe_ID p < i" if "i \<in> set ids" "p \<in> set outbox" "oe_PublishedAt p \<noteq> None" for i p
    using claimed_unpublished [of i publishBatch "\<lambda>_. False" outbox] that out(2) unfolding ids published_first_def by blast
  then show "oe_ID p < oe_ID row" if "row \<in> set rows" "p \<in> set outbox" "oe_PublishedAt p \<noteq> None" for row p
    using that by (simp add: rows)
  show "published_first outbox'"
    unfolding published_first_def
  proof (intro ballI impI)
    fix p u assume pu: "p \<in> set outbox'" "u \<in> set outbox'" "oe_PublishedAt p \<noteq> None" "oe_PublishedAt u = None"
    then obtain p0 u0 where o: "p0 \<in> set outbox" "u0 \<in> set outbox" "p = mark_published now ids p0" "u = mark_published now ids u0"
      by (auto simp: out')
    have "oe_PublishedAt p0 \<noteq> None \<or> oe_ID p0 \<in> set ids" using pu(3) unfolding o(3) mark_published_facts by (simp only: de_Morgan_conj not_not)
    moreover have "oe_PublishedAt u0 = None \<and> oe_ID u0 \<notin> set ids" using pu(4) unfolding o(4) mark_published_facts .
    ultimately show "oe_ID p < oe_ID u"
      using o out(2) claimed_first [OF out(1), of "oe_ID p0" publishBatch u0] unfolding ids published_first_def by auto
  qed
qed

text \<open>The same batch, seen from the channel.\<close>

lemma complete_publishes:
  assumes sound: "stream_sound s" and "stream_complete s"
    and dr: "drain up now held visit (ss_outbox s) (ss_broker s) = (outbox, b)" and vis: "\<And>rows. set (visit rows) = set rows"
    and ord: "\<forall>i. \<not> held i" "visit = sort_key oe_ID"
      "length (waiting (sm_chan (ss_stream s)) (ss_broker s)) + length (claimed_ids publishBatch held (ss_outbox s)) \<le> channel_size"
  shows "stream_complete (s\<lparr>ss_outbox := outbox, ss_broker := b\<rparr>)"
proof -
  let ?st = "ss_stream s"
  from assms(2) obtain buf where pf: "published_first (ss_outbox s)" and
    buf: "entry (sm_chan ?st) (ss_broker s) = Some (sm_chan ?st, sm_team ?st, buf)" "sorted_wrt (<) (map ev_Sequence buf)" and
    acc: "\<And>row. due_event s row \<Longrightarrow> accounted ?st buf (toEvent row)"
    by (auto simp: stream_complete_def)
  from sound obtain buf' where so: "distinct (map oe_ID (ss_outbox s))" "written_in_order ?st" "\<not> sm_live ?st \<longrightarrow> sm_written ?st = []"
    "entry (sm_chan ?st) (ss_broker s) = Some (sm_chan ?st, sm_team ?st, buf')"
    "\<forall>ev. ev \<in> set (sm_written ?st) \<or> ev \<in> set buf' \<longrightarrow> real_event (sm_team ?st) (ss_outbox s) ev"
    by (rule stream_soundE)
  have [simp]: "buf' = buf" using so(4) buf(1) by simp
  have held: "held = (\<lambda>_. False)" using ord(1) by auto
  obtain ids rows where d: "outbox = map (mark_published now ids) (ss_outbox s)" "set rows = {e \<in> set outbox. oe_ID e \<in> set ids}"
    "entry (sm_chan ?st) b = Some (sm_chan ?st, sm_team ?st, channel_after (sm_team ?st) rows buf)"
    "up \<longrightarrow> ids = claimed_ids publishBatch held (ss_outbox s)" "\<not> up \<longrightarrow> ids = []"
    "up \<longrightarrow> rows = visit (filter (\<lambda>e. oe_ID e \<in> set ids) outbox)"
    by (rule drained [OF dr vis buf(1)])
  show ?thesis
  proof (cases up)
    case False
    have "mark_published now [] = id" by (auto simp: mark_published_def)
    moreover have "rows = []" using d(2,5) False by simp
    ultimately have "outbox = ss_outbox s" "channel_after (sm_team ?st) rows buf = buf" using d(1,5) False by (simp_all add: channel_after_def)
    then show ?thesis using pf buf(2) d(3) acc by (auto simp: stream_complete_def due_event_def)
  next
    case True
    note ids = d(4) [rule_format, OF True, unfolded held] and rows = d(6) [rule_format, OF True, unfolded ord(2)]
    note batch = orderly_batch [OF so(1) pf ids d(1) rows]
    have "length buf + length rows \<le> channel_size"
      using ord(3) batch(3) by (simp add: waiting_def buf(1) ids held)
    then have ch: "channel_after (sm_team ?st) rows buf = buf @ map toEvent (filter (belongs (sm_team ?st)) rows)"
      by (rule channel_after_room)
    have old: "ev_Sequence ev < oe_ID row" if "ev \<in> set (sm_written ?st) \<or> ev \<in> set buf" "row \<in> set rows" for ev row
      using real_event_published [OF so(5) [rule_format, of ev]] that batch(4) [OF that(2)] by force
    have sorted: "sorted_wrt (<) (map ev_Sequence (buf @ map toEvent (filter (belongs (sm_team ?st)) rows)))"
      using buf(2) old batch(2) sorted_wrt_filter by (auto simp: sorted_wrt_append sorted_wrt_map comp_def)
    have "accounted ?st (buf @ map toEvent (filter (belongs (sm_team ?st)) rows)) (toEvent row)"
      if due: "due_event (s\<lparr>ss_outbox := outbox, ss_broker := b\<rparr>) row" for row
    proof -
      from due obtain r0 where r0: "r0 \<in> set (ss_outbox s)" "row = mark_published now ids r0" by (auto simp: due_event_def d(1))
      show ?thesis
      proof (cases "oe_PublishedAt r0 = None")
        case True
        then have "oe_ID r0 \<in> set ids" using due r0(2) by (auto simp: due_event_def mark_published_def split: if_splits)
        then have row: "row \<in> set rows" using due r0(2) d(2) by (auto simp: due_event_def)
        moreover have "belongs (sm_team ?st) row" using due by (simp add: due_event_def belongs_def uuid_string_def)
        ultimately have "toEvent row \<in> set (map toEvent (filter (belongs (sm_team ?st)) rows))" by simp
        moreover have "sm_last ?st < oe_ID row" using written_last [OF so(2)] old [OF _ row] due by (auto simp: due_event_def)
        ultimately show ?thesis by (simp add: accounted_def)
      next
        case False
        then have "due_event s r0" using due r0 by (auto simp: due_event_def)
        from acc [OF this] show ?thesis by (auto simp: accounted_def r0(2) split: if_splits)
      qed
    qed
    with batch(1) d(3) sorted show ?thesis by (auto simp: stream_complete_def ch)
  qed
qed

lemma accounted_receives:
  assumes "accounted st (ev # buf) e" "sorted_wrt (<) (map ev_Sequence (ev # buf))" "sm_live st"
  shows "accounted (stream_receives ev st) buf e"
  using assms by (auto simp: accounted_def stream_receives_def)

lemma stream_run_complete: "stream_run True s \<Longrightarrow> stream_complete s"
proof (induction rule: stream_run.induct)
  case (opens outbox c b team lastEventID)
  then show ?case
    by (auto simp: stream_complete_def stream_opens_def Let_def entry_subscribed due_event_def accounted_def published_ids_def)
next
  case (commits s e)
  then show ?case by (fastforce simp: stream_complete_def published_first_def due_event_def)
next
  case (publishes s up now held visit outbox b)
  then show ?case using stream_run_sound by (intro complete_publishes) auto
next
  case (comes s c team)
  then show ?case by (auto simp: stream_complete_def due_event_def intro: entry_Subscribe)
next
  case (goes s c)
  then show ?case by (auto simp: stream_complete_def due_event_def entry_Unsubscribe)
next
  case (reads s c ev b)
  then show ?case using entry_take(1) [OF reads.hyps(3)] by (fastforce simp: stream_complete_def due_event_def)
next
  case (replays s up)
  let ?st = "ss_stream s"
  from stream_run_sound [OF replays.hyps(1)] obtain buf where so: "distinct (map oe_ID (ss_outbox s))" "written_in_order ?st"
    "\<not> sm_live ?st \<longrightarrow> sm_written ?st = []" "entry (sm_chan ?st) (ss_broker s) = Some (sm_chan ?st, sm_team ?st, buf)"
    "\<forall>ev. ev \<in> set (sm_written ?st) \<or> ev \<in> set buf \<longrightarrow> real_event (sm_team ?st) (ss_outbox s) ev"
    by (rule stream_soundE)
  note none = so(3) [rule_format, OF replays.hyps(2)]
  have lst: "sm_last ?st = sm_from ?st" using so(2) none by (simp add: written_in_order_def)
  from so(2) none so(1) obtain rows where r: "sm_written (stream_replays up (ss_outbox s) ?st) = map toEvent rows"
    "sm_from (stream_replays up (ss_outbox s) ?st) = sm_from ?st" "sm_team (stream_replays up (ss_outbox s) ?st) = sm_team ?st"
    "sm_chan (stream_replays up (ss_outbox s) ?st) = sm_chan ?st" "sm_live (stream_replays up (ss_outbox s) ?st)"
    "sm_from ?st > 0 \<Longrightarrow> rows = missed_rows (sm_team ?st) (sm_from ?st) (ss_outbox s)"
    by (rule replayed [of ?st "ss_outbox s" up]) (use replays.hyps(3) lst in auto)
  have keep: "sm_last (stream_replays up (ss_outbox s) ?st) = sm_last ?st" if "sm_from ?st \<le> 0"
    using that lst by (simp add: stream_replays_def)
  have "accounted (stream_replays up (ss_outbox s) ?st) buf' (toEvent row)"
    if "due_event s row" "accounted ?st buf' (toEvent row)" for row buf'
  proof (cases "sm_from ?st > 0")
    case True
    have "row \<in> set rows" using that(1) r(6) [OF True] missed_rows_facts(2) [OF so(1)] by (auto simp: due_event_def)
    then show ?thesis using r(1,5) by (simp add: accounted_def)
  next
    case False
    then show ?thesis using that keep lst r(5) replays.hyps(2) by (auto simp: accounted_def due_event_def)
  qed
  then show ?case using replays.IH r(2-4) by (auto simp: stream_complete_def due_event_def)
next
  case (receives s ev b)
  let ?st = "ss_stream s"
  from receives.IH obtain buf where pf: "published_first (ss_outbox s)" and
    buf: "entry (sm_chan ?st) (ss_broker s) = Some (sm_chan ?st, sm_team ?st, buf)" "sorted_wrt (<) (map ev_Sequence buf)" and
    acc: "\<And>row. due_event s row \<Longrightarrow> accounted ?st buf (toEvent row)"
    by (auto simp: stream_complete_def)
  note t = entry_take(2) [OF receives.hyps(3) buf(1)]
  have frame: "sm_chan (stream_receives ev ?st) = sm_chan ?st" "sm_team (stream_receives ev ?st) = sm_team ?st" "sm_from (stream_receives ev ?st) = sm_from ?st"
    by (simp_all add: stream_receives_def)
  have "accounted (stream_receives ev ?st) (tl buf) (toEvent row)" if "due_event s row" for row
    using acc [OF that] buf(2) t receives.hyps(2) by (intro accounted_receives) auto
  moreover have "sorted_wrt (<) (map ev_Sequence (tl buf))" using buf(2) t by (metis list.map(2) sorted_wrt.simps(2))
  ultimately show ?case using pf t by (auto simp: stream_complete_def due_event_def frame)
qed simp

text \<open>C3: What a stream writes.  In every run it writes published events of its team only, behind the identifier its client
  sent, in ascending order and so none twice.  When events commit and are published in the order of their
  identifiers by its own process, its channel always has room and the replay is read and within its limit, a stream that has
  replayed has written every published event of its team that its client has not seen, or holds it in its channel behind
  everything written so far.\<close>

theorem event_stream:
  assumes "stream_run orderly s"
  shows "sorted_wrt (<) (map ev_Sequence (sm_written (ss_stream s))) \<and>
    (\<forall>ev \<in> set (sm_written (ss_stream s)). sm_from (ss_stream s) < ev_Sequence ev \<and>
       (\<exists>row \<in> set (ss_outbox s). ev = toEvent row \<and> uuid_string (oe_TeamUuid row) = sm_team (ss_stream s) \<and> oe_PublishedAt row \<noteq> None)) \<and>
    (orderly \<longrightarrow> sm_live (ss_stream s) \<longrightarrow>
       (\<forall>row \<in> set (ss_outbox s). oe_TeamUuid row = Some (sm_team (ss_stream s)) \<longrightarrow> oe_PublishedAt row \<noteq> None \<longrightarrow>
          sm_from (ss_stream s) < oe_ID row \<longrightarrow> (sm_from (ss_stream s) > 0 \<or> oe_ID row \<notin> set (ss_before s)) \<longrightarrow>
          toEvent row \<in> set (sm_written (ss_stream s)) \<or>
          (toEvent row \<in> set (waiting (sm_chan (ss_stream s)) (ss_broker s)) \<and> sm_last (ss_stream s) < oe_ID row)))"
proof -
  let ?st = "ss_stream s"
  have order: "sorted_wrt (<) (sm_from ?st # map ev_Sequence (sm_written ?st))"
    and real: "\<forall>ev \<in> set (sm_written ?st). real_event (sm_team ?st) (ss_outbox s) ev"
    using stream_run_sound [OF assms] by (auto simp: stream_sound_def written_in_order_def Let_def)
  have complete: "accounted ?st (waiting (sm_chan ?st) (ss_broker s)) (toEvent row)" if orderly "due_event s row" for row
    using stream_run_complete [of s] assms that by (auto simp: stream_complete_def waiting_def)
  have "toEvent row \<in> set (sm_written ?st) \<or> (toEvent row \<in> set (waiting (sm_chan ?st) (ss_broker s)) \<and> sm_last ?st < oe_ID row)"
    if "orderly" "sm_live ?st" "row \<in> set (ss_outbox s)" "oe_TeamUuid row = Some (sm_team ?st)" "oe_PublishedAt row \<noteq> None"
      "sm_from ?st < oe_ID row" "sm_from ?st > 0 \<or> oe_ID row \<notin> set (ss_before s)" for row
    using complete [OF that(1), of row] that(2-7) by (simp add: due_event_def accounted_def)
  with order real show ?thesis unfolding real_event_def belongs_def by (intro conjI) (simp_all, blast?)
qed

section \<open>Samples\<close>

definition sample_row :: "int \<Rightarrow> int option \<Rightarrow> OutboxEvent" where
  "sample_row i pub = \<lparr>oe_ID = i, oe_EventType = ''e'', oe_OccurredAt = 0, oe_TeamUuid = Some ''t'', oe_ResourceUuid = None, oe_Payload = [],
     oe_PublishedAt = pub, oe_PublishAttempts = 0\<rparr>"

definition sample_stream :: stream_state where
  "sample_stream = \<lparr>ss_outbox = [sample_row 7 (Some 0)], ss_broker = Subscribe 1 ''t'' [], ss_stream = stream_opens ''t'' 1 (Some ''3''),
     ss_before = published_ids [sample_row 7 (Some 0)]\<rparr>"

theorem event_stream_witness:
  "map ev_Sequence (sm_written (ss_stream (sample_stream\<lparr>ss_stream := stream_replays True (ss_outbox sample_stream) (ss_stream sample_stream)\<rparr>))) = [7] \<and>
   sorted_wrt (<) (map ev_Sequence (sm_written (ss_stream (sample_stream\<lparr>ss_stream := stream_replays True (ss_outbox sample_stream) (ss_stream sample_stream)\<rparr>))))"
proof -
  have o: "stream_run True sample_stream"
    unfolding sample_stream_def by (rule opens) (simp_all add: sample_row_def published_first_def entry_def)
  have "length (missed_rows (sm_team (ss_stream sample_stream)) (sm_last (ss_stream sample_stream)) (ss_outbox sample_stream)) \<le> replayLimit"
    "\<not> sm_live (ss_stream sample_stream)"
    by code_simp+
  then have r: "stream_run True (sample_stream\<lparr>ss_stream := stream_replays True (ss_outbox sample_stream) (ss_stream sample_stream)\<rparr>)"
    using replays [OF o, of True] by simp
  have w: "map ev_Sequence (sm_written (ss_stream (sample_stream\<lparr>ss_stream := stream_replays True (ss_outbox sample_stream) (ss_stream sample_stream)\<rparr>))) = [7]"
    by code_simp
  show ?thesis using event_stream [OF r] w by simp
qed

text \<open>A channel that is full loses the event, not the subscriber.  The stream goes on, and the identifiers it writes later tell
  its client that nothing is missing: no replay from there returns the event.\<close>

definition receive_one :: "stream_state \<Rightarrow> stream_state" where
  "receive_one s =
     (case take_event (sm_chan (ss_stream s)) (ss_broker s) of
        None \<Rightarrow> s
      | Some (ev, b) \<Rightarrow> s\<lparr>ss_broker := b, ss_stream := stream_receives ev (ss_stream s)\<rparr>)"

lemma receive_one_run:
  assumes "stream_run orderly s \<and> sm_live (ss_stream s)"
  shows "stream_run orderly (receive_one s) \<and> sm_live (ss_stream (receive_one s))"
proof (cases "take_event (sm_chan (ss_stream s)) (ss_broker s)")
  case (Some x)
  obtain ev b where x: "x = (ev, b)" by (cases x)
  from assms Some show ?thesis using receives [of orderly s ev b] by (simp add: receive_one_def x stream_receives_def)
qed (use assms in \<open>simp add: receive_one_def\<close>)

lemma receive_many_run:
  "stream_run orderly s \<and> sm_live (ss_stream s) \<Longrightarrow> stream_run orderly ((receive_one ^^ n) s) \<and> sm_live (ss_stream ((receive_one ^^ n) s))"
  by (induction n) (use receive_one_run in auto)

text \<open>A stream that is alone reads its whole channel.\<close>

lemma receive_all:
  assumes "ss_broker s = [(c, t, buf)]" "sm_chan (ss_stream s) = c" "sorted_wrt (<) (sm_last (ss_stream s) # map ev_Sequence buf)"
  defines "s' \<equiv> (receive_one ^^ length buf) s"
  shows "ss_broker s' = [(c, t, [])] \<and> sm_written (ss_stream s') = sm_written (ss_stream s) @ buf \<and> ss_outbox s' = ss_outbox s \<and>
    sm_chan (ss_stream s') = c \<and> sm_last (ss_stream s') = last (sm_last (ss_stream s) # map ev_Sequence buf)"
  using assms(1-3) unfolding s'_def
proof (induction buf arbitrary: s)
  case (Cons ev buf)
  have "receive_one s = s\<lparr>ss_broker := [(c, t, buf)], ss_stream := write_event ev (ss_stream s)\<rparr>"
    using Cons.prems by (simp add: receive_one_def take_event_def stream_receives_def)
  with Cons.IH [of "receive_one s"] Cons.prems show ?case by (simp add: funpow_swap1)
qed simp

definition burst :: stream_state where
  "burst = (let outbox = map (\<lambda>i. sample_row i None) [1..33]
     in \<lparr>ss_outbox = outbox, ss_broker = Subscribe 1 ''t'' [], ss_stream = stream_replays True outbox (stream_opens ''t'' 1 None), ss_before = []\<rparr>)"

definition publish_now :: "stream_state \<Rightarrow> stream_state" where
  "publish_now s = (case drain True 0 (\<lambda>_. False) (sort_key oe_ID) (ss_outbox s) (ss_broker s) of
     (outbox, b) \<Rightarrow> s\<lparr>ss_outbox := outbox, ss_broker := b\<rparr>)"

lemma publish_now_run: "stream_run False s \<Longrightarrow> stream_run False (publish_now s)"
  unfolding publish_now_def by (auto intro!: publishes split: prod.split)

definition after_burst :: stream_state where
  "after_burst =
     (let s = (receive_one ^^ 32) (publish_now burst)
      in receive_one (publish_now (s\<lparr>ss_outbox := ss_outbox s @ [sample_row 34 None]\<rparr>)))"

lemma burst_run: "stream_run False burst \<and> sm_live (ss_stream burst)"
proof -
  let ?outbox = "map (\<lambda>i. sample_row i None) [1..33]"
  let ?s = "\<lparr>ss_outbox = ?outbox, ss_broker = Subscribe 1 ''t'' [], ss_stream = stream_opens ''t'' 1 None, ss_before = published_ids ?outbox\<rparr>"
  have "distinct (map oe_ID ?outbox)" by code_simp
  then have o: "stream_run False ?s" by (rule opens) (simp_all add: entry_def)
  have "stream_run False (?s\<lparr>ss_stream := stream_replays True (ss_outbox ?s) (ss_stream ?s)\<rparr>)"
    by (rule replays [OF o]) (simp_all add: stream_opens_def)
  moreover have "published_ids ?outbox = []" by (simp add: published_ids_def sample_row_def)
  ultimately show ?thesis by (simp add: burst_def Let_def stream_replays_def)
qed

lemma publish_frame [simp]:
  "ss_stream (publish_now s) = ss_stream s"
  by (simp add: publish_now_def split: prod.split)

definition burst_outbox :: "OutboxEvent list" where
  "burst_outbox = map (\<lambda>i. (sample_row i (Some 0))\<lparr>oe_PublishAttempts := 1\<rparr>) [1..33]"

lemma burst_published:
  "ss_broker (publish_now burst) = [(1, ''t'', map (\<lambda>i. toEvent (sample_row i None)) [1..32])]"
  "ss_outbox (publish_now burst) = burst_outbox"
  by code_simp+

lemma burst_received:
  defines "s \<equiv> (receive_one ^^ 32) (publish_now burst)"
  shows "ss_broker s = [(1, ''t'', [])] \<and> map ev_Sequence (sm_written (ss_stream s)) = [1..32] \<and> ss_outbox s = burst_outbox \<and>
    sm_chan (ss_stream s) = 1 \<and> sm_last (ss_stream s) = 32"
proof -
  let ?buf = "map (\<lambda>i. toEvent (sample_row i None)) [1..32]"
  have n: "length ?buf = 32" by simp
  have st: "sm_chan (ss_stream (publish_now burst)) = 1" "sm_written (ss_stream (publish_now burst)) = []" "sm_last (ss_stream (publish_now burst)) = 0"
    unfolding publish_frame by code_simp+
  have seq: "map ev_Sequence ?buf = [1..32]" by code_simp
  have "sorted_wrt (<) (0 # [1..32::int])" by code_simp
  then have "sorted_wrt (<) (sm_last (ss_stream (publish_now burst)) # map ev_Sequence ?buf)" by (simp only: st seq)
  from receive_all [OF burst_published(1) st(1) this, unfolded n]
  have "ss_broker s = [(1, ''t'', [])] \<and> sm_written (ss_stream s) = ?buf \<and> ss_outbox s = burst_outbox \<and>
    sm_chan (ss_stream s) = 1 \<and> sm_last (ss_stream s) = last (0 # [1..32])"
    by (simp only: s_def st seq burst_published(2) append_Nil)
  moreover have "last (0 # [1..32::int]) = 32" by code_simp
  ultimately show ?thesis using seq by (simp only: simp_thms)
qed

lemma after_burst_drain:
  "drain True 0 (\<lambda>_. False) (sort_key oe_ID) (burst_outbox @ [sample_row 34 None]) [(1, ''t'', [])] =
     (burst_outbox @ [(sample_row 34 (Some 0))\<lparr>oe_PublishAttempts := 1\<rparr>], [(1, ''t'', [toEvent (sample_row 34 None)])])"
  "missed_rows ''t'' 34 (burst_outbox @ [(sample_row 34 (Some 0))\<lparr>oe_PublishAttempts := 1\<rparr>]) = []"
  "oe_ID (sample_row 34 None) \<notin> oe_ID ` set burst_outbox"
  by code_simp+

theorem full_channel_loses_event:
  "stream_run False after_burst \<and> map ev_Sequence (sm_written (ss_stream after_burst)) = [1..32] @ [34] \<and>
   waiting 1 (ss_broker after_burst) = [] \<and> missed_rows ''t'' (sm_last (ss_stream after_burst)) (ss_outbox after_burst) = []"
proof -
  define s where "s = (receive_one ^^ 32) (publish_now burst)"
  define s' where "s' = s\<lparr>ss_outbox := ss_outbox s @ [sample_row 34 None]\<rparr>"
  have s: "ss_broker s = [(1, ''t'', [])]" "map ev_Sequence (sm_written (ss_stream s)) = [1..32]" "ss_outbox s = burst_outbox"
    "sm_chan (ss_stream s) = 1" "sm_last (ss_stream s) = 32"
    using burst_received unfolding s_def by (simp_all only: simp_thms)
  have run: "stream_run False s \<and> sm_live (ss_stream s)"
    unfolding s_def using burst_run publish_now_run [of burst] by (intro receive_many_run) (simp only: publish_frame simp_thms)
  have "stream_run False s'"
    unfolding s'_def using run s(3) after_burst_drain(3) by (intro commits) (simp_all add: sample_row_def)
  then have run': "stream_run False (publish_now s') \<and> sm_live (ss_stream (publish_now s'))"
    using run publish_now_run [of s'] by (simp add: s'_def)
  have p: "publish_now s' = s'\<lparr>ss_outbox := burst_outbox @ [(sample_row 34 (Some 0))\<lparr>oe_PublishAttempts := 1\<rparr>],
      ss_broker := [(1, ''t'', [toEvent (sample_row 34 None)])]\<rparr>"
    using after_burst_drain(1) s(1,3) by (simp add: publish_now_def s'_def)
  have a: "after_burst = receive_one (publish_now s')" unfolding after_burst_def s'_def s_def Let_def ..
  have "receive_one (publish_now s') = (publish_now s')\<lparr>ss_broker := [(1, ''t'', [])], ss_stream := write_event (toEvent (sample_row 34 None)) (ss_stream s)\<rparr>"
    unfolding p using s(4,5) by (simp add: receive_one_def take_event_def stream_receives_def s'_def sample_row_def)
  then have e: "ss_broker after_burst = [(1, ''t'', [])]" "ss_stream after_burst = write_event (toEvent (sample_row 34 None)) (ss_stream s)"
    "ss_outbox after_burst = burst_outbox @ [(sample_row 34 (Some 0))\<lparr>oe_PublishAttempts := 1\<rparr>]"
    by (simp_all add: a p)
  have w: "sm_written (write_event ev st) = sm_written st @ [ev]" "sm_last (write_event ev st) = ev_Sequence ev" for ev st
    by (simp_all add: write_event_def)
  have f: "ev_Sequence (toEvent (sample_row 34 None)) = 34" by (simp add: toEvent_def sample_row_def)
  have "map ev_Sequence (sm_written (ss_stream after_burst)) = [1..32] @ [34]" "sm_last (ss_stream after_burst) = 34"
    using s(2) by (simp_all only: e w f map_append list.map)
  moreover have "waiting 1 (ss_broker after_burst) = []" by (simp add: e waiting_def entry_def)
  moreover have "stream_run False after_burst" using receive_one_run [OF run'] by (simp add: a)
  ultimately show ?thesis by (simp only: e(3) after_burst_drain(2) simp_thms)
qed

end
