(* ===== verification/Effects.thy ===== *)
theory Effects
  imports Prelude
begin

text \<open>
  Programs that act on the outside one call at a time, and that may be cut off between any two calls.  A program yields a
  value, an error, or dies; an error can be caught, a death cannot.  Triples relate the state before a
  program to the state after each of the three ends, and \<open>keeps\<close> is the triple of an invariant.  The rules of the collection
  \<open>keeping\<close> reduce an invariant of a program to its calls.
\<close>

section \<open>Programs\<close>

datatype ('e, 'a) ending = Returns 'a | Raises 'e | Dead

type_synonym ('w, 'e, 'a) program = "'w \<Rightarrow> ('e, 'a) ending \<times> 'w"

definition ret :: "'a \<Rightarrow> ('w, 'e, 'a) program" where
  "ret x w = (Returns x, w)"

definition raise :: "'e \<Rightarrow> ('w, 'e, 'a) program" where
  "raise e w = (Raises e, w)"

definition bnd :: "('w, 'e, 'a) program \<Rightarrow> ('a \<Rightarrow> ('w, 'e, 'b) program) \<Rightarrow> ('w, 'e, 'b) program" where
  "bnd m k w =
     (case m w of (Returns x, w') \<Rightarrow> k x w' | (Raises e, w') \<Rightarrow> (Raises e, w') | (Dead, w') \<Rightarrow> (Dead, w'))"

definition attempt :: "('w, 'e, 'a) program \<Rightarrow> ('w, 'e, 'e + 'a) program" where
  "attempt m w =
     (case m w of (Returns x, w') \<Rightarrow> (Returns (Inr x), w') | (Raises e, w') \<Rightarrow> (Returns (Inl e), w') | (Dead, w') \<Rightarrow> (Dead, w'))"

abbreviation seq :: "('w, 'e, 'a) program \<Rightarrow> ('w, 'e, 'b) program \<Rightarrow> ('w, 'e, 'b) program" where
  "seq m k \<equiv> bnd m (\<lambda>_. k)"

lemma bnd_assoc: "bnd (bnd m k) l = bnd m (\<lambda>x. bnd (k x) l)"
  by (auto simp: fun_eq_iff bnd_def split: prod.splits ending.splits)

text \<open>A call whose error is ignored.\<close>

definition quietly :: "('w, 'e, 'a) program \<Rightarrow> ('w, 'e, unit) program" where
  "quietly m = seq (attempt m) (ret ())"

section \<open>Triples\<close>

definition triple ::
  "('w \<Rightarrow> bool) \<Rightarrow> ('w, 'e, 'a) program \<Rightarrow> ('a \<Rightarrow> 'w \<Rightarrow> bool) \<Rightarrow> ('e \<Rightarrow> 'w \<Rightarrow> bool) \<Rightarrow> ('w \<Rightarrow> bool) \<Rightarrow> bool" where
  "triple P m Q E D \<longleftrightarrow>
     (\<forall>w. P w \<longrightarrow> (case m w of (Returns x, w') \<Rightarrow> Q x w' | (Raises e, w') \<Rightarrow> E e w' | (Dead, w') \<Rightarrow> D w'))"

abbreviation keeps :: "('w \<Rightarrow> bool) \<Rightarrow> ('w, 'e, 'a) program \<Rightarrow> bool" where
  "keeps P m \<equiv> triple P m (\<lambda>_. P) (\<lambda>_. P) P"

named_theorems keeping

lemma triple_weaken:
  assumes "triple P m Q E D" "\<And>w. P' w \<Longrightarrow> P w" "\<And>x w. Q x w \<Longrightarrow> Q' x w" "\<And>e w. E e w \<Longrightarrow> E' e w" "\<And>w. D w \<Longrightarrow> D' w"
  shows "triple P' m Q' E' D'"
  using assms unfolding triple_def by (fastforce split: prod.splits ending.splits)

lemma triple_ret: "(\<And>w. P w \<Longrightarrow> Q x w) \<Longrightarrow> triple P (ret x) Q E D"
  by (simp add: triple_def ret_def)

lemma triple_raise: "(\<And>w. P w \<Longrightarrow> E e w) \<Longrightarrow> triple P (raise e) Q E D"
  by (simp add: triple_def raise_def)

lemma triple_bnd:
  assumes "triple P m R E D" "\<And>x. triple (R x) (k x) Q E D"
  shows "triple P (bnd m k) Q E D"
  using assms unfolding triple_def bnd_def by (fastforce split: prod.splits ending.splits)

lemma triple_attempt: "triple P m (\<lambda>x. Q (Inr x)) (\<lambda>e. Q (Inl e)) D \<Longrightarrow> triple P (attempt m) Q E D"
  unfolding triple_def attempt_def by (fastforce split: prod.splits ending.splits)

lemma triple_quietly: "triple P m (\<lambda>_. Q) (\<lambda>_. Q) D \<Longrightarrow> triple P (quietly m) (\<lambda>_. Q) E D"
  unfolding quietly_def by (intro triple_bnd [OF triple_attempt] triple_ret) auto

lemma triple_if: "(b \<Longrightarrow> triple P m Q E D) \<Longrightarrow> (\<not> b \<Longrightarrow> triple P n Q E D) \<Longrightarrow> triple P (if b then m else n) Q E D"
  by simp

lemma triple_sum:
  "(\<And>e. r = Inl e \<Longrightarrow> triple P (f e) Q E D) \<Longrightarrow> (\<And>x. r = Inr x \<Longrightarrow> triple P (g x) Q E D) \<Longrightarrow>
    triple P (case r of Inl e \<Rightarrow> f e | Inr x \<Rightarrow> g x) Q E D"
  by (cases r) simp_all

lemma triple_option:
  "(r = None \<Longrightarrow> triple P f Q E D) \<Longrightarrow> (\<And>x. r = Some x \<Longrightarrow> triple P (g x) Q E D) \<Longrightarrow>
    triple P (case r of None \<Rightarrow> f | Some x \<Rightarrow> g x) Q E D"
  by (cases r) simp_all

lemma triple_pre: "(\<And>w. P w \<Longrightarrow> triple (\<lambda>v. v = w) m Q E D) \<Longrightarrow> triple P m Q E D"
  by (simp add: triple_def)

lemma triple_const: "(b \<Longrightarrow> triple P m Q E D) \<Longrightarrow> triple (\<lambda>w. b \<and> P w) m Q E D"
  by (auto simp: triple_def)

lemma triple_conj:
  "triple P m Q E D \<Longrightarrow> triple P' m Q' E' D' \<Longrightarrow>
    triple (\<lambda>w. P w \<and> P' w) m (\<lambda>x w. Q x w \<and> Q' x w) (\<lambda>e w. E e w \<and> E' e w) (\<lambda>w. D w \<and> D' w)"
  unfolding triple_def by (fastforce split: prod.splits ending.splits)

lemma keeps_ret [keeping]: "keeps P (ret x)"
  by (simp add: triple_ret)

lemma keeps_raise [keeping]: "keeps P (raise e)"
  by (simp add: triple_raise)

lemma keeps_bnd [keeping]: "keeps P m \<Longrightarrow> (\<And>x. keeps P (k x)) \<Longrightarrow> keeps P (bnd m k)"
  by (rule triple_bnd)

lemma keeps_attempt [keeping]: "keeps P m \<Longrightarrow> keeps P (attempt m)"
  by (rule triple_attempt)

lemma keeps_quietly [keeping]: "keeps P m \<Longrightarrow> keeps P (quietly m)"
  by (rule triple_quietly)

lemmas keeps_cases [keeping] = triple_if [where P = P and Q = "\<lambda>_. P" and E = "\<lambda>_. P" and D = P for P]
  triple_sum [where P = P and Q = "\<lambda>_. P" and E = "\<lambda>_. P" and D = P for P]
  triple_option [where P = P and Q = "\<lambda>_. P" and E = "\<lambda>_. P" and D = P for P]

text \<open>Reading a triple at one run.\<close>

lemma tripleE:
  assumes "triple P m Q E D" "P w"
  obtains x w' where "m w = (Returns x, w')" "Q x w'" | e w' where "m w = (Raises e, w')" "E e w'" | w' where "m w = (Dead, w')" "D w'"
  using assms unfolding triple_def by (cases "m w"; cases "fst (m w)") (auto split: ending.splits)

end
