(* ===== verification/Deploy.thy ===== *)
theory Deploy
  imports Effects
begin

text \<open>
  The deployment job (\<^verbatim>\<open>src/internal/jobs/deploymentrun.go\<close>, \<^verbatim>\<open>proxyapply.go\<close>, \<^verbatim>\<open>dockersweep.go\<close>, the queries of
  \<^verbatim>\<open>src/internal/store/deployments.sql.go\<close> and \<^verbatim>\<open>proxy_revisions.sql.go\<close> it makes).  An attempt is a program over the deployment row and its steps, the containers of
  the server, the routing file and its revisions.  Every call to the outside meets its fate: it works, it is refused, it is
  carried out and its answer is lost, or the worker dies before it.  The container engine is a parameter, with the documented effects of its
  calls as the locale \<open>docker_engine\<close>; how images are built and routing files rendered are arguments of the run.
\<close>

section \<open>Rows\<close>

datatype DeploymentStatus =
    DeploymentStatusQueued | DeploymentStatusPreparing | DeploymentStatusCloning | DeploymentStatusBuilding | DeploymentStatusPushing
  | DeploymentStatusStarting | DeploymentStatusHealthchecking | DeploymentStatusSwitching | DeploymentStatusFinishing
  | DeploymentStatusSucceeded | DeploymentStatusFailed | DeploymentStatusCancelled | DeploymentStatusRetrying | DeploymentStatusSuperseded

datatype DeploymentStepStatus =
    DeploymentStepStatusPending | DeploymentStepStatusRunning | DeploymentStepStatusSucceeded | DeploymentStepStatusFailed
  | DeploymentStepStatusSkipped | DeploymentStepStatusCancelled

datatype BuildPack =
  BuildPackNixpacks | BuildPackRailpack | BuildPackStatic | BuildPackDockerfile | BuildPackCompose | BuildPackImage

datatype ProxyRevisionStatus =
  ProxyRevisionStatusGenerated | ProxyRevisionStatusApplied | ProxyRevisionStatusFailed | ProxyRevisionStatusRolledBack

datatype ArtifactKind = ArtifactKindLocalImage | ArtifactKindRegistryImage

datatype deploy_error =
    ErrCancelled | ErrStateChanged DeploymentStatus | ErrForkApproval | ErrOutside | ErrContainerNotFound | ErrNameConflict
  | ErrExitCode int | ErrUnhealthy | ErrNoAddress | ErrUnusable string string | ErrContextDone | ErrBuildPack | ErrMemoryLimit
  | ErrImageMissing | ErrStepTaken | ErrNotExposed | ErrNoRevision | ErrNoDockerfile | ErrNoPushRegistry | ErrNoDigest

text \<open>A missing name of an image is the empty text.\<close>

record Deployment =
  dp_ID :: int
  dp_Uuid :: string
  dp_Status :: DeploymentStatus
  dp_IsRollback :: bool
  dp_SkipBuild :: bool
  dp_ImageName :: string
  dp_ImageTag :: "string option"
  dp_ImageDigest :: "string option"
  dp_ErrorMessage :: "deploy_error option"

record DeploymentStep =
  ds_Seq :: int
  ds_Name :: string
  ds_Status :: DeploymentStepStatus
  ds_ExitCode :: "int option"

record ProxyConfigRevision =
  pr_ID :: int
  pr_Scope :: string
  pr_Content :: string
  pr_Status :: ProxyRevisionStatus

record DeploymentArtifact =
  da_ID :: int
  da_DeploymentID :: int
  da_Kind :: ArtifactKind
  da_ImageName :: string
  da_ImageTag :: "string option"
  da_ImageDigest :: "string option"

text \<open>The JSON of the column \<^verbatim>\<open>adoption\<close>, decoded; of a preview these columns are read.\<close>

record Pointer =
  po_ContainerName :: string
  po_ComposeProject :: string

record Preview =
  pv_Uuid :: string
  pv_IsFork :: bool
  pv_ForkApproved :: bool
  pv_Deployed :: bool

datatype deploy_event = DeploymentEvent DeploymentStatus | PreviewCreated | PreviewUpdated

section \<open>The container engine\<close>

text \<open>A container carries the label of its deployment and is up from its start until it is stopped.\<close>

record container =
  c_image :: string
  c_deployment :: string
  c_up :: bool

datatype docker_call =
    ContainerStop string | ContainerRemove string | ContainerCreate string container | ContainerStart string
  | ContainerRename string string

type_synonym boxes = "string \<rightharpoonup> container"

type_synonym engine = "docker_call \<Rightarrow> boxes \<Rightarrow> deploy_error option \<times> boxes"

locale docker_engine =
  fixes engine :: engine
  assumes stop_absent: "b n = None \<Longrightarrow> engine (ContainerStop n) b = (Some ErrContainerNotFound, b)"
    and stop_present: "b n = Some c \<Longrightarrow> engine (ContainerStop n) b = (None, b(n \<mapsto> c\<lparr>c_up := False\<rparr>))"
    and remove_absent: "b n = None \<Longrightarrow> engine (ContainerRemove n) b = (Some ErrContainerNotFound, b)"
    and remove_present: "b n = Some c \<Longrightarrow> engine (ContainerRemove n) b = (None, b(n := None))"
    and create_free: "b n = None \<Longrightarrow> engine (ContainerCreate n d) b = (None, b(n \<mapsto> d))"
    and create_taken: "b n = Some c \<Longrightarrow> engine (ContainerCreate n d) b = (Some ErrNameConflict, b)"
    and start_absent: "b n = None \<Longrightarrow> engine (ContainerStart n) b = (Some ErrContainerNotFound, b)"
    and start_present: "b n = Some c \<Longrightarrow> engine (ContainerStart n) b = (None, b(n \<mapsto> c\<lparr>c_up := True\<rparr>))"
    and rename_absent: "b n = None \<Longrightarrow> engine (ContainerRename n m) b = (Some ErrContainerNotFound, b)"
    and rename_taken: "b n = Some c \<Longrightarrow> b m \<noteq> None \<Longrightarrow> engine (ContainerRename n m) b = (Some ErrNameConflict, b)"
    and rename_free: "b n = Some c \<Longrightarrow> b m = None \<Longrightarrow> engine (ContainerRename n m) b = (None, b(n := None, m \<mapsto> c))"

text \<open>The laws leave no choice: this is the engine they describe.\<close>

fun docker_effect :: engine where
  "docker_effect (ContainerStop n) b =
     (case b n of None \<Rightarrow> (Some ErrContainerNotFound, b) | Some c \<Rightarrow> (None, b(n \<mapsto> c\<lparr>c_up := False\<rparr>)))"
| "docker_effect (ContainerRemove n) b =
     (case b n of None \<Rightarrow> (Some ErrContainerNotFound, b) | Some _ \<Rightarrow> (None, b(n := None)))"
| "docker_effect (ContainerCreate n d) b =
     (case b n of None \<Rightarrow> (None, b(n \<mapsto> d)) | Some _ \<Rightarrow> (Some ErrNameConflict, b))"
| "docker_effect (ContainerStart n) b =
     (case b n of None \<Rightarrow> (Some ErrContainerNotFound, b) | Some c \<Rightarrow> (None, b(n \<mapsto> c\<lparr>c_up := True\<rparr>)))"
| "docker_effect (ContainerRename n m) b =
     (case b n of
        None \<Rightarrow> (Some ErrContainerNotFound, b)
      | Some c \<Rightarrow> if b m \<noteq> None then (Some ErrNameConflict, b) else (None, b(n := None, m \<mapsto> c)))"

interpretation docker: docker_engine docker_effect
  by unfold_locales auto

context docker_engine
begin

lemma engine_effect: "engine c b = docker_effect c b"
  by (cases c)
    (auto simp: stop_absent stop_present remove_absent remove_present create_free create_taken start_absent start_present
      rename_absent rename_taken rename_free split: option.split)

end

section \<open>The outside of an attempt\<close>

text \<open>What a call meets: its fate; whether the job is to be cancelled; the answer to a question; the state, health and address of a
  container that is up; the services the proxy exposes; an exit code; the identifier and the registry digests of an image; and what a client has done to a queued deployment before it.\<close>

datatype fate_kind = Works | Refused | Lost | Dies

record fate =
  f_kind :: fate_kind
  f_cancel :: bool
  f_yes :: bool
  f_state :: string
  f_health :: "string option"
  f_address :: string
  f_services :: string
  f_code :: int
  f_image :: string
  f_digests :: "string list"
  f_newer :: "DeploymentStatus option"

text \<open>The artifacts are those of the application, or of the preview, on the server; \<open>w_succeeded\<close> says which of its other deployments succeeded, and
  \<open>w_reclaimed\<close> which images the engine was told to remove.  The fields from \<open>w_rt\<close> on are those of the run itself: the runtime once resolved, the numbering of
  steps, the image, its digest and the mode.\<close>

record world =
  w_engine :: engine
  w_fate :: "nat \<Rightarrow> fate"
  w_time :: nat
  w_boxes :: boxes
  w_calls :: "(docker_call \<times> fate_kind) list"
  w_row :: Deployment
  w_steps :: "DeploymentStep list"
  w_outbox :: "deploy_event list"
  w_revisions :: "ProxyConfigRevision list"
  w_file :: string
  w_adoption :: "Pointer option"
  w_desired :: string
  w_observed :: string
  w_preview :: string
  w_artifacts :: "DeploymentArtifact list"
  w_succeeded :: "int \<Rightarrow> bool"
  w_reclaimed :: "string list"
  w_rt :: bool
  w_seq :: int
  w_image :: "string \<times> string option"
  w_digest :: string
  w_rolling :: bool

type_synonym 'a act = "(world, deploy_error, 'a) program"

definition others :: "fate \<Rightarrow> world \<Rightarrow> world" where
  "others e w =
     (case f_newer e of
        Some s \<Rightarrow>
          if dp_Status (w_row w) = DeploymentStatusQueued \<and> (s = DeploymentStatusCancelled \<or> s = DeploymentStatusSuperseded)
          then w\<lparr>w_row := (w_row w)\<lparr>dp_Status := s\<rparr>\<rparr> else w
      | None \<Rightarrow> w)"

definition call :: "(fate \<Rightarrow> world \<Rightarrow> (deploy_error + 'a) \<times> world) \<Rightarrow> 'a act" where
  "call f w =
     (let e = w_fate w (w_time w); w1 = others e (w\<lparr>w_time := w_time w + 1\<rparr>) in
      case f_kind e of
        Dies \<Rightarrow> (Dead, w1)
      | Refused \<Rightarrow> (Raises ErrOutside, w1)
      | Lost \<Rightarrow> (Raises ErrOutside, snd (f e w1))
      | Works \<Rightarrow> (case f e w1 of (Inl x, w2) \<Rightarrow> (Raises x, w2) | (Inr v, w2) \<Rightarrow> (Returns v, w2)))"

definition ask :: "(fate \<Rightarrow> world \<Rightarrow> 'a) \<Rightarrow> 'a act" where
  "ask f = call (\<lambda>e w. (Inr (f e w), w))"

definition perform :: "(world \<Rightarrow> world) \<Rightarrow> unit act" where
  "perform f = call (\<lambda>_ w. (Inr (), f w))"

text \<open>The calls to the engine are logged with their fates.\<close>

definition logged :: "docker_call \<Rightarrow> world \<Rightarrow> world" where
  "logged c w = (let k = f_kind (w_fate w (w_time w)) in if k = Dies then w else w\<lparr>w_calls := w_calls w @ [(c, k)]\<rparr>)"

definition docker :: "docker_call \<Rightarrow> unit act" where
  "docker c w =
     call (\<lambda>_ w. case w_engine w c (w_boxes w) of
         (None, b) \<Rightarrow> (Inr (), w\<lparr>w_boxes := b\<rparr>)
       | (Some x, b) \<Rightarrow> (Inl x, w\<lparr>w_boxes := b\<rparr>)) (logged c w)"

definition here :: "(world \<Rightarrow> 'a \<times> world) \<Rightarrow> 'a act" where
  "here f w = (case f w of (x, w') \<Rightarrow> (Returns x, w'))"

section \<open>The run\<close>

text \<open>The rows an attempt reads are fields of the run; so are the outcomes of cloning and building a repository, of connecting to the build server and of
  rendering, and the numbers of polls that fit before the context ends, the health budget is used up and the proxy is given up.\<close>

record deploymentRun =
  r_d :: Deployment
  r_resource :: string
  r_preview :: "Preview option"
  r_adoption :: "Pointer option"
  r_BuildPack :: BuildPack
  r_UseBuildServer :: bool
  r_PreDeploymentCommand :: "string option"
  r_PostDeploymentCommand :: "string option"
  r_HealthCheck :: bool
  r_MemoryLimit :: bool
  r_Traefik :: bool
  r_ScaleToZero :: bool
  r_dialed :: "deploy_error + unit"
  r_Dockerfile :: "string option"
  r_git :: bool
  r_cloned :: "deploy_error + string"
  r_Registry :: "string option"
  r_Retention :: int
  r_composed :: "deploy_error + unit"
  r_content :: "string \<Rightarrow> deploy_error + string"
  r_waits :: nat
  r_polls :: nat
  r_verify :: nat

definition ParsePointer :: "Pointer option \<Rightarrow> Pointer option" where
  "ParsePointer raw =
     (case raw of None \<Rightarrow> None | Some p \<Rightarrow> if po_ContainerName p = [] \<and> po_ComposeProject p = [] then None else Some p)"

definition ContainerName :: "Pointer option \<Rightarrow> string \<Rightarrow> string" where
  "ContainerName adoption fallback =
     (case ParsePointer adoption of Some p \<Rightarrow> if po_ContainerName p \<noteq> [] then po_ContainerName p else fallback | None \<Rightarrow> fallback)"

definition namingIdentity :: "deploymentRun \<Rightarrow> string" where
  "namingIdentity r = (case r_preview r of Some p \<Rightarrow> pv_Uuid p | None \<Rightarrow> r_resource r)"

definition candidateName :: "deploymentRun \<Rightarrow> string" where
  "candidateName r = namingIdentity r @ ''-next''"

definition oldName :: "deploymentRun \<Rightarrow> string" where
  "oldName r = (case r_preview r of None \<Rightarrow> ContainerName (r_adoption r) (namingIdentity r) | Some _ \<Rightarrow> namingIdentity r)"

definition reusesArtifact :: "deploymentRun \<Rightarrow> bool" where
  "reusesArtifact r \<longleftrightarrow> dp_IsRollback (r_d r) \<or> dp_SkipBuild (r_d r)"

text \<open>Of the containers: the candidate of this deployment is up.\<close>

definition standing_by :: "deploymentRun \<Rightarrow> boxes \<Rightarrow> bool" where
  "standing_by r b \<longleftrightarrow> (\<exists>c. b (candidateName r) = Some c \<and> c_deployment c = dp_Uuid (r_d r) \<and> c_up c)"

lemma candidate_apart [simp]: "candidateName r \<noteq> namingIdentity r" "namingIdentity r \<noteq> candidateName r"
  by (simp_all add: candidateName_def)

section \<open>Queries\<close>

definition SetDeploymentStatus :: "DeploymentStatus \<Rightarrow> unit act" where
  "SetDeploymentStatus s = perform (\<lambda>w. w\<lparr>w_row := (w_row w)\<lparr>dp_Status := s\<rparr>\<rparr>)"

text \<open>The answer is whether a row changed; a cleanup of the server holds it back.\<close>

definition StartDeploymentUnlessCleanupRunning :: "bool act" where
  "StartDeploymentUnlessCleanupRunning =
     call (\<lambda>e w. if dp_Status (w_row w) = DeploymentStatusQueued \<and> f_yes e
       then (Inr True, w\<lparr>w_row := (w_row w)\<lparr>dp_Status := DeploymentStatusPreparing\<rparr>\<rparr>) else (Inr False, w))"

definition GetDeploymentStatus :: "DeploymentStatus act" where
  "GetDeploymentStatus = ask (\<lambda>_ w. dp_Status (w_row w))"

definition SetDeploymentError :: "deploy_error \<Rightarrow> unit act" where
  "SetDeploymentError x = perform (\<lambda>w. w\<lparr>w_row := (w_row w)\<lparr>dp_ErrorMessage := Some x\<rparr>\<rparr>)"

definition SetDeploymentImageDigest :: "string \<Rightarrow> unit act" where
  "SetDeploymentImageDigest d = perform (\<lambda>w. w\<lparr>w_row := (w_row w)\<lparr>dp_ImageDigest := Some d\<rparr>\<rparr>)"

definition SetDeploymentImage :: "string \<Rightarrow> string option \<Rightarrow> unit act" where
  "SetDeploymentImage name tag = perform (\<lambda>w. w\<lparr>w_row := (w_row w)\<lparr>dp_ImageName := name, dp_ImageTag := tag\<rparr>\<rparr>)"

definition CreateDeploymentArtifact :: "int \<Rightarrow> ArtifactKind \<Rightarrow> string \<Rightarrow> string option \<Rightarrow> string option \<Rightarrow> unit act" where
  "CreateDeploymentArtifact d kind name tag digest =
     perform (\<lambda>w. w\<lparr>w_artifacts := w_artifacts w @ [\<lparr>da_ID = 1 + foldr (\<lambda>a m. max (da_ID a) m) (w_artifacts w) 0, da_DeploymentID = d, da_Kind = kind,
       da_ImageName = name, da_ImageTag = tag, da_ImageDigest = digest\<rparr>]\<rparr>)"

definition DeleteDeploymentArtifact :: "int \<Rightarrow> unit act" where
  "DeleteDeploymentArtifact i = perform (\<lambda>w. w\<lparr>w_artifacts := filter (\<lambda>a. da_ID a \<noteq> i) (w_artifacts w)\<rparr>)"

text \<open>The artifacts of deployments that succeeded, the newest first, those of an application and those of a preview alike.\<close>

definition succeeded :: "world \<Rightarrow> int \<Rightarrow> bool" where
  "succeeded w d \<longleftrightarrow> (if d = dp_ID (w_row w) then dp_Status (w_row w) = DeploymentStatusSucceeded else w_succeeded w d)"

definition artifacts_listed :: "world \<Rightarrow> DeploymentArtifact list" where
  "artifacts_listed w = rev (sort_key da_ID (filter (\<lambda>a. succeeded w (da_DeploymentID a) \<and> da_ImageTag a \<noteq> None) (w_artifacts w)))"

definition ListAppArtifactsOnServer :: "DeploymentArtifact list act" where
  "ListAppArtifactsOnServer = ask (\<lambda>_. artifacts_listed)"

definition CreateDeploymentStep :: "int \<Rightarrow> string \<Rightarrow> int act" where
  "CreateDeploymentStep n name =
     call (\<lambda>_ w. if n \<in> ds_Seq ` set (w_steps w) then (Inl ErrStepTaken, w)
       else (Inr n, w\<lparr>w_steps := w_steps w @ [\<lparr>ds_Seq = n, ds_Name = name, ds_Status = DeploymentStepStatusRunning, ds_ExitCode = None\<rparr>]\<rparr>))"

definition FinishDeploymentStep :: "int \<Rightarrow> DeploymentStepStatus \<Rightarrow> int option \<Rightarrow> unit act" where
  "FinishDeploymentStep n s x =
     perform (\<lambda>w. w\<lparr>w_steps := map (\<lambda>d. if ds_Seq d = n then d\<lparr>ds_Status := s, ds_ExitCode := x\<rparr> else d) (w_steps w)\<rparr>)"

definition MaxDeploymentStepSeq :: "int act" where
  "MaxDeploymentStepSeq = ask (\<lambda>_ w. foldr (\<lambda>d m. max (ds_Seq d) m) (w_steps w) 0)"

definition Outbox :: "deploy_event \<Rightarrow> unit act" where
  "Outbox ev = quietly (perform (\<lambda>w. w\<lparr>w_outbox := w_outbox w @ [ev]\<rparr>))"

section \<open>Steps and transitions\<close>

text \<open>A request to cancel is read between steps; a failed read is no request.\<close>

definition checkpoint :: "unit act" where
  "checkpoint = bnd (attempt (ask (\<lambda>e _. f_cancel e))) (\<lambda>c. if c = Inr True then raise ErrCancelled else ret ())"

definition next_seq :: "int act" where
  "next_seq = here (\<lambda>w. (w_seq w + 1, w\<lparr>w_seq := w_seq w + 1\<rparr>))"

text \<open>The body of a step returns the exit code of its remote command, if it ran one.\<close>

definition deploy_step :: "string \<Rightarrow> (int option \<times> 'a) act \<Rightarrow> 'a act" where
  "deploy_step name fn =
     bnd next_seq (\<lambda>n. bnd (CreateDeploymentStep n name) (\<lambda>i. bnd (attempt fn) (\<lambda>res.
       case res of
         Inl x \<Rightarrow> seq (quietly (FinishDeploymentStep i DeploymentStepStatusFailed None)) (raise x)
       | Inr (code, x) \<Rightarrow>
           if code \<noteq> None \<and> code \<noteq> Some 0
           then seq (quietly (FinishDeploymentStep i DeploymentStepStatusFailed code)) (raise (ErrExitCode (the code)))
           else seq (quietly (FinishDeploymentStep i DeploymentStepStatusSucceeded code)) (ret x))))"

text \<open>The end of a body that runs no command.\<close>

abbreviation no_command :: "(int option \<times> unit) act" where
  "no_command \<equiv> ret (None, ())"

definition skipStep :: "string \<Rightarrow> unit act" where
  "skipStep name =
     bnd next_seq (\<lambda>n. quietly (bnd (CreateDeploymentStep n name) (\<lambda>i. FinishDeploymentStep i DeploymentStepStatusSkipped None)))"

text \<open>The wait for a cleanup to end, with the number of polls before the context does.\<close>

primrec await_start :: "nat \<Rightarrow> unit act" where
  "await_start 0 = raise ErrContextDone"
| "await_start (Suc k) =
     bnd StartDeploymentUnlessCleanupRunning (\<lambda>started.
       if started then ret ()
       else bnd GetDeploymentStatus (\<lambda>s.
         if s \<noteq> DeploymentStatusQueued then raise (ErrStateChanged s) else seq checkpoint (await_start k)))"

text \<open>What is read for the payloads of the events is left out.\<close>

definition setStatus :: "deploymentRun \<Rightarrow> DeploymentStatus \<Rightarrow> unit act" where
  "setStatus r s =
     seq (if s = DeploymentStatusPreparing \<and> dp_Status (r_d r) = DeploymentStatusQueued then await_start (r_waits r) else SetDeploymentStatus s)
       (seq (Outbox (DeploymentEvent s))
         (case r_preview r of
            Some p \<Rightarrow> if s = DeploymentStatusSucceeded then Outbox (if pv_Deployed p then PreviewUpdated else PreviewCreated) else ret ()
          | None \<Rightarrow> ret ()))"

section \<open>Containers\<close>

record inspection =
  i_state :: string
  i_health :: "string option"
  i_address :: string
  i_running :: bool

definition ContainerInspect :: "string \<Rightarrow> inspection act" where
  "ContainerInspect n =
     call (\<lambda>e w. case w_boxes w n of
         None \<Rightarrow> (Inl ErrContainerNotFound, w)
       | Some c \<Rightarrow> (Inr \<lparr>i_state = (if c_up c then f_state e else ''exited''), i_health = f_health e, i_address = f_address e,
           i_running = (c_up c \<and> f_yes e)\<rparr>, w))"

definition containerState :: "string \<Rightarrow> string act" where
  "containerState n =
     bnd (attempt (ContainerInspect n)) (\<lambda>res.
       case res of Inl x \<Rightarrow> if x = ErrContainerNotFound then ret ''absent'' else raise x | Inr i \<Rightarrow> ret (i_state i))"

definition tolerating :: "unit act \<Rightarrow> unit act" where
  "tolerating m =
     bnd (attempt m) (\<lambda>res. case res of Inl x \<Rightarrow> if x = ErrContainerNotFound then ret () else raise x | Inr _ \<Rightarrow> ret ())"

text \<open>The only callers pass one name.\<close>

definition removeNamedContainers :: "string \<Rightarrow> unit act" where
  "removeNamedContainers n = tolerating (docker (ContainerRemove n))"

definition promoteCandidate :: "string \<Rightarrow> string \<Rightarrow> string \<Rightarrow> unit act" where
  "promoteCandidate old cand app =
     seq (quietly (docker (ContainerStop old)))
       (seq (quietly (removeNamedContainers old)) (docker (ContainerRename cand app)))"

primrec await_healthy :: "nat \<Rightarrow> string \<Rightarrow> bool act" where
  "await_healthy 0 target = ret False"
| "await_healthy (Suc k) target =
     bnd (attempt (ContainerInspect target)) (\<lambda>res.
       case res of
         Inl _ \<Rightarrow> await_healthy k target
       | Inr i \<Rightarrow>
           (case i_health i of
              None \<Rightarrow> ret True
            | Some h \<Rightarrow> if h = ''healthy'' then ret True else if h = ''unhealthy'' then ret False else await_healthy k target))"

definition awaitCandidate :: "deploymentRun \<Rightarrow> string \<Rightarrow> bool \<Rightarrow> bool act" where
  "awaitCandidate r target hasHealthCheck =
     (if \<not> hasHealthCheck then bnd (containerState target) (\<lambda>s. ret (s = ''running'')) else await_healthy (r_polls r) target)"

definition runHook :: "string \<Rightarrow> string option \<Rightarrow> string \<Rightarrow> unit act" where
  "runHook name command container =
     (if command = None \<or> TrimSpace (the command) = [] then skipStep name
      else seq (ask (\<lambda>_ _. ()))
        (let run = deploy_step name (bnd (ask (\<lambda>e _. f_code e)) (\<lambda>code. ret (Some code, ()))) in
         if HasPrefix name ''pre_deployment''
         then bnd (attempt (ContainerInspect container)) (\<lambda>res.
           case res of
             Inl x \<Rightarrow> if x = ErrContainerNotFound then skipStep name else raise x
           | Inr i \<Rightarrow> if \<not> i_running i then skipStep name else run)
         else run))"

section \<open>Routing\<close>

definition CreateProxyRevision :: "string \<Rightarrow> string \<Rightarrow> int act" where
  "CreateProxyRevision scope content =
     call (\<lambda>_ w. let i = 1 + foldr (\<lambda>v m. max (pr_ID v) m) (w_revisions w) 0
       in (Inr i, w\<lparr>w_revisions := w_revisions w @ [\<lparr>pr_ID = i, pr_Scope = scope, pr_Content = content, pr_Status = ProxyRevisionStatusGenerated\<rparr>]\<rparr>))"

definition mark_revision :: "int \<Rightarrow> ProxyRevisionStatus \<Rightarrow> unit act" where
  "mark_revision i s =
     perform (\<lambda>w. w\<lparr>w_revisions := map (\<lambda>v. if pr_ID v = i then v\<lparr>pr_Status := s\<rparr> else v) (w_revisions w)\<rparr>)"

definition last_applied :: "string \<Rightarrow> ProxyConfigRevision list \<Rightarrow> ProxyConfigRevision option" where
  "last_applied scope revs =
     (case filter (\<lambda>v. pr_Scope v = scope \<and> pr_Status v = ProxyRevisionStatusApplied) (sort_key pr_ID revs) of
        [] \<Rightarrow> None | vs \<Rightarrow> Some (last vs))"

definition GetLastAppliedProxyRevision :: "string \<Rightarrow> ProxyConfigRevision act" where
  "GetLastAppliedProxyRevision scope =
     call (\<lambda>_ w. case last_applied scope (w_revisions w) of None \<Rightarrow> (Inl ErrNoRevision, w) | Some v \<Rightarrow> (Inr v, w))"

text \<open>The file of the application, after an attempt to attach the proxy to the network; the empty content removes it.\<close>

definition upload :: "string \<Rightarrow> unit act" where
  "upload content =
     seq (if content = [] then ret () else quietly (ask (\<lambda>_ _. ()))) (perform (\<lambda>w. w\<lparr>w_file := content\<rparr>))"

text \<open>A poll reads the exit code and the text of the services the proxy exposes.\<close>

primrec verify :: "nat \<Rightarrow> string \<Rightarrow> string \<Rightarrow> string \<Rightarrow> unit act" where
  "verify 0 app content expect = raise ErrNotExposed"
| "verify (Suc k) app content expect =
     bnd (attempt (ask (\<lambda>e _. (f_code e, f_services e)))) (\<lambda>res.
       case res of
         Inl _ \<Rightarrow> verify k app content expect
       | Inr (code, out) \<Rightarrow>
           let present = ContainsStr out app in
           if code = 0 \<and> (if content = [] then \<not> present else present \<and> (expect = [] \<or> ContainsStr out expect))
           then ret () else verify k app content expect)"

text \<open>A revision the proxy did not take: the file goes back to the last applied one.\<close>

definition roll_back :: "string \<Rightarrow> int \<Rightarrow> deploy_error \<Rightarrow> unit act" where
  "roll_back app i applyErr =
     seq (quietly (mark_revision i ProxyRevisionStatusFailed))
       (bnd (attempt (GetLastAppliedProxyRevision app)) (\<lambda>previous.
         case previous of
           Inl _ \<Rightarrow> seq (quietly (upload [])) (raise applyErr)
         | Inr p \<Rightarrow>
             bnd (attempt (upload (pr_Content p))) (\<lambda>back.
               case back of
                 Inl _ \<Rightarrow> raise applyErr
               | Inr _ \<Rightarrow> seq (quietly (mark_revision i ProxyRevisionStatusRolledBack)) (raise applyErr))))"

definition Apply :: "nat \<Rightarrow> string \<Rightarrow> string \<Rightarrow> string \<Rightarrow> unit act" where
  "Apply polls app content expect =
     bnd (CreateProxyRevision app content) (\<lambda>i.
       bnd (attempt (seq (upload content) (verify polls app content expect))) (\<lambda>applied.
         case applied of Inr _ \<Rightarrow> mark_revision i ProxyRevisionStatusApplied | Inl applyErr \<Rightarrow> roll_back app i applyErr))"

definition applyRoutingTo :: "deploymentRun \<Rightarrow> string \<Rightarrow> unit act" where
  "applyRoutingTo r endpoint =
     (if \<not> r_Traefik r then ret ()
      else if r_preview r = None \<and> r_ScaleToZero r \<and> endpoint \<noteq> [] then ret ()
      else bnd (call (\<lambda>_ w. (r_content r endpoint, w))) (\<lambda>content.
        deploy_step (if endpoint \<noteq> [] then ''switch_routing'' else ''apply_routing'')
          (seq (Apply (r_verify r) (namingIdentity r) content
             (if content \<noteq> [] \<and> endpoint \<noteq> [] then ''http://'' @ endpoint @ '':'' else []))
           no_command)))"

section \<open>The pipeline\<close>

definition recordArtifact :: "deploymentRun \<Rightarrow> unit act" where
  "recordArtifact r =
     bnd (here (\<lambda>w. ((w_image w, w_digest w), w))) (\<lambda>((name, tag), digest).
       if reusesArtifact r \<or> name = [] then ret ()
       else quietly (CreateDeploymentArtifact (dp_ID (r_d r))
         (if digest \<noteq> [] \<and> CHR ''@'' \<in> set digest then ArtifactKindRegistryImage else ArtifactKindLocalImage) name tag
         (if digest \<noteq> [] then Some digest else None)))"

record prunableImage =
  pi_id :: int
  pi_ref :: string

text \<open>Of the artifacts beyond the retention, the image is spared when a kept one refers to it.\<close>

definition imagesToReclaim :: "prunableImage list \<Rightarrow> int \<Rightarrow> prunableImage list" where
  "imagesToReclaim arts keep =
     (let keep = (if keep < 1 then 1 else keep) in
      if int (length arts) \<le> keep then []
      else map (\<lambda>a. if pi_ref a \<in> pi_ref ` set (take (nat keep) arts) then a\<lparr>pi_ref := []\<rparr> else a) (drop (nat keep) arts))"

definition ImageRemove :: "string \<Rightarrow> unit act" where
  "ImageRemove ref = perform (\<lambda>w. w\<lparr>w_reclaimed := w_reclaimed w @ [ref]\<rparr>)"

primrec reclaim :: "prunableImage list \<Rightarrow> unit act" where
  "reclaim [] = ret ()"
| "reclaim (a # arts) =
     seq (if pi_ref a \<noteq> [] then quietly (ImageRemove (pi_ref a)) else ret ())
       (seq (quietly (DeleteDeploymentArtifact (pi_id a))) (reclaim arts))"

definition prunable :: "DeploymentArtifact list \<Rightarrow> prunableImage list" where
  "prunable rows =
     List.map_filter (\<lambda>a. map_option (\<lambda>tag. \<lparr>pi_id = da_ID a, pi_ref = da_ImageName a @ '':'' @ tag\<rparr>) (da_ImageTag a)) rows"

definition pruneOldImages :: "deploymentRun \<Rightarrow> unit act" where
  "pruneOldImages r =
     bnd (here (\<lambda>w. (w_rt w, w))) (\<lambda>rt.
       if reusesArtifact r \<or> \<not> rt then ret ()
       else bnd (attempt (ask (\<lambda>_ _. r_Retention r))) (\<lambda>st.
         let keep = (case st of Inr n \<Rightarrow> if n > 0 then n else 5 | Inl _ \<Rightarrow> 5) in
         bnd (attempt ListAppArtifactsOnServer) (\<lambda>rows.
           case rows of Inl _ \<Rightarrow> ret () | Inr arts \<Rightarrow> reclaim (imagesToReclaim (prunable arts) keep))))"

text \<open>The idempotent tail.  A notice to the provider of the repository follows the status of a preview.\<close>

definition finish :: "deploymentRun \<Rightarrow> unit act" where
  "finish r =
     seq (setStatus r DeploymentStatusFinishing)
    (seq (quietly (perform (\<lambda>w. w\<lparr>w_desired := ''running''\<rparr>)))
    (seq (quietly (perform (\<lambda>w. w\<lparr>w_observed := ''healthy''\<rparr>)))
    (seq (if r_preview r = None \<and> ParsePointer (r_adoption r) \<noteq> None then quietly (perform (\<lambda>w. w\<lparr>w_adoption := None\<rparr>)) else ret ())
    (seq (recordArtifact r)
    (seq (pruneOldImages r)
    (seq (if r_preview r = None then ret () else seq (quietly (perform (\<lambda>w. w\<lparr>w_preview := ''active''\<rparr>))) (quietly (ask (\<lambda>_ _. ()))))
         (setStatus r DeploymentStatusSucceeded)))))))"

definition record_inspection :: "unit act" where
  "record_inspection =
     bnd next_seq (\<lambda>n. quietly (bnd (CreateDeploymentStep n ''resume_inspect'') (\<lambda>i. FinishDeploymentStep i DeploymentStepStatusSucceeded None)))"

text \<open>What a restarted attempt does before anything else: true when it has carried the deployment to its end.\<close>

definition resume :: "deploymentRun \<Rightarrow> bool act" where
  "resume r =
     (if dp_Status (r_d r) \<noteq> DeploymentStatusSwitching \<and> dp_Status (r_d r) \<noteq> DeploymentStatusFinishing then ret False
      else bnd (containerState (oldName r)) (\<lambda>old. bnd (containerState (candidateName r)) (\<lambda>next.
        seq record_inspection
          (if next = ''absent'' \<and> old = ''running''
           then seq (applyRoutingTo r []) (seq (finish r) (ret True))
           else if next = ''running'' \<and> old = ''absent''
           then seq (deploy_step ''switch'' (seq (docker (ContainerRename (candidateName r) (namingIdentity r))) no_command))
             (seq (applyRoutingTo r []) (seq (finish r) (ret True)))
           else if next = ''running'' \<and> old = ''running''
           then seq (deploy_step ''switch'' (seq (promoteCandidate (oldName r) (candidateName r) (namingIdentity r)) no_command))
             (seq (applyRoutingTo r []) (seq (finish r) (ret True)))
           else raise (ErrUnusable old next)))))"

text \<open>Connecting: the SSH session, the runtime of the target, its file primitives, the build server when one is asked for.\<close>

definition connect :: "deploymentRun \<Rightarrow> unit act" where
  "connect r =
     seq (ask (\<lambda>_ _. ()))
       (seq (ask (\<lambda>_ _. ()))
         (seq (here (\<lambda>w. ((), w\<lparr>w_rt := True\<rparr>)))
           (seq (ask (\<lambda>_ _. ()))
             (if r_UseBuildServer r \<and> r_BuildPack r \<noteq> BuildPackImage \<and> \<not> reusesArtifact r then call (\<lambda>_ w. (r_dialed r, w)) else ret ()))))"

definition prepare :: "unit act" where
  "prepare =
     seq (ask (\<lambda>_ _. ()))
       (deploy_step ''prepare'' (seq (ask (\<lambda>_ _. ())) (seq (ask (\<lambda>_ _. ())) (bnd (ask (\<lambda>e _. f_code e)) (\<lambda>code. ret (Some code, ()))))))"

definition artifact_ref :: "Deployment \<Rightarrow> string" where
  "artifact_ref d =
     (case dp_ImageDigest d of
        Some g \<Rightarrow> if CHR ''@'' \<in> set g then g else (case dp_ImageTag d of Some t \<Rightarrow> dp_ImageName d @ '':'' @ t | None \<Rightarrow> dp_ImageName d)
      | None \<Rightarrow> (case dp_ImageTag d of Some t \<Rightarrow> dp_ImageName d @ '':'' @ t | None \<Rightarrow> dp_ImageName d))"

definition set_image :: "string \<Rightarrow> string option \<Rightarrow> unit act" where
  "set_image name tag = seq (here (\<lambda>w. ((), w\<lparr>w_image := (name, tag)\<rparr>))) (quietly (SetDeploymentImage name tag))"

text \<open>The digest of the image: of the first registry for a pulled one, its identifier for one built here.\<close>

definition resolve_digest :: "(fate \<Rightarrow> string) \<Rightarrow> unit act" where
  "resolve_digest f =
     deploy_step ''resolve_digest''
       (bnd (ask (\<lambda>e _. f e)) (\<lambda>digest.
         if digest = [] then no_command
         else seq (here (\<lambda>w. ((), w\<lparr>w_digest := digest\<rparr>))) (seq (quietly (SetDeploymentImageDigest digest)) no_command)))"

definition resolveLocalDigest :: "unit act" where
  "resolveLocalDigest = resolve_digest f_image"

text \<open>The end of both builds.\<close>

definition built_image :: "deploymentRun \<Rightarrow> string \<Rightarrow> string act" where
  "built_image r tag =
     (let name = ''akerdock/'' @ namingIdentity r in seq (set_image name (Some tag)) (seq resolveLocalDigest (ret (name @ '':'' @ tag))))"

text \<open>The inline Dockerfile: the variables are read, the file is written, the image is built.\<close>

definition buildFromDockerfile :: "deploymentRun \<Rightarrow> string act" where
  "buildFromDockerfile r =
     seq (skipStep ''clone'')
       (if r_Dockerfile r = None \<or> r_Dockerfile r = Some [] then raise ErrNoDockerfile
        else seq (ask (\<lambda>_ _. ()))
          (seq (ask (\<lambda>_ _. ()))
            (seq (deploy_step ''build'' (seq (ask (\<lambda>_ _. ())) no_command))
              (built_image r (take 12 (filter (\<lambda>c. c \<noteq> CHR ''-'') (dp_Uuid (r_d r))))))))"

definition pull_image :: "deploymentRun \<Rightarrow> string act" where
  "pull_image r =
     seq (skipStep ''clone'')
       (let ref = dp_ImageName (r_d r) @ '':'' @ (case dp_ImageTag (r_d r) of Some t \<Rightarrow> t | None \<Rightarrow> []) in
        seq (ask (\<lambda>_ _. ()))
          (seq (deploy_step ''pull'' (seq (ask (\<lambda>_ _. ())) no_command))
            (seq (resolve_digest (\<lambda>e. case f_digests e of [] \<Rightarrow> [] | d # _ \<Rightarrow> d))
              (here (\<lambda>w. (if w_digest w = [] then ref else w_digest w, w))))))"

definition verify_artifact :: "deploymentRun \<Rightarrow> string act" where
  "verify_artifact r =
     seq (skipStep ''clone'')
       (seq (deploy_step ''verify_artifact'' (bnd (ask (\<lambda>e _. f_yes e)) (\<lambda>present. if present then no_command else raise ErrImageMissing)))
         (ret (artifact_ref (r_d r))))"

definition pushedDigest :: "string list \<Rightarrow> string \<Rightarrow> string" where
  "pushedDigest repoDigests remoteRepo =
     (case filter (\<lambda>d. HasPrefix d (remoteRepo @ ''@'')) repoDigests of
        d # _ \<Rightarrow> d
      | [] \<Rightarrow> (case repoDigests of d # _ \<Rightarrow> d | [] \<Rightarrow> []))"

text \<open>From the build server through the registry to the server: credentials, tag and push, the digest, the pull by digest.\<close>

definition pushBuiltImage :: "deploymentRun \<Rightarrow> string act" where
  "pushBuiltImage r =
     (case r_Registry r of
        None \<Rightarrow> raise ErrNoPushRegistry
      | Some url \<Rightarrow>
          seq (ask (\<lambda>_ _. ()))
            (bnd (here (\<lambda>w. (w_image w, w))) (\<lambda>(name, tag).
              seq (deploy_step ''push'' (seq (ask (\<lambda>_ _. ())) (seq (ask (\<lambda>_ _. ())) no_command)))
                (bnd (deploy_step ''resolve_pushed_digest''
                   (bnd (ask (\<lambda>e _. pushedDigest (f_digests e) (url @ ''/'' @ name))) (\<lambda>digest.
                     if digest = [] then raise ErrNoDigest else ret (None, digest)))) (\<lambda>digest.
                  seq (deploy_step ''pull_from_registry'' (seq (ask (\<lambda>_ _. ())) no_command))
                    (seq (here (\<lambda>w. ((), w\<lparr>w_digest := digest\<rparr>)))
                      (seq (set_image (url @ ''/'' @ name) tag) (seq (quietly (SetDeploymentImageDigest digest)) (ret digest)))))))))"

text \<open>The image to run: an artifact that exists, a pulled image by its digest, or a built one, then pushed or not.\<close>

definition build_phase :: "deploymentRun \<Rightarrow> string act" where
  "build_phase r =
     bnd (if reusesArtifact r then verify_artifact r
          else if r_BuildPack r = BuildPackImage then pull_image r
          else if r_BuildPack r = BuildPackDockerfile \<and> \<not> r_git r then buildFromDockerfile r
          else if r_BuildPack r \<in> {BuildPackDockerfile, BuildPackStatic, BuildPackNixpacks} then bnd (call (\<lambda>_ w. (r_cloned r, w))) (built_image r)
          else raise ErrBuildPack)
       (\<lambda>ref. bnd (if r_UseBuildServer r \<and> r_BuildPack r \<noteq> BuildPackImage \<and> \<not> reusesArtifact r then pushBuiltImage r
           else seq (skipStep ''push'') (ret ref)) (\<lambda>runRef.
         seq (if reusesArtifact r then ret () else quietly (ask (\<lambda>_ _. ()))) (ret runRef)))"

text \<open>A health check that cannot be read counts as none.\<close>

definition healthConfig :: "deploymentRun \<Rightarrow> bool act" where
  "healthConfig r = bnd (attempt (ask (\<lambda>_ _. r_HealthCheck r))) (\<lambda>res. ret (res = Inr True))"

definition start_candidate :: "deploymentRun \<Rightarrow> bool \<Rightarrow> string \<Rightarrow> string \<Rightarrow> unit act" where
  "start_candidate r rolling target ref =
     deploy_step ''start_candidate''
       (seq (if rolling then ret () else seq (tolerating (docker (ContainerStop (oldName r)))) (removeNamedContainers (oldName r)))
         (seq (removeNamedContainers target)
           (seq (docker (ContainerCreate target \<lparr>c_image = ref, c_deployment = dp_Uuid (r_d r), c_up = False\<rparr>))
             (seq (docker (ContainerStart target)) no_command))))"

definition healthcheck_step :: "deploymentRun \<Rightarrow> string \<Rightarrow> bool \<Rightarrow> unit act" where
  "healthcheck_step r target hasHealthCheck =
     deploy_step ''healthcheck'' (bnd (awaitCandidate r target hasHealthCheck) (\<lambda>verdict. if verdict then no_command else raise ErrUnhealthy))"

definition resolve_endpoint :: "deploymentRun \<Rightarrow> string act" where
  "resolve_endpoint r =
     deploy_step ''resolve_endpoint''
       (bnd (ContainerInspect (candidateName r)) (\<lambda>i. if i_address i = [] then raise ErrNoAddress else ret (None, i_address i)))"

definition switch_phase :: "deploymentRun \<Rightarrow> bool \<Rightarrow> unit act" where
  "switch_phase r rolling =
     (if rolling
      then bnd (resolve_endpoint r) (\<lambda>ip.
        seq (applyRoutingTo r ip)
          (deploy_step ''switch'' (seq (promoteCandidate (oldName r) (candidateName r) (namingIdentity r)) no_command)))
      else deploy_step ''switch'' (seq (ContainerInspect (namingIdentity r)) no_command))"

definition deploy_rest :: "deploymentRun \<Rightarrow> unit act" where
  "deploy_rest r =
     seq prepare
    (seq (runHook ''pre_deployment'' (r_PreDeploymentCommand r) (oldName r))
    (seq checkpoint
    (seq (setStatus r DeploymentStatusBuilding)
    (bnd (build_phase r) (\<lambda>ref.
     seq checkpoint
    (seq (setStatus r DeploymentStatusStarting)
    (seq (if r_MemoryLimit r then ret () else raise ErrMemoryLimit)
    (seq (ask (\<lambda>_ _. ()))
    (bnd (healthConfig r) (\<lambda>rolling.
     seq (here (\<lambda>w. ((), w\<lparr>w_rolling := rolling\<rparr>)))
    (let target = (if rolling then candidateName r else namingIdentity r) in
     seq (start_candidate r rolling target ref)
    (seq checkpoint
    (seq (setStatus r DeploymentStatusHealthchecking)
    (seq (healthcheck_step r target rolling)
    (seq (runHook ''post_deployment'' (r_PostDeploymentCommand r) target)
    (seq checkpoint
    (seq (setStatus r DeploymentStatusSwitching)
    (seq (switch_phase r rolling)
    (seq (applyRoutingTo r []) (finish r))))))))))))))))))))"

definition deploy_execute :: "deploymentRun \<Rightarrow> unit act" where
  "deploy_execute r =
     (if (case r_preview r of Some p \<Rightarrow> pv_IsFork p \<and> \<not> pv_ForkApproved p | None \<Rightarrow> False) then raise ErrForkApproval
      else seq checkpoint
        (seq (setStatus r DeploymentStatusPreparing)
          (seq (connect r)
            (if r_BuildPack r = BuildPackCompose then call (\<lambda>_ w. (r_composed r, w))
             else bnd (resume r) (\<lambda>resumed. if resumed then ret () else deploy_rest r)))))"

section \<open>The job\<close>

definition compensate :: "deploymentRun \<Rightarrow> unit act" where
  "compensate r = bnd (here (\<lambda>w. (w_rt w, w))) (\<lambda>rt. if rt then quietly (removeNamedContainers (candidateName r)) else ret ())"

definition markCancelled :: "deploymentRun \<Rightarrow> unit act" where
  "markCancelled r = seq (compensate r) (quietly (setStatus r DeploymentStatusCancelled))"

definition markFailed :: "deploymentRun \<Rightarrow> deploy_error \<Rightarrow> unit act" where
  "markFailed r cause =
     seq (if r_preview r = None then ret () else seq (quietly (perform (\<lambda>w. w\<lparr>w_preview := ''failed''\<rparr>))) (quietly (ask (\<lambda>_ _. ()))))
    (seq (compensate r)
    (seq (quietly (SetDeploymentError cause))
    (seq (quietly (setStatus r DeploymentStatusFailed))
         (quietly (perform (\<lambda>w. w\<lparr>w_observed := ''unknown''\<rparr>))))))"

definition newRun :: "deploymentRun \<Rightarrow> Deployment \<Rightarrow> deploymentRun act" where
  "newRun rows d =
     bnd (ask (\<lambda>_ w. w_adoption w)) (\<lambda>adoption.
       seq (ask (\<lambda>_ _. ()))
         (seq (ask (\<lambda>_ _. ()))
           (seq (ask (\<lambda>_ _. ()))
             (seq (if r_preview rows = None then ret () else ask (\<lambda>_ _. ()))
               (bnd (attempt MaxDeploymentStepSeq) (\<lambda>n.
                 seq (here (\<lambda>w. ((), w\<lparr>w_rt := False, w_seq := (case n of Inl _ \<Rightarrow> 0 | Inr n \<Rightarrow> n), w_image := (dp_ImageName d, dp_ImageTag d), w_digest := [], w_rolling := False\<rparr>)))
                   (ret (rows\<lparr>r_d := d, r_adoption := adoption\<rparr>))))))))"

definition terminal :: "DeploymentStatus \<Rightarrow> bool" where
  "terminal s \<longleftrightarrow>
     s \<in> {DeploymentStatusSucceeded, DeploymentStatusFailed, DeploymentStatusCancelled, DeploymentStatusSuperseded}"

text \<open>The run of an attempt and how it is concluded: what it reports to the queue is the status.\<close>

definition run_attempt :: "deploymentRun \<Rightarrow> DeploymentStatus act" where
  "run_attempt r =
     bnd (attempt (deploy_execute r)) (\<lambda>res.
       case res of
         Inr _ \<Rightarrow> ret DeploymentStatusSucceeded
       | Inl x \<Rightarrow>
           (case x of
              ErrStateChanged s \<Rightarrow> ret s
            | ErrCancelled \<Rightarrow> seq (markCancelled r) (ret DeploymentStatusCancelled)
            | _ \<Rightarrow> seq (markFailed r x) (ret DeploymentStatusFailed)))"

text \<open>An attempt; an error makes the queue try again.\<close>

definition deploy_Execute :: "deploymentRun \<Rightarrow> DeploymentStatus act" where
  "deploy_Execute rows =
     bnd (ask (\<lambda>_ w. w_row w)) (\<lambda>d.
       if terminal (dp_Status d) then ret (dp_Status d)
       else bnd (newRun rows d) run_attempt)"

section \<open>Samples\<close>

definition sample_fate :: fate where
  "sample_fate = \<lparr>f_kind = Works, f_cancel = False, f_yes = True, f_state = ''running'', f_health = Some ''healthy'', f_address = ''ip'',
     f_services = ''app http://ip:'', f_code = 0, f_image = ''sha'', f_digests = [''image@sha''], f_newer = None\<rparr>"

text \<open>The fates of some calls differ.\<close>

definition at_calls :: "(nat \<times> fate_kind) list \<Rightarrow> nat \<Rightarrow> fate" where
  "at_calls kinds i = (case map_of kinds i of Some kind \<Rightarrow> sample_fate\<lparr>f_kind := kind\<rparr> | None \<Rightarrow> sample_fate)"

definition sample_deployment :: Deployment where
  "sample_deployment = \<lparr>dp_ID = 1, dp_Uuid = ''new'', dp_Status = DeploymentStatusQueued, dp_IsRollback = False, dp_SkipBuild = False,
     dp_ImageName = ''image'', dp_ImageTag = Some ''tag'', dp_ImageDigest = None, dp_ErrorMessage = None\<rparr>"

definition sample_run :: deploymentRun where
  "sample_run = \<lparr>r_d = sample_deployment, r_resource = ''app'', r_preview = None, r_adoption = None, r_BuildPack = BuildPackImage, r_UseBuildServer = False,
     r_PreDeploymentCommand = None, r_PostDeploymentCommand = None, r_HealthCheck = True, r_MemoryLimit = True, r_Traefik = False, r_ScaleToZero = False,
     r_dialed = Inr (), r_Dockerfile = None, r_git = True, r_cloned = Inr ''rev'', r_Registry = Some ''registry'', r_Retention = 1, r_composed = Inr (), r_content = (\<lambda>e. Inr (''route '' @ e)),
     r_waits = 1, r_polls = 1, r_verify = 1\<rparr>"

definition sample_world :: "(nat \<Rightarrow> fate) \<Rightarrow> world" where
  "sample_world fates = \<lparr>w_engine = docker_effect, w_fate = fates, w_time = 0,
     w_boxes = [''app'' \<mapsto> \<lparr>c_image = ''image:old'', c_deployment = ''old'', c_up = True\<rparr>], w_calls = [], w_row = sample_deployment, w_steps = [], w_outbox = [],
     w_revisions = [], w_file = [], w_adoption = None, w_desired = [], w_observed = [], w_preview = [],
     w_artifacts = [], w_succeeded = (\<lambda>_. True), w_reclaimed = [], w_rt = False, w_seq = 0, w_image = ([], None), w_digest = [], w_rolling = False\<rparr>"

text \<open>The world after an attempt, given new fates, and what is up in it.\<close>

definition after :: "world \<Rightarrow> (nat \<Rightarrow> fate) \<Rightarrow> world" where
  "after w fates = (snd (deploy_Execute sample_run w))\<lparr>w_fate := fates, w_time := 0\<rparr>"

definition up_names :: "world \<Rightarrow> string list" where
  "up_names w = filter (\<lambda>n. case w_boxes w n of Some c \<Rightarrow> c_up c | None \<Rightarrow> False) [''app'', ''app-next'']"

end
