(* ===== verification/DeployRecovery.thy ===== *)
theory DeployRecovery
  imports Deploy
begin

text \<open>
  Recovery of the deployment job after its worker died.  Every call of an attempt works, unless the worker dies before it.  What such an
  attempt does to the status and the containers is a chain of triples whose third part is what a death leaves behind.
\<close>

section \<open>Undisturbed calls\<close>

record key =
  k_status :: DeploymentStatus
  k_boxes :: boxes

definition key :: "world \<Rightarrow> key" where
  "key w = \<lparr>k_status = dp_Status (w_row w), k_boxes = w_boxes w\<rparr>"

definition good_fate :: "string \<Rightarrow> string \<Rightarrow> fate \<Rightarrow> bool" where
  "good_fate app ip e \<longleftrightarrow>
     f_kind e = Works \<and> f_newer e = None \<and> \<not> f_cancel e \<and> f_yes e \<and> f_state e = ''running'' \<and> f_health e \<in> {None, Some ''healthy''} \<and>
     f_address e = ip \<and> ContainsStr (f_services e) app \<and> ContainsStr (f_services e) (''http://'' @ ip @ '':'') \<and> f_code e = 0 \<and>
     f_digests e \<noteq> [] \<and> [] \<notin> set (f_digests e)"

text \<open>The surroundings of an attempt: whether the worker is mortal, the name of the application, the address of its candidate, and the uuid of
  the deployment.\<close>

record surroundings =
  s_mortal :: bool
  s_app :: string
  s_ip :: string
  s_uuid :: string

definition calm :: "surroundings \<Rightarrow> world \<Rightarrow> bool" where
  "calm a w \<longleftrightarrow>
     docker_engine (w_engine w) \<and> w_adoption w = None \<and> dp_Uuid (w_row w) = s_uuid a \<and>
     (\<forall>n. good_fate (s_app a) (s_ip a) (w_fate w n) \<or> (s_mortal a \<and> f_kind (w_fate w n) = Dies \<and> f_newer (w_fate w n) = None))"

definition numbered :: "world \<Rightarrow> bool" where
  "numbered w \<longleftrightarrow> (\<forall>d \<in> set (w_steps w). ds_Seq d \<le> w_seq w)"

definition runs :: "surroundings \<Rightarrow> (key \<Rightarrow> bool) \<Rightarrow> (key \<Rightarrow> bool) \<Rightarrow> 'a act \<Rightarrow> ('a \<Rightarrow> key \<Rightarrow> bool) \<Rightarrow> bool" where
  "runs a R P m Q \<longleftrightarrow>
     triple (\<lambda>w. calm a w \<and> numbered w \<and> P (key w)) m (\<lambda>x w. calm a w \<and> numbered w \<and> Q x (key w)) (\<lambda>_ _. False)
       (\<lambda>w. s_mortal a \<and> calm a w \<and> numbered w \<and> R (key w))"

lemma runs_at:
  "runs a R P m Q \<Longrightarrow> calm a w \<Longrightarrow> numbered w \<Longrightarrow> P (key w) \<Longrightarrow>
    (case m w of (Returns x, w') \<Rightarrow> calm a w' \<and> numbered w' \<and> Q x (key w') | (Raises e, w') \<Rightarrow> False | (Dead, w') \<Rightarrow> s_mortal a \<and> calm a w' \<and> numbered w' \<and> R (key w'))"
  by (simp add: runs_def triple_def)

lemma runs_ret: "(\<And>k. P k \<Longrightarrow> Q x k) \<Longrightarrow> runs a R P (ret x) Q"
  unfolding runs_def by (rule triple_ret) simp

lemma runs_bnd: "runs a R P m S \<Longrightarrow> (\<And>x. runs a R (S x) (f x) Q) \<Longrightarrow> runs a R P (bnd m f) Q"
  unfolding runs_def by (rule triple_bnd)

lemma runs_weaken: "runs a R P m Q \<Longrightarrow> (\<And>k. P' k \<Longrightarrow> P k) \<Longrightarrow> (\<And>x k. Q x k \<Longrightarrow> Q' x k) \<Longrightarrow> runs a R P' m Q'"
  unfolding runs_def by (erule triple_weaken) auto

lemma runs_attempt: "runs a R P m (\<lambda>x. Q (Inr x)) \<Longrightarrow> runs a R P (attempt m) Q"
  unfolding runs_def by (rule triple_attempt) (erule triple_weaken, auto)

lemma runs_quietly: "runs a R P m (\<lambda>_. Q) \<Longrightarrow> runs a R P (quietly m) (\<lambda>_. Q)"
  unfolding quietly_def by (intro runs_bnd [OF runs_attempt] runs_ret) auto

lemma runs_none: "\<forall>k. \<not> P k \<Longrightarrow> runs a R P m Q"
  by (simp add: runs_def triple_def)

lemma runs_const: "(c \<Longrightarrow> runs a R P m Q) \<Longrightarrow> runs a R (\<lambda>k. c \<and> P k) m Q"
  by (auto simp: runs_def triple_def)

text \<open>A call works or kills; what it needs of the world around it.\<close>

definition same_outside :: "world \<Rightarrow> world \<Rightarrow> bool" where
  "same_outside w w' \<longleftrightarrow> w_engine w' = w_engine w \<and> w_fate w' = w_fate w \<and> w_adoption w' = w_adoption w \<and>
     dp_Uuid (w_row w') = dp_Uuid (w_row w)"

lemma calm_same: "calm a w \<Longrightarrow> same_outside w w' \<Longrightarrow> calm a w'"
  by (simp add: calm_def same_outside_def)

lemma calm_call:
  assumes "calm a w" "numbered w"
  obtains e w1 where "good_fate (s_app a) (s_ip a) e" "call f w = (case f e w1 of (Inl x, w2) \<Rightarrow> (Raises x, w2) | (Inr v, w2) \<Rightarrow> (Returns v, w2))"
      "calm a w1" "numbered w1" "key w1 = key w" "w_steps w1 = w_steps w" "w_seq w1 = w_seq w"
    | w1 where "s_mortal a" "call f w = (Dead, w1)" "calm a w1" "numbered w1" "key w1 = key w"
proof -
  let ?e = "w_fate w (w_time w)" and ?w = "w\<lparr>w_time := w_time w + 1\<rparr>"
  have newer: "others ?e ?w = ?w"
    using assms by (auto simp: others_def calm_def good_fate_def split: option.split) (metis option.distinct(1))+
  have w': "calm a ?w" "numbered ?w" "key ?w = key w" using assms by (auto simp: calm_def numbered_def key_def)
  from assms consider "good_fate (s_app a) (s_ip a) ?e" | "s_mortal a" "f_kind ?e = Dies" by (auto simp: calm_def)
  then show ?thesis
  proof cases
    case 1
    moreover from 1 have "f_kind ?e = Works" by (simp add: good_fate_def)
    ultimately show ?thesis using that(1) [of ?e ?w] w' unfolding call_def Let_def newer by simp
  next
    case 2
    then show ?thesis using that(2) [of ?w] w' unfolding call_def Let_def newer by simp
  qed
qed

lemma runs_call:
  assumes "\<And>k. P k \<Longrightarrow> R k"
    and "\<And>e w. docker_engine (w_engine w) \<Longrightarrow> w_adoption w = None \<Longrightarrow> dp_Uuid (w_row w) = s_uuid a \<Longrightarrow> numbered w \<Longrightarrow> good_fate (s_app a) (s_ip a) e \<Longrightarrow> P (key w) \<Longrightarrow>
      \<exists>x w'. f e w = (Inr x, w') \<and> Q x (key w') \<and> same_outside w w' \<and> numbered w'"
  shows "runs a R P (call f) Q"
  unfolding runs_def triple_def
proof (intro allI impI)
  fix w assume w: "calm a w \<and> numbered w \<and> P (key w)"
  then have c: "calm a w" "numbered w" by simp_all
  show "case call f w of (Returns x, w') \<Rightarrow> calm a w' \<and> numbered w' \<and> Q x (key w') | (Raises e, w') \<Rightarrow> False
    | (Dead, w') \<Rightarrow> s_mortal a \<and> calm a w' \<and> numbered w' \<and> R (key w')"
  proof (rule calm_call [OF c, of f])
    fix e w1 assume e: "good_fate (s_app a) (s_ip a) e" and f: "call f w = (case f e w1 of (Inl x, w2) \<Rightarrow> (Raises x, w2) | (Inr v, w2) \<Rightarrow> (Returns v, w2))"
      and w1: "calm a w1" "numbered w1" "key w1 = key w"
    then obtain x v where "f e w1 = (Inr x, v)" "Q x (key v)" "same_outside w1 v" "numbered v"
      using assms(2) [of w1 e] w by (auto simp: calm_def)
    then show ?thesis using calm_same [OF w1(1)] by (simp add: f)
  qed (use w assms(1) in simp)
qed

text \<open>A call whose error the program looks at.\<close>

lemma runs_attempt_call:
  assumes "\<And>k. P k \<Longrightarrow> R k"
    and "\<And>e w. docker_engine (w_engine w) \<Longrightarrow> w_adoption w = None \<Longrightarrow> dp_Uuid (w_row w) = s_uuid a \<Longrightarrow> numbered w \<Longrightarrow> good_fate (s_app a) (s_ip a) e \<Longrightarrow> P (key w) \<Longrightarrow>
      Q (fst (f e w)) (key (snd (f e w))) \<and> same_outside w (snd (f e w)) \<and> numbered (snd (f e w))"
  shows "runs a R P (attempt (call f)) Q"
  unfolding runs_def triple_def
proof (intro allI impI)
  fix w assume w: "calm a w \<and> numbered w \<and> P (key w)"
  then have c: "calm a w" "numbered w" by simp_all
  show "case attempt (call f) w of (Returns x, w') \<Rightarrow> calm a w' \<and> numbered w' \<and> Q x (key w') | (Raises e, w') \<Rightarrow> False
    | (Dead, w') \<Rightarrow> s_mortal a \<and> calm a w' \<and> numbered w' \<and> R (key w')"
  proof (rule calm_call [OF c, of f])
    fix e w1 assume e: "good_fate (s_app a) (s_ip a) e" and f: "call f w = (case f e w1 of (Inl x, w2) \<Rightarrow> (Raises x, w2) | (Inr v, w2) \<Rightarrow> (Returns v, w2))"
      and w1: "calm a w1" "numbered w1" "key w1 = key w"
    have "Q (fst (f e w1)) (key (snd (f e w1))) \<and> same_outside w1 (snd (f e w1)) \<and> numbered (snd (f e w1))"
      using assms(2) [of w1 e] e w w1 by (auto simp: calm_def)
    then show ?thesis using calm_same [OF w1(1)] by (cases "f e w1") (auto simp: attempt_def f split: sum.split)
  qed (use w assms(1) in \<open>simp add: attempt_def\<close>)
qed

lemma runs_ask:
  assumes "\<And>k. P k \<Longrightarrow> R k"
  shows "runs a R P (ask (\<lambda>e _. f e)) (\<lambda>x k. (\<exists>e. good_fate (s_app a) (s_ip a) e \<and> x = f e) \<and> P k)"
  unfolding ask_def using assms by (intro runs_call) (auto simp: same_outside_def)

lemma runs_exec:
  assumes "\<And>k. P k \<Longrightarrow> R k" "\<And>w. same_outside w (f w)" "\<And>w. numbered w \<Longrightarrow> numbered (f w)" "\<And>w. P (key w) \<Longrightarrow> Q (key (f w))"
  shows "runs a R P (perform f) (\<lambda>_. Q)"
  unfolding perform_def using assms by (intro runs_call) auto

lemma runs_here:
  assumes "\<And>w. P (key w) \<Longrightarrow> numbered w \<Longrightarrow> Q (fst (f w)) (key (snd (f w))) \<and> same_outside w (snd (f w)) \<and> numbered (snd (f w))"
  shows "runs a R P (here f) Q"
  unfolding runs_def triple_def
proof (intro allI impI)
  fix w assume w: "calm a w \<and> numbered w \<and> P (key w)"
  with assms [of w] calm_same [of a w "snd (f w)"]
  show "case here f w of (Returns x, w') \<Rightarrow> calm a w' \<and> numbered w' \<and> Q x (key w') | (Raises e, w') \<Rightarrow> False
    | (Dead, w') \<Rightarrow> s_mortal a \<and> calm a w' \<and> numbered w' \<and> R (key w')"
    by (cases "f w") (simp add: here_def)
qed

lemma runs_given: "(\<And>k. P k \<Longrightarrow> R k) \<Longrightarrow> res = Inr x \<Longrightarrow> runs a R P (call (\<lambda>_ w. (res, w))) (\<lambda>y k. y = x \<and> P k)"
  by (intro runs_call) (auto simp: same_outside_def)

section \<open>Containers\<close>

lemma key_facts [simp]:
  "k_boxes (key w) = w_boxes w" "k_status (key w) = dp_Status (w_row w)" "key (w\<lparr>w_boxes := b\<rparr>) = (key w)\<lparr>k_boxes := b\<rparr>"
  "key (w\<lparr>w_row := (w_row w)\<lparr>dp_Status := s\<rparr>\<rparr>) = (key w)\<lparr>k_status := s\<rparr>"
  by (simp_all add: key_def)

lemma logged_same [simp]: "key (logged c w) = key w" "same_outside w (logged c w)" "numbered (logged c w) = numbered w"
  by (auto simp: logged_def key_def same_outside_def numbered_def Let_def)

definition docker_body :: "docker_call \<Rightarrow> fate \<Rightarrow> world \<Rightarrow> (deploy_error + unit) \<times> world" where
  "docker_body c _ w =
     (case w_engine w c (w_boxes w) of (None, b) \<Rightarrow> (Inr (), w\<lparr>w_boxes := b\<rparr>) | (Some x, b) \<Rightarrow> (Inl x, w\<lparr>w_boxes := b\<rparr>))"

lemma docker_logged: "docker c w = call (docker_body c) (logged c w)"
  by (simp add: docker_def docker_body_def [abs_def])

lemma docker_body_facts:
  assumes "docker_engine (w_engine w)"
  shows "docker_body c e w =
      ((case fst (docker_effect c (w_boxes w)) of None \<Rightarrow> Inr () | Some x \<Rightarrow> Inl x), w\<lparr>w_boxes := snd (docker_effect c (w_boxes w))\<rparr>)"
  by (auto simp: docker_body_def docker_engine.engine_effect [OF assms] split: prod.split option.split)

lemma runs_logged: "runs a R P m Q \<Longrightarrow> runs a R P (\<lambda>w. m (logged c w)) Q"
  unfolding runs_def triple_def
proof (intro allI impI)
  fix w assume m: "\<forall>w. calm a w \<and> numbered w \<and> P (key w) \<longrightarrow> (case m w of (Returns x, w') \<Rightarrow> calm a w' \<and> numbered w' \<and> Q x (key w')
      | (Raises e, w') \<Rightarrow> False | (Dead, w') \<Rightarrow> s_mortal a \<and> calm a w' \<and> numbered w' \<and> R (key w'))" and w: "calm a w \<and> numbered w \<and> P (key w)"
  then have "calm a (logged c w) \<and> numbered (logged c w) \<and> P (key (logged c w))" using calm_same [of a w "logged c w"] by simp
  from m [rule_format, OF this] show "case m (logged c w) of (Returns x, w') \<Rightarrow> calm a w' \<and> numbered w' \<and> Q x (key w')
      | (Raises e, w') \<Rightarrow> False | (Dead, w') \<Rightarrow> s_mortal a \<and> calm a w' \<and> numbered w' \<and> R (key w')" .
qed

lemma runs_docker:
  assumes "\<And>k. P k \<Longrightarrow> R k" "\<And>k. P k \<Longrightarrow> fst (docker_effect c (k_boxes k)) = None \<and> Q (k\<lparr>k_boxes := snd (docker_effect c (k_boxes k))\<rparr>)"
  shows "runs a R P (docker c) (\<lambda>_. Q)"
proof -
  have "runs a R P (call (docker_body c)) (\<lambda>_. Q)"
  proof (rule runs_call [OF assms(1)])
    fix e w assume "docker_engine (w_engine w)" "numbered w" "P (key w)"
    with assms(2) [of "key w"] show "\<exists>x w'. docker_body c e w = (Inr x, w') \<and> Q (key w') \<and> same_outside w w' \<and> numbered w'"
      by (simp add: docker_body_facts same_outside_def numbered_def)
  qed
  from runs_logged [OF this, of c] show ?thesis by (simp add: docker_logged [abs_def])
qed

lemma runs_attempt_docker:
  assumes "\<And>k. P k \<Longrightarrow> R k"
    and "\<And>k. P k \<Longrightarrow> Q (case fst (docker_effect c (k_boxes k)) of None \<Rightarrow> Inr () | Some x \<Rightarrow> Inl x) (k\<lparr>k_boxes := snd (docker_effect c (k_boxes k))\<rparr>)"
  shows "runs a R P (attempt (docker c)) Q"
proof -
  have "runs a R P (attempt (call (docker_body c))) Q"
  proof (rule runs_attempt_call [OF assms(1)])
    fix e w assume "docker_engine (w_engine w)" "numbered w" "P (key w)"
    with assms(2) [of "key w"] show "Q (fst (docker_body c e w)) (key (snd (docker_body c e w))) \<and> same_outside w (snd (docker_body c e w)) \<and>
        numbered (snd (docker_body c e w))"
      by (simp add: docker_body_facts same_outside_def numbered_def)
  qed
  from runs_logged [OF this, of c] show ?thesis by (simp add: docker_logged attempt_def [abs_def])
qed

lemma runs_remove:
  assumes "\<And>k. P k \<Longrightarrow> R k" "\<And>k. P k \<Longrightarrow> Q (k\<lparr>k_boxes := (k_boxes k)(n := None)\<rparr>)"
  shows "runs a R P (removeNamedContainers n) (\<lambda>_. Q)"
proof -
  let ?S = "\<lambda>x k. (x = Inr () \<or> x = Inl ErrContainerNotFound) \<and> Q k"
  have "runs a R P (attempt (docker (ContainerRemove n))) ?S"
  proof (rule runs_attempt_docker [OF assms(1)])
    fix k assume k: "P k"
    have "k_boxes k n = None \<Longrightarrow> (k_boxes k)(n := None) = k_boxes k" by auto
    with assms(2) [OF k] show "?S (case fst (docker_effect (ContainerRemove n) (k_boxes k)) of None \<Rightarrow> Inr () | Some x \<Rightarrow> Inl x)
        (k\<lparr>k_boxes := snd (docker_effect (ContainerRemove n) (k_boxes k))\<rparr>)"
      by (auto split: option.split)
  qed
  then show ?thesis unfolding removeNamedContainers_def tolerating_def
    by (rule runs_bnd) (auto intro!: runs_const runs_ret)
qed

lemma runs_inspect:
  assumes "\<And>k. P k \<Longrightarrow> R k" "\<And>k. P k \<Longrightarrow> k_boxes k n \<noteq> None"
  shows "runs a R P (ContainerInspect n) (\<lambda>i k. P k \<and> i_health i \<in> {None, Some ''healthy''} \<and> i_address i = s_ip a \<and>
    (i_running i \<longleftrightarrow> c_up (the (k_boxes k n))))"
  unfolding ContainerInspect_def
proof (rule runs_call [OF assms(1)])
  fix e w assume w: "numbered w" "P (key w)" "good_fate (s_app a) (s_ip a) e"
  from assms(2) [OF w(2)] obtain c where "w_boxes w n = Some c" by auto
  with w show "\<exists>x w'. (case w_boxes w n of None \<Rightarrow> (Inl ErrContainerNotFound, w)
      | Some c \<Rightarrow> (Inr \<lparr>i_state = (if c_up c then f_state e else ''exited''), i_health = f_health e, i_address = f_address e,
          i_running = (c_up c \<and> f_yes e)\<rparr>, w)) = (Inr x, w') \<and>
      (P (key w') \<and> i_health x \<in> {None, Some ''healthy''} \<and> i_address x = s_ip a \<and> (i_running x \<longleftrightarrow> c_up (the (k_boxes (key w') n)))) \<and>
      same_outside w w' \<and> numbered w'"
    by (auto simp: same_outside_def good_fate_def)
qed

definition state_of :: "boxes \<Rightarrow> string \<Rightarrow> string" where
  "state_of b n = (case b n of None \<Rightarrow> ''absent'' | Some c \<Rightarrow> if c_up c then ''running'' else ''exited'')"

lemma runs_containerState:
  assumes "\<And>k. P k \<Longrightarrow> R k"
  shows "runs a R P (containerState n) (\<lambda>s k. P k \<and> s = state_of (k_boxes k) n)"
proof -
  let ?S = "\<lambda>x k. P k \<and> (case x of Inl y \<Rightarrow> y = ErrContainerNotFound \<and> state_of (k_boxes k) n = ''absent'' | Inr i \<Rightarrow> i_state i = state_of (k_boxes k) n)"
  have "runs a R P (attempt (ContainerInspect n)) ?S"
    unfolding ContainerInspect_def using assms
    by (intro runs_attempt_call) (auto simp: key_def same_outside_def good_fate_def state_of_def split: option.split)
  then show ?thesis unfolding containerState_def
    by (rule runs_bnd) (auto simp: runs_def triple_def ret_def raise_def split: sum.split)
qed

section \<open>Steps\<close>

lemma runs_open:
  assumes "\<And>k. P k \<Longrightarrow> R k" "\<And>i. runs a R P (f i) Q"
  shows "runs a R P (bnd next_seq (\<lambda>n. bnd (CreateDeploymentStep n name) f)) Q"
  unfolding runs_def triple_def
proof (intro allI impI)
  fix w assume w: "calm a w \<and> numbered w \<and> P (key w)"
  let ?w = "w\<lparr>w_seq := w_seq w + 1\<rparr>" and ?n = "w_seq w + 1"
  have w1: "calm a ?w" "numbered ?w" "key ?w = key w" "?n \<notin> ds_Seq ` set (w_steps ?w)" "w_seq ?w = ?n"
    using w by (auto simp: calm_def numbered_def key_def)
  have nx: "next_seq w = (Returns ?n, ?w)" by (simp add: next_seq_def here_def)
  have eq: "bnd next_seq (\<lambda>n. bnd (CreateDeploymentStep n name) f) w = bnd (CreateDeploymentStep ?n name) f ?w"
    using nx by (simp add: bnd_def [of next_seq])
  show "case bnd next_seq (\<lambda>n. bnd (CreateDeploymentStep n name) f) w of (Returns x, w') \<Rightarrow> calm a w' \<and> numbered w' \<and> Q x (key w')
    | (Raises e, w') \<Rightarrow> False | (Dead, w') \<Rightarrow> s_mortal a \<and> calm a w' \<and> numbered w' \<and> R (key w')"
  proof (rule calm_call [OF w1(1,2)])
    fix e w2 assume c: "call (\<lambda>_ w. if ?n \<in> ds_Seq ` set (w_steps w) then (Inl ErrStepTaken, w)
       else (Inr ?n, w\<lparr>w_steps := w_steps w @ [\<lparr>ds_Seq = ?n, ds_Name = name, ds_Status = DeploymentStepStatusRunning, ds_ExitCode = None\<rparr>]\<rparr>)) ?w =
       (case if ?n \<in> ds_Seq ` set (w_steps w2) then (Inl ErrStepTaken, w2)
       else (Inr ?n, w2\<lparr>w_steps := w_steps w2 @ [\<lparr>ds_Seq = ?n, ds_Name = name, ds_Status = DeploymentStepStatusRunning, ds_ExitCode = None\<rparr>]\<rparr>) of
         (Inl x, w2) \<Rightarrow> (Raises x, w2) | (Inr v, w2) \<Rightarrow> (Returns v, w2))"
      and w2: "calm a w2" "numbered w2" "key w2 = key ?w" "w_steps w2 = w_steps ?w" "w_seq w2 = w_seq ?w"
    let ?v = "w2\<lparr>w_steps := w_steps w2 @ [\<lparr>ds_Seq = ?n, ds_Name = name, ds_Status = DeploymentStepStatusRunning, ds_ExitCode = None\<rparr>]\<rparr>"
    have fresh: "?n \<notin> ds_Seq ` set (w_steps w2)" using w1(4) w2(4) by simp
    have "same_outside w2 ?v" "key ?v = key w2" by (simp_all add: same_outside_def key_def)
    moreover have "numbered ?v" using w2(2,5) w1(5) by (simp add: numbered_def)
    ultimately have "case f ?n ?v of (Returns x, w') \<Rightarrow> calm a w' \<and> numbered w' \<and> Q x (key w')
      | (Raises e, w') \<Rightarrow> False | (Dead, w') \<Rightarrow> s_mortal a \<and> calm a w' \<and> numbered w' \<and> R (key w')"
      using w w1(3) w2(3) calm_same [OF w2(1)] by (intro runs_at [OF assms(2)]) simp_all
    then show ?thesis unfolding eq unfolding bnd_def CreateDeploymentStep_def c using fresh by simp
  next
    fix w2 assume "s_mortal a" "calm a w2" "numbered w2" "key w2 = key ?w" and c: "call (\<lambda>_ w. if ?n \<in> ds_Seq ` set (w_steps w) then (Inl ErrStepTaken, w)
       else (Inr ?n, w\<lparr>w_steps := w_steps w @ [\<lparr>ds_Seq = ?n, ds_Name = name, ds_Status = DeploymentStepStatusRunning, ds_ExitCode = None\<rparr>]\<rparr>)) ?w = (Dead, w2)"
    then show ?thesis unfolding eq unfolding bnd_def CreateDeploymentStep_def c using w w1(3) assms(1) by simp
  qed
qed

lemma runs_finish_step: "(\<And>k. P k \<Longrightarrow> R k) \<Longrightarrow> runs a R P (FinishDeploymentStep i s x) (\<lambda>_. P)"
  unfolding FinishDeploymentStep_def by (rule runs_exec) (auto simp: same_outside_def numbered_def key_def)

lemma runs_step:
  assumes "\<And>k. P k \<Longrightarrow> R k" "\<And>x k. Q x k \<Longrightarrow> R k" "runs a R P fn (\<lambda>cx k. fst cx \<in> {None, Some 0} \<and> Q (snd cx) k)"
  shows "runs a R P (deploy_step name fn) Q"
  unfolding deploy_step_def
proof (rule runs_open [OF assms(1)])
  fix i
  let ?S = "\<lambda>res k. case res of Inl _ \<Rightarrow> False | Inr cx \<Rightarrow> fst cx \<in> {None, Some 0} \<and> Q (snd cx) k"
  have "runs a R P (attempt fn) ?S" using assms(3) by (intro runs_attempt) simp
  then show "runs a R P (bnd (attempt fn) (\<lambda>res. case res of
         Inl x \<Rightarrow> seq (quietly (FinishDeploymentStep i DeploymentStepStatusFailed None)) (raise x)
       | Inr (code, x) \<Rightarrow>
           if code \<noteq> None \<and> code \<noteq> Some 0
           then seq (quietly (FinishDeploymentStep i DeploymentStepStatusFailed code)) (raise (ErrExitCode (the code)))
           else seq (quietly (FinishDeploymentStep i DeploymentStepStatusSucceeded code)) (ret x))) Q"
  proof (rule runs_bnd)
    fix res :: "deploy_error + int option \<times> 'a"
    show "runs a R (?S res) (case res of
         Inl x \<Rightarrow> seq (quietly (FinishDeploymentStep i DeploymentStepStatusFailed None)) (raise x)
       | Inr (code, x) \<Rightarrow>
           if code \<noteq> None \<and> code \<noteq> Some 0
           then seq (quietly (FinishDeploymentStep i DeploymentStepStatusFailed code)) (raise (ErrExitCode (the code)))
           else seq (quietly (FinishDeploymentStep i DeploymentStepStatusSucceeded code)) (ret x)) Q"
    proof (cases res)
      case (Inl e)
      then show ?thesis by (simp add: runs_def triple_def)
    next
      case (Inr cx)
      obtain c x where cx: "cx = (c, x)" by (cases cx)
      have "runs a R (Q x) (seq (quietly (FinishDeploymentStep i DeploymentStepStatusSucceeded c)) (ret x)) Q"
        using assms(2) by (intro runs_bnd [OF runs_quietly [OF runs_finish_step]] runs_ret) auto
      then show ?thesis unfolding Inr cx by (auto intro!: runs_const)
    qed
  qed
qed

lemma runs_plain_step:
  assumes "\<And>k. P k \<Longrightarrow> R k" "\<And>k. Q k \<Longrightarrow> R k" "runs a R P m (\<lambda>_. Q)"
  shows "runs a R P (deploy_step name (seq m no_command)) (\<lambda>_. Q)"
  using assms by (intro runs_step runs_bnd [OF assms(3)] runs_ret) auto

lemma next_seq_quietly: "bnd next_seq (\<lambda>n. quietly (m n)) = quietly (bnd next_seq m)"
  by (simp add: fun_eq_iff bnd_def quietly_def attempt_def next_seq_def here_def)

lemma runs_skip: "(\<And>k. P k \<Longrightarrow> R k) \<Longrightarrow> runs a R P (skipStep name) (\<lambda>_. P)"
  unfolding skipStep_def next_seq_quietly by (intro runs_quietly runs_open runs_finish_step)

lemma runs_record: "(\<And>k. P k \<Longrightarrow> R k) \<Longrightarrow> runs a R P record_inspection (\<lambda>_. P)"
  unfolding record_inspection_def next_seq_quietly by (intro runs_quietly runs_open runs_finish_step)

lemma runs_Outbox: "(\<And>k. P k \<Longrightarrow> R k) \<Longrightarrow> runs a R P (Outbox ev) (\<lambda>_. P)"
  unfolding Outbox_def by (intro runs_quietly runs_exec) (auto simp: same_outside_def numbered_def key_def)

lemma runs_silent_ask: "(\<And>k. P k \<Longrightarrow> R k) \<Longrightarrow> runs a R P (ask (\<lambda>e _. f e)) (\<lambda>_. P)"
  by (rule runs_weaken [OF runs_ask [of P R]]) auto

lemma runs_checkpoint:
  assumes "\<And>k. P k \<Longrightarrow> R k"
  shows "runs a R P checkpoint (\<lambda>_. P)"
  unfolding checkpoint_def
proof (rule runs_bnd)
  show "runs a R P (attempt (ask (\<lambda>e _. f_cancel e))) (\<lambda>x k. x = Inr False \<and> P k)"
    by (rule runs_attempt, rule runs_weaken [OF runs_ask [of P R]]) (use assms in \<open>auto simp: good_fate_def\<close>)
  show "runs a R (\<lambda>k. x = Inr False \<and> P k) (if x = Inr True then raise ErrCancelled else ret ()) (\<lambda>_. P)" for x
    by (rule runs_const) (simp add: runs_ret)
qed

section \<open>Transitions and routing\<close>

lemma runs_status_row:
  assumes "\<And>k. P k \<Longrightarrow> R k" "\<And>k. P k \<Longrightarrow> Q (k\<lparr>k_status := s\<rparr>)"
  shows "runs a R P (SetDeploymentStatus s) (\<lambda>_. Q)"
  unfolding SetDeploymentStatus_def using assms by (intro runs_exec) (auto simp: same_outside_def numbered_def)

lemma runs_await_start:
  assumes "\<And>k. P k \<Longrightarrow> R k" "\<And>k. P k \<Longrightarrow> k_status k = DeploymentStatusQueued \<and> Q (k\<lparr>k_status := DeploymentStatusPreparing\<rparr>)"
  shows "runs a R P (await_start (Suc n)) (\<lambda>_. Q)"
proof -
  have "runs a R P StartDeploymentUnlessCleanupRunning (\<lambda>x k. x \<and> Q k)"
    unfolding StartDeploymentUnlessCleanupRunning_def
  proof (rule runs_call [OF assms(1)])
    fix e w assume w: "numbered w" "good_fate (s_app a) (s_ip a) e" "P (key w)"
    with assms(2) [of "key w"]
    show "\<exists>x w'. (if dp_Status (w_row w) = DeploymentStatusQueued \<and> f_yes e
       then (Inr True, w\<lparr>w_row := (w_row w)\<lparr>dp_Status := DeploymentStatusPreparing\<rparr>\<rparr>) else (Inr False, w)) = (Inr x, w') \<and>
       (x \<and> Q (key w')) \<and> same_outside w w' \<and> numbered w'"
      by (auto simp: same_outside_def numbered_def good_fate_def)
  qed
  then show ?thesis by simp (rule runs_bnd, assumption, rule runs_const, simp add: runs_ret)
qed

lemma runs_setStatus:
  assumes "\<And>k. P k \<Longrightarrow> R k" "\<And>k. Q k \<Longrightarrow> R k" "\<And>k. P k \<Longrightarrow> Q (k\<lparr>k_status := s\<rparr>)" "r_waits r > 0"
    and "\<And>k. s = DeploymentStatusPreparing \<Longrightarrow> dp_Status (r_d r) = DeploymentStatusQueued \<Longrightarrow> P k \<Longrightarrow> k_status k = DeploymentStatusQueued"
  shows "runs a R P (setStatus r s) (\<lambda>_. Q)"
proof -
  obtain n where n: "r_waits r = Suc n" using assms(4) gr0_conv_Suc by blast
  have "runs a R P (if s = DeploymentStatusPreparing \<and> dp_Status (r_d r) = DeploymentStatusQueued then await_start (r_waits r) else SetDeploymentStatus s) (\<lambda>_. Q)"
    using assms by (auto simp del: await_start.simps simp: n intro!: runs_await_start runs_status_row)
  then show ?thesis unfolding setStatus_def
    by (rule runs_bnd) (auto intro!: runs_bnd [OF runs_Outbox] runs_Outbox runs_ret assms(2) split: option.split)
qed

text \<open>A run whose build, routing and bounds leave nothing to go wrong.\<close>

definition fine_run :: "deploymentRun \<Rightarrow> string \<Rightarrow> bool" where
  "fine_run r ip \<longleftrightarrow>
     (case r_preview r of Some p \<Rightarrow> pv_IsFork p \<longrightarrow> pv_ForkApproved p | None \<Rightarrow> True) \<and>
     r_BuildPack r \<in> {BuildPackImage, BuildPackDockerfile, BuildPackStatic, BuildPackNixpacks} \<and>
     r_dialed r = Inr () \<and> (\<exists>x. r_cloned r = Inr x) \<and> 
     (r_BuildPack r = BuildPackDockerfile \<and> \<not> r_git r \<longrightarrow> r_Dockerfile r \<notin> {None, Some []}) \<and> (r_UseBuildServer r \<longrightarrow> r_Registry r \<noteq> None) \<and> r_MemoryLimit r \<and> r_HealthCheck r \<and>
     (\<exists>c. r_content r [] = Inr c \<and> c \<noteq> []) \<and> (\<exists>c. r_content r ip = Inr c \<and> c \<noteq> []) \<and>
     r_waits r > 0 \<and> r_polls r > 0 \<and> r_verify r > 0 \<and> ip \<noteq> []"

lemma runs_silent_exec:
  assumes "\<And>k. P k \<Longrightarrow> R k" "\<And>w. same_outside w (f w) \<and> key (f w) = key w \<and> w_steps (f w) = w_steps w \<and> w_seq (f w) = w_seq w"
  shows "runs a R P (perform f) (\<lambda>_. P)"
  using assms by (intro runs_exec) (auto simp: numbered_def)

lemma runs_verify:
  assumes "\<And>k. P k \<Longrightarrow> R k" "content \<noteq> []" "expect = [] \<or> expect = ''http://'' @ s_ip a @ '':''"
  shows "runs a R P (verify (Suc n) (s_app a) content expect) (\<lambda>_. P)"
  unfolding verify.simps
proof (rule runs_bnd)
  let ?good = "\<lambda>e. good_fate (s_app a) (s_ip a) e"
  show "runs a R P (attempt (ask (\<lambda>e _. (f_code e, f_services e)))) (\<lambda>x k. (\<exists>e. ?good e \<and> x = Inr (f_code e, f_services e)) \<and> P k)"
    by (rule runs_attempt, rule runs_weaken [OF runs_ask [of P R]]) (use assms(1) in auto)
  show "runs a R (\<lambda>k. (\<exists>e. ?good e \<and> x = Inr (f_code e, f_services e)) \<and> P k)
    (case x of Inl _ \<Rightarrow> verify n (s_app a) content expect
       | Inr (code, out) \<Rightarrow>
           let present = ContainsStr out (s_app a) in
           if code = 0 \<and> (if content = [] then \<not> present else present \<and> (expect = [] \<or> ContainsStr out expect))
           then ret () else verify n (s_app a) content expect) (\<lambda>_. P)" for x
    using assms(2,3) by (intro runs_const) (auto simp: good_fate_def intro!: runs_ret)
qed

lemma runs_Apply:
  assumes "\<And>k. P k \<Longrightarrow> R k" "content \<noteq> []" "expect = [] \<or> expect = ''http://'' @ s_ip a @ '':''" "n > 0"
  shows "runs a R P (Apply n (s_app a) content expect) (\<lambda>_. P)"
proof -
  obtain m where n: "n = Suc m" using assms(4) gr0_conv_Suc by blast
  have c: "runs a R P (CreateProxyRevision (s_app a) content) (\<lambda>_. P)"
    unfolding CreateProxyRevision_def by (rule runs_call) (use assms(1) in \<open>auto simp: Let_def same_outside_def numbered_def key_def\<close>)
  have "runs a R P (quietly (ask (\<lambda>_ _. ()))) (\<lambda>_. P)"
    by (rule runs_quietly, rule runs_weaken [OF runs_ask [where P = P]]) (use assms(1) in auto)
  then have u: "runs a R P (upload content) (\<lambda>_. P)"
    unfolding upload_def if_not_P [OF assms(2)] by (rule runs_bnd) (rule runs_silent_exec, use assms(1) in \<open>auto simp: same_outside_def key_def\<close>)
  have mk: "runs a R P (mark_revision i s) (\<lambda>_. P)" for i s
    unfolding mark_revision_def by (rule runs_silent_exec) (use assms(1) in \<open>auto simp: same_outside_def key_def\<close>)
  have v: "runs a R P (attempt (seq (upload content) (verify n (s_app a) content expect))) (\<lambda>x k. x = Inr () \<and> P k)"
    unfolding n by (intro runs_attempt runs_bnd [OF u]) (use runs_weaken [OF runs_verify [OF assms(1-3)]] in auto)
  show ?thesis unfolding Apply_def
    by (rule runs_bnd [OF c], rule runs_bnd [OF v], rule runs_const) (simp add: mk)
qed

lemma runs_routing:
  assumes "\<And>k. P k \<Longrightarrow> R k" "fine_run r (s_ip a)" "namingIdentity r = s_app a" "endpoint = [] \<or> endpoint = s_ip a"
  shows "runs a R P (applyRoutingTo r endpoint) (\<lambda>_. P)"
proof -
  obtain c where c: "r_content r endpoint = Inr c" "c \<noteq> []" using assms(2,4) unfolding fine_run_def by metis
  have v: "r_verify r > 0" using assms(2) by (simp add: fine_run_def)
  let ?expect = "if c \<noteq> [] \<and> endpoint \<noteq> [] then ''http://'' @ endpoint @ '':'' else []"
  have "runs a R P (deploy_step name (seq (Apply (r_verify r) (namingIdentity r) c ?expect) no_command)) (\<lambda>_. P)" for name
    unfolding assms(3) by (intro runs_plain_step runs_Apply) (use assms(1,4) c v in auto)
  then have "runs a R P (bnd (call (\<lambda>_ w. (r_content r endpoint, w))) (\<lambda>content.
        deploy_step (if endpoint \<noteq> [] then ''switch_routing'' else ''apply_routing'')
          (seq (Apply (r_verify r) (namingIdentity r) content
             (if content \<noteq> [] \<and> endpoint \<noteq> [] then ''http://'' @ endpoint @ '':'' else []))
           no_command))) (\<lambda>_. P)"
    by (intro runs_bnd [OF runs_given [OF assms(1) c(1)]] runs_const) auto
  then show ?thesis unfolding applyRoutingTo_def by (auto intro: runs_ret)
qed

section \<open>The pipeline\<close>

definition switched :: "deploymentRun \<Rightarrow> boxes \<Rightarrow> bool" where
  "switched r b \<longleftrightarrow> b (candidateName r) = None \<and> (\<exists>c. b (namingIdentity r) = Some c \<and> c_deployment c = dp_Uuid (r_d r) \<and> c_up c)"

text \<open>What a death may leave behind.\<close>

definition left_behind :: "deploymentRun \<Rightarrow> key \<Rightarrow> bool" where
  "left_behind r k \<longleftrightarrow>
     k_status k \<notin> {DeploymentStatusFailed, DeploymentStatusCancelled, DeploymentStatusSuperseded} \<and>
     (k_status k \<in> {DeploymentStatusSwitching, DeploymentStatusFinishing} \<longrightarrow> switched r (k_boxes k) \<or> standing_by r (k_boxes k)) \<and>
     (k_status k = DeploymentStatusSucceeded \<longrightarrow> switched r (k_boxes k))"

definition early :: "DeploymentStatus \<Rightarrow> bool" where
  "early s \<longleftrightarrow> \<not> terminal s \<and> s \<noteq> DeploymentStatusSwitching \<and> s \<noteq> DeploymentStatusFinishing"

lemma left_behind_early: "early (k_status k) \<Longrightarrow> left_behind r k"
  by (auto simp: left_behind_def early_def terminal_def)

lemma left_behind_active: "\<not> terminal (k_status k) \<Longrightarrow> switched r (k_boxes k) \<or> standing_by r (k_boxes k) \<Longrightarrow> left_behind r k"
  by (auto simp: left_behind_def terminal_def)

lemma runs_hook:
  assumes "\<And>k. P k \<Longrightarrow> R k"
  shows "runs a R P (runHook name command n) (\<lambda>_. P)"
proof -
  have code: "runs a R P (bnd (ask (\<lambda>e _. f_code e)) (\<lambda>code. ret (Some code, ()))) (\<lambda>cx k. fst cx \<in> {None, Some 0} \<and> P k)"
    by (rule runs_bnd [OF runs_ask [of P R]]) (use assms in \<open>auto intro!: runs_ret simp: good_fate_def\<close>)
  have run: "runs a R P (deploy_step name (bnd (ask (\<lambda>e _. f_code e)) (\<lambda>code. ret (Some code, ())))) (\<lambda>_. P)"
    by (rule runs_step) (use assms code in auto)
  have look: "runs a R P (attempt (ContainerInspect n)) (\<lambda>x k. (\<forall>y. x = Inl y \<longrightarrow> y = ErrContainerNotFound) \<and> P k)"
    unfolding ContainerInspect_def by (rule runs_attempt_call) (use assms in \<open>auto simp: same_outside_def split: option.split\<close>)
  have "runs a R P (bnd (attempt (ContainerInspect n)) (\<lambda>res. case res of
             Inl x \<Rightarrow> if x = ErrContainerNotFound then skipStep name else raise x
           | Inr i \<Rightarrow> if \<not> i_running i then skipStep name
               else deploy_step name (bnd (ask (\<lambda>e _. f_code e)) (\<lambda>code. ret (Some code, ()))))) (\<lambda>_. P)"
    by (rule runs_bnd [OF look], rule runs_const) (use run runs_skip [OF assms] in \<open>auto split: sum.split\<close>)
  with run show ?thesis unfolding runHook_def Let_def
    by (auto intro!: runs_skip assms runs_bnd [OF runs_silent_ask])
qed

lemma runs_prepare:
  assumes "\<And>k. P k \<Longrightarrow> R k"
  shows "runs a R P prepare (\<lambda>_. P)"
proof -
  have code: "runs a R P (bnd (ask (\<lambda>e _. f_code e)) (\<lambda>code. ret (Some code, ()))) (\<lambda>cx k. fst cx \<in> {None, Some 0} \<and> P k)"
    by (rule runs_bnd [OF runs_ask [of P R]]) (use assms in \<open>auto intro!: runs_ret simp: good_fate_def\<close>)
  show ?thesis unfolding prepare_def
    by (intro runs_bnd [OF runs_silent_ask] runs_step code) (use assms in auto)
qed

lemma runs_connect:
  assumes "\<And>k. P k \<Longrightarrow> R k" "fine_run r (s_ip a)"
  shows "runs a R P (connect r) (\<lambda>_. P)"
proof -
  have h: "runs a R P (here (\<lambda>w. ((), w\<lparr>w_rt := True\<rparr>))) (\<lambda>_. P)"
    by (rule runs_here) (auto simp: same_outside_def numbered_def key_def)
  have "runs a R P (call (\<lambda>_ w. (r_dialed r, w))) (\<lambda>_. P)"
    using assms(2) by (intro runs_weaken [OF runs_given [OF assms(1)]]) (auto simp: fine_run_def)
  then show ?thesis unfolding connect_def
    by (intro runs_bnd [OF runs_silent_ask] runs_bnd [OF h]) (use assms(1) in \<open>auto intro!: runs_ret\<close>)
qed

lemma runs_set_image: "(\<And>k. P k \<Longrightarrow> R k) \<Longrightarrow> runs a R P (set_image name tag) (\<lambda>_. P)"
  unfolding set_image_def SetDeploymentImage_def
  by (intro runs_bnd [where S = "\<lambda>_. P"] runs_quietly runs_silent_exec runs_here) (auto simp: same_outside_def key_def numbered_def)

lemma runs_record_digest: "(\<And>k. P k \<Longrightarrow> R k) \<Longrightarrow> runs a R P (quietly (SetDeploymentImageDigest g)) (\<lambda>_. P)"
  unfolding SetDeploymentImageDigest_def by (intro runs_quietly runs_silent_exec) (auto simp: same_outside_def key_def)

lemma runs_keep_digest: "runs a R P (here (\<lambda>w. ((), w\<lparr>w_digest := g\<rparr>))) (\<lambda>_. P)"
  by (rule runs_here) (simp add: same_outside_def numbered_def key_def)

lemma runs_resolve_digest:
  assumes "\<And>k. P k \<Longrightarrow> R k"
  shows "runs a R P (resolve_digest f) (\<lambda>_. P)"
proof -
  have "runs a R P (bnd (ask (\<lambda>e _. f e)) (\<lambda>digest.
      if digest = [] then no_command
      else seq (here (\<lambda>w. ((), w\<lparr>w_digest := digest\<rparr>))) (seq (quietly (SetDeploymentImageDigest digest)) no_command)))
      (\<lambda>cx k. fst cx \<in> {None, Some 0} \<and> P k)"
    by (rule runs_bnd [OF runs_silent_ask])
      (use assms in \<open>auto intro!: runs_ret runs_bnd [OF runs_keep_digest] runs_bnd [OF runs_record_digest]\<close>)
  then show ?thesis unfolding resolve_digest_def by (intro runs_step) (use assms in auto)
qed

lemma runs_built: "(\<And>k. P k \<Longrightarrow> R k) \<Longrightarrow> runs a R P (built_image r tag) (\<lambda>_. P)"
  unfolding built_image_def resolveLocalDigest_def Let_def
  by (intro runs_bnd [OF runs_set_image] runs_bnd [OF runs_resolve_digest] runs_ret) auto

lemma runs_one_call: "(\<And>k. P k \<Longrightarrow> R k) \<Longrightarrow> runs a R P (deploy_step name (seq (ask (\<lambda>_ _. ())) no_command)) (\<lambda>_. P)"
  by (intro runs_plain_step runs_silent_ask) auto

lemma pushedDigest_some: "ds \<noteq> [] \<Longrightarrow> [] \<notin> set ds \<Longrightarrow> pushedDigest ds repo \<noteq> []"
  unfolding pushedDigest_def by (auto split: list.split dest: filter_eq_ConsD)

lemma runs_push:
  assumes "\<And>k. P k \<Longrightarrow> R k" "r_Registry r \<noteq> None"
  shows "runs a R P (pushBuiltImage r) (\<lambda>_. P)"
proof -
  obtain url where url: "r_Registry r = Some url" using assms(2) by blast
  have image: "runs a R P (here (\<lambda>w. (w_image w, w))) (\<lambda>_. P)" by (rule runs_here) (simp add: same_outside_def)
  have "runs a R P (bnd (ask (\<lambda>e _. pushedDigest (f_digests e) repo)) (\<lambda>digest. if digest = [] then raise ErrNoDigest else ret (None, digest)))
      (\<lambda>cx k. fst cx \<in> {None, Some 0} \<and> P k)" for repo
  proof (rule runs_bnd [OF runs_ask [of P R]], rule assms(1), assumption, rule runs_const)
    fix x assume "\<exists>e. good_fate (s_app a) (s_ip a) e \<and> x = pushedDigest (f_digests e) repo"
    then have "x \<noteq> []" using pushedDigest_some by (auto simp: good_fate_def)
    then show "runs a R P (if x = [] then raise ErrNoDigest else ret (None, x)) (\<lambda>cx k. fst cx \<in> {None, Some 0} \<and> P k)" by (simp add: runs_ret)
  qed
  then have digest: "runs a R P (deploy_step name (bnd (ask (\<lambda>e _. pushedDigest (f_digests e) repo)) (\<lambda>digest.
      if digest = [] then raise ErrNoDigest else ret (None, digest)))) (\<lambda>_. P)" for name repo
    by (intro runs_step) (use assms(1) in auto)
  have push: "runs a R P (deploy_step name (seq (ask (\<lambda>_ _. ())) (seq (ask (\<lambda>_ _. ())) no_command))) (\<lambda>_. P)" for name
    by (intro runs_step runs_bnd [OF runs_silent_ask] runs_ret) (use assms(1) in auto)
  show ?thesis unfolding pushBuiltImage_def url option.case
    by (intro runs_bnd [OF runs_silent_ask] runs_bnd [OF image])
      (auto intro!: runs_bnd [OF push] runs_bnd [OF digest] runs_bnd [OF runs_one_call] runs_bnd [OF runs_keep_digest] runs_bnd [OF runs_set_image]
        runs_bnd [OF runs_record_digest] runs_ret assms(1) split: prod.split)
qed

lemma runs_build:
  assumes "\<And>k. P k \<Longrightarrow> R k" "fine_run r (s_ip a)"
  shows "runs a R P (build_phase r) (\<lambda>_. P)"
proof -
  have cloned: "runs a R P (call (\<lambda>_ w. (r_cloned r, w))) (\<lambda>_. P)"
    using assms(2) by (auto intro!: runs_weaken [OF runs_given [OF assms(1)]] simp: fine_run_def)
  have ref: "runs a R P (here (\<lambda>w. (if w_digest w = [] then g else w_digest w, w))) (\<lambda>_. P)" for g
    by (rule runs_here) (simp add: same_outside_def)
  have "runs a R P (bnd (ask (\<lambda>e _. f_yes e)) (\<lambda>present. if present then no_command else raise ErrImageMissing)) (\<lambda>cx k. fst cx \<in> {None, Some 0} \<and> P k)"
    by (rule runs_bnd [OF runs_ask [of P R]]) (use assms(1) in \<open>auto intro!: runs_const runs_ret simp: good_fate_def\<close>)
  then have verify: "runs a R P (verify_artifact r) (\<lambda>_. P)"
    unfolding verify_artifact_def by (intro runs_bnd [OF runs_skip] runs_bnd [OF runs_step [where Q = "\<lambda>_. P"]] runs_ret) (use assms(1) in auto)
  have pull: "runs a R P (pull_image r) (\<lambda>_. P)" unfolding pull_image_def Let_def
    by (intro runs_bnd [OF runs_skip] runs_bnd [OF runs_silent_ask] runs_bnd [OF runs_one_call] runs_bnd [OF runs_resolve_digest] ref) (use assms(1) in auto)
  have inline: "runs a R P (buildFromDockerfile r) (\<lambda>_. P)" if "r_BuildPack r = BuildPackDockerfile" "\<not> r_git r"
    unfolding buildFromDockerfile_def using assms(2) that
    by (intro runs_bnd [OF runs_skip]) (auto simp: fine_run_def intro!: assms(1) runs_bnd [OF runs_silent_ask] runs_bnd [OF runs_one_call] runs_built)
  have git: "runs a R P (bnd (call (\<lambda>_ w. (r_cloned r, w))) (built_image r)) (\<lambda>_. P)"
    by (rule runs_bnd [OF cloned runs_built [OF assms(1)]])
  have push: "runs a R P (pushBuiltImage r) (\<lambda>_. P)" if "r_UseBuildServer r"
    by (rule runs_push) (use assms that in \<open>auto simp: fine_run_def\<close>)
  have b: "runs a R P (if reusesArtifact r then verify_artifact r
          else if r_BuildPack r = BuildPackImage then pull_image r
          else if r_BuildPack r = BuildPackDockerfile \<and> \<not> r_git r then buildFromDockerfile r
          else if r_BuildPack r \<in> {BuildPackDockerfile, BuildPackStatic, BuildPackNixpacks} then bnd (call (\<lambda>_ w. (r_cloned r, w))) (built_image r)
          else raise ErrBuildPack) (\<lambda>_. P)"
    using assms(2) verify pull inline git by (auto simp: fine_run_def)
  have p: "runs a R P (if r_UseBuildServer r \<and> r_BuildPack r \<noteq> BuildPackImage \<and> \<not> reusesArtifact r then pushBuiltImage r
      else seq (skipStep ''push'') (ret ref)) (\<lambda>_. P)" for ref
    using assms(1) by (auto intro!: push runs_bnd [OF runs_skip] runs_ret)
  have c: "runs a R P (seq (if reusesArtifact r then ret () else quietly (ask (\<lambda>_ _. ()))) (ret x)) (\<lambda>_. P)" for x :: string
    using assms(1) by (intro runs_bnd [where S = "\<lambda>_. P"]) (auto intro!: runs_ret runs_quietly runs_silent_ask)
  show ?thesis unfolding build_phase_def by (rule runs_bnd [OF b runs_bnd [OF p c]])
qed

lemma runs_health:
  assumes "\<And>k. P k \<Longrightarrow> R k"
  shows "runs a R P (healthConfig r) (\<lambda>x k. x = r_HealthCheck r \<and> P k)"
  unfolding healthConfig_def
proof (rule runs_bnd)
  show "runs a R P (attempt (ask (\<lambda>_ _. r_HealthCheck r))) (\<lambda>x k. x = Inr (r_HealthCheck r) \<and> P k)"
    by (rule runs_attempt, rule runs_weaken [OF runs_ask [of P R]]) (use assms in auto)
qed (auto intro!: runs_const runs_ret)

lemma runs_start_candidate:
  assumes "\<And>k. k_status k = s \<Longrightarrow> R k"
  shows "runs a R (\<lambda>k. k_status k = s) (start_candidate r True (candidateName r) ref) (\<lambda>_ k. k_status k = s \<and> standing_by r (k_boxes k))"
proof -
  let ?c = "\<lparr>c_image = ref, c_deployment = dp_Uuid (r_d r), c_up = False\<rparr>"
  have rm: "runs a R (\<lambda>k. k_status k = s) (removeNamedContainers (candidateName r)) (\<lambda>_ k. k_status k = s \<and> k_boxes k (candidateName r) = None)"
    by (rule runs_remove) (use assms in auto)
  have cr: "runs a R (\<lambda>k. k_status k = s \<and> k_boxes k (candidateName r) = None) (docker (ContainerCreate (candidateName r) ?c))
      (\<lambda>_ k. k_status k = s \<and> k_boxes k (candidateName r) = Some ?c)"
    by (rule runs_docker) (use assms in auto)
  have st: "runs a R (\<lambda>k. k_status k = s \<and> k_boxes k (candidateName r) = Some ?c) (docker (ContainerStart (candidateName r)))
      (\<lambda>_ k. k_status k = s \<and> standing_by r (k_boxes k))"
    by (rule runs_docker) (use assms in \<open>auto simp: standing_by_def\<close>)
  have "runs a R (\<lambda>k. k_status k = s) (seq (ret ()) (seq (removeNamedContainers (candidateName r)) (seq (docker (ContainerCreate (candidateName r) ?c))
      (seq (docker (ContainerStart (candidateName r))) no_command)))) (\<lambda>cx k. fst cx \<in> {None, Some 0} \<and> k_status k = s \<and> standing_by r (k_boxes k))"
    by (rule runs_bnd [OF runs_ret [where Q = "\<lambda>_ k. k_status k = s"]], assumption,
        intro runs_bnd [OF rm] runs_bnd [OF cr] runs_bnd [OF st] runs_ret) simp
  then show ?thesis unfolding start_candidate_def if_True using assms by (intro runs_step) auto
qed

lemma runs_healthcheck:
  assumes "\<And>k. P k \<Longrightarrow> R k" "\<And>k. P k \<Longrightarrow> standing_by r (k_boxes k)" "fine_run r (s_ip a)"
  shows "runs a R P (healthcheck_step r (candidateName r) True) (\<lambda>_. P)"
proof -
  obtain n where n: "r_polls r = Suc n" using assms(3) gr0_conv_Suc by (auto simp: fine_run_def)
  have look: "runs a R P (attempt (ContainerInspect (candidateName r))) (\<lambda>x k. (\<exists>i. x = Inr i \<and> i_health i \<in> {None, Some ''healthy''}) \<and> P k)"
    by (rule runs_attempt, rule runs_weaken [OF runs_inspect [of P R "candidateName r"]]) (use assms(1,2) in \<open>auto simp: standing_by_def\<close>)
  have "runs a R P (awaitCandidate r (candidateName r) True) (\<lambda>x k. x \<and> P k)"
    unfolding awaitCandidate_def n by simp (rule runs_bnd [OF look], auto intro!: runs_const runs_ret)
  then show ?thesis unfolding healthcheck_step_def
    by (intro runs_step [OF assms(1) assms(1)] runs_bnd) (auto intro!: runs_const runs_ret)
qed

lemma runs_promote:
  assumes "\<And>k. k_status k = s \<Longrightarrow> switched r (k_boxes k) \<or> standing_by r (k_boxes k) \<Longrightarrow> R k"
  shows "runs a R (\<lambda>k. k_status k = s \<and> standing_by r (k_boxes k)) (promoteCandidate (namingIdentity r) (candidateName r) (namingIdentity r))
    (\<lambda>_ k. k_status k = s \<and> switched r (k_boxes k))"
proof -
  let ?P = "\<lambda>k. k_status k = s \<and> standing_by r (k_boxes k)"
  have st: "runs a R ?P (quietly (docker (ContainerStop (namingIdentity r)))) (\<lambda>_. ?P)"
    unfolding quietly_def
    by (rule runs_bnd [OF runs_attempt_docker [where Q = "\<lambda>_. ?P"]]) (use assms in \<open>auto simp: standing_by_def intro!: runs_ret split: option.split\<close>)
  have rm: "runs a R ?P (quietly (removeNamedContainers (namingIdentity r))) (\<lambda>_ k. ?P k \<and> k_boxes k (namingIdentity r) = None)"
    by (rule runs_quietly, rule runs_remove) (use assms in \<open>auto simp: standing_by_def\<close>)
  have rn: "runs a R (\<lambda>k. ?P k \<and> k_boxes k (namingIdentity r) = None) (docker (ContainerRename (candidateName r) (namingIdentity r)))
      (\<lambda>_ k. k_status k = s \<and> switched r (k_boxes k))"
    by (rule runs_docker) (use assms in \<open>auto simp: standing_by_def switched_def\<close>)
  show ?thesis unfolding promoteCandidate_def by (intro runs_bnd [OF st] runs_bnd [OF rm] rn)
qed

lemma runs_artifacts:
  assumes "\<And>k. P k \<Longrightarrow> R k"
  shows "runs a R P (recordArtifact r) (\<lambda>_. P)" "runs a R P (pruneOldImages r) (\<lambda>_. P)"
proof -
  have here: "runs a R P (here (\<lambda>w. (f w, w))) (\<lambda>_. P)" for f :: "world \<Rightarrow> 'x" by (rule runs_here) (simp add: same_outside_def)
  have create: "runs a R P (CreateDeploymentArtifact i kind name tag digest) (\<lambda>_. P)" for i kind name tag digest
    unfolding CreateDeploymentArtifact_def by (rule runs_silent_exec) (use assms in \<open>auto simp: same_outside_def key_def\<close>)
  show "runs a R P (recordArtifact r) (\<lambda>_. P)" unfolding recordArtifact_def
    by (rule runs_bnd [OF here]) (auto split: prod.split intro!: runs_ret runs_quietly create)
  have drop: "runs a R P (DeleteDeploymentArtifact i) (\<lambda>_. P)" and remove: "runs a R P (ImageRemove name) (\<lambda>_. P)" for i name
    unfolding DeleteDeploymentArtifact_def ImageRemove_def by (rule runs_silent_exec, use assms in \<open>auto simp: same_outside_def key_def\<close>)+
  have reclaim: "runs a R P (reclaim arts) (\<lambda>_. P)" for arts
    by (induction arts) (auto intro!: runs_ret runs_bnd [OF runs_quietly [OF drop]] runs_bnd [OF runs_quietly [OF remove]] runs_bnd [OF runs_ret [where Q = "\<lambda>_. P"]])
  have ask: "runs a R P (attempt (ask f)) (\<lambda>_. P)" for f :: "fate \<Rightarrow> world \<Rightarrow> 'x"
    unfolding ask_def by (rule runs_attempt, rule runs_call) (use assms in \<open>auto simp: same_outside_def\<close>)
  show "runs a R P (pruneOldImages r) (\<lambda>_. P)" unfolding pruneOldImages_def ListAppArtifactsOnServer_def Let_def
    by (rule runs_bnd [OF here]) (auto intro!: runs_ret runs_bnd [OF ask] reclaim split: sum.split)
qed

lemma runs_finish:
  assumes "\<not> terminal s" "fine_run r (s_ip a)" "r_adoption r = None"
  shows "runs a (left_behind r) (\<lambda>k. k_status k = s \<and> switched r (k_boxes k)) (finish r)
    (\<lambda>_ k. k_status k = DeploymentStatusSucceeded \<and> switched r (k_boxes k))"
proof -
  let ?F = "\<lambda>k. k_status k = DeploymentStatusFinishing \<and> switched r (k_boxes k)"
  have act: "left_behind r k" if "\<not> terminal (k_status k)" "switched r (k_boxes k)" for k using that by (intro left_behind_active) auto
  have w: "r_waits r > 0" using assms(2) by (simp add: fine_run_def)
  have 1: "runs a (left_behind r) (\<lambda>k. k_status k = s \<and> switched r (k_boxes k)) (setStatus r DeploymentStatusFinishing) (\<lambda>_. ?F)"
    by (rule runs_setStatus) (use act assms(1) w in \<open>auto simp: terminal_def\<close>)
  have F: "?F k \<Longrightarrow> left_behind r k" for k using act by (simp add: terminal_def)
  have 2: "runs a (left_behind r) ?F (quietly (perform (\<lambda>w. w\<lparr>w_observed := x\<rparr>))) (\<lambda>_. ?F)"
    "runs a (left_behind r) ?F (quietly (perform (\<lambda>w. w\<lparr>w_desired := x\<rparr>))) (\<lambda>_. ?F)"
    "runs a (left_behind r) ?F (quietly (perform (\<lambda>w. w\<lparr>w_preview := x\<rparr>))) (\<lambda>_. ?F)" for x
    by (rule runs_quietly, rule runs_silent_exec, use F in \<open>auto simp: same_outside_def key_def\<close>)+
  have 4: "runs a (left_behind r) ?F (if r_preview r = None then ret () else
      seq (quietly (perform (\<lambda>w. w\<lparr>w_preview := x\<rparr>))) (quietly (ask (\<lambda>_ _. ())))) (\<lambda>_. ?F)" for x
    using F by (auto intro!: runs_ret runs_bnd [OF 2(3)] runs_quietly runs_silent_ask)
  have 3: "runs a (left_behind r) ?F (setStatus r DeploymentStatusSucceeded) (\<lambda>_ k. k_status k = DeploymentStatusSucceeded \<and> switched r (k_boxes k))"
    by (rule runs_setStatus) (use act w in \<open>auto simp: terminal_def left_behind_def\<close>)
  have n: "\<not> (r_preview r = None \<and> ParsePointer (r_adoption r) \<noteq> None)" using assms(3) by (simp add: ParsePointer_def)
  show ?thesis unfolding finish_def if_not_P [OF n]
    by (rule runs_bnd [OF 1], rule runs_bnd [OF 2(2)], rule runs_bnd [OF 2(1)], rule runs_bnd [OF runs_ret [where Q = "\<lambda>_. ?F"]], assumption,
        rule runs_bnd [OF runs_artifacts(1) [OF F]], assumption, rule runs_bnd [OF runs_artifacts(2) [OF F]], assumption, rule runs_bnd [OF 4], rule 3)
qed

lemma runs_tail:
  assumes "\<not> terminal s" "fine_run r (s_ip a)" "r_adoption r = None" "namingIdentity r = s_app a"
  shows "runs a (left_behind r) (\<lambda>k. k_status k = s \<and> switched r (k_boxes k)) (seq (applyRoutingTo r []) (finish r))
    (\<lambda>_ k. k_status k = DeploymentStatusSucceeded \<and> switched r (k_boxes k))"
  using assms by (intro runs_bnd [OF runs_routing] runs_finish) (auto intro!: left_behind_active)

text \<open>The state in which a restarted attempt gives up: the old container was stopped and not removed.\<close>

definition half_stopped :: "deploymentRun \<Rightarrow> key \<Rightarrow> bool" where
  "half_stopped r k \<longleftrightarrow>
     k_status k \<in> {DeploymentStatusSwitching, DeploymentStatusFinishing} \<and> (\<exists>c. k_boxes k (namingIdentity r) = Some c \<and> \<not> c_up c)"

lemma runs_resume:
  assumes "fine_run r (s_ip a)" "r_adoption r = None" "namingIdentity r = s_app a"
    and "dp_Status (r_d r) \<in> {DeploymentStatusSwitching, DeploymentStatusFinishing}"
  shows "runs a (left_behind r)
    (\<lambda>k. k_status k = DeploymentStatusPreparing \<and> (switched r (k_boxes k) \<or> standing_by r (k_boxes k) \<and> state_of (k_boxes k) (namingIdentity r) \<noteq> ''exited''))
    (resume r) (\<lambda>x k. x \<and> k_status k = DeploymentStatusSucceeded \<and> switched r (k_boxes k))"
proof -
  let ?S = "\<lambda>k. k_status k = DeploymentStatusPreparing" and ?app = "namingIdentity r"
  let ?P = "\<lambda>k. ?S k \<and> (switched r (k_boxes k) \<or> standing_by r (k_boxes k) \<and> state_of (k_boxes k) ?app \<noteq> ''exited'')"
  let ?Q = "\<lambda>x k. x \<and> k_status k = DeploymentStatusSucceeded \<and> switched r (k_boxes k)"
  have lb: "?S k \<Longrightarrow> left_behind r k" for k by (rule left_behind_early) (simp add: early_def terminal_def)
  have old: "oldName r = ?app" using assms(2) by (simp add: oldName_def ContainerName_def ParsePointer_def split: option.split)
  have "\<not> terminal DeploymentStatusPreparing" by (simp add: terminal_def)
  note tail = runs_tail [OF this assms(1-3)]
  have tl: "runs a (left_behind r) (\<lambda>k. ?S k \<and> switched r (k_boxes k)) (seq (applyRoutingTo r []) (seq (finish r) (ret True))) ?Q"
    using runs_bnd [OF tail runs_ret [of _ ?Q True]] by (simp add: bnd_assoc)
  have rename: "runs a (left_behind r) (\<lambda>k. ?S k \<and> standing_by r (k_boxes k) \<and> k_boxes k ?app = None)
      (deploy_step ''switch'' (seq (docker (ContainerRename (candidateName r) ?app)) no_command)) (\<lambda>_ k. ?S k \<and> switched r (k_boxes k))"
    by (intro runs_plain_step runs_docker) (use lb in \<open>auto simp: standing_by_def switched_def\<close>)
  have promote: "runs a (left_behind r) (\<lambda>k. ?S k \<and> standing_by r (k_boxes k))
      (deploy_step ''switch'' (seq (promoteCandidate ?app (candidateName r) ?app) no_command)) (\<lambda>_ k. ?S k \<and> switched r (k_boxes k))"
    by (intro runs_plain_step runs_promote) (use lb in auto)
  have s: "runs a (left_behind r) ?P (containerState n) (\<lambda>x k. x = state_of (k_boxes k) n \<and> ?P k)" for n
    by (rule runs_weaken [OF runs_containerState [of ?P]]) (use lb in auto)
  have s2: "runs a (left_behind r) (\<lambda>k. x = state_of (k_boxes k) ?app \<and> ?P k) (containerState (candidateName r))
      (\<lambda>y k. y = state_of (k_boxes k) (candidateName r) \<and> x = state_of (k_boxes k) ?app \<and> ?P k)" for x
    by (rule runs_weaken [OF runs_containerState [of "\<lambda>k. x = state_of (k_boxes k) ?app \<and> ?P k"]]) (use lb in auto)
  have "runs a (left_behind r) (\<lambda>k. y = state_of (k_boxes k) (candidateName r) \<and> x = state_of (k_boxes k) ?app \<and> ?P k)
     (if y = ''absent'' \<and> x = ''running'' then seq (applyRoutingTo r []) (seq (finish r) (ret True))
      else if y = ''running'' \<and> x = ''absent''
      then seq (deploy_step ''switch'' (seq (docker (ContainerRename (candidateName r) ?app)) no_command))
        (seq (applyRoutingTo r []) (seq (finish r) (ret True)))
      else if y = ''running'' \<and> x = ''running''
      then seq (deploy_step ''switch'' (seq (promoteCandidate ?app (candidateName r) ?app) no_command)) (seq (applyRoutingTo r []) (seq (finish r) (ret True)))
      else raise (ErrUnusable x y)) ?Q" for x y
  proof -
    let ?pre = "\<lambda>k :: key. y = state_of (k_boxes k) (candidateName r) \<and> x = state_of (k_boxes k) ?app \<and> ?P k"
    have "y = ''absent'' \<and> x = ''running'' \<or> y = ''running'' \<and> x = ''absent'' \<or> y = ''running'' \<and> x = ''running''" if "?pre k" for k
      using that by (auto simp: state_of_def standing_by_def switched_def split: option.splits if_splits)
    then consider "y = ''absent''" "x = ''running''" | "y = ''running''" "x = ''absent''" | "y = ''running''" "x = ''running''"
      | "\<forall>k :: key. \<not> ?pre k" by blast
    then show ?thesis
    proof cases
      case 1
      then show ?thesis by simp (rule runs_weaken [OF tl], auto simp: state_of_def standing_by_def split: option.splits if_splits)
    next
      case 2
      then show ?thesis by simp (rule runs_bnd [OF runs_weaken [OF rename] tl], auto simp: state_of_def switched_def split: option.splits if_splits)
    next
      case 3
      then show ?thesis by simp (rule runs_bnd [OF runs_weaken [OF promote] tl], auto simp: state_of_def switched_def split: option.splits if_splits)
    next
      case 4
      then show ?thesis by (rule runs_none)
    qed
  qed
  then have "runs a (left_behind r) ?P (bnd (containerState ?app) (\<lambda>x. bnd (containerState (candidateName r)) (\<lambda>y. seq record_inspection
     (if y = ''absent'' \<and> x = ''running'' then seq (applyRoutingTo r []) (seq (finish r) (ret True))
      else if y = ''running'' \<and> x = ''absent''
      then seq (deploy_step ''switch'' (seq (docker (ContainerRename (candidateName r) ?app)) no_command))
        (seq (applyRoutingTo r []) (seq (finish r) (ret True)))
      else if y = ''running'' \<and> x = ''running''
      then seq (deploy_step ''switch'' (seq (promoteCandidate ?app (candidateName r) ?app) no_command)) (seq (applyRoutingTo r []) (seq (finish r) (ret True)))
      else raise (ErrUnusable x y))))) ?Q"
    by (intro runs_bnd [OF s] runs_bnd [OF s2] runs_bnd [OF runs_record]) (use lb in auto)
  then show ?thesis using assms(4) unfolding resume_def old by auto
qed

lemma runs_switch:
  assumes "fine_run r (s_ip a)" "r_adoption r = None" "namingIdentity r = s_app a"
  shows "runs a (left_behind r) (\<lambda>k. k_status k = DeploymentStatusSwitching \<and> standing_by r (k_boxes k)) (switch_phase r True)
    (\<lambda>_ k. k_status k = DeploymentStatusSwitching \<and> switched r (k_boxes k))"
proof -
  let ?P = "\<lambda>k. k_status k = DeploymentStatusSwitching \<and> standing_by r (k_boxes k)"
  have lb: "k_status k = DeploymentStatusSwitching \<Longrightarrow> switched r (k_boxes k) \<or> standing_by r (k_boxes k) \<Longrightarrow> left_behind r k" for k
    by (rule left_behind_active) (simp_all add: terminal_def)
  have old: "oldName r = namingIdentity r" using assms(2) by (simp add: oldName_def ContainerName_def ParsePointer_def split: option.split)
  have i: "runs a (left_behind r) ?P (ContainerInspect (candidateName r)) (\<lambda>i k. i_address i = s_ip a \<and> ?P k)"
    by (rule runs_weaken [OF runs_inspect [of ?P "left_behind r" "candidateName r"]]) (use lb in \<open>auto simp: standing_by_def\<close>)
  have ip: "s_ip a \<noteq> []" using assms(1) by (simp add: fine_run_def)
  have b: "runs a (left_behind r) ?P (bnd (ContainerInspect (candidateName r)) (\<lambda>i. if i_address i = [] then raise ErrNoAddress else ret (None, i_address i)))
      (\<lambda>cx k. fst cx \<in> {None, Some 0} \<and> snd cx = s_ip a \<and> ?P k)"
    by (rule runs_bnd [OF i], rule runs_const) (use ip in \<open>simp add: runs_ret\<close>)
  have e: "runs a (left_behind r) ?P (resolve_endpoint r) (\<lambda>x k. x = s_ip a \<and> ?P k)"
    unfolding resolve_endpoint_def by (rule runs_step [OF _ _ b]) (use lb in auto)
  have p: "runs a (left_behind r) ?P (deploy_step ''switch'' (seq (promoteCandidate (namingIdentity r) (candidateName r) (namingIdentity r)) no_command))
      (\<lambda>_ k. k_status k = DeploymentStatusSwitching \<and> switched r (k_boxes k))"
    by (intro runs_plain_step runs_promote) (use lb in auto)
  have route: "runs a (left_behind r) ?P (applyRoutingTo r (s_ip a)) (\<lambda>_. ?P)"
    by (rule runs_routing) (use lb assms in auto)
  show ?thesis unfolding switch_phase_def old if_True
    by (rule runs_bnd [OF e], rule runs_const, simp only:, rule runs_bnd [OF route], rule p)
qed

lemma runs_rest:
  assumes "fine_run r (s_ip a)" "r_adoption r = None" "namingIdentity r = s_app a"
  shows "runs a (left_behind r) (\<lambda>k. k_status k = DeploymentStatusPreparing) (deploy_rest r)
    (\<lambda>_ k. k_status k = DeploymentStatusSucceeded \<and> switched r (k_boxes k))"
proof -
  let ?R = "left_behind r"
  let ?E = "\<lambda>s k. k_status k = s" and ?C = "\<lambda>s k. k_status k = s \<and> standing_by r (k_boxes k)"
  have fine: "r_waits r > 0" "r_MemoryLimit r" "r_HealthCheck r" using assms(1) by (auto simp: fine_run_def)
  have e: "early s \<Longrightarrow> ?E s k \<Longrightarrow> ?R k" for s k using left_behind_early by blast
  have es: "early DeploymentStatusPreparing" "early DeploymentStatusBuilding" "early DeploymentStatusStarting" "early DeploymentStatusHealthchecking"
    by (simp_all add: early_def terminal_def)
  have c: "\<not> terminal s \<Longrightarrow> ?C s k \<Longrightarrow> ?R k" for s k using left_behind_active by blast
  have cs: "\<not> terminal DeploymentStatusStarting" "\<not> terminal DeploymentStatusHealthchecking" "\<not> terminal DeploymentStatusSwitching"
    by (simp_all add: terminal_def)
  have s1: "runs a ?R (?E DeploymentStatusPreparing) (setStatus r DeploymentStatusBuilding) (\<lambda>_. ?E DeploymentStatusBuilding)"
    by (rule runs_setStatus) (use e es fine in auto)
  have s2: "runs a ?R (?E DeploymentStatusBuilding) (setStatus r DeploymentStatusStarting) (\<lambda>_. ?E DeploymentStatusStarting)"
    by (rule runs_setStatus) (use e es fine in auto)
  have s3: "runs a ?R (?C DeploymentStatusStarting) (setStatus r DeploymentStatusHealthchecking) (\<lambda>_. ?C DeploymentStatusHealthchecking)"
    by (rule runs_setStatus) (use c cs fine in auto)
  have s4: "runs a ?R (?C DeploymentStatusHealthchecking) (setStatus r DeploymentStatusSwitching) (\<lambda>_. ?C DeploymentStatusSwitching)"
    by (rule runs_setStatus) (use c cs fine in auto)
  have h: "runs a ?R (?E DeploymentStatusStarting) (here (\<lambda>w. ((), w\<lparr>w_rolling := b\<rparr>))) (\<lambda>_. ?E DeploymentStatusStarting)" for b
    by (rule runs_here) (auto simp: same_outside_def numbered_def key_def)
  have m: "runs a ?R (?E DeploymentStatusStarting) (if r_MemoryLimit r then ret () else raise ErrMemoryLimit) (\<lambda>_. ?E DeploymentStatusStarting)"
    using fine by (simp add: runs_ret)
  have "runs a ?R (?E DeploymentStatusStarting)
     (seq (here (\<lambda>w. ((), w\<lparr>w_rolling := True\<rparr>)))
    (seq (start_candidate r True (candidateName r) ref)
    (seq checkpoint
    (seq (setStatus r DeploymentStatusHealthchecking)
    (seq (healthcheck_step r (candidateName r) True)
    (seq (runHook ''post_deployment'' (r_PostDeploymentCommand r) (candidateName r))
    (seq checkpoint
    (seq (setStatus r DeploymentStatusSwitching)
    (seq (switch_phase r True)
    (seq (applyRoutingTo r []) (finish r)))))))))))
    (\<lambda>_ k. k_status k = DeploymentStatusSucceeded \<and> switched r (k_boxes k))" for ref
    by (intro runs_bnd [OF h] runs_bnd [OF runs_start_candidate] runs_bnd [OF runs_checkpoint] runs_bnd [OF s3] runs_bnd [OF runs_healthcheck]
        runs_bnd [OF runs_hook] runs_bnd [OF s4] runs_bnd [OF runs_switch] runs_tail)
      (use e es c cs assms in auto)
  then have "runs a ?R (\<lambda>k. rolling = r_HealthCheck r \<and> ?E DeploymentStatusStarting k)
     (seq (here (\<lambda>w. ((), w\<lparr>w_rolling := rolling\<rparr>)))
    (let target = (if rolling then candidateName r else namingIdentity r) in
     seq (start_candidate r rolling target ref)
    (seq checkpoint
    (seq (setStatus r DeploymentStatusHealthchecking)
    (seq (healthcheck_step r target rolling)
    (seq (runHook ''post_deployment'' (r_PostDeploymentCommand r) target)
    (seq checkpoint
    (seq (setStatus r DeploymentStatusSwitching)
    (seq (switch_phase r rolling)
    (seq (applyRoutingTo r []) (finish r)))))))))))
    (\<lambda>_ k. k_status k = DeploymentStatusSucceeded \<and> switched r (k_boxes k))" for ref rolling
    using fine by (intro runs_const) (simp add: Let_def)
  then show ?thesis unfolding deploy_rest_def
    by (intro runs_bnd [OF runs_prepare] runs_bnd [OF runs_hook] runs_bnd [OF runs_checkpoint] runs_bnd [OF s1] runs_bnd [OF runs_build] runs_bnd [OF s2]
        runs_bnd [OF m] runs_bnd [OF runs_silent_ask] runs_bnd [OF runs_health])
      (use e es assms in auto)
qed

lemma runs_execute:
  assumes "fine_run r (s_ip a)" "r_adoption r = None" "namingIdentity r = s_app a" "\<not> terminal (dp_Status (r_d r))"
  shows "runs a (left_behind r) (\<lambda>k. k_status k = dp_Status (r_d r) \<and> left_behind r k \<and> \<not> half_stopped r k) (deploy_execute r)
    (\<lambda>_ k. k_status k = DeploymentStatusSucceeded \<and> switched r (k_boxes k))"
proof -
  let ?R = "left_behind r" and ?again = "dp_Status (r_d r) \<in> {DeploymentStatusSwitching, DeploymentStatusFinishing}"
  let ?P = "\<lambda>k. k_status k = dp_Status (r_d r) \<and> ?R k \<and> \<not> half_stopped r k"
  let ?B = "\<lambda>k. k_status k = DeploymentStatusPreparing \<and>
      (?again \<longrightarrow> switched r (k_boxes k) \<or> standing_by r (k_boxes k) \<and> state_of (k_boxes k) (namingIdentity r) \<noteq> ''exited'')"
  have lb: "k_status k = DeploymentStatusPreparing \<Longrightarrow> ?R k" for k by (rule left_behind_early) (simp add: early_def terminal_def)
  have fine: "r_waits r > 0" "r_BuildPack r \<noteq> BuildPackCompose"
    "\<not> (case r_preview r of Some p \<Rightarrow> pv_IsFork p \<and> \<not> pv_ForkApproved p | None \<Rightarrow> False)"
    using assms(1) by (auto simp: fine_run_def split: option.splits)
  have s: "runs a ?R ?P (setStatus r DeploymentStatusPreparing) (\<lambda>_. ?B)"
    by (rule runs_setStatus)
      (use lb fine in \<open>auto simp: left_behind_def half_stopped_def state_of_def split: option.splits if_splits\<close>)
  have body: "runs a ?R ?B (bnd (resume r) (\<lambda>resumed. if resumed then ret () else deploy_rest r))
      (\<lambda>_ k. k_status k = DeploymentStatusSucceeded \<and> switched r (k_boxes k))"
  proof (cases ?again)
    case True
    have "runs a ?R ?B (resume r) (\<lambda>x k. x \<and> k_status k = DeploymentStatusSucceeded \<and> switched r (k_boxes k))"
      by (rule runs_weaken [OF runs_resume [OF assms(1-3) True]]) (use True in auto)
    then show ?thesis by (rule runs_bnd, intro runs_const) (simp add: runs_ret)
  next
    case False
    then have "resume r = ret False" by (auto simp: resume_def)
    moreover have "runs a ?R ?B (bnd (ret False) (\<lambda>resumed. if resumed then ret () else deploy_rest r))
      (\<lambda>_ k. k_status k = DeploymentStatusSucceeded \<and> switched r (k_boxes k))"
      by (rule runs_bnd [OF runs_ret [where Q = "\<lambda>x k. \<not> x \<and> k_status k = DeploymentStatusPreparing"]])
        (use runs_rest [OF assms(1-3)] in \<open>auto intro!: runs_const intro: runs_none\<close>)
    ultimately show ?thesis by simp
  qed
  show ?thesis unfolding deploy_execute_def if_not_P [OF fine(3)] if_not_P [OF fine(2)]
    by (intro runs_bnd [OF runs_checkpoint] runs_bnd [OF s] runs_bnd [OF runs_connect] body) (use lb assms(1) in auto)
qed

lemma max_seq: "d \<in> set ds \<Longrightarrow> ds_Seq d \<le> foldr (\<lambda>d m. max (ds_Seq d) m) ds (0 :: int)"
  by (induction ds) auto

lemma runs_numbering:
  assumes "\<And>k. P k \<Longrightarrow> R k"
  shows "runs a R P (bnd (attempt MaxDeploymentStepSeq) (\<lambda>n.
      seq (here (\<lambda>w. ((), w\<lparr>w_rt := False, w_seq := (case n of Inl _ \<Rightarrow> 0 | Inr n \<Rightarrow> n), w_image := img, w_digest := [], w_rolling := False\<rparr>))) (ret x)))
    (\<lambda>y k. y = x \<and> P k)"
  unfolding runs_def triple_def
proof (intro allI impI)
  let ?m = "bnd (attempt MaxDeploymentStepSeq) (\<lambda>n.
      seq (here (\<lambda>w. ((), w\<lparr>w_rt := False, w_seq := (case n of Inl _ \<Rightarrow> 0 | Inr n \<Rightarrow> n), w_image := img, w_digest := [], w_rolling := False\<rparr>))) (ret x))"
  fix w assume w: "calm a w \<and> numbered w \<and> P (key w)"
  then have c: "calm a w" "numbered w" by simp_all
  let ?f = "\<lambda>(_ :: fate) w. (Inr (foldr (\<lambda>d m. max (ds_Seq d) m) (w_steps w) 0) :: deploy_error + int, w)"
  have m: "MaxDeploymentStepSeq = call ?f" by (simp add: MaxDeploymentStepSeq_def ask_def)
  show "case ?m w of (Returns y, w') \<Rightarrow> calm a w' \<and> numbered w' \<and> y = x \<and> P (key w') | (Raises e, w') \<Rightarrow> False
    | (Dead, w') \<Rightarrow> s_mortal a \<and> calm a w' \<and> numbered w' \<and> R (key w')"
  proof (rule calm_call [OF c, of ?f])
    fix e w1 assume f: "call ?f w = (case ?f e w1 of (Inl x, w2) \<Rightarrow> (Raises x, w2) | (Inr v, w2) \<Rightarrow> (Returns v, w2))"
      and w1: "calm a w1" "key w1 = key w"
    let ?v = "w1\<lparr>w_rt := False, w_seq := foldr (\<lambda>d m. max (ds_Seq d) m) (w_steps w1) 0, w_image := img, w_digest := [], w_rolling := False\<rparr>"
    have "?m w = (Returns x, ?v)" using f by (simp add: bnd_def attempt_def m here_def ret_def)
    moreover have "calm a ?v" using w1(1) by (rule calm_same) (simp add: same_outside_def)
    moreover have "numbered ?v" by (auto simp: numbered_def intro: max_seq)
    moreover have "key ?v = key w1" by (simp add: key_def)
    ultimately show ?thesis using w w1(2) by simp
  next
    fix w1 assume "call ?f w = (Dead, w1)" "s_mortal a" "calm a w1" "numbered w1" "key w1 = key w"
    then show ?thesis using w assms by (simp add: bnd_def attempt_def m)
  qed
qed

lemma runs_newRun:
  assumes "\<And>k. P k \<Longrightarrow> R k"
  shows "runs a R P (newRun rows d) (\<lambda>r k. r = rows\<lparr>r_d := d, r_adoption := None\<rparr> \<and> P k)"
proof -
  have ad: "runs a R P (ask (\<lambda>_ w. w_adoption w)) (\<lambda>x k. x = None \<and> P k)"
    unfolding ask_def by (rule runs_call) (use assms in \<open>auto simp: same_outside_def\<close>)
  have pv: "runs a R P (if r_preview rows = None then ret () else ask (\<lambda>_ _. ())) (\<lambda>_. P)"
    using assms by (auto intro: runs_ret runs_silent_ask)
  have "runs a R P (seq (ask (\<lambda>_ _. ())) (seq (ask (\<lambda>_ _. ())) (seq (ask (\<lambda>_ _. ()))
             (seq (if r_preview rows = None then ret () else ask (\<lambda>_ _. ()))
               (bnd (attempt MaxDeploymentStepSeq) (\<lambda>n.
                 seq (here (\<lambda>w. ((), w\<lparr>w_rt := False, w_seq := (case n of Inl _ \<Rightarrow> 0 | Inr n \<Rightarrow> n), w_image := (dp_ImageName d, dp_ImageTag d), w_digest := [], w_rolling := False\<rparr>)))
                   (ret (rows\<lparr>r_d := d, r_adoption := None\<rparr>)))))))) (\<lambda>r k. r = rows\<lparr>r_d := d, r_adoption := None\<rparr> \<and> P k)"
    by (intro runs_bnd [OF runs_silent_ask] runs_bnd [OF pv] runs_numbering) (use assms in auto)
  then show ?thesis unfolding newRun_def by (intro runs_bnd [OF ad] runs_const) simp
qed

section \<open>Attempts\<close>

lemma same_names [simp]:
  "namingIdentity (rows\<lparr>r_d := d, r_adoption := x\<rparr>) = namingIdentity rows" "candidateName (rows\<lparr>r_d := d, r_adoption := x\<rparr>) = candidateName rows"
  by (simp_all add: candidateName_def namingIdentity_def split: option.split)

lemma same_run [simp]:
  assumes "dp_Uuid d = dp_Uuid (r_d rows)"
  shows "left_behind (rows\<lparr>r_d := d, r_adoption := x\<rparr>) = left_behind rows" "switched (rows\<lparr>r_d := d, r_adoption := x\<rparr>) = switched rows"
    "half_stopped (rows\<lparr>r_d := d, r_adoption := x\<rparr>) = half_stopped rows"
proof -
  show sw: "switched (rows\<lparr>r_d := d, r_adoption := x\<rparr>) = switched rows" using assms by (simp add: switched_def [abs_def])
  have "standing_by (rows\<lparr>r_d := d, r_adoption := x\<rparr>) = standing_by rows" using assms by (simp add: standing_by_def [abs_def])
  with sw show "left_behind (rows\<lparr>r_d := d, r_adoption := x\<rparr>) = left_behind rows" by (simp add: left_behind_def [abs_def])
  show "half_stopped (rows\<lparr>r_d := d, r_adoption := x\<rparr>) = half_stopped rows" by (simp add: half_stopped_def [abs_def])
qed

lemma fine_run_same: "fine_run (rows\<lparr>r_d := d, r_adoption := x\<rparr>) ip = fine_run rows ip"
  by (simp add: fine_run_def)

lemma runs_Execute:
  assumes "fine_run rows (s_ip a)" "namingIdentity rows = s_app a" "dp_Uuid (r_d rows) = s_uuid a"
  shows "runs a (left_behind rows) (\<lambda>k. left_behind rows k \<and> \<not> half_stopped rows k) (deploy_Execute rows)
    (\<lambda>x k. x = DeploymentStatusSucceeded \<and> k_status k = DeploymentStatusSucceeded \<and> switched rows (k_boxes k))"
proof -
  let ?R = "left_behind rows" and ?P = "\<lambda>k. left_behind rows k \<and> \<not> half_stopped rows k"
  let ?Q = "\<lambda>x k. x = DeploymentStatusSucceeded \<and> k_status k = DeploymentStatusSucceeded \<and> switched rows (k_boxes k)"
  have row: "runs a ?R ?P (ask (\<lambda>_ w. w_row w)) (\<lambda>d k. dp_Uuid d = s_uuid a \<and> k_status k = dp_Status d \<and> ?P k)"
    unfolding ask_def by (rule runs_call) (auto simp: same_outside_def)
  have go: "runs a ?R (\<lambda>k. k_status k = dp_Status d \<and> ?P k) (bnd (newRun rows d) run_attempt) ?Q"
    if d: "dp_Uuid d = s_uuid a" "\<not> terminal (dp_Status d)" for d
  proof -
    let ?r = "rows\<lparr>r_d := d, r_adoption := None\<rparr>"
    have "runs a (left_behind ?r) (\<lambda>k. k_status k = dp_Status (r_d ?r) \<and> left_behind ?r k \<and> \<not> half_stopped ?r k) (deploy_execute ?r)
        (\<lambda>_ k. k_status k = DeploymentStatusSucceeded \<and> switched ?r (k_boxes k))"
      by (rule runs_execute) (use assms d in \<open>simp_all add: fine_run_same\<close>)
    then have e: "runs a ?R (\<lambda>k. k_status k = dp_Status d \<and> ?P k) (attempt (deploy_execute ?r))
        (\<lambda>x k. x = Inr () \<and> k_status k = DeploymentStatusSucceeded \<and> switched rows (k_boxes k))"
      using assms(3) d(1) by (intro runs_attempt) simp
    show ?thesis
      by (rule runs_bnd [OF runs_newRun], simp, rule runs_const, unfold run_attempt_def, simp only:, rule runs_bnd [OF e], rule runs_const)
        (simp add: runs_ret)
  qed
  show ?thesis unfolding deploy_Execute_def
  proof (rule runs_bnd [OF row], rule runs_const)
    fix d :: Deployment assume d: "dp_Uuid d = s_uuid a"
    show "runs a ?R (\<lambda>k. k_status k = dp_Status d \<and> ?P k) (if terminal (dp_Status d) then ret (dp_Status d) else bnd (newRun rows d) run_attempt) ?Q"
      using go [OF d] by (auto simp: terminal_def left_behind_def intro!: runs_ret)
  qed
qed

text \<open>Attempts that end with the death of the worker, each with fates of its own.\<close>

inductive crashed :: "deploymentRun \<Rightarrow> surroundings \<Rightarrow> world \<Rightarrow> world \<Rightarrow> bool" for rows a where
  crashed_none: "crashed rows a w w"
| crashed_again: "crashed rows a w v \<Longrightarrow> \<not> half_stopped rows (key v) \<Longrightarrow> calm (a\<lparr>s_mortal := True\<rparr>) (v\<lparr>w_fate := fates, w_time := 0\<rparr>) \<Longrightarrow>
    deploy_Execute rows (v\<lparr>w_fate := fates, w_time := 0\<rparr>) = (Dead, u) \<Longrightarrow> crashed rows a w u"

lemma crashed_left_behind:
  assumes "crashed rows a w v" "fine_run rows (s_ip a)" "namingIdentity rows = s_app a" "dp_Uuid (r_d rows) = s_uuid a" "numbered w" "left_behind rows (key w)"
  shows "numbered v \<and> left_behind rows (key v)"
  using assms
proof (induction rule: crashed.induct)
  case (crashed_again w v fates u)
  let ?v = "v\<lparr>w_fate := fates, w_time := 0\<rparr>"
  have "runs (a\<lparr>s_mortal := True\<rparr>) (left_behind rows) (\<lambda>k. left_behind rows k \<and> \<not> half_stopped rows k) (deploy_Execute rows)
    (\<lambda>x k. x = DeploymentStatusSucceeded \<and> k_status k = DeploymentStatusSucceeded \<and> switched rows (k_boxes k))"
    using crashed_again.prems by (intro runs_Execute) auto
  note at = runs_at [OF this crashed_again.hyps(3)]
  have v: "numbered v \<and> left_behind rows (key v)" by (rule crashed_again.IH) (use crashed_again.prems in auto)
  then have n: "numbered ?v" and k: "key ?v = key v" by (auto simp: numbered_def key_def)
  have "left_behind rows (key ?v) \<and> \<not> half_stopped rows (key ?v)" unfolding k using v crashed_again.hyps(2) by blast
  from at [OF n this] show ?case by (simp add: crashed_again.hyps(4))
qed simp


section \<open>Samples\<close>

definition sample_surroundings :: surroundings where
  "sample_surroundings = \<lparr>s_mortal = False, s_app = ''app'', s_ip = ''ip'', s_uuid = ''new''\<rparr>"

lemma sample_calm:
  assumes "docker_engine (w_engine w)" "w_adoption w = None" "dp_Uuid (w_row w) = ''new''" "\<forall>p \<in> set kinds. snd p = Dies" "kinds = [] \<or> mortal"
  shows "calm (sample_surroundings\<lparr>s_mortal := mortal\<rparr>) (w\<lparr>w_fate := at_calls kinds, w_time := 0\<rparr>)"
proof -
  have "ContainsStr ''app http://ip:'' ''app''" "ContainsStr ''app http://ip:'' ''http://ip:''" by code_simp+
  then have good: "good_fate ''app'' ''ip'' sample_fate" by (simp add: good_fate_def sample_fate_def)
  have "good_fate ''app'' ''ip'' (at_calls kinds n) \<or> (mortal \<and> f_kind (at_calls kinds n) = Dies \<and> f_newer (at_calls kinds n) = None)" for n
    using good assms(4,5) by (auto simp: at_calls_def sample_fate_def split: option.split dest!: map_of_SomeD)
  then show ?thesis using assms(1-3) by (simp add: calm_def sample_surroundings_def)
qed


end
