(* ===== verification/DeploySafety.thy ===== *)
theory DeploySafety
  imports Deploy
begin

text \<open>
  What an attempt of the deployment job does to the container that serves, whatever its calls meet.  Most of a run is quiet: it touches neither
  containers nor the mode.  The collection \<open>quiet\<close> shows so, piece by piece; the triples follow the pieces that are not.
\<close>

section \<open>Quiet programs\<close>

definition undisturbed :: "world \<Rightarrow> world \<Rightarrow> bool" where
  "undisturbed w w' \<longleftrightarrow>
     w_engine w' = w_engine w \<and> w_boxes w' = w_boxes w \<and> w_calls w' = w_calls w \<and> w_rolling w' = w_rolling w \<and> w_fate w' = w_fate w \<and> w_time w \<le> w_time w'"

definition quiet :: "'a act \<Rightarrow> bool" where
  "quiet m \<longleftrightarrow> (\<forall>w. undisturbed w (snd (m w)))"

named_theorems quietness

lemma undisturbed_refl [simp]: "undisturbed w w"
  by (simp add: undisturbed_def)

lemma undisturbed_trans: "undisturbed u v \<Longrightarrow> undisturbed v w \<Longrightarrow> undisturbed u w"
  by (auto simp: undisturbed_def)

lemma quiet_ret [quietness]: "quiet (ret x)"
  by (simp add: quiet_def ret_def)

lemma quiet_raise [quietness]: "quiet (raise x)"
  by (simp add: quiet_def raise_def)

lemma quiet_bnd [quietness]:
  assumes "quiet m" "\<And>x. quiet (k x)"
  shows "quiet (bnd m k)"
  unfolding quiet_def
proof
  fix w
  obtain res v where m: "m w = (res, v)" by (cases "m w")
  have "undisturbed w v" using assms(1) m unfolding quiet_def by (metis snd_conv)
  moreover have "undisturbed v (snd (k x v))" for x using assms(2) by (simp add: quiet_def)
  ultimately show "undisturbed w (snd (bnd m k w))"
    by (cases res) (auto simp: bnd_def m intro: undisturbed_trans)
qed

lemma quiet_attempt [quietness]: "quiet m \<Longrightarrow> quiet (attempt m)"
  unfolding quiet_def attempt_def by (auto split: prod.splits ending.splits) (metis snd_conv)+

lemma quiet_quietly [quietness]: "quiet m \<Longrightarrow> quiet (quietly m)"
  unfolding quietly_def by (intro quietness)

lemma quiet_cases [quietness]:
  "(b \<Longrightarrow> quiet m) \<Longrightarrow> (\<not> b \<Longrightarrow> quiet n) \<Longrightarrow> quiet (if b then m else n)"
  "(\<And>x. quiet (f x)) \<Longrightarrow> (\<And>y. quiet (g y)) \<Longrightarrow> quiet (case s of Inl x \<Rightarrow> f x | Inr y \<Rightarrow> g y)"
  "quiet n \<Longrightarrow> (\<And>z. quiet (h z)) \<Longrightarrow> quiet (case p of None \<Rightarrow> n | Some z \<Rightarrow> h z)"
  "(\<And>u v. quiet (q u v)) \<Longrightarrow> quiet (case c of (u, v) \<Rightarrow> q u v)"
  by (simp_all split: sum.split option.split prod.split)

lemma undisturbed_others: "undisturbed w (others e (w\<lparr>w_time := w_time w + 1\<rparr>))"
  by (simp add: others_def undisturbed_def split: option.split)

lemma quiet_call [quietness]:
  assumes "\<And>e w. undisturbed w (snd (f e w))"
  shows "quiet (call f)"
  unfolding quiet_def
proof
  fix w :: world
  let ?e = "w_fate w (w_time w)"
  let ?w = "others ?e (w\<lparr>w_time := w_time w + 1\<rparr>)"
  have "undisturbed w (snd (f ?e ?w))" using undisturbed_trans [OF undisturbed_others assms] .
  moreover have "snd (call f w) = ?w \<or> snd (call f w) = snd (f ?e ?w)"
    by (auto simp: call_def Let_def split: fate_kind.split prod.split sum.split)
  ultimately show "undisturbed w (snd (call f w))" using undisturbed_others by metis
qed

lemma quiet_ask [quietness]: "quiet (ask f)"
  unfolding ask_def by (intro quietness) simp

lemma quiet_exec [quietness]: "(\<And>w. undisturbed w (f w)) \<Longrightarrow> quiet (perform f)"
  unfolding perform_def by (intro quietness) simp

lemma quiet_here [quietness]: "(\<And>w. undisturbed w (snd (f w))) \<Longrightarrow> quiet (here f)"
  unfolding quiet_def here_def by (auto split: prod.split) (metis snd_conv)

lemmas undisturbed_simps = undisturbed_def Let_def

lemma quiet_rows [quietness]:
  "quiet (SetDeploymentStatus s)" "quiet StartDeploymentUnlessCleanupRunning" "quiet GetDeploymentStatus" "quiet (SetDeploymentError x)"
  "quiet (SetDeploymentImageDigest d)" "quiet (CreateDeploymentStep n name)" "quiet (FinishDeploymentStep n t c)" "quiet MaxDeploymentStepSeq" "quiet (Outbox ev)"
  "quiet next_seq" "quiet (SetDeploymentImage name tag)" "quiet (CreateDeploymentArtifact i kind name tag digest)" "quiet (DeleteDeploymentArtifact i)"
  "quiet ListAppArtifactsOnServer" "quiet (ImageRemove name)"
  unfolding SetDeploymentStatus_def StartDeploymentUnlessCleanupRunning_def GetDeploymentStatus_def SetDeploymentError_def SetDeploymentImageDigest_def
    CreateDeploymentStep_def FinishDeploymentStep_def MaxDeploymentStepSeq_def Outbox_def next_seq_def
    SetDeploymentImage_def CreateDeploymentArtifact_def DeleteDeploymentArtifact_def ListAppArtifactsOnServer_def ImageRemove_def
  by (intro quietness; simp add: undisturbed_simps)+

lemma quiet_checkpoint [quietness]: "quiet checkpoint"
  unfolding checkpoint_def by (intro quietness)

lemma quiet_step [quietness]: "quiet fn \<Longrightarrow> quiet (deploy_step name fn)"
  unfolding deploy_step_def by (intro quietness)

lemma quiet_skip [quietness]: "quiet (skipStep name)" "quiet record_inspection"
  unfolding skipStep_def record_inspection_def by (intro quietness)+

lemma quiet_await_start [quietness]: "quiet (await_start n)"
  by (induction n) (auto intro!: quietness)

lemma quiet_setStatus [quietness]: "quiet (setStatus r s)"
  unfolding setStatus_def by (intro quietness)

lemma quiet_inspect [quietness]: "quiet (ContainerInspect n)" "quiet (containerState n)"
proof -
  show i: "quiet (ContainerInspect n)" unfolding ContainerInspect_def by (intro quietness) (simp split: option.split)
  show "quiet (containerState n)" unfolding containerState_def by (intro quietness i)
qed

lemma quiet_await_healthy [quietness]: "quiet (await_healthy k n)"
  by (induction k) (auto intro!: quietness)

lemma quiet_awaitCandidate [quietness]: "quiet (awaitCandidate r n b)"
  unfolding awaitCandidate_def by (intro quietness)

lemma quiet_hook [quietness]: "quiet (runHook name command n)"
  unfolding runHook_def Let_def by (intro quietness)

lemma quiet_verify [quietness]: "quiet (verify n app content expect)"
  by (induction n) (auto simp: Let_def intro!: quietness)

lemma quiet_Apply [quietness]: "quiet (Apply n app content expect)"
  unfolding Apply_def roll_back_def CreateProxyRevision_def mark_revision_def GetLastAppliedProxyRevision_def upload_def
  by (intro quietness; simp add: undisturbed_simps split: option.split)

lemma quiet_routing [quietness]: "quiet (applyRoutingTo r endpoint)"
  unfolding applyRoutingTo_def by (intro quietness) simp

lemma quiet_artifacts [quietness]: "quiet (recordArtifact r)" "quiet (reclaim arts)" "quiet (pruneOldImages r)"
proof -
  show "quiet (recordArtifact r)" unfolding recordArtifact_def by (intro quiet_bnd quiet_here) (auto split: prod.split intro!: quietness)
  have rc: "quiet (reclaim arts)" for arts by (induction arts) (auto intro!: quietness)
  then show "quiet (reclaim arts)" .
  show "quiet (pruneOldImages r)" unfolding pruneOldImages_def Let_def by (intro quietness rc) simp
qed

lemma quiet_finish [quietness]: "quiet (finish r)"
  unfolding finish_def by (intro quietness; simp add: undisturbed_simps)

lemma quiet_connect [quietness]: "quiet (connect r)"
  unfolding connect_def by (intro quietness; simp add: undisturbed_simps)

lemma quiet_prepare [quietness]: "quiet prepare"
  unfolding prepare_def by (intro quietness)

lemma quiet_image [quietness]: "quiet (set_image name tag)" "quiet (resolve_digest f)"
  unfolding set_image_def resolve_digest_def by (intro quietness; simp add: undisturbed_simps)+

lemma quiet_built [quietness]: "quiet (built_image r tag)"
  unfolding built_image_def resolveLocalDigest_def Let_def by (intro quietness)

lemma quiet_push [quietness]: "quiet (pushBuiltImage r)"
  unfolding pushBuiltImage_def by (intro quietness; simp add: undisturbed_simps)

lemma quiet_build [quietness]: "quiet (build_phase r)"
  unfolding build_phase_def verify_artifact_def pull_image_def buildFromDockerfile_def Let_def by (intro quietness; simp add: undisturbed_simps)

lemma quiet_phases [quietness]: "quiet (healthConfig r)" "quiet (healthcheck_step r n b)" "quiet (resolve_endpoint r)"
  unfolding healthConfig_def healthcheck_step_def resolve_endpoint_def by (intro quietness)+

section \<open>Rules\<close>

definition steady :: "(world \<Rightarrow> bool) \<Rightarrow> bool" where
  "steady P \<longleftrightarrow> (\<forall>w w'. undisturbed w w' \<longrightarrow> P w \<longrightarrow> P w')"

lemma steady_conj: "steady P \<Longrightarrow> steady Q \<Longrightarrow> steady (\<lambda>w. P w \<and> Q w)"
  unfolding steady_def by blast

lemma quiet_keeps: "quiet m \<Longrightarrow> steady P \<Longrightarrow> keeps P m"
  unfolding triple_def quiet_def steady_def by (auto split: prod.splits ending.splits) (metis snd_conv)+

lemma quiet_before:
  assumes "quiet m" "steady P" "\<And>x. triple P (k x) Q E D" "\<And>e w. P w \<Longrightarrow> E e w" "\<And>w. P w \<Longrightarrow> D w"
  shows "triple P (bnd m k) Q E D"
  by (rule triple_bnd [OF triple_weaken [OF quiet_keeps [OF assms(1,2)]] assms(3)]) (use assms(4,5) in auto)

text \<open>A step around a body that is not quiet.\<close>

lemma triple_step:
  assumes "triple P fn (\<lambda>cx. Q (snd cx)) (\<lambda>_. E) D" "steady P" "\<And>x. steady (Q x)" "steady E"
    and "\<And>w. P w \<Longrightarrow> E w" "\<And>x w. Q x w \<Longrightarrow> E w" "\<And>w. E w \<Longrightarrow> D w"
  shows "triple P (deploy_step name fn) Q (\<lambda>_. E) D"
proof -
  let ?S = "\<lambda>res w. case res of Inl _ \<Rightarrow> E w | Inr cx \<Rightarrow> Q (snd cx) w"
  have a: "triple P (attempt fn) ?S (\<lambda>_. E) D" by (rule triple_attempt) (use assms(1) in simp)
  have fin: "triple (Q x) (seq (quietly (FinishDeploymentStep i s c)) (ret x)) Q (\<lambda>_. E) D" for i s c x
    by (rule quiet_before) (use assms in \<open>auto intro!: quietness triple_ret\<close>)
  have err: "triple E (seq (quietly (FinishDeploymentStep i s c)) (raise x)) Q (\<lambda>_. E) D" for i s c x
    by (rule quiet_before) (use assms in \<open>auto intro!: quietness triple_raise\<close>)
  have err': "triple (Q y) (seq (quietly (FinishDeploymentStep i s c)) (raise x)) Q (\<lambda>_. E) D" for i s c x y
    by (rule triple_weaken [OF err]) (use assms in auto)
  have "triple P (bnd (attempt fn) (\<lambda>res. case res of
         Inl x \<Rightarrow> seq (quietly (FinishDeploymentStep i DeploymentStepStatusFailed None)) (raise x)
       | Inr (code, x) \<Rightarrow>
           if code \<noteq> None \<and> code \<noteq> Some 0
           then seq (quietly (FinishDeploymentStep i DeploymentStepStatusFailed code)) (raise (ErrExitCode (the code)))
           else seq (quietly (FinishDeploymentStep i DeploymentStepStatusSucceeded code)) (ret x))) Q (\<lambda>_. E) D" for i
    by (rule triple_bnd [OF a]) (auto split: sum.split prod.split intro!: fin err err')
  then show ?thesis unfolding deploy_step_def
    by (rule quiet_before [OF quiet_rows(10) assms(2) quiet_before [OF quiet_rows(6) assms(2)]]) (use assms in auto)
qed

text \<open>What a call to the engine has done.\<close>

definition effected :: "docker_call \<Rightarrow> fate_kind \<Rightarrow> world \<Rightarrow> world \<Rightarrow> bool" where
  "effected c k w v \<longleftrightarrow>
     w_engine v = w_engine w \<and> w_calls v = w_calls w @ [(c, k)] \<and> w_rolling v = w_rolling w \<and> w_fate v = w_fate w \<and> w_time w \<le> w_time v \<and>
     w_boxes v = (if k = Refused then w_boxes w else snd (docker_effect c (w_boxes w)))"

lemma triple_docker:
  assumes "\<And>w. P w \<Longrightarrow> docker_engine (w_engine w)" "\<And>w v. P w \<Longrightarrow> undisturbed w v \<Longrightarrow> D v"
    and "\<And>w v k. P w \<Longrightarrow> effected c k w v \<Longrightarrow> k \<noteq> Works \<Longrightarrow> E ErrOutside v"
    and "\<And>w v. P w \<Longrightarrow> effected c Works w v \<Longrightarrow> (case fst (docker_effect c (w_boxes w)) of None \<Rightarrow> Q () v | Some x \<Rightarrow> E x v)"
  shows "triple P (docker c) Q E D"
  unfolding triple_def
proof (intro allI impI)
  fix w :: world assume P: "P w"
  let ?k = "f_kind (w_fate w (w_time w))" and ?e = "w_fate w (w_time w)" and ?l = "logged c w"
  let ?v = "others ?e (?l\<lparr>w_time := w_time w + 1\<rparr>)"
  have l: "w_fate ?l = w_fate w" "w_time ?l = w_time w" "w_engine ?l = w_engine w" "w_boxes ?l = w_boxes w" "w_rolling ?l = w_rolling w"
    "w_calls ?l = (if ?k = Dies then w_calls w else w_calls w @ [(c, ?k)])"
    by (auto simp: logged_def Let_def)
  have v: "w_fate ?v = w_fate w" "w_time ?v = w_time w + 1" "w_engine ?v = w_engine w" "w_boxes ?v = w_boxes w" "w_rolling ?v = w_rolling w"
    "w_calls ?v = (if ?k = Dies then w_calls w else w_calls w @ [(c, ?k)])"
    using l by (auto simp: others_def split: option.split)
  let ?b = "snd (docker_effect c (w_boxes w))"
  have body: "(case w_engine ?v c (w_boxes ?v) of (None, b) \<Rightarrow> (Inr (), ?v\<lparr>w_boxes := b\<rparr>) | (Some x, b) \<Rightarrow> (Inl x, ?v\<lparr>w_boxes := b\<rparr>)) =
      ((case fst (docker_effect c (w_boxes w)) of None \<Rightarrow> Inr () | Some x \<Rightarrow> Inl x), ?v\<lparr>w_boxes := ?b\<rparr>)"
    using docker_engine.engine_effect [OF assms(1) [OF P]] v(3,4) by (auto split: prod.split option.split)
  have eff: "effected c ?k w (if ?k = Refused then ?v else ?v\<lparr>w_boxes := ?b\<rparr>)" if "?k \<noteq> Dies"
    using v that by (simp add: effected_def)
  have dead: "undisturbed w ?v" if "?k = Dies" using v that by (simp add: undisturbed_def)
  show "case docker c w of (Returns x, w') \<Rightarrow> Q x w' | (Raises e, w') \<Rightarrow> E e w' | (Dead, w') \<Rightarrow> D w'"
  proof (cases ?k)
    case Works
    then have "docker c w = (case fst (docker_effect c (w_boxes w)) of None \<Rightarrow> (Returns (), ?v\<lparr>w_boxes := ?b\<rparr>) | Some x \<Rightarrow> (Raises x, ?v\<lparr>w_boxes := ?b\<rparr>))"
      unfolding docker_def call_def l Let_def body by (simp split: option.split)
    with assms(4) [OF P, of "?v\<lparr>w_boxes := ?b\<rparr>"] eff Works show ?thesis by (auto split: option.splits)
  next
    case Refused
    then have "docker c w = (Raises ErrOutside, ?v)" unfolding docker_def call_def l Let_def by simp
    with assms(3) [OF P, of Refused ?v] eff Refused show ?thesis by simp
  next
    case Lost
    then have "docker c w = (Raises ErrOutside, ?v\<lparr>w_boxes := ?b\<rparr>)" unfolding docker_def call_def l Let_def body by simp
    with assms(3) [OF P, of Lost "?v\<lparr>w_boxes := ?b\<rparr>"] eff Lost show ?thesis by simp
  next
    case Dies
    then have "docker c w = (Dead, ?v)" unfolding docker_def call_def l Let_def by simp
    with assms(2) [OF P dead [OF Dies]] show ?thesis by simp
  qed
qed

lemma triple_docker_gain:
  assumes "steady A" "\<And>w. A w \<Longrightarrow> docker_engine (w_engine w)" "\<And>w v k. A w \<Longrightarrow> effected c k w v \<Longrightarrow> A v" "\<And>w. P w \<Longrightarrow> A w"
    and "\<And>w v. P w \<Longrightarrow> effected c Works w v \<Longrightarrow> fst (docker_effect c (w_boxes w)) = None \<Longrightarrow> Q v"
  shows "triple P (docker c) (\<lambda>_. Q) (\<lambda>_. A) A"
proof (rule triple_docker)
  show "P w \<Longrightarrow> docker_engine (w_engine w)" for w using assms(2,4) by blast
  show "P w \<Longrightarrow> undisturbed w v \<Longrightarrow> A v" for w v using assms(1,4) unfolding steady_def by blast
  show "P w \<Longrightarrow> effected c k w v \<Longrightarrow> k \<noteq> Works \<Longrightarrow> A v" for w v k using assms(3,4) by blast
  show "P w \<Longrightarrow> effected c Works w v \<Longrightarrow> (case fst (docker_effect c (w_boxes w)) of None \<Rightarrow> Q v | Some x \<Rightarrow> A v)" for w v
    using assms(3) [of w Works v] assms(4) [of w] assms(5) [of w v] by (cases "fst (docker_effect c (w_boxes w))") simp_all
qed

lemma keeps_docker:
  assumes "steady P" "\<And>w. P w \<Longrightarrow> docker_engine (w_engine w)" "\<And>w v k. P w \<Longrightarrow> effected c k w v \<Longrightarrow> P v"
  shows "keeps P (docker c)"
proof (rule triple_docker [OF assms(2)])
  show "P w \<Longrightarrow> undisturbed w v \<Longrightarrow> P v" for w v using assms(1) by (simp add: steady_def)
qed (use assms(3) in \<open>simp_all split: option.split\<close>)

section \<open>The serving container\<close>

text \<open>The engine has reported a container healthy, or without a health check of its own.\<close>

definition reported :: "world \<Rightarrow> bool" where
  "reported w \<longleftrightarrow> (\<exists>n < w_time w. f_kind (w_fate w n) = Works \<and> f_health (w_fate w n) \<in> {None, Some ''healthy''})"

definition renewed :: "deploymentRun \<Rightarrow> world \<Rightarrow> bool" where
  "renewed r w \<longleftrightarrow> (\<exists>c. w_boxes w (namingIdentity r) = Some c \<and> c_deployment c = dp_Uuid (r_d r) \<and> c_up c)"

definition stop_sent :: "deploymentRun \<Rightarrow> world \<Rightarrow> bool" where
  "stop_sent r w \<longleftrightarrow> (\<exists>k. (ContainerStop (oldName r), k) \<in> set (w_calls w))"

text \<open>The engine did not carry out, or not answer, the removal of the old container or the renaming of the new one.\<close>

definition switch_failed :: "deploymentRun \<Rightarrow> world \<Rightarrow> bool" where
  "switch_failed r w \<longleftrightarrow>
     (\<exists>k. k \<noteq> Works \<and> ((ContainerRemove (oldName r), k) \<in> set (w_calls w) \<or> (ContainerRename (candidateName r) (namingIdentity r), k) \<in> set (w_calls w)))"

definition untouched :: "deploymentRun \<Rightarrow> container \<Rightarrow> world \<Rightarrow> bool" where
  "untouched r old w \<longleftrightarrow>
     docker_engine (w_engine w) \<and> w_boxes w (oldName r) = Some old \<and>
     (oldName r = namingIdentity r \<or> w_boxes w (namingIdentity r) = None) \<and> \<not> stop_sent r w"

definition concluded :: "deploymentRun \<Rightarrow> container \<Rightarrow> world \<Rightarrow> bool" where
  "concluded r old w \<longleftrightarrow>
     docker_engine (w_engine w) \<and>
     (untouched r old w \<or> w_rolling w \<and> reported w \<and> (renewed r w \<or> switch_failed r w) \<or> \<not> w_rolling w \<and> stop_sent r w)"

definition passing :: "deploymentRun \<Rightarrow> container \<Rightarrow> world \<Rightarrow> bool" where
  "passing r old w \<longleftrightarrow> concluded r old w \<or> docker_engine (w_engine w) \<and> w_rolling w \<and> reported w \<and> standing_by r (w_boxes w)"

lemmas serving_defs = untouched_def concluded_def passing_def renewed_def stop_sent_def switch_failed_def

lemma undisturbed_reported: "undisturbed w w' \<Longrightarrow> reported w \<Longrightarrow> reported w'"
  by (auto simp: undisturbed_def reported_def intro: less_le_trans)

lemma steady_serving:
  "steady (untouched r old)" "steady (concluded r old)" "steady (passing r old)" "steady reported" "steady (\<lambda>w. standing_by r (w_boxes w))"
  "steady (\<lambda>w. w_rolling w)" "steady (renewed r)"
proof -
  show u: "steady (untouched r old)" by (simp add: steady_def undisturbed_def untouched_def stop_sent_def)
  show r: "steady reported" using undisturbed_reported by (auto simp: steady_def)
  have e: "undisturbed w w' \<Longrightarrow> renewed r w' = renewed r w \<and> switch_failed r w' = switch_failed r w \<and> stop_sent r w' = stop_sent r w \<and>
      w_rolling w' = w_rolling w \<and> w_engine w' = w_engine w \<and> standing_by r (w_boxes w') = standing_by r (w_boxes w)" for w w'
    by (simp add: undisturbed_def renewed_def switch_failed_def stop_sent_def)
  then show "steady (\<lambda>w. standing_by r (w_boxes w))" "steady (\<lambda>w. w_rolling w)" "steady (renewed r)" by (auto simp: steady_def)
  show s: "steady (concluded r old)" using u e undisturbed_reported unfolding steady_def concluded_def by metis
  show "steady (passing r old)" using s e undisturbed_reported unfolding steady_def passing_def by metis
qed

lemma untouched_settled: "untouched r old w \<Longrightarrow> concluded r old w"
  by (simp add: concluded_def untouched_def)

lemma settled_passing: "concluded r old w \<Longrightarrow> passing r old w"
  by (simp add: passing_def)

text \<open>Calls that leave the old container alone.\<close>

definition spares :: "deploymentRun \<Rightarrow> docker_call \<Rightarrow> bool" where
  "spares r c \<longleftrightarrow> c \<in> {ContainerRemove (candidateName r), ContainerStart (candidateName r)} \<or> (\<exists>d. c = ContainerCreate (candidateName r) d)"

lemma untouched_effected:
  "untouched r old w \<Longrightarrow> oldName r \<noteq> candidateName r \<Longrightarrow> spares r c \<Longrightarrow> effected c k w v \<Longrightarrow> untouched r old v"
  by (auto simp: untouched_def effected_def spares_def stop_sent_def split: option.splits if_splits)

lemma keeps_spared:
  assumes "oldName r \<noteq> candidateName r" "spares r c"
  shows "keeps (untouched r old) (docker c)"
proof (rule keeps_docker [OF steady_serving(1)])
  show "untouched r old w \<Longrightarrow> docker_engine (w_engine w)" for w by (simp add: untouched_def)
qed (use untouched_effected assms in blast)

lemma settled_removes:
  assumes "concluded r old w" "oldName r \<noteq> candidateName r" "effected (ContainerRemove (candidateName r)) k w v"
  shows "concluded r old v"
proof -
  have "reported w \<Longrightarrow> reported v" using assms(3) by (auto simp: reported_def effected_def intro: less_le_trans)
  moreover have "untouched r old w \<Longrightarrow> untouched r old v" by (rule untouched_effected [OF _ assms(2) _ assms(3)]) (auto simp: spares_def)
  moreover have "renewed r w \<Longrightarrow> renewed r v" using assms(3) by (auto simp: renewed_def effected_def split: option.splits if_splits)
  moreover have "switch_failed r w \<Longrightarrow> switch_failed r v" "stop_sent r w \<Longrightarrow> stop_sent r v" "w_rolling v = w_rolling w" "w_engine v = w_engine w"
    using assms(3) by (auto simp: switch_failed_def stop_sent_def effected_def)
  ultimately show ?thesis using assms(1) unfolding concluded_def by metis
qed

lemma triple_tolerating: "triple P m (\<lambda>_. Q) (\<lambda>_. Q) D \<Longrightarrow> triple P (tolerating m) (\<lambda>_. Q) (\<lambda>_. Q) D"
  unfolding tolerating_def
  by (rule triple_bnd [OF triple_attempt [where Q = "\<lambda>_. Q"]]) (auto intro!: triple_sum triple_ret triple_raise)

lemma keeps_remove:
  assumes "oldName r \<noteq> candidateName r"
  shows "keeps (untouched r old) (removeNamedContainers (candidateName r))" "keeps (concluded r old) (removeNamedContainers (candidateName r))"
proof -
  have "keeps (untouched r old) (docker (ContainerRemove (candidateName r)))" by (rule keeps_spared [OF assms]) (simp add: spares_def)
  then show "keeps (untouched r old) (removeNamedContainers (candidateName r))" unfolding removeNamedContainers_def by (rule triple_tolerating)
  have "keeps (concluded r old) (docker (ContainerRemove (candidateName r)))"
    by (rule keeps_docker [OF steady_serving(2) _ settled_removes [OF _ assms]]) (simp add: concluded_def)
  then show "keeps (concluded r old) (removeNamedContainers (candidateName r))" unfolding removeNamedContainers_def by (rule triple_tolerating)
qed

section \<open>The phases of a run\<close>

lemma settled_facts:
  "w_rolling w \<Longrightarrow> reported w \<Longrightarrow> docker_engine (w_engine w) \<Longrightarrow> renewed r w \<or> switch_failed r w \<Longrightarrow> concluded r old w"
  "\<not> w_rolling w \<Longrightarrow> stop_sent r w \<Longrightarrow> docker_engine (w_engine w) \<Longrightarrow> concluded r old w"
  by (auto simp: concluded_def)

text \<open>Rolling: the candidate is created beside the old container.\<close>

definition ready :: "deploymentRun \<Rightarrow> container \<Rightarrow> world \<Rightarrow> bool" where
  "ready r old w \<longleftrightarrow> untouched r old w \<and> w_rolling w \<and> standing_by r (w_boxes w)"

lemma steady_ready: "steady (ready r old)"
  using steady_serving(1,5,6) unfolding ready_def steady_def by blast

lemma effected_rolling: "effected c k w v \<Longrightarrow> w_rolling v = w_rolling w"
  by (simp add: effected_def)

lemma start_rolling:
  assumes "oldName r \<noteq> candidateName r"
  shows "triple (\<lambda>w. untouched r old w \<and> w_rolling w) (start_candidate r True (candidateName r) ref) (\<lambda>_. ready r old)
    (\<lambda>_. untouched r old) (untouched r old)"
proof -
  let ?A = "\<lambda>w. untouched r old w \<and> w_rolling w" and ?c = "\<lparr>c_image = ref, c_deployment = dp_Uuid (r_d r), c_up = False\<rparr>"
  have st: "steady ?A" by (intro steady_conj steady_serving)
  have spared: "\<And>w v k. untouched r old w \<Longrightarrow> effected c k w v \<Longrightarrow> untouched r old v" if "spares r c" for c
    using untouched_effected [OF _ assms that] by blast
  have eng: "\<And>w. untouched r old w \<Longrightarrow> docker_engine (w_engine w)" by (simp add: untouched_def)
  have und: "\<And>w v. untouched r old w \<Longrightarrow> undisturbed w v \<Longrightarrow> untouched r old v" using steady_serving(1) by (auto simp: steady_def)
  have "spares r (ContainerRemove (candidateName r))" by (simp add: spares_def)
  then have "keeps ?A (docker (ContainerRemove (candidateName r)))"
    by (intro keeps_docker st) (use spared eng effected_rolling in blast)+
  then have rm: "keeps ?A (removeNamedContainers (candidateName r))" unfolding removeNamedContainers_def by (rule triple_tolerating)
  have keep: "?A v" if "spares r c" "?A w" "effected c k w v" for c w v k using spared [OF that(1)] effected_rolling that by blast
  have cr: "triple ?A (docker (ContainerCreate (candidateName r) ?c)) (\<lambda>_ w. ?A w \<and> w_boxes w (candidateName r) = Some ?c) (\<lambda>_. ?A) ?A"
  proof (rule triple_docker_gain [OF st])
    have sp: "spares r (ContainerCreate (candidateName r) ?c)" by (simp add: spares_def)
    show "?A w \<Longrightarrow> effected (ContainerCreate (candidateName r) ?c) k w v \<Longrightarrow> ?A v" for w v k by (rule keep [OF sp])
    fix w v assume w: "?A w" "effected (ContainerCreate (candidateName r) ?c) Works w v"
      and free: "fst (docker_effect (ContainerCreate (candidateName r) ?c) (w_boxes w)) = None"
    then have "w_boxes v (candidateName r) = Some ?c" by (auto simp: effected_def split: option.splits)
    with keep [OF sp w] show "?A v \<and> w_boxes v (candidateName r) = Some ?c" by blast
  qed (use eng in blast)+
  have so: "triple (\<lambda>w. ?A w \<and> w_boxes w (candidateName r) = Some ?c) (docker (ContainerStart (candidateName r))) (\<lambda>_. ready r old) (\<lambda>_. ?A) ?A"
  proof (rule triple_docker_gain [OF st])
    have sp: "spares r (ContainerStart (candidateName r))" by (simp add: spares_def)
    show "?A w \<Longrightarrow> effected (ContainerStart (candidateName r)) k w v \<Longrightarrow> ?A v" for w v k by (rule keep [OF sp])
    fix w v assume w: "?A w \<and> w_boxes w (candidateName r) = Some ?c" "effected (ContainerStart (candidateName r)) Works w v"
    then have "standing_by r (w_boxes v)" by (simp add: effected_def standing_by_def)
    with keep [OF sp _ w(2)] w(1) show "ready r old v" unfolding ready_def by blast
  qed (use eng in blast)+
  have "triple ?A (seq (ret ()) (seq (removeNamedContainers (candidateName r)) (seq (docker (ContainerCreate (candidateName r) ?c))
      (seq (docker (ContainerStart (candidateName r))) no_command)))) (\<lambda>_. ready r old) (\<lambda>_. ?A) ?A"
    by (rule triple_bnd [OF keeps_ret], rule triple_bnd [OF rm], rule triple_bnd [OF cr], rule triple_bnd [OF so]) (rule triple_ret)
  then have "triple ?A (start_candidate r True (candidateName r) ref) (\<lambda>_. ready r old) (\<lambda>_. ?A) ?A"
    unfolding start_candidate_def if_True 
    by (rule triple_step [OF _ st steady_ready st]) (auto simp: ready_def)
  then show ?thesis by (rule triple_weaken) auto
qed

text \<open>A verdict rests on a report.\<close>

lemma inspect_reports: "triple (\<lambda>_. True) (ContainerInspect n) (\<lambda>i w. i_health i \<in> {None, Some ''healthy''} \<longrightarrow> reported w) (\<lambda>_ _. True) (\<lambda>_. True)"
  unfolding triple_def
proof (intro allI impI)
  fix w :: world
  let ?e = "w_fate w (w_time w)" and ?v = "\<lambda>e. others e (w\<lparr>w_time := w_time w + 1\<rparr>)"
  have v: "w_time (?v e) = w_time w + 1" "w_fate (?v e) = w_fate w" for e by (auto simp: others_def split: option.split)
  have "reported (?v ?e)" if "f_kind ?e = Works" "f_health ?e \<in> {None, Some ''healthy''}"
    unfolding reported_def v using that by (intro exI [of _ "w_time w"]) simp
  then show "case ContainerInspect n w of (Returns i, w') \<Rightarrow> i_health i \<in> {None, Some ''healthy''} \<longrightarrow> reported w' | (Raises e, w') \<Rightarrow> True | (Dead, w') \<Rightarrow> True"
    by (cases "f_kind ?e") (simp_all add: ContainerInspect_def call_def Let_def split: option.split)
qed

lemma await_reports: "triple (\<lambda>_. True) (await_healthy k n) (\<lambda>x w. x \<longrightarrow> reported w) (\<lambda>_ _. True) (\<lambda>_. True)"
proof (induction k)
  case 0
  then show ?case by (simp add: triple_ret)
next
  case (Suc k)
  let ?S = "\<lambda>res w. \<forall>i. res = Inr i \<longrightarrow> i_health i \<in> {None, Some ''healthy''} \<longrightarrow> reported w"
  have again: "triple (?S res) (await_healthy k n) (\<lambda>x w. x \<longrightarrow> reported w) (\<lambda>_ _. True) (\<lambda>_. True)" for res
    by (rule triple_weaken [OF Suc.IH]) auto
  have "triple (\<lambda>_. True) (attempt (ContainerInspect n)) ?S (\<lambda>_ _. True) (\<lambda>_. True)"
    by (rule triple_attempt, rule triple_weaken [OF inspect_reports]) auto
  then show ?case unfolding await_healthy.simps
    by (rule triple_bnd) (auto split: sum.split option.split intro!: Suc.IH again triple_ret)
qed

lemma healthcheck_reports:
  "triple (ready r old) (healthcheck_step r n True) (\<lambda>_ w. ready r old w \<and> reported w) (\<lambda>_. untouched r old) (untouched r old)"
proof -
  let ?Q = "\<lambda>w. ready r old w \<and> reported w"
  have "triple (\<lambda>w. True \<and> ready r old w) (await_healthy (r_polls r) n) (\<lambda>x w. (x \<longrightarrow> reported w) \<and> ready r old w) (\<lambda>_ w. True \<and> ready r old w) (\<lambda>w. True \<and> ready r old w)"
    by (rule triple_conj [OF await_reports quiet_keeps [OF quiet_await_healthy steady_ready]])
  then have "triple (ready r old) (awaitCandidate r n True) (\<lambda>x w. (x \<longrightarrow> reported w) \<and> ready r old w) (\<lambda>_. ready r old) (ready r old)"
    unfolding awaitCandidate_def by simp
  then have "triple (ready r old) (bnd (awaitCandidate r n True) (\<lambda>verdict. if verdict then no_command else raise ErrUnhealthy))
      (\<lambda>_. ?Q) (\<lambda>_. ready r old) (ready r old)"
    by (intro triple_bnd) (auto elim!: triple_weaken intro!: triple_if triple_ret triple_raise)
  then have "triple (ready r old) (healthcheck_step r n True) (\<lambda>_. ?Q) (\<lambda>_. ready r old) (ready r old)"
    unfolding healthcheck_step_def by (rule triple_step) (use steady_ready steady_conj [OF steady_ready steady_serving(4)] in auto)
  then show ?thesis by (rule triple_weaken) (auto simp: ready_def)
qed

text \<open>The switch.  Between its calls the candidate stands by.\<close>

definition switching :: "deploymentRun \<Rightarrow> world \<Rightarrow> bool" where
  "switching r w \<longleftrightarrow>
     docker_engine (w_engine w) \<and> w_rolling w \<and> reported w \<and> standing_by r (w_boxes w) \<and>
     (oldName r = namingIdentity r \<or> w_boxes w (namingIdentity r) = None)"

lemma switching_passing: "switching r w \<Longrightarrow> passing r old w"
  by (simp add: switching_def passing_def)

lemma steady_switching: "steady (switching r)"
  unfolding steady_def switching_def using undisturbed_reported by (auto simp: undisturbed_def)

lemma ready_switching: "ready r old w \<and> reported w \<Longrightarrow> switching r w"
  by (simp add: ready_def switching_def untouched_def)

lemma effected_reported: "effected c k w v \<Longrightarrow> reported w \<Longrightarrow> reported v"
  by (auto simp: effected_def reported_def intro: less_le_trans)

lemma switching_effected:
  assumes "switching r w" "effected c k w v" "oldName r \<noteq> candidateName r" "c \<in> {ContainerStop (oldName r), ContainerRemove (oldName r)}"
  shows "switching r v"
proof -
  have "w_boxes v (candidateName r) = w_boxes w (candidateName r)"
    "oldName r = namingIdentity r \<or> w_boxes v (namingIdentity r) = w_boxes w (namingIdentity r)"
    using assms(2-4) by (auto simp: effected_def split: option.splits if_splits)
  then show ?thesis
    using assms(1,2) effected_reported [OF assms(2)] by (auto simp: switching_def standing_by_def effected_def)
qed

lemma removed_old:
  assumes "switching r w" "effected (ContainerRemove (oldName r)) k w v" "oldName r \<noteq> candidateName r"
  shows "switching r v \<and> (w_boxes v (namingIdentity r) = None \<or> switch_failed r v)"
proof (cases "k = Works")
  case True
  then have "w_boxes v (oldName r) = None" using assms(2) by (auto simp: effected_def split: option.splits)
  moreover have "switching r v" using switching_effected [OF assms] by blast
  ultimately show ?thesis by (auto simp: switching_def)
next
  case False
  then have "switch_failed r v" using assms(2) by (auto simp: switch_failed_def effected_def)
  with switching_effected [OF assms] show ?thesis by blast
qed

lemma promote_safe:
  assumes "oldName r \<noteq> candidateName r"
  shows "triple (switching r) (promoteCandidate (oldName r) (candidateName r) (namingIdentity r))
    (\<lambda>_ w. docker_engine (w_engine w) \<and> w_rolling w \<and> reported w \<and> renewed r w) (\<lambda>_. concluded r old) (passing r old)"
proof -
  let ?N = "\<lambda>w. docker_engine (w_engine w) \<and> w_rolling w \<and> reported w \<and> renewed r w"
  let ?C = "\<lambda>w. switching r w \<and> (w_boxes w (namingIdentity r) = None \<or> switch_failed r w)"
  have eng: "switching r w \<Longrightarrow> docker_engine (w_engine w)" for w by (simp add: switching_def)
  have "keeps (switching r) (docker (ContainerStop (oldName r)))"
    by (rule keeps_docker [OF steady_switching eng]) (auto intro: switching_effected [OF _ _ assms])
  then have st: "triple (switching r) (quietly (docker (ContainerStop (oldName r)))) (\<lambda>_. switching r) E (passing r old)" for E
    by (rule triple_quietly [OF triple_weaken [OF _ _ _ _ switching_passing]])
  have "triple (switching r) (docker (ContainerRemove (oldName r))) (\<lambda>_. ?C) (\<lambda>_. ?C) (passing r old)"
  proof (rule triple_docker [OF eng])
    show "switching r w \<Longrightarrow> undisturbed w v \<Longrightarrow> passing r old v" for w v
      using steady_switching switching_passing unfolding steady_def by blast
    show "switching r w \<Longrightarrow> effected (ContainerRemove (oldName r)) k w v \<Longrightarrow> ?C v" for w v k by (rule removed_old [OF _ _ assms])
    show "switching r w \<Longrightarrow> effected (ContainerRemove (oldName r)) Works w v \<Longrightarrow>
      (case fst (docker_effect (ContainerRemove (oldName r)) (w_boxes w)) of None \<Rightarrow> ?C v | Some x \<Rightarrow> ?C v)" for w v
      using removed_old [OF _ _ assms] by (simp split: option.split)
  qed
  then have rm: "triple (switching r) (quietly (removeNamedContainers (oldName r))) (\<lambda>_. ?C) E (passing r old)" for E
    unfolding removeNamedContainers_def by (intro triple_quietly triple_tolerating)
  have rn: "triple ?C (docker (ContainerRename (candidateName r) (namingIdentity r))) (\<lambda>_. ?N) (\<lambda>_. concluded r old) (passing r old)"
  proof (rule triple_docker)
    show "?C w \<Longrightarrow> docker_engine (w_engine w)" for w using eng by blast
    show "?C w \<Longrightarrow> undisturbed w v \<Longrightarrow> passing r old v" for w v
      using steady_switching switching_passing unfolding steady_def by blast
    have keep: "docker_engine (w_engine v) \<and> w_rolling v \<and> reported v" if "?C w" "effected (ContainerRename (candidateName r) (namingIdentity r)) k w v" for w v k
      using that effected_reported [OF that(2)] by (auto simp: switching_def effected_def)
    show "concluded r old v" if "?C w" "effected (ContainerRename (candidateName r) (namingIdentity r)) k w v" "k \<noteq> Works" for w v k
      using keep [OF that(1,2)] that(2,3) by (intro settled_facts) (auto simp: switch_failed_def effected_def)
    fix w v assume w: "?C w" and e: "effected (ContainerRename (candidateName r) (namingIdentity r)) Works w v"
    note v = keep [OF w e]
    from w obtain c where c: "w_boxes w (candidateName r) = Some c" "c_deployment c = dp_Uuid (r_d r)" "c_up c"
      by (auto simp: switching_def standing_by_def)
    show "case fst (docker_effect (ContainerRename (candidateName r) (namingIdentity r)) (w_boxes w)) of None \<Rightarrow> ?N v | Some x \<Rightarrow> concluded r old v"
    proof (cases "w_boxes w (namingIdentity r) = None")
      case True
      then have "renewed r v" using c e by (auto simp: renewed_def effected_def)
      then show ?thesis using c(1) True v by simp
    next
      case False
      then have "switch_failed r w" using w by (elim conjE disjE) auto
      then have "switch_failed r v" using e by (auto simp: switch_failed_def effected_def)
      then have "concluded r old v" using v by (intro settled_facts) auto
      then show ?thesis using c(1) False by auto
    qed
  qed
  show ?thesis unfolding promoteCandidate_def by (intro triple_bnd [OF st] triple_bnd [OF rm] rn)
qed

lemma switch_safe:
  assumes "oldName r \<noteq> candidateName r"
  shows "triple (\<lambda>w. ready r old w \<and> reported w) (switch_phase r True)
    (\<lambda>_ w. docker_engine (w_engine w) \<and> w_rolling w \<and> reported w \<and> renewed r w) (\<lambda>_. concluded r old) (passing r old)"
proof -
  let ?B = "\<lambda>w. ready r old w \<and> reported w"
  let ?N = "\<lambda>w. docker_engine (w_engine w) \<and> w_rolling w \<and> reported w \<and> renewed r w"
  have B: "steady ?B" by (intro steady_conj steady_ready steady_serving)
  have "steady (\<lambda>w. docker_engine (w_engine w))" by (simp add: steady_def undisturbed_def)
  then have N: "steady ?N" by (intro steady_conj steady_serving)
  have bs: "?B w \<Longrightarrow> concluded r old w" for w by (auto simp: ready_def intro: untouched_settled)
  have "triple ?B (seq (promoteCandidate (oldName r) (candidateName r) (namingIdentity r)) no_command) (\<lambda>_. ?N) (\<lambda>_. concluded r old) (passing r old)"
    by (rule triple_bnd [OF triple_weaken [OF promote_safe [OF assms] ready_switching] triple_ret])
  then have "triple ?B (deploy_step ''switch'' (seq (promoteCandidate (oldName r) (candidateName r) (namingIdentity r)) no_command)) (\<lambda>_. ?N) (\<lambda>_. concluded r old) (passing r old)"
    by (rule triple_step [OF _ B N steady_serving(2) bs _ settled_passing]) (auto intro: settled_facts)
  then show ?thesis unfolding switch_phase_def if_True
    by (rule quiet_before [OF quiet_phases(3) B quiet_before [OF quiet_routing B]]) (blast intro: bs settled_passing)+
qed

text \<open>Without a health check the old container is stopped first.\<close>

definition replacing :: "deploymentRun \<Rightarrow> world \<Rightarrow> bool" where
  "replacing r w \<longleftrightarrow> docker_engine (w_engine w) \<and> \<not> w_rolling w \<and> stop_sent r w"

lemma replacing_settled: "replacing r w \<Longrightarrow> concluded r old w"
  by (simp add: replacing_def concluded_def)

lemma steady_replacing: "steady (replacing r)"
  by (simp add: steady_def undisturbed_def replacing_def stop_sent_def)

lemma keeps_replacing: "keeps (replacing r) (docker c)"
  by (rule keeps_docker [OF steady_replacing]) (auto simp: replacing_def effected_def stop_sent_def)

lemma start_stopping:
  "triple (\<lambda>w. untouched r old w \<and> \<not> w_rolling w) (start_candidate r False target ref) (\<lambda>_. replacing r) (\<lambda>_. concluded r old) (concluded r old)"
proof -
  let ?P = "\<lambda>w. untouched r old w \<and> \<not> w_rolling w"
  have P: "steady ?P" by (simp add: steady_def undisturbed_def untouched_def stop_sent_def)
  have "triple ?P (docker (ContainerStop (oldName r))) (\<lambda>_. replacing r) (\<lambda>_. replacing r) (concluded r old)"
  proof (rule triple_docker)
    show "?P w \<Longrightarrow> undisturbed w v \<Longrightarrow> concluded r old v" for w v using P untouched_settled unfolding steady_def by blast
    have r: "?P w \<Longrightarrow> effected (ContainerStop (oldName r)) k w v \<Longrightarrow> replacing r v" for w v k
      by (auto simp: replacing_def untouched_def effected_def stop_sent_def)
    then show "?P w \<Longrightarrow> effected (ContainerStop (oldName r)) k w v \<Longrightarrow> replacing r v" for w v k .
    show "?P w \<Longrightarrow> effected (ContainerStop (oldName r)) Works w v \<Longrightarrow>
      (case fst (docker_effect (ContainerStop (oldName r)) (w_boxes w)) of None \<Rightarrow> replacing r v | Some x \<Rightarrow> replacing r v)" for w v
      using r by (simp split: option.split)
  qed (simp add: untouched_def)
  then have s: "triple ?P (tolerating (docker (ContainerStop (oldName r)))) (\<lambda>_. replacing r) (\<lambda>_. concluded r old) (concluded r old)"
    by (rule triple_weaken [OF triple_tolerating]) (auto intro: replacing_settled)
  have w: "keeps (replacing r) m \<Longrightarrow> triple (replacing r) m (\<lambda>_. replacing r) (\<lambda>_. concluded r old) (concluded r old)" for m :: "'a act"
    by (erule triple_weaken) (auto intro: replacing_settled)
  have rm: "keeps (replacing r) (removeNamedContainers n)" for n
    unfolding removeNamedContainers_def by (intro triple_tolerating keeps_replacing)
  have "triple ?P (seq (seq (tolerating (docker (ContainerStop (oldName r)))) (removeNamedContainers (oldName r)))
      (seq (removeNamedContainers target) (seq (docker c) (seq (docker d) no_command)))) (\<lambda>_. replacing r) (\<lambda>_. concluded r old) (concluded r old)" for c d
    unfolding bnd_assoc by (intro triple_bnd [OF s] w keeps_bnd rm keeps_replacing keeps_ret)
  then show ?thesis unfolding start_candidate_def
    by simp (rule triple_step [OF _ P steady_replacing steady_serving(2)], auto intro: replacing_settled untouched_settled)
qed

section \<open>A whole attempt\<close>

lemma rolling_rest:
  assumes "oldName r \<noteq> candidateName r"
  shows "triple (\<lambda>w. untouched r old w \<and> w_rolling w)
    (seq (start_candidate r True (candidateName r) ref)
    (seq checkpoint
    (seq (setStatus r DeploymentStatusHealthchecking)
    (seq (healthcheck_step r (candidateName r) True)
    (seq (runHook ''post_deployment'' (r_PostDeploymentCommand r) (candidateName r))
    (seq checkpoint
    (seq (setStatus r DeploymentStatusSwitching)
    (seq (switch_phase r True)
    (seq (applyRoutingTo r []) (finish r))))))))))
    (\<lambda>_. concluded r old) (\<lambda>_. concluded r old) (passing r old)"
proof -
  let ?B = "\<lambda>w. ready r old w \<and> reported w"
  let ?N = "\<lambda>w. docker_engine (w_engine w) \<and> w_rolling w \<and> reported w \<and> renewed r w"
  have B: "steady ?B" by (intro steady_conj steady_ready steady_serving)
  have "steady (\<lambda>w. docker_engine (w_engine w))" by (simp add: steady_def undisturbed_def)
  then have N: "steady ?N" by (intro steady_conj steady_serving)
  have u: "untouched r old w \<Longrightarrow> concluded r old w" "untouched r old w \<Longrightarrow> passing r old w"
    "ready r old w \<Longrightarrow> concluded r old w" "ready r old w \<Longrightarrow> passing r old w" "?N w \<Longrightarrow> concluded r old w" "?N w \<Longrightarrow> passing r old w" for w
    by (auto simp: ready_def intro: untouched_settled settled_passing settled_facts)
  have f: "triple ?N (seq (applyRoutingTo r []) (finish r)) (\<lambda>_. concluded r old) (\<lambda>_. concluded r old) (passing r old)"
    by (rule triple_weaken [OF quiet_keeps [OF quiet_bnd [OF quiet_routing quiet_finish] N]]) (auto intro: u)
  have h: "triple ?B (seq (runHook ''post_deployment'' c n) (seq checkpoint (seq (setStatus r DeploymentStatusSwitching)
      (seq (switch_phase r True) (seq (applyRoutingTo r []) (finish r)))))) (\<lambda>_. concluded r old) (\<lambda>_. concluded r old) (passing r old)" for c n
    by (rule quiet_before [OF quiet_hook B], rule quiet_before [OF quiet_checkpoint B], rule quiet_before [OF quiet_setStatus B],
        rule triple_bnd [OF switch_safe [OF assms] f]) (blast intro: u)+
  have g: "triple (ready r old) (seq checkpoint (seq (setStatus r DeploymentStatusHealthchecking) (seq (healthcheck_step r (candidateName r) True)
      (seq (runHook ''post_deployment'' c n) (seq checkpoint (seq (setStatus r DeploymentStatusSwitching)
      (seq (switch_phase r True) (seq (applyRoutingTo r []) (finish r))))))))) (\<lambda>_. concluded r old) (\<lambda>_. concluded r old) (passing r old)" for c n
    by (rule quiet_before [OF quiet_checkpoint steady_ready], rule quiet_before [OF quiet_setStatus steady_ready],
        rule triple_bnd [OF triple_weaken [OF healthcheck_reports] h]) (blast intro: u)+
  show ?thesis by (rule triple_bnd [OF triple_weaken [OF start_rolling [OF assms]] g]) (blast intro: u)+
qed

lemma stopping_rest:
  "triple (\<lambda>w. untouched r old w \<and> \<not> w_rolling w)
    (seq (start_candidate r False n ref)
    (seq checkpoint
    (seq (setStatus r DeploymentStatusHealthchecking)
    (seq (healthcheck_step r n False)
    (seq (runHook ''post_deployment'' (r_PostDeploymentCommand r) n)
    (seq checkpoint
    (seq (setStatus r DeploymentStatusSwitching)
    (seq (switch_phase r False)
    (seq (applyRoutingTo r []) (finish r))))))))))
    (\<lambda>_. concluded r old) (\<lambda>_. concluded r old) (passing r old)"
proof -
  have "quiet (seq checkpoint (seq (setStatus r DeploymentStatusHealthchecking) (seq (healthcheck_step r n False)
      (seq (runHook ''post_deployment'' (r_PostDeploymentCommand r) n) (seq checkpoint (seq (setStatus r DeploymentStatusSwitching)
      (seq (switch_phase r False) (seq (applyRoutingTo r []) (finish r)))))))))"
    unfolding switch_phase_def by simp (intro quietness)
  note q = triple_weaken [OF quiet_keeps [OF this steady_replacing [of r]] _ replacing_settled [of r _ old] replacing_settled [of r _ old]
    settled_passing [OF replacing_settled [of r _ old]]]
  show ?thesis by (rule triple_bnd [OF triple_weaken [OF start_stopping _ _ _ settled_passing] q])
qed

lemma rest_safe:
  assumes "oldName r \<noteq> candidateName r"
  shows "triple (untouched r old) (deploy_rest r) (\<lambda>_. concluded r old) (\<lambda>_. concluded r old) (passing r old)"
proof -
  have U: "steady (untouched r old)" by (rule steady_serving)
  have u: "untouched r old w \<Longrightarrow> concluded r old w" "untouched r old w \<Longrightarrow> passing r old w" for w
    by (auto intro: untouched_settled settled_passing)
  have h: "triple (untouched r old) (here (\<lambda>w. ((), w\<lparr>w_rolling := b\<rparr>))) (\<lambda>_ w. untouched r old w \<and> w_rolling w = b) (\<lambda>_. concluded r old) (passing r old)" for b
    by (simp add: triple_def here_def untouched_def stop_sent_def)
  have m: "triple (untouched r old) (seq (here (\<lambda>w. ((), w\<lparr>w_rolling := rolling\<rparr>)))
    (let target = (if rolling then candidateName r else namingIdentity r) in
     seq (start_candidate r rolling target ref)
    (seq checkpoint
    (seq (setStatus r DeploymentStatusHealthchecking)
    (seq (healthcheck_step r target rolling)
    (seq (runHook ''post_deployment'' (r_PostDeploymentCommand r) target)
    (seq checkpoint
    (seq (setStatus r DeploymentStatusSwitching)
    (seq (switch_phase r rolling)
    (seq (applyRoutingTo r []) (finish r))))))))))) (\<lambda>_. concluded r old) (\<lambda>_. concluded r old) (passing r old)" for rolling ref
    by (rule triple_bnd [OF h], cases rolling) (use rolling_rest [OF assms] stopping_rest in \<open>simp_all add: Let_def\<close>)
  show ?thesis unfolding deploy_rest_def
    by (rule quiet_before [OF quiet_prepare U], rule quiet_before [OF quiet_hook U], rule quiet_before [OF quiet_checkpoint U],
        rule quiet_before [OF quiet_setStatus U], rule quiet_before [OF quiet_build U], rule quiet_before [OF quiet_checkpoint U],
        rule quiet_before [OF quiet_setStatus U], rule quiet_before [OF quiet_cases(1) [OF quiet_ret quiet_raise] U],
        rule quiet_before [OF quiet_ask U], rule quiet_before [OF quiet_phases(1) U m]) (blast intro: u)+
qed

lemma execute_safe:
  assumes "oldName r \<noteq> candidateName r" "dp_Status (r_d r) \<notin> {DeploymentStatusSwitching, DeploymentStatusFinishing}" "r_BuildPack r \<noteq> BuildPackCompose"
  shows "triple (untouched r old) (deploy_execute r) (\<lambda>_. concluded r old) (\<lambda>_. concluded r old) (passing r old)"
proof -
  have U: "steady (untouched r old)" by (rule steady_serving)
  have u: "untouched r old w \<Longrightarrow> concluded r old w" "untouched r old w \<Longrightarrow> passing r old w" for w
    by (auto intro: untouched_settled settled_passing)
  have "resume r = ret False" using assms(2) by (simp add: resume_def)
  then have "bnd (resume r) (\<lambda>resumed. if resumed then ret () else deploy_rest r) = deploy_rest r"
    by (simp add: bnd_def [abs_def] ret_def)
  with assms(3) rest_safe [OF assms(1)]
  have b: "triple (untouched r old) (if r_BuildPack r = BuildPackCompose then call (\<lambda>_ w. (r_composed r, w))
      else bnd (resume r) (\<lambda>resumed. if resumed then ret () else deploy_rest r)) (\<lambda>_. concluded r old) (\<lambda>_. concluded r old) (passing r old)" by simp
  have "triple (untouched r old) (raise ErrForkApproval) (\<lambda>_ :: unit. concluded r old) (\<lambda>_. concluded r old) (passing r old)" by (rule triple_raise) (rule u)
  moreover have "triple (untouched r old) (seq checkpoint (seq (setStatus r DeploymentStatusPreparing) (seq (connect r)
      (if r_BuildPack r = BuildPackCompose then call (\<lambda>_ w. (r_composed r, w))
      else bnd (resume r) (\<lambda>resumed. if resumed then ret () else deploy_rest r))))) (\<lambda>_. concluded r old) (\<lambda>_. concluded r old) (passing r old)"
    by (rule quiet_before [OF quiet_checkpoint U], rule quiet_before [OF quiet_setStatus U], rule quiet_before [OF quiet_connect U b]) (blast intro: u)+
  ultimately show ?thesis unfolding deploy_execute_def by (rule triple_if)
qed

lemma compensate_safe:
  assumes "oldName r \<noteq> candidateName r"
  shows "keeps (concluded r old) (compensate r)" "keeps (concluded r old) (markCancelled r)" "keeps (concluded r old) (markFailed r x)"
proof -
  note s = steady_serving(2) [of r old]
  have q: "quiet m \<Longrightarrow> keeps (concluded r old) m" for m :: "'a act" by (rule quiet_keeps [OF _ s])
  show c: "keeps (concluded r old) (compensate r)"
    unfolding compensate_def by (intro keeping keeps_remove [OF assms] q quiet_here) simp
  have q1: "keeps (concluded r old) (setStatus r t)" "keeps (concluded r old) (SetDeploymentError x)" "keeps (concluded r old) (perform (\<lambda>w. w\<lparr>w_observed := y\<rparr>))"
    "keeps (concluded r old) (perform (\<lambda>w. w\<lparr>w_preview := y\<rparr>))" "keeps (concluded r old) (ask f)" for t y f
    by (rule q, intro quietness; simp add: undisturbed_def)+
  show "keeps (concluded r old) (markCancelled r)" unfolding markCancelled_def by (intro keeping c q1)
  show "keeps (concluded r old) (markFailed r x)" unfolding markFailed_def by (intro keeping c q1)
qed

lemma attempt_safe:
  assumes "oldName r \<noteq> candidateName r" "dp_Status (r_d r) \<notin> {DeploymentStatusSwitching, DeploymentStatusFinishing}" "r_BuildPack r \<noteq> BuildPackCompose"
  shows "triple (untouched r old) (run_attempt r) (\<lambda>_. passing r old) (\<lambda>_. passing r old) (passing r old)"
proof -
  have a: "triple (untouched r old) (attempt (deploy_execute r)) (\<lambda>_. concluded r old) (\<lambda>_. passing r old) (passing r old)"
    using triple_attempt [where Q = "\<lambda>_. concluded r old"] execute_safe [OF assms] by blast
  have k: "keeps (concluded r old) (case res of
         Inr _ \<Rightarrow> ret DeploymentStatusSucceeded
       | Inl x \<Rightarrow>
           (case x of
              ErrStateChanged s \<Rightarrow> ret s
            | ErrCancelled \<Rightarrow> seq (markCancelled r) (ret DeploymentStatusCancelled)
            | _ \<Rightarrow> seq (markFailed r x) (ret DeploymentStatusFailed)))" for res :: "deploy_error + unit"
    by (auto split: sum.split deploy_error.split intro!: keeping compensate_safe [OF assms(1)])
  show ?thesis unfolding run_attempt_def
    by (rule triple_bnd [OF a triple_weaken [OF k _ settled_passing settled_passing settled_passing]])
qed



end
