(* ===== verification/DeployRouting.thy ===== *)
theory DeployRouting
  imports Deploy "HOL-Library.Multiset"
begin

text \<open>
  The routing file of an application under \<^const>\<open>Apply\<close>: written, verified, and put back when the proxy does not take it.
\<close>

section \<open>Revisions\<close>

lemma sort_key_greatest: "(\<And>y. y \<in> set xs \<Longrightarrow> f y < f x) \<Longrightarrow> sort_key f (xs @ [x]) = sort_key f xs @ [x]"
proof (rule properties_for_sort_key)
  assume g: "\<And>y. y \<in> set xs \<Longrightarrow> f y < f x"
  show "filter (\<lambda>y. f k = f y) (sort_key f xs @ [x]) = filter (\<lambda>y. f k = f y) (xs @ [x])" if "k \<in> set (sort_key f xs @ [x])" for k
    using sort_key_stable [of f "f k" xs] by (simp add: eq_commute)
  show "sorted (map f (sort_key f xs @ [x]))" using g by (auto simp: sorted_append less_imp_le)
qed simp

definition next_revision :: "ProxyConfigRevision list \<Rightarrow> int" where
  "next_revision revs = 1 + foldr (\<lambda>v m. max (pr_ID v) m) revs 0"

lemma next_revision_greatest: "v \<in> set revs \<Longrightarrow> pr_ID v < next_revision revs"
proof -
  have "v \<in> set revs \<Longrightarrow> pr_ID v \<le> foldr (\<lambda>v m. max (pr_ID v) m) revs (0 :: int)" by (induction revs) auto
  then show "v \<in> set revs \<Longrightarrow> pr_ID v < next_revision revs" by (simp add: next_revision_def)
qed

definition new_revision :: "string \<Rightarrow> string \<Rightarrow> ProxyRevisionStatus \<Rightarrow> ProxyConfigRevision list \<Rightarrow> ProxyConfigRevision" where
  "new_revision app content s revs = \<lparr>pr_ID = next_revision revs, pr_Scope = app, pr_Content = content, pr_Status = s\<rparr>"

lemma last_applied_alt:
  "last_applied app revs =
     (let vs = filter (\<lambda>v. pr_Scope v = app \<and> pr_Status v = ProxyRevisionStatusApplied) (sort_key pr_ID revs)
      in if vs = [] then None else Some (last vs))"
  unfolding last_applied_def Let_def by (simp split: list.split)

lemma last_applied_new:
  "last_applied app (revs @ [new_revision app content s revs]) =
     (if s = ProxyRevisionStatusApplied then Some (new_revision app content s revs) else last_applied app revs)"
proof -
  have "sort_key pr_ID (revs @ [new_revision app content s revs]) = sort_key pr_ID revs @ [new_revision app content s revs]"
    by (rule sort_key_greatest) (simp add: new_revision_def next_revision_greatest)
  then show ?thesis unfolding last_applied_alt by (simp add: new_revision_def)
qed

lemma last_applied_content:
  "map_option pr_Content (last_applied app (revs @ [new_revision app content ProxyRevisionStatusApplied revs])) = Some content"
  unfolding last_applied_new by (simp add: new_revision_def)

text \<open>The content the file has when the last applied revision is in place.\<close>

definition in_place :: "string \<Rightarrow> ProxyConfigRevision list \<Rightarrow> string" where
  "in_place app revs = (case last_applied app revs of None \<Rightarrow> [] | Some v \<Rightarrow> pr_Content v)"

section \<open>Applying\<close>

definition answered :: "world \<Rightarrow> bool" where
  "answered w \<longleftrightarrow> (\<forall>n. f_kind (w_fate w n) = Works)"

definition routed :: "ProxyConfigRevision list \<Rightarrow> string \<Rightarrow> world \<Rightarrow> bool" where
  "routed revs content w \<longleftrightarrow> answered w \<and> w_revisions w = revs \<and> w_file w = content"

lemma routed_call:
  assumes "\<And>e w. routed revs old w \<Longrightarrow> (case f e w of (Inr x, v) \<Rightarrow> Q x v | (Inl x, v) \<Rightarrow> E x v)"
  shows "triple (routed revs old) (call f) Q E (\<lambda>_. False)"
  unfolding triple_def
proof (intro allI impI)
  fix w :: world assume w: "routed revs old w"
  let ?e = "w_fate w (w_time w)"
  let ?w = "others ?e (w\<lparr>w_time := w_time w + 1\<rparr>)"
  have "routed revs old ?w" using w by (simp add: routed_def answered_def others_def split: option.split)
  moreover have "f_kind ?e = Works" using w by (simp add: routed_def answered_def)
  ultimately show "case call f w of (Returns x, w') \<Rightarrow> Q x w' | (Raises e, w') \<Rightarrow> E e w' | (Dead, w') \<Rightarrow> False"
    using assms [of ?w ?e] by (cases "f ?e ?w"; cases "fst (f ?e ?w)") (simp_all add: call_def Let_def)
qed

lemma routed_exec: "(\<And>w. routed revs old w \<Longrightarrow> Q (f w)) \<Longrightarrow> triple (routed revs old) (perform f) (\<lambda>_. Q) E (\<lambda>_. False)"
  unfolding perform_def by (rule routed_call) simp

lemma routed_create:
  "triple (routed revs old) (CreateProxyRevision app content)
     (\<lambda>i w. i = next_revision revs \<and> routed (revs @ [new_revision app content ProxyRevisionStatusGenerated revs]) old w) E (\<lambda>_. False)"
  unfolding CreateProxyRevision_def
  by (rule routed_call) (simp add: routed_def answered_def new_revision_def next_revision_def Let_def)

lemma routed_mark:
  "triple (routed (revs @ [new_revision app content s revs]) old) (mark_revision (next_revision revs) t)
     (\<lambda>_. routed (revs @ [new_revision app content t revs]) old) E (\<lambda>_. False)"
proof -
  have "map (\<lambda>v. if pr_ID v = next_revision revs then v\<lparr>pr_Status := t\<rparr> else v) revs = revs"
    by (rule map_idI) (use next_revision_greatest [of _ revs] in force)
  then show ?thesis unfolding mark_revision_def by (intro routed_exec) (simp add: routed_def answered_def new_revision_def)
qed

lemma routed_upload: "triple (routed revs old) (upload content) (\<lambda>_. routed revs content) E (\<lambda>_. False)"
proof -
  have "triple (routed revs old) (if content = [] then ret () else quietly (ask (\<lambda>_ _. ()))) (\<lambda>_. routed revs old) E (\<lambda>_. False)"
    unfolding ask_def by (auto intro!: triple_ret triple_quietly routed_call)
  then show ?thesis unfolding upload_def by (rule triple_bnd) (rule routed_exec, simp add: routed_def answered_def)
qed

lemma routed_verify:
  "triple (routed revs old) (verify k app content expect) (\<lambda>_. routed revs old) (\<lambda>x w. x = ErrNotExposed \<and> routed revs old w) (\<lambda>_. False)"
proof (induction k)
  case 0
  then show ?case by (simp add: triple_raise)
next
  case (Suc k)
  have "triple (routed revs old) (attempt (ask (\<lambda>e _. (f_code e, f_services e)))) (\<lambda>_. routed revs old) E (\<lambda>_. False)" for E
    unfolding ask_def by (intro triple_attempt routed_call) simp
  then show ?case unfolding verify.simps
    by (rule triple_bnd) (use Suc.IH in \<open>auto simp: Let_def split: sum.split prod.split intro!: triple_ret\<close>)
qed

lemma routed_previous:
  "triple (routed revs old) (attempt (GetLastAppliedProxyRevision app))
     (\<lambda>x w. (case x of Inl _ \<Rightarrow> last_applied app revs = None | Inr v \<Rightarrow> last_applied app revs = Some v) \<and> routed revs old w) E (\<lambda>_. False)"
  unfolding GetLastAppliedProxyRevision_def
  by (intro triple_attempt routed_call) (auto simp: routed_def split: option.split)

text \<open>The end of an application that failed: the file and the last applied revision are those of before.\<close>

definition restored :: "string \<Rightarrow> ProxyConfigRevision list \<Rightarrow> world \<Rightarrow> bool" where
  "restored app revs w \<longleftrightarrow> w_file w = in_place app revs \<and> last_applied app (w_revisions w) = last_applied app revs"

lemma routed_restored:
  "s \<noteq> ProxyRevisionStatusApplied \<Longrightarrow> routed (revs @ [new_revision app content s revs]) (in_place app revs) w \<Longrightarrow> restored app revs w"
  by (simp add: routed_def restored_def last_applied_new)

lemma routed_roll_back:
  "triple (routed (revs @ [new_revision app content ProxyRevisionStatusGenerated revs]) old) (roll_back app (next_revision revs) applyErr)
     Q (\<lambda>x w. x = applyErr \<and> restored app revs w) (\<lambda>_. False)"
proof -
  let ?E = "\<lambda>x w. x = applyErr \<and> restored app revs w"
  let ?revs = "\<lambda>s. revs @ [new_revision app content s revs]"
  have mark: "triple (routed (?revs s) old) (quietly (mark_revision (next_revision revs) t)) (\<lambda>_. routed (?revs t) old) ?E (\<lambda>_. False)" for s t old
    by (rule triple_quietly [OF routed_mark])
  have fin: "triple (routed (?revs s) (in_place app revs)) (raise applyErr) Q ?E (\<lambda>_. False)" if "s \<noteq> ProxyRevisionStatusApplied" for s
    by (rule triple_raise) (use routed_restored [OF that] in blast)
  have la: "last_applied app (?revs ProxyRevisionStatusFailed) = last_applied app revs" by (simp add: last_applied_new)
  have none: "triple (routed (?revs ProxyRevisionStatusFailed) old) (seq (quietly (upload [])) (raise applyErr)) Q ?E (\<lambda>_. False)"
    if "last_applied app revs = None"
    by (rule triple_bnd [OF triple_quietly [OF routed_upload]]) (use fin [of ProxyRevisionStatusFailed] that in \<open>simp add: in_place_def\<close>)
  have up: "triple (routed (?revs ProxyRevisionStatusFailed) old) (attempt (upload (pr_Content p)))
      (\<lambda>x w. x = Inr () \<and> routed (?revs ProxyRevisionStatusFailed) (pr_Content p) w) ?E (\<lambda>_. False)" for p
    by (rule triple_attempt, rule triple_weaken [OF routed_upload [where E = "\<lambda>_ _. False"]]) auto
  have some: "triple (routed (?revs ProxyRevisionStatusFailed) old) (bnd (attempt (upload (pr_Content p))) (\<lambda>back.
      case back of Inl _ \<Rightarrow> raise applyErr
      | Inr _ \<Rightarrow> seq (quietly (mark_revision (next_revision revs) ProxyRevisionStatusRolledBack)) (raise applyErr))) Q ?E (\<lambda>_. False)"
    if "last_applied app revs = Some p" for p
  proof (rule triple_bnd [OF up], rule triple_const)
    have "triple (routed (?revs ProxyRevisionStatusFailed) (pr_Content p))
        (seq (quietly (mark_revision (next_revision revs) ProxyRevisionStatusRolledBack)) (raise applyErr)) Q ?E (\<lambda>_. False)"
      by (rule triple_bnd [OF mark]) (use fin [of ProxyRevisionStatusRolledBack] that in \<open>simp add: in_place_def\<close>)
    then show "triple (routed (?revs ProxyRevisionStatusFailed) (pr_Content p)) (case b of Inl _ \<Rightarrow> raise applyErr
        | Inr _ \<Rightarrow> seq (quietly (mark_revision (next_revision revs) ProxyRevisionStatusRolledBack)) (raise applyErr)) Q ?E (\<lambda>_. False)"
      if "b = Inr ()" for b :: "deploy_error + unit" using that by simp
  qed
  show ?thesis unfolding roll_back_def
    by (rule triple_bnd [OF mark], rule triple_bnd [OF routed_previous], rule triple_sum; rule triple_const; simp add: la none some)
qed

lemma routed_Apply:
  "triple (routed revs old) (Apply polls app content expect)
     (\<lambda>_ w. w_file w = content \<and> map_option pr_Content (last_applied app (w_revisions w)) = Some content)
     (\<lambda>x w. x = ErrNotExposed \<and> restored app revs w) (\<lambda>_. False)"
proof -
  let ?E = "\<lambda>x w. x = ErrNotExposed \<and> restored app revs w"
  let ?Q = "\<lambda>_ :: unit. \<lambda>w. w_file w = content \<and> map_option pr_Content (last_applied app (w_revisions w)) = Some content"
  let ?revs = "\<lambda>s. revs @ [new_revision app content s revs]"
  have v: "triple (routed (?revs ProxyRevisionStatusGenerated) old) (attempt (seq (upload content) (verify polls app content expect)))
      (\<lambda>x w. (x = Inr () \<or> x = Inl ErrNotExposed) \<and> routed (?revs ProxyRevisionStatusGenerated) content w) ?E (\<lambda>_. False)"
    by (rule triple_attempt, rule triple_bnd [OF routed_upload triple_weaken [OF routed_verify]]) auto
  have good: "triple (routed (?revs ProxyRevisionStatusGenerated) content) (mark_revision (next_revision revs) ProxyRevisionStatusApplied)
      ?Q ?E (\<lambda>_. False)"
    by (rule triple_weaken [OF routed_mark [where E = "\<lambda>_ _. False"]])
      (use last_applied_content [of app revs content] in \<open>auto simp: routed_def\<close>)
  have bad: "triple (routed (?revs ProxyRevisionStatusGenerated) content) (roll_back app (next_revision revs) ErrNotExposed) ?Q ?E (\<lambda>_. False)"
    by (rule routed_roll_back)
  have "triple (\<lambda>w. i = next_revision revs \<and> routed (?revs ProxyRevisionStatusGenerated) old w)
      (bnd (attempt (seq (upload content) (verify polls app content expect))) (\<lambda>applied.
         case applied of Inr _ \<Rightarrow> mark_revision i ProxyRevisionStatusApplied | Inl applyErr \<Rightarrow> roll_back app i applyErr)) ?Q ?E (\<lambda>_. False)" for i
    by (rule triple_const, simp only:, rule triple_bnd [OF v], rule triple_const) (use good bad in auto)
  then show ?thesis unfolding Apply_def by (rule triple_bnd [OF routed_create])
qed


definition routed_world :: world where
  "routed_world = (sample_world (\<lambda>_. sample_fate))\<lparr>w_revisions := [\<lparr>pr_ID = 4, pr_Scope = ''app'', pr_Content = ''old'',
     pr_Status = ProxyRevisionStatusApplied\<rparr>], w_file := ''old''\<rparr>"


end
