(* ===== verification/DeployRetention.thy ===== *)
theory DeployRetention
  imports Deploy "HOL-Library.Multiset"
begin

text \<open>
  The artifacts of an application under \<^const>\<open>pruneOldImages\<close>: the newest are kept, the rows of the others go, and no image goes that a kept artifact
  refers to.
\<close>

definition retained :: "DeploymentArtifact list \<Rightarrow> string list \<Rightarrow> (int \<Rightarrow> bool) \<Rightarrow> world \<Rightarrow> bool" where
  "retained arts gone ok w \<longleftrightarrow>
     (\<forall>n. f_kind (w_fate w n) = Works) \<and> w_artifacts w = arts \<and> w_reclaimed w = gone \<and> succeeded w = ok"

lemma succeeded_same [simp]: "succeeded (w\<lparr>w_artifacts := x\<rparr>) = succeeded w" "succeeded (w\<lparr>w_reclaimed := y\<rparr>) = succeeded w"
  by (simp_all add: succeeded_def fun_eq_iff)

lemma retained_call:
  assumes "\<And>e w. retained arts gone ok w \<Longrightarrow> (case f e w of (Inr x, v) \<Rightarrow> Q x v | (Inl x, v) \<Rightarrow> E x v)"
  shows "triple (retained arts gone ok) (call f) Q E (\<lambda>_. False)"
  unfolding triple_def
proof (intro allI impI)
  fix w :: world assume w: "retained arts gone ok w"
  let ?e = "w_fate w (w_time w)"
  let ?w = "others ?e (w\<lparr>w_time := w_time w + 1\<rparr>)"
  have "succeeded ?w = succeeded w" by (auto simp: succeeded_def fun_eq_iff others_def split: option.split)
  then have "retained arts gone ok ?w" using w by (simp add: retained_def others_def split: option.split)
  moreover have "f_kind ?e = Works" using w by (simp add: retained_def)
  ultimately show "case call f w of (Returns x, w') \<Rightarrow> Q x w' | (Raises e, w') \<Rightarrow> E e w' | (Dead, w') \<Rightarrow> False"
    using assms [of ?w ?e] by (cases "f ?e ?w"; cases "fst (f ?e ?w)") (simp_all add: call_def Let_def)
qed

lemma retained_delete:
  "triple (retained arts gone ok) (quietly (DeleteDeploymentArtifact i)) (\<lambda>_. retained (filter (\<lambda>a. da_ID a \<noteq> i) arts) gone ok) E (\<lambda>_. False)"
  unfolding DeleteDeploymentArtifact_def perform_def
  by (intro triple_quietly retained_call) (auto simp: retained_def)

lemma retained_remove:
  "triple (retained arts gone ok) (if x \<noteq> [] then quietly (ImageRemove x) else ret ())
     (\<lambda>_. retained arts (gone @ filter (\<lambda>y. y \<noteq> []) [x]) ok) E (\<lambda>_. False)"
  unfolding ImageRemove_def perform_def
  by (intro triple_if triple_quietly retained_call triple_ret) (auto simp: retained_def)

lemma retained_reclaim:
  "triple (retained arts gone ok) (reclaim images)
     (\<lambda>_. retained (filter (\<lambda>a. da_ID a \<notin> pi_id ` set images) arts) (gone @ filter (\<lambda>y. y \<noteq> []) (map pi_ref images)) ok) E (\<lambda>_. False)"
proof (induction images arbitrary: arts gone)
  case Nil
  then show ?case by (simp add: triple_ret)
next
  case (Cons a images)
  have "triple (retained arts gone ok) (reclaim (a # images))
     (\<lambda>_. retained (filter (\<lambda>b. da_ID b \<notin> pi_id ` set images) (filter (\<lambda>b. da_ID b \<noteq> pi_id a) arts))
       ((gone @ filter (\<lambda>y. y \<noteq> []) [pi_ref a]) @ filter (\<lambda>y. y \<noteq> []) (map pi_ref images)) ok) E (\<lambda>_. False)"
    unfolding reclaim.simps by (rule triple_bnd [OF retained_remove triple_bnd [OF retained_delete Cons.IH]])
  moreover have "filter (\<lambda>b. da_ID b \<notin> pi_id ` set images) (filter (\<lambda>b. da_ID b \<noteq> pi_id a) arts) = filter (\<lambda>b. da_ID b \<notin> pi_id ` set (a # images)) arts"
    by (simp add: conj_commute)
  ultimately show ?case by (simp only: append_assoc filter_append [symmetric]) simp
qed

section \<open>The list of artifacts\<close>

definition listing :: "(int \<Rightarrow> bool) \<Rightarrow> DeploymentArtifact list \<Rightarrow> DeploymentArtifact list" where
  "listing ok arts = rev (sort_key da_ID (filter (\<lambda>a. ok (da_DeploymentID a) \<and> da_ImageTag a \<noteq> None) arts))"

lemma artifacts_listing: "artifacts_listed w = listing (succeeded w) (w_artifacts w)"
  by (simp add: artifacts_listed_def listing_def)

lemma listing_filter: "listing ok (filter p arts) = filter p (listing ok arts)"
  unfolding listing_def rev_filter [symmetric] filter_sort filter_filter by (simp add: conj_ac)

definition image_ref :: "DeploymentArtifact \<Rightarrow> string" where
  "image_ref a = da_ImageName a @ '':'' @ the (da_ImageTag a)"

lemma prunable_listing: "prunable (listing ok arts) = map (\<lambda>a. \<lparr>pi_id = da_ID a, pi_ref = image_ref a\<rparr>) (listing ok arts)"
proof -
  have "\<forall>a \<in> set xs. da_ImageTag a \<noteq> None \<Longrightarrow> prunable xs = map (\<lambda>a. \<lparr>pi_id = da_ID a, pi_ref = image_ref a\<rparr>) xs" for xs
    by (induction xs) (auto simp: prunable_def map_filter_simps image_ref_def)
  then show ?thesis by (simp add: listing_def)
qed

lemma filter_take_distinct:
  "distinct (map f xs) \<Longrightarrow> filter (\<lambda>a. f a \<notin> f ` set (drop n xs)) xs = take n xs"
proof -
  assume d: "distinct (map f xs)"
  then have "distinct (map f (take n xs @ drop n xs))" by simp
  then have "f ` set (take n xs) \<inter> f ` set (drop n xs) = {}" unfolding map_append distinct_append by simp
  then have "filter (\<lambda>a. f a \<notin> f ` set (drop n xs)) (take n xs) = take n xs" by (auto simp: filter_id_conv)
  moreover have "filter (\<lambda>a. f a \<notin> f ` set (drop n xs)) (drop n xs) = []" by (auto simp: filter_empty_conv)
  ultimately show ?thesis by (metis append_Nil2 append_take_drop_id filter_append)
qed

text \<open>What goes, for a list of artifacts.\<close>

lemma imagesToReclaim_facts:
  fixes arts :: "DeploymentArtifact list"
  assumes "keep > 0"
  defines "images \<equiv> imagesToReclaim (map (\<lambda>a. \<lparr>pi_id = da_ID a, pi_ref = image_ref a\<rparr>) arts) keep"
  shows "pi_id ` set images = da_ID ` set (drop (nat keep) arts)"
    and "filter (\<lambda>y. y \<noteq> []) (map pi_ref images) = filter (\<lambda>y. y \<notin> image_ref ` set (take (nat keep) arts)) (map image_ref (drop (nat keep) arts))"
proof -
  let ?p = "\<lambda>a. \<lparr>pi_id = da_ID a, pi_ref = image_ref a\<rparr>" and ?kept = "image_ref ` set (take (nat keep) arts)"
  have images: "images = map (\<lambda>a. if image_ref a \<in> ?kept then \<lparr>pi_id = da_ID a, pi_ref = []\<rparr> else ?p a) (drop (nat keep) arts)"
    using assms(1) unfolding images_def imagesToReclaim_def Let_def
    by (auto simp: drop_map take_map image_image)
  show "pi_id ` set images = da_ID ` set (drop (nat keep) arts)" unfolding images set_map image_image by (rule image_cong) auto
  have "image_ref a \<noteq> []" for a by (simp add: image_ref_def)
  then have "filter (\<lambda>y. y \<noteq> []) (map pi_ref (map (\<lambda>a. if image_ref a \<in> K then \<lparr>pi_id = da_ID a, pi_ref = []\<rparr> else ?p a) xs)) =
      filter (\<lambda>y. y \<notin> K) (map image_ref xs)" for K xs by (induction xs) auto
  then show "filter (\<lambda>y. y \<noteq> []) (map pi_ref images) = filter (\<lambda>y. y \<notin> ?kept) (map image_ref (drop (nat keep) arts))" unfolding images .
qed

section \<open>Retention\<close>

definition retention :: "deploymentRun \<Rightarrow> int" where
  "retention r = (if r_Retention r > 0 then r_Retention r else 5)"

lemma retained_prune:
  fixes ok :: "int \<Rightarrow> bool"
  assumes "\<not> reusesArtifact r" "distinct (map da_ID arts)"
  defines "n \<equiv> nat (retention r)" and "listed \<equiv> listing ok arts"
  shows "triple (\<lambda>w. w_rt w \<and> retained arts gone ok w) (pruneOldImages r)
    (\<lambda>_ w. artifacts_listed w = take n listed \<and>
      w_reclaimed w = gone @ filter (\<lambda>y. y \<notin> image_ref ` set (take n listed)) (map image_ref (drop n listed))) E (\<lambda>_. False)"
proof -
  let ?images = "imagesToReclaim (prunable listed) (retention r)"
  have p: "retention r > 0" by (simp add: retention_def)
  have "distinct (map da_ID listed)"
    unfolding listed_def listing_def using assms(2) by (simp add: rev_map [symmetric] distinct_map inj_on_def)
  note here = filter_take_distinct [OF this, of n]
  have ids: "pi_id ` set ?images = da_ID ` set (drop n listed)"
    and refs: "filter (\<lambda>y. y \<noteq> []) (map pi_ref ?images) = filter (\<lambda>y. y \<notin> image_ref ` set (take n listed)) (map image_ref (drop n listed))"
    unfolding listed_def prunable_listing n_def by (rule imagesToReclaim_facts [OF p])+
  have rc: "triple (retained arts gone ok) (reclaim ?images) (\<lambda>_ w. artifacts_listed w = take n listed \<and>
      w_reclaimed w = gone @ filter (\<lambda>y. y \<notin> image_ref ` set (take n listed)) (map image_ref (drop n listed))) E (\<lambda>_. False)"
    by (rule triple_weaken [OF retained_reclaim [of arts gone ok ?images E]])
      (auto simp: retained_def artifacts_listing listing_filter ids refs here listed_def [symmetric])
  have st: "triple (retained arts gone ok) (attempt (ask (\<lambda>_ _. r_Retention r))) (\<lambda>x w. x = Inr (r_Retention r) \<and> retained arts gone ok w) E (\<lambda>_. False)"
    and ls: "triple (retained arts gone ok) (attempt ListAppArtifactsOnServer) (\<lambda>x w. x = Inr listed \<and> retained arts gone ok w) E (\<lambda>_. False)"
    unfolding ListAppArtifactsOnServer_def ask_def
    by (intro triple_attempt retained_call; auto simp: retained_def artifacts_listing listed_def)+
  have rt: "triple (\<lambda>w. w_rt w \<and> retained arts gone ok w) (here (\<lambda>w. (w_rt w, w))) (\<lambda>x w. x \<and> retained arts gone ok w) E (\<lambda>_. False)"
    by (simp add: triple_def here_def)
  have "triple (retained arts gone ok) (bnd (attempt ListAppArtifactsOnServer) (\<lambda>rows.
      case rows of Inl _ \<Rightarrow> ret () | Inr arts \<Rightarrow> reclaim (imagesToReclaim (prunable arts) (retention r))))
    (\<lambda>_ w. artifacts_listed w = take n listed \<and>
      w_reclaimed w = gone @ filter (\<lambda>y. y \<notin> image_ref ` set (take n listed)) (map image_ref (drop n listed))) E (\<lambda>_. False)"
    by (rule triple_bnd [OF ls], rule triple_const) (simp add: rc)
  then show ?thesis unfolding pruneOldImages_def Let_def
    by (intro triple_bnd [OF rt] triple_const) (auto simp: assms(1) retention_def intro!: triple_bnd [OF st] triple_const)
qed

text \<open>When its calls work, the pass ends, the newest artifacts stay listed, as many as the retention says, and no image is removed that one of them
  refers to; every other image beyond them is.\<close>

theorem image_retention:
  assumes "\<forall>n. f_kind (w_fate w n) = Works" "w_rt w" "\<not> reusesArtifact r" "distinct (map da_ID (w_artifacts w))"
  shows "\<exists>v. pruneOldImages r w = (Returns (), v) \<and> artifacts_listed v = take (nat (retention r)) (artifacts_listed w) \<and>
    (\<exists>gone. w_reclaimed v = w_reclaimed w @ gone \<and>
      set gone = image_ref ` set (drop (nat (retention r)) (artifacts_listed w)) - image_ref ` set (artifacts_listed v))"
proof -
  have w: "w_rt w \<and> retained (w_artifacts w) (w_reclaimed w) (succeeded w) w" using assms(1,2) by (simp add: retained_def)
  obtain res v where v: "pruneOldImages r w = (res, v)" by (cases "pruneOldImages r w")
  note t = retained_prune [OF assms(3,4), of "w_reclaimed w" "succeeded w" "\<lambda>_ _. False", unfolded triple_def, rule_format, OF w]
  show ?thesis using t unfolding v artifacts_listing [symmetric] by (cases res) auto
qed

end
