(* ===== verification/DeployGaps.thy ===== *)
theory DeployGaps
  imports Deploy
begin

text \<open>
  Runs of the deployment job that end without the application, or with a verdict the containers do not bear out.  They show that the
  exceptions of the recovery and safety theorems are needed: each is a run of the sample application from a healthy start.
\<close>

definition verdict :: "world \<Rightarrow> (deploy_error, DeploymentStatus) ending" where
  "verdict w = fst (deploy_Execute sample_run w)"

definition aftermath :: "world \<Rightarrow> string list" where
  "aftermath w = up_names (snd (deploy_Execute sample_run w))"

text \<open>The worker dies between stopping and removing the old container: the next attempt finds the old container exited, gives up, and its
  compensation removes the healthy candidate.\<close>

theorem half_stopped_outage:
  "let w = after (sample_world (at_calls [(62, Dies)])) (at_calls []) in
   up_names w = [''app-next''] \<and> verdict w = Returns DeploymentStatusFailed \<and> aftermath w = []"
  by code_simp

text \<open>The engine refuses the renaming: the old container is gone, and the compensation removes the candidate.\<close>

theorem refused_rename_outage:
  "let w = sample_world (at_calls [(63, Refused)]) in verdict w = Returns DeploymentStatusFailed \<and> aftermath w = []"
  by code_simp

text \<open>A second crash: the attempt that was to resume has already written the status \<open>preparing\<close>, so the one after it starts over and removes the only
  container that runs.\<close>

theorem second_crash_outage:
  "let w1 = after (sample_world (at_calls [(63, Dies)])) (at_calls [(9, Dies)]); w2 = after w1 (at_calls [(43, Dies)]) in
   up_names w1 = [''app-next''] \<and> up_names w2 = [''app-next''] \<and> dp_Status (w_row w2) = DeploymentStatusPreparing \<and> aftermath w2 = []"
  by code_simp

text \<open>A failed attempt dies after its compensation: the next one takes the old container for the new one.\<close>

theorem false_success:
  "let w = after (sample_world (at_calls [(58, Refused), (61, Dies)])) (at_calls []) in
   verdict w = Returns DeploymentStatusSucceeded \<and>
   map_option c_deployment (w_boxes (snd (deploy_Execute sample_run w)) ''app'') = Some ''old''"
  by code_simp

text \<open>An adopted container: the worker dies when the candidate has its final name.  The next attempt looks for the old name, finds nothing there and reports a
  failure, although the switch was complete.\<close>

definition adopted_world :: "(nat \<Rightarrow> fate) \<Rightarrow> world" where
  "adopted_world fates = (sample_world fates)\<lparr>w_adoption := Some \<lparr>po_ContainerName = ''legacy'', po_ComposeProject = []\<rparr>,
     w_boxes := [''legacy'' \<mapsto> \<lparr>c_image = ''image:old'', c_deployment = [], c_up = True\<rparr>]\<rparr>"

theorem adopted_false_failure:
  "let w = after (adopted_world (at_calls [(64, Dies)])) (at_calls []) in
   up_names w = [''app''] \<and> verdict w = Returns DeploymentStatusFailed \<and> aftermath w = [''app'']"
  by code_simp

text \<open>Retention is applied before the deployment counts as succeeded, so its own artifact is not among the newest: with a retention of one, a deployment that
  goes back to an older tag asks the engine to remove the image it runs, and two artifacts stay.\<close>

definition retained_world :: world where
  "retained_world = (sample_world (at_calls []))\<lparr>w_artifacts :=
     [\<lparr>da_ID = 1, da_DeploymentID = 7, da_Kind = ArtifactKindLocalImage, da_ImageName = ''image'', da_ImageTag = Some ''tag'', da_ImageDigest = None\<rparr>,
      \<lparr>da_ID = 2, da_DeploymentID = 8, da_Kind = ArtifactKindLocalImage, da_ImageName = ''image'', da_ImageTag = Some ''later'', da_ImageDigest = None\<rparr>]\<rparr>"

theorem live_image_reclaimed:
  "let v = snd (deploy_Execute sample_run retained_world) in
   verdict retained_world = Returns DeploymentStatusSucceeded \<and> w_image v = (''image'', Some ''tag'') \<and> w_reclaimed v = [''image:tag''] \<and>
   map da_ID (artifacts_listed v) = [3, 2]"
  by code_simp

end
