(* ===== verification/Spec2Isabelle.thy ===== *)
theory Spec2Isabelle
  imports Permissions Netip SafeDial TokenAuth Sessions Totp Login RealIP QueueMachine AccessRoute ComposeGraph ComposePolicy ComposePlan
    ComposeMagic ComposeLoad Calendar Cron CronPass BackupSchedule TaskSchedule Idempotency Uptime Notify Events
    Effects Deploy DeployRecovery DeploySafety DeployRouting DeployRetention DeployGaps
begin

text \<open>
  A verification of the control plane of AkerDock, a self-hosted deployment platform written in Go.  The program
  is a server with an HTTP API, a durable job queue kept in PostgreSQL whose workers run deployments, a scheduler,
  and packages of pure rules (permissions, Compose files, routes, schedules) that both use.  The development
  models the rules and the state machines that the rest of the program trusts, from the sources under
  \<^verbatim>\<open>src/internal\<close>.  Names of definitions are the names of the Go functions and types where Isabelle allows it.

  \<^bold>\<open>Parts, theories and sources.\<close>

  \<^item> \<^verbatim>\<open>Prelude\<close>: the functions of Go's \<^verbatim>\<open>strings\<close>, \<^verbatim>\<open>sort\<close>, \<^verbatim>\<open>strconv\<close> and \<^verbatim>\<open>path\<close> packages
    the code calls, on byte strings, with the lemmas the components share (collection \<^verbatim>\<open>go_string\<close>).
  \<^item> \<^verbatim>\<open>Permissions\<close> (\<^verbatim>\<open>auth/permissions.go\<close>, \<^verbatim>\<open>auth/roles.go\<close>): the catalog, the closure under
    prerequisites, custom roles, system roles.  The closure is an instance of the locale
    \<^verbatim>\<open>closure_operator\<close>.  C1 and C2: the closure is the least one, and a custom role grants nothing its composer does
    not hold; \<^verbatim>\<open>system_roles_bounded\<close> nests the system roles.
  \<^item> \<^verbatim>\<open>Netip\<close> and \<^verbatim>\<open>SafeDial\<close> (\<^verbatim>\<open>safedial/safedial.go\<close>): addresses and prefixes as 32- and 128-bit words,
    and the guard against requests to internal addresses.  C4 and C5: the guard refuses exactly the non-public
    addresses, also those embedded in IPv6, and every dial or redirect it lets through is public.
  \<^item> \<^verbatim>\<open>TokenAuth\<close> (\<^verbatim>\<open>auth/auth.go\<close>, \<^verbatim>\<open>auth/middleware.go\<close> and the two token queries): bearer tokens, the cap
    by the authority of their creator, the middleware.  The locale \<^verbatim>\<open>token_store\<close> is interpreted on the queries.
    C6 and C7.  SHA-256 is a parameter.
  \<^item> \<^verbatim>\<open>Sessions\<close> (\<^verbatim>\<open>session/session.go\<close>, \<^verbatim>\<open>session/viewas.go\<close> and their queries): cookies resolved into identities, the
    double-submit check, switching teams, the inspection of roles.  C8 and C31: an identity acts with one live membership,
    inspection only narrows it, and a state-changing request must echo the token of its session.
  \<^item> \<^verbatim>\<open>Totp\<close> (\<^verbatim>\<open>totp/totp.go\<close>) and \<^verbatim>\<open>Login\<close> (\<^verbatim>\<open>session/session.go\<close>, \<^verbatim>\<open>session/totp.go\<close> and their
    queries): one-time codes on words, the password step, challenges, the redemption of codes, enrolment, and the runs of all
    these operations (\<^verbatim>\<open>auth_run\<close>).  C18: the code of an enrolled authenticator is accepted.  C10: what a login that
    opens a session implies and that its token works.  C14: a second factor is redeemed once.  C28: the lockout bounds
    the failed attempts of an account over time; \<^verbatim>\<open>parallel_guesses\<close> shows what requests at the same time escape it.
  \<^item> \<^verbatim>\<open>RealIP\<close> (\<^verbatim>\<open>httpapi/realip.go\<close>): the client behind trusted proxies, and what the allowlist of a token
    sees of it (C40).
  \<^item> \<^verbatim>\<open>JobStore\<close>, \<^verbatim>\<open>JobQueue\<close> and \<^verbatim>\<open>QueueMachine\<close> (\<^verbatim>\<open>store/jobs.sql.go\<close>, \<^verbatim>\<open>queue/\<close>): the jobs
    table with the queries as functions on lists of rows; enqueueing (locale \<^verbatim>\<open>enqueue_store\<close>, interpreted on
    the queries), retry delays on 64-bit words, step timelines, the processing of an attempt; and the interleaving of
    any number of workers, of the reaper and of clients as the step relation \<^verbatim>\<open>qstep\<close>.  C9, C11 to C13 and C16: bounds
    of the delays, the table invariant, exclusion by lock keys, at most the allowed attempts when no live lease is
    reaped, idempotent enqueueing, finished jobs stay finished and the order of service; \<^verbatim>\<open>late_outcome_exceeds_budget\<close> is the run in which a late
    outcome exceeds the attempts.
  \<^item> \<^verbatim>\<open>AccessRoute\<close> (\<^verbatim>\<open>accessroute/accessroute.go\<close>): public routes, their normal form and their rendering as proxy
    rules.  C17 and C20; \<^verbatim>\<open>MethodExpression_escape\<close> is a method that escapes its quotation.
  \<^item> \<^verbatim>\<open>ComposeGraph\<close>, \<^verbatim>\<open>ComposePolicy\<close>, \<^verbatim>\<open>ComposePlan\<close>, \<^verbatim>\<open>ComposeMagic\<close>, \<^verbatim>\<open>ComposeLoad\<close>
    (\<^verbatim>\<open>compose/\<close>): the start order (Kahn) and the cycle search (depth-first, with colors and a stack), the key
    policy, the plan, the generated variables, and the pipeline.  C21, C22, C24, C25, C27 and C33: the order is a topological order or none exists,
    both graph algorithms agree and do not depend on map order, what passes validation is confined and can be
    planned, plans are well formed, and a plan is only produced for a validated file; \<^verbatim>\<open>candidate_name_clash\<close> is a stack whose names collide.
  \<^item> \<^verbatim>\<open>Calendar\<close> and \<^verbatim>\<open>Cron\<close> (\<^verbatim>\<open>cronexpr/cronexpr.go\<close>): the Gregorian calendar and clock of the
    \<^verbatim>\<open>time\<close> package, with a location as the offset it has at each instant; the parser and the search for the next occurrence.  C34
    to C37: the parser returns on every text, printed expressions parse to their values, the search finds
    the first occurrence where the offset is fixed, and does not return where the clock is set back.
  \<^item> \<^verbatim>\<open>CronPass\<close>, \<^verbatim>\<open>BackupSchedule\<close> and \<^verbatim>\<open>TaskSchedule\<close> (\<^verbatim>\<open>scheduler/backups.go\<close>,
    \<^verbatim>\<open>scheduler/scheduledtasks.go\<close> and their queries): the passes that turn due occurrences into jobs.  The loop is the
    locale \<^verbatim>\<open>row_pass\<close>, whose laws say that a step leaves what the other rows see as it was; both passes interpret
    it.  Each statement is answered, never sent, or carried out with its answer lost.  C23, C26 and C30: a plan has one
    active backup at a time, due plans fire once, and a due occurrence of a task leaves exactly one row of history.
  \<^item> \<^verbatim>\<open>Idempotency\<close> (\<^verbatim>\<open>httpapi/idempotency.go\<close>, \<^verbatim>\<open>store/idempotency.sql.go\<close>): the middleware in two
    halves around the handler, over the locale \<^verbatim>\<open>idempotency_store\<close>, and their interleaving.  C38.
  \<^item> \<^verbatim>\<open>Uptime\<close> (\<^verbatim>\<open>uptime/uptime.go\<close>, \<^verbatim>\<open>scheduler/uptime.go\<close> and its queries): probes, the
    anti-flapping state machine on wrapping counters, passes of the prober.  C39: a refinement of a
    specification that only looks at the history of results.
  \<^item> \<^verbatim>\<open>Notify\<close> (\<^verbatim>\<open>notify/dispatcher.go\<close>, the severities of \<^verbatim>\<open>notify/notify.go\<close>, \<^verbatim>\<open>store/notifications.sql.go\<close>): the
    pass over the outbox, the noise rules and the digests, as runs with failing statements and events that commit in any order.  C32: the cursor
    passes no event silently, no rule is told twice, nothing holds a critical event back; \<^verbatim>\<open>late_commit_missed\<close> shows
    the events a pass does not see, \<^verbatim>\<open>digest_flushed\<close> what a digest does.
  \<^item> \<^verbatim>\<open>Events\<close> (\<^verbatim>\<open>events/events.go\<close>, \<^verbatim>\<open>handlers/events.go\<close>, the outbox queries of \<^verbatim>\<open>store/audit.sql.go\<close>): the publisher, the broker with its bounded
    channels, replay and the stream of a client, as runs (\<^verbatim>\<open>stream_run\<close>) among commits and other processes.  C3: a stream writes events of its
    team in order and none twice, and all of them when the run is orderly; \<^verbatim>\<open>full_channel_loses_event\<close> is a run that is not.
  \<^item> \<^verbatim>\<open>Effects\<close> and \<^verbatim>\<open>Deploy\<close> (\<^verbatim>\<open>jobs/deploymentrun.go\<close>, \<^verbatim>\<open>jobs/proxyapply.go\<close>, \<^verbatim>\<open>adoption/adoption.go\<close>, \<^verbatim>\<open>store/deployments.sql.go\<close>,
    \<^verbatim>\<open>store/proxy_revisions.sql.go\<close>): an attempt of the deployment job of an application, as a program over the deployment row, its steps, the containers, the routing file and
    the artifacts.  Every call works, is refused, loses its answer, or never happens because the worker dies; programs are related to
    these ends by triples.  The container engine is a parameter under the locale \<^verbatim>\<open>docker_engine\<close>, interpreted on the effects its documentation gives.
  \<^item> \<^verbatim>\<open>DeploySafety\<close>, C19: whatever the calls meet, the container that serves is untouched until a healthy candidate takes over, with the exceptions
    the theorem names.  \<^verbatim>\<open>DeployRecovery\<close>, C29: after any number of crashes an attempt that is left alone finishes the
    deployment.  \<^verbatim>\<open>DeployRouting\<close>, C15: a routing file is applied or rolled back.  \<^verbatim>\<open>DeployRetention\<close>: the newest artifacts are kept, and no image goes that one of them refers to.
    \<^verbatim>\<open>DeployGaps\<close>: the runs behind the exceptions, in which a crash, a refusal or a second crash leaves no container or a wrong verdict.

  \<^bold>\<open>How state and effects are modelled.\<close>  A table is a list of rows with the next identifier; a query is a function on it,
  errors are values of sums or options.  Maps of Go whose order the code does not fix are lists, and the order
  is shown not to matter where the code promises so (lemmas \<^verbatim>\<open>graph_deterministic\<close>, \<^verbatim>\<open>plan_order_independent\<close>).  Concurrency is a step relation with one step per
  transaction.  The clock and random numbers are arguments.  Where a component depends on what becomes of its statements, which of them fail is an argument too.

  \<^bold>\<open>Bounds and fuel.\<close>  \<^verbatim>\<open>findCycle\<close> recurses with fuel equal to the number of services, and C22 shows that it never
  runs out, since every nested call colors one more service.  The parser loop and the search of the cron package are partial functions, where
  \<^const>\<open>None\<close> is a call that does not return; C34 and C36 prove that they return.  Waits of the deployment job are
  recursions on a number of polls that is an argument of the run, since the code bounds them by time: a poll count of zero is a budget used up.  All other recursions are
  structural or have a termination proof.  Integers are words where they may wrap (delays, uptime counters,
  addresses) or integers with the wrap written out (the cron counter).

  \<^bold>\<open>Not modelled.\<close>  Generated code (the API types and the listing queries), the HTTP handlers; of the
  deployment jobs, the stacks of Compose files, cloning and building a repository, rendering of variables and of routing files, and the notices about previews; agents, terminals and tunnels (streams), clients of external services,
  telemetry, and the web console.  Third-party code is a parameter: the YAML parser and the Compose loader, the
  canonical printer, SHA-256 and HMAC, Argon2 with its text form, the key envelope, the JSON validator, sockets, providers of messages and random sources.  Texts of messages are left out,
  their codes are kept.

  \<^bold>\<open>Plan.\<close>  Next: the rate limiter, passwords in their text form, SCIM groups, the
  proxy configuration, webhook payloads, and the deployment of Compose stacks.
\<close>

end
